(* ===== verification/Prelude.thy ===== *)
theory Prelude
  imports Main "HOL-Library.Word" "HOL-Library.AList"
begin

section \<open>Prelude: shared types, Go library functions and automation\<close>

text \<open>
  What every other theory of the development uses.  A Go \<open>string\<close> is a sequence of
  bytes, so it is an Isabelle \<open>string\<close> (a list of 8-bit \<open>char\<close>s) and \<open>length\<close>
  counts bytes as Go's \<open>len\<close> does.  A Go call that returns only an \<open>error\<close> is an
  \<open>'e option\<close> (\<open>None\<close> is \<open>nil\<close>), a call that returns a value and an error is a
  sum \<open>'e + 'a\<close>.  The functions below are those of the Go standard library
  (\<open>strings\<close>, \<open>strconv\<close>) that several components call.
\<close>

named_theorems store_defs \<open>definitions of the durable stores\<close>
named_theorems fs_defs \<open>definitions of the file system operations\<close>
named_theorems session_defs \<open>definitions of the session state machine\<close>
named_theorems disp_defs \<open>definitions of the dispatcher's atomic sections\<close>

type_synonym bytes = string
type_synonym path = string

subsection \<open>Bytes\<close>

abbreviation newline :: char where "newline \<equiv> CHR 0x0A"
abbreviation carriage_return :: char where "carriage_return \<equiv> CHR 0x0D"
abbreviation tabulator :: char where "tabulator \<equiv> CHR 0x09"
abbreviation blank :: char where "blank \<equiv> CHR 0x20"
abbreviation byte_val :: "char \<Rightarrow> nat" where "byte_val c \<equiv> of_char c"

definition is_digit :: "char \<Rightarrow> bool" where
  "is_digit c \<longleftrightarrow> 48 \<le> byte_val c \<and> byte_val c \<le> 57"

definition is_lower_letter :: "char \<Rightarrow> bool" where
  "is_lower_letter c \<longleftrightarrow> 97 \<le> byte_val c \<and> byte_val c \<le> 122"

definition is_upper_letter :: "char \<Rightarrow> bool" where
  "is_upper_letter c \<longleftrightarrow> 65 \<le> byte_val c \<and> byte_val c \<le> 90"

definition ascii_lower_byte :: "char \<Rightarrow> char" where
  "ascii_lower_byte c = (if is_upper_letter c then char_of (byte_val c + 32) else c)"

definition ascii_lower :: "string \<Rightarrow> string" where
  "ascii_lower s = map ascii_lower_byte s"

subsection \<open>Joining and splitting\<close>

fun strings_join :: "string list \<Rightarrow> string \<Rightarrow> string" where
  "strings_join [] sep = []"
| "strings_join [x] sep = x"
| "strings_join (x # y # ys) sep = x @ sep @ strings_join (y # ys) sep"

fun split_on :: "char \<Rightarrow> string \<Rightarrow> string list" where
  "split_on c [] = [[]]"
| "split_on c (x # xs) =
     (if x = c then [] # split_on c xs
      else (case split_on c xs of [] \<Rightarrow> [[x]] | y # ys \<Rightarrow> (x # y) # ys))"

definition has_prefix :: "string \<Rightarrow> string \<Rightarrow> bool" where
  "has_prefix s p \<longleftrightarrow> take (length p) s = p"

definition has_suffix :: "string \<Rightarrow> string \<Rightarrow> bool" where
  "has_suffix s p \<longleftrightarrow> length p \<le> length s \<and> drop (length s - length p) s = p"

definition trim_prefix :: "string \<Rightarrow> string \<Rightarrow> string" where
  "trim_prefix s p = (if has_prefix s p then drop (length p) s else s)"

lemma split_on_not_Nil [simp]: "split_on c s \<noteq> []"
  by (induction s) (auto split: list.splits)

lemma split_on_no_sep: "p \<in> set (split_on c s) \<Longrightarrow> c \<notin> set p"
  by (induction s arbitrary: p) (auto split: if_splits list.splits)

lemma split_on_clean: "c \<notin> set s \<Longrightarrow> split_on c s = [s]"
  by (induction s) auto

lemma split_on_append_sep:
  "c \<notin> set x \<Longrightarrow> split_on c (x @ c # rest) = x # split_on c rest"
  by (induction x) auto

lemma split_join:
  "\<lbrakk>xs \<noteq> []; \<forall>x\<in>set xs. c \<notin> set x\<rbrakk> \<Longrightarrow> split_on c (strings_join xs [c]) = xs"
  by (induction xs "[c]" rule: strings_join.induct)
    (auto simp: split_on_clean split_on_append_sep)

lemma has_prefix_append [simp]: "has_prefix (p @ s) p"
  by (simp add: has_prefix_def)

lemma has_prefixE: "has_prefix s p \<Longrightarrow> (\<And>r. s = p @ r \<Longrightarrow> thesis) \<Longrightarrow> thesis"
  by (metis append_take_drop_id has_prefix_def)

subsection \<open>Decimal numbers (\<open>strconv.Itoa\<close>, \<open>strconv.FormatInt\<close>)\<close>

definition digit_byte :: "nat \<Rightarrow> char" where
  "digit_byte n = char_of (48 + n)"

fun dec_nat :: "nat \<Rightarrow> string" where
  "dec_nat n = (if n < 10 then [digit_byte n] else dec_nat (n div 10) @ [digit_byte (n mod 10)])"

declare dec_nat.simps [simp del]

definition dec_int :: "int \<Rightarrow> string" where
  "dec_int i = (if i < 0 then CHR ''-'' # dec_nat (nat (- i)) else dec_nat (nat i))"

text \<open>The value of a digit string, read from the left.\<close>

definition dec_value :: "string \<Rightarrow> nat" where
  "dec_value s = foldl (\<lambda>a c. 10 * a + (byte_val c - 48)) 0 s"

lemma byte_val_digit: "d < 10 \<Longrightarrow> byte_val (digit_byte d) = 48 + d"
  by (simp add: digit_byte_def)

lemma dec_nat_digits: "c \<in> set (dec_nat n) \<Longrightarrow> is_digit c"
proof (induction n rule: dec_nat.induct)
  case (1 n)
  then show ?case
    by (subst (asm) (2) dec_nat.simps)
       (auto simp: is_digit_def byte_val_digit split: if_splits)
qed

lemma dec_nat_not_Nil [simp]: "dec_nat n \<noteq> []"
  by (subst dec_nat.simps) simp

lemma dec_value_dec_nat [simp]: "dec_value (dec_nat n) = n"
proof (induction n rule: dec_nat.induct)
  case (1 n)
  then show ?case
    by (subst dec_nat.simps) (auto simp: dec_value_def byte_val_digit)
qed

lemma dec_nat_inject [simp]: "dec_nat m = dec_nat n \<longleftrightarrow> m = n"
  by (metis dec_value_dec_nat)

lemma not_is_digit: "\<not> is_digit (CHR '':'')" "\<not> is_digit (CHR ''-'')"
  by (simp_all add: is_digit_def)

lemma dec_nat_head_not_minus: "dec_nat n \<noteq> CHR ''-'' # s"
  by (metis dec_nat_digits list.set_intros(1) not_is_digit(2))

lemma dec_int_inject [simp]: "dec_int i = dec_int j \<longleftrightarrow> i = j"
  by (auto simp: dec_int_def dec_nat_head_not_minus dec_nat_head_not_minus[symmetric])

text \<open>
  A decimal number followed by a byte that is no digit is read back uniquely: this is what
  makes a length-prefixed key decodable.
\<close>

lemma takeWhile_digits_dec_nat:
  "\<not> is_digit c \<Longrightarrow> takeWhile is_digit (dec_nat n @ c # rest) = dec_nat n"
  by (subst takeWhile_append2) (auto dest: dec_nat_digits)

lemma dec_nat_sep_inject:
  assumes "\<not> is_digit c" and "dec_nat m @ c # r = dec_nat n @ c # s"
  shows "m = n \<and> r = s"
proof -
  from assms have "dec_nat m = dec_nat n"
    by (metis takeWhile_digits_dec_nat)
  with assms(2) show ?thesis by simp
qed

subsection \<open>Association lists as Go maps\<close>

text \<open>
  A Go map that is written to disk has to be enumerated, so it is kept as an association
  list with distinct keys.  Looking up is \<open>map_of\<close>, storing is \<open>AList.update\<close>,
  deleting is \<open>AList.delete\<close>.
\<close>

definition alist_wf :: "('k \<times> 'v) list \<Rightarrow> bool" where
  "alist_wf xs \<longleftrightarrow> distinct (map fst xs)"

lemma alist_wf_Nil [simp]: "alist_wf []"
  by (simp add: alist_wf_def)

lemma alist_wf_update [simp]: "alist_wf xs \<Longrightarrow> alist_wf (AList.update k v xs)"
  by (simp add: alist_wf_def distinct_update)

lemma alist_wf_delete [simp]: "alist_wf xs \<Longrightarrow> alist_wf (AList.delete k xs)"
  by (simp add: alist_wf_def distinct_delete)

lemma alist_wf_filter [simp]: "alist_wf xs \<Longrightarrow> alist_wf (filter P xs)"
  unfolding alist_wf_def by (induction xs) auto

lemma map_of_filter_wf:
  "alist_wf xs \<Longrightarrow>
   map_of (filter (\<lambda>(k, v). P v) xs) k = (case map_of xs k of Some v \<Rightarrow> if P v then Some v else None | None \<Rightarrow> None)"
  by (induction xs)
    (auto simp: alist_wf_def split: option.splits dest: map_of_SomeD intro: rev_image_eqI)

text \<open>Rebuilding a map from its own enumeration gives the same map.\<close>

lemma map_of_fold_update:
  "distinct (map fst xs) \<Longrightarrow>
   map_of (fold (\<lambda>(k, v). AList.update k v) xs m) = map_of m ++ map_of xs"
proof (induction xs arbitrary: m)
  case Nil
  then show ?case by simp
next
  case (Cons x xs)
  obtain k v where x: "x = (k, v)" by fastforce
  with Cons.prems have "map_of xs k = None"
    by (simp add: map_of_eq_None_iff)
  with Cons x show ?case
    by (auto simp: update_conv' fun_eq_iff map_add_def split: option.splits)
qed

lemma fold_update_wf: "alist_wf m \<Longrightarrow> alist_wf (fold (\<lambda>(k, v). AList.update k v) xs m)"
  by (induction xs arbitrary: m) (auto split: prod.splits)

subsection \<open>Results\<close>

lemma option_pair_cases:
  obtains (ok) "fst r = None" | (err) e where "fst r = Some e"
  by (cases "fst r") auto

subsection \<open>Counting in a list\<close>

lemma length_filter_update:
  "i < length xs \<Longrightarrow>
   length (filter P (xs[i := y])) + of_bool (P (xs ! i)) = length (filter P xs) + of_bool (P y)"
proof (induction xs arbitrary: i)
  case (Cons x xs)
  then show ?case
  proof (cases i)
    case (Suc j)
    with Cons.prems have "j < length xs" by simp
    from Cons.IH [OF this] show ?thesis by (simp add: Suc)
  qed auto
qed simp

lemma length_filter_update_same:
  "i < length xs \<Longrightarrow> P y = P (xs ! i) \<Longrightarrow> length (filter P (xs[i := y])) = length (filter P xs)"
  using length_filter_update [of i xs P y] by simp

lemma length_filter_pos: "i < length xs \<Longrightarrow> P (xs ! i) \<Longrightarrow> 0 < length (filter P xs)"
  by (metis filter_empty_conv length_greater_0_conv nth_mem)

lemma ball_set_update:
  "\<forall>x\<in>set xs. P x \<Longrightarrow> P y \<Longrightarrow> \<forall>x\<in>set (xs[i := y]). P x"
  using set_update_subset_insert [of xs i y] by blast

subsection \<open>Invariants of transition systems\<close>

text \<open>What every step preserves holds in every reachable state; an invariant may rest on others
  proved before.\<close>

locale transition_invariant =
  fixes step :: "'s \<Rightarrow> 's \<Rightarrow> bool" and I :: "'s \<Rightarrow> bool"
  assumes preserved: "step s s' \<Longrightarrow> I s \<Longrightarrow> I s'"
begin

lemma reachable: "step\<^sup>*\<^sup>* s t \<Longrightarrow> I s \<Longrightarrow> I t"
  by (induction rule: rtranclp_induct) (auto intro: preserved)

lemma throughout:
  assumes "step\<^sup>*\<^sup>* s t" and "I s" and "\<And>u. I u \<Longrightarrow> Q u"
  shows "Q t"
  using assms reachable by blast

end

end
