(* ===== verification/Utf8.thy ===== *)
theory Utf8
  imports Prelude
begin

section \<open>UTF-8 as Go decodes it\<close>

text \<open>
  Go's \<open>for range\<close> over a string, \<open>utf8.ValidString\<close> and \<open>encoding/json\<close> decode the
  same way: a well-formed sequence is one rune of 1 to 4 bytes, a byte that starts no
  well-formed sequence is one (invalid) rune of width 1.  The lemmas say how the decoding of
  a concatenation splits at an ASCII byte, which is what makes cutting text after a line
  feed or a space safe.
\<close>

subsection \<open>One rune\<close>

definition cont_in :: "nat \<Rightarrow> nat \<Rightarrow> string \<Rightarrow> bool" where
  "cont_in lo hi r = (case r of [] \<Rightarrow> False | b # _ \<Rightarrow> lo \<le> byte_val b \<and> byte_val b \<le> hi)"

abbreviation cont :: "string \<Rightarrow> bool" where "cont \<equiv> cont_in 128 191"

definition rune_size :: "string \<Rightarrow> nat" where
  "rune_size s = (case s of [] \<Rightarrow> 0 | c # r \<Rightarrow>
     (let b = byte_val c in
      if b < 128 then 1
      else if 194 \<le> b \<and> b \<le> 223 then (if cont r then 2 else 1)
      else if b = 224 then (if cont_in 160 191 r \<and> cont (tl r) then 3 else 1)
      else if b = 237 then (if cont_in 128 159 r \<and> cont (tl r) then 3 else 1)
      else if 225 \<le> b \<and> b \<le> 239 then (if cont r \<and> cont (tl r) then 3 else 1)
      else if b = 240 then (if cont_in 144 191 r \<and> cont (tl r) \<and> cont (tl (tl r)) then 4 else 1)
      else if 241 \<le> b \<and> b \<le> 243 then (if cont r \<and> cont (tl r) \<and> cont (tl (tl r)) then 4 else 1)
      else if b = 244 then (if cont_in 128 143 r \<and> cont (tl r) \<and> cont (tl (tl r)) then 4 else 1)
      else 1))"

definition is_ascii :: "char \<Rightarrow> bool" where
  "is_ascii c \<longleftrightarrow> byte_val c < 128"

text \<open>The rune at the front is valid unless it is a single non-ASCII byte.\<close>

definition rune_ok :: "string \<Rightarrow> bool" where
  "rune_ok s = (case s of [] \<Rightarrow> True | c # _ \<Rightarrow> is_ascii c \<or> 1 < rune_size s)"

lemma cont_in_Nil [simp]: "cont_in lo hi [] = False"
  by (simp add: cont_in_def)

lemma cont_in_Cons [simp]: "cont_in lo hi (b # r) \<longleftrightarrow> lo \<le> byte_val b \<and> byte_val b \<le> hi"
  by (simp add: cont_in_def)

lemma rune_size_Nil [simp]: "rune_size [] = 0"
  by (simp add: rune_size_def)

lemma rune_size_ascii [simp]: "is_ascii c \<Longrightarrow> rune_size (c # r) = 1"
  by (simp add: rune_size_def is_ascii_def)

lemma rune_size_pos [simp]: "s \<noteq> [] \<Longrightarrow> 0 < rune_size s"
  by (cases s) (auto simp: rune_size_def Let_def)

lemma cont_length: "cont_in lo hi r \<Longrightarrow> 1 \<le> length r"
  by (cases r) auto

lemma rune_size_le_length: "rune_size s \<le> length s"
proof (cases s)
  case (Cons c r)
  then show ?thesis
    by (cases r; cases "tl r"; cases "tl (tl r)") (auto simp: rune_size_def Let_def)
qed simp

text \<open>
  Decoding looks at continuation bytes only, so text that follows an ASCII byte (or the
  end) cannot change the rune before it.
\<close>

lemma cont_in_append_ascii:
  "is_ascii c \<Longrightarrow> 128 \<le> lo \<Longrightarrow> cont_in lo hi (r @ c # t) = cont_in lo hi r"
  by (cases r) (auto simp: is_ascii_def)

lemma cont_in_tl_append_ascii:
  "is_ascii c \<Longrightarrow> 128 \<le> lo \<Longrightarrow> r \<noteq> [] \<Longrightarrow> cont_in lo hi (tl (r @ c # t)) = cont_in lo hi (tl r)"
  by (cases r) (auto simp: cont_in_append_ascii)

lemma rune_size_append_ascii:
  assumes "is_ascii c" and "s \<noteq> []"
  shows "rune_size (s @ c # t) = rune_size s"
proof (cases s)
  case (Cons a r)
  consider "r = []" | b where "r = [b]" | b d u where "r = b # d # u"
    by (cases r; cases "tl r") auto
  then show ?thesis
    using assms(1) Cons
    by cases (auto simp: rune_size_def Let_def is_ascii_def cont_in_append_ascii)
qed (use assms in simp)

subsection \<open>The runes of a string\<close>

function runes :: "string \<Rightarrow> string list" where
  "runes s = (if s = [] then [] else take (rune_size s) s # runes (drop (rune_size s) s))"
  by pat_completeness auto
termination
  by (relation "measure length") (auto simp: Suc_le_eq)

declare runes.simps [simp del]

lemma runes_Nil [simp]: "runes [] = []"
  by (simp add: runes.simps)

lemma runes_Cons: "s \<noteq> [] \<Longrightarrow> runes s = take (rune_size s) s # runes (drop (rune_size s) s)"
  by (simp add: runes.simps)

text \<open>\<open>runeLen\<close> of \<open>content.go\<close>: the number of iterations of \<open>for range text\<close>.\<close>

definition rune_len :: "string \<Rightarrow> nat" where
  "rune_len text = length (runes text)"

lemma rune_len_Nil [simp]: "rune_len [] = 0"
  by (simp add: rune_len_def)

lemma rune_len_eq: "s \<noteq> [] \<Longrightarrow> rune_len s = Suc (rune_len (drop (rune_size s) s))"
  by (simp add: rune_len_def runes_Cons)

lemma concat_runes: "concat (runes s) = s"
  by (induction s rule: runes.induct) (subst runes.simps, simp)

lemma runes_nonempty: "x \<in> set (runes s) \<Longrightarrow> x \<noteq> []"
proof (induction s rule: runes.induct)
  case (1 s)
  show ?case
  proof (cases "s = []")
    case False
    from "1.prems" runes_Cons [OF False]
    have "x = take (rune_size s) s \<or> x \<in> set (runes (drop (rune_size s) s))" by simp
    moreover have "take (rune_size s) s \<noteq> []"
      using False rune_size_pos [OF False] by simp
    ultimately show ?thesis using "1.IH" [OF False] by (elim disjE) simp_all
  qed (use "1.prems" in simp)
qed

lemma rune_len_pos [simp]: "rune_len s = 0 \<longleftrightarrow> s = []"
  by (cases "s = []") (auto simp: rune_len_eq)

text \<open>Decoding a concatenation splits before an ASCII byte.\<close>

lemma runes_append_ascii:
  "is_ascii c \<Longrightarrow> runes (s @ c # t) = runes s @ runes (c # t)"
proof (induction s rule: runes.induct)
  case (1 s)
  show ?case
  proof (cases "s = []")
    case False
    then have sz: "rune_size (s @ c # t) = rune_size s"
      using "1.prems" by (simp add: rune_size_append_ascii)
    have le: "rune_size s \<le> length s" by (rule rune_size_le_length)
    have "runes (s @ c # t) = take (rune_size s) s # runes (drop (rune_size s) s @ c # t)"
      using False le by (simp add: runes_Cons sz)
    also have "\<dots> = runes s @ runes (c # t)"
      using 1 False by (simp add: runes_Cons)
    finally show ?thesis .
  qed simp
qed

lemma runes_ascii_Cons: "is_ascii c \<Longrightarrow> runes (c # t) = [c] # runes t"
  by (simp add: runes_Cons)

lemma rune_len_append_ascii:
  "is_ascii c \<Longrightarrow> rune_len (s @ c # t) = rune_len s + Suc (rune_len t)"
  by (simp add: rune_len_def runes_append_ascii runes_ascii_Cons)

subsection \<open>Parts of text\<close>

lemma cont_in_take: "cont_in lo hi (take k r) \<longleftrightarrow> 0 < k \<and> cont_in lo hi r"
  by (cases r; cases k) auto

lemma cont_in_tl_take:
  "cont_in lo hi (tl (take k r)) \<longleftrightarrow> 1 < k \<and> cont_in lo hi (tl r)"
  "cont_in lo hi (tl (tl (take k r))) \<longleftrightarrow> 2 < k \<and> cont_in lo hi (tl (tl r))"
  by (simp_all add: tl_take cont_in_take) linarith+

lemma rune_size_take:
  assumes "rune_size s \<le> k" and "0 < k"
  shows "rune_size (take k s) = rune_size s"
proof (cases s)
  case (Cons a r)
  obtain k' where k: "k = Suc k'" using assms(2) by (cases k) auto
  have le: "rune_size (a # r) \<le> Suc k'" using assms(1) Cons k by simp
  define b where "b = byte_val a"
  consider "b < 194" | "194 \<le> b" "b \<le> 223" | "b = 224" | "b = 237"
    | "225 \<le> b" "b \<le> 239" "b \<noteq> 237" | "b = 240" | "241 \<le> b" "b \<le> 243" | "b = 244" | "244 < b"
    by linarith
  then have "rune_size (a # take k' r) = rune_size (a # r)"
    using le
    by cases (simp_all add: rune_size_def Let_def cont_in_take cont_in_tl_take flip: b_def split: if_splits)
  then show ?thesis by (simp add: Cons k)
qed simp

lemma cont_weaken: "cont_in lo hi r \<Longrightarrow> 128 \<le> lo \<Longrightarrow> hi \<le> 191 \<Longrightarrow> cont r"
  by (cases r) auto

lemma long_rune:
  assumes "rune_size (c # r) \<noteq> 1"
  shows "128 \<le> byte_val c \<and> cont r \<and>
    (rune_size (c # r) = 2 \<or> rune_size (c # r) = 3 \<and> cont (tl r) \<or>
     rune_size (c # r) = 4 \<and> cont (tl r) \<and> cont (tl (tl r)))"
proof -
  note weaken = cont_weaken [of 160 191 r] cont_weaken [of 128 159 r] cont_weaken [of 144 191 r] cont_weaken [of 128 143 r]
  from assms weaken show ?thesis
    by (simp add: rune_size_def Let_def split: if_split_asm)
qed

lemma cont_byte: "cont r \<Longrightarrow> \<exists>b t. r = b # t \<and> 128 \<le> byte_val b"
  by (cases r) auto

lemma rune_high: "rune_size (c # r) = 1 \<or> (\<forall>x\<in>set (take (rune_size (c # r)) (c # r)). 128 \<le> byte_val x)"
  using long_rune [of c r] by (auto dest!: cont_byte simp: numeral_2_eq_2 numeral_3_eq_3)

lemma runes_high: "x \<in> set (runes s) \<Longrightarrow> length x = 1 \<or> (\<forall>c\<in>set x. 128 \<le> byte_val c)"
proof (induction s rule: runes.induct)
  case (1 s)
  show ?case
  proof (cases s)
    case (Cons c r)
    from "1.prems" runes_Cons [of s] Cons
    have "x = take (rune_size s) s \<or> x \<in> set (runes (drop (rune_size s) s))" by simp
    then show ?thesis using "1.IH" Cons rune_high [of c r] by (elim disjE) auto
  qed (use "1.prems" in simp)
qed

lemma if_chain:
  fixes x y :: nat
  assumes "(if c then x else y) \<noteq> 1" and "c \<Longrightarrow> x \<noteq> 1 \<Longrightarrow> x' = x" and "y \<noteq> 1 \<Longrightarrow> y' = y"
  shows "(if c then x' else y') = (if c then x else y)"
  using assms by auto

text \<open>A complete rune stays what it is, whatever follows.\<close>

lemma cont_in_append:
  "cont_in lo hi r \<Longrightarrow> cont_in lo hi (r @ t)"
  "cont_in lo hi (tl r) \<Longrightarrow> cont_in lo hi (tl (r @ t))"
  "cont_in lo hi (tl (tl r)) \<Longrightarrow> cont_in lo hi (tl (tl (r @ t)))"
  by (cases r; cases "tl r"; cases "tl (tl r)"; auto)+

lemma rune_size_append:
  assumes "rune_ok s" and "s \<noteq> []"
  shows "rune_size (s @ t) = rune_size s"
proof (cases s)
  case (Cons a r)
  define b where "b = byte_val a"
  show ?thesis
  proof (cases "is_ascii a")
    case False
    then have "rune_size (a # r) \<noteq> 1" using assms Cons by (simp add: rune_ok_def)
    then have "rune_size (a # r @ t) = rune_size (a # r)"
      unfolding rune_size_def Let_def list.case b_def [symmetric]
      by (elim if_chain) (auto simp: cont_in_append split: if_split_asm)
    then show ?thesis by (simp add: Cons)
  qed (simp add: Cons)
qed (use assms in simp)

subsection \<open>Valid text\<close>

fun all_runes_ok :: "nat \<Rightarrow> string \<Rightarrow> bool" where
  "all_runes_ok 0 s = (s = [])"
| "all_runes_ok (Suc n) s = (s = [] \<or> rune_ok s \<and> all_runes_ok n (drop (rune_size s) s))"

definition valid_utf8 :: "string \<Rightarrow> bool" where
  "valid_utf8 s = all_runes_ok (length s) s"

lemma rune_ok_append: "rune_ok s \<Longrightarrow> s \<noteq> [] \<Longrightarrow> rune_ok (s @ t)"
  using rune_size_append [of s t] by (cases s) (auto simp: rune_ok_def)

lemma all_runes_ok_append:
  "all_runes_ok n s \<Longrightarrow> all_runes_ok m t \<Longrightarrow> all_runes_ok (n + m) (s @ t)"
proof (induction n arbitrary: s)
  case (Suc n)
  show ?case
  proof (cases "s = []")
    case True
    have "all_runes_ok m t \<Longrightarrow> all_runes_ok (k + m) t" for k
    proof (induction m arbitrary: t)
      case 0
      then show ?case by (cases k) simp_all
    next
      case (Suc m)
      then show ?case by auto
    qed
    with True Suc.prems(2) show ?thesis by (metis append_Nil)
  next
    case False
    with Suc show ?thesis
      using rune_size_append [of s t] rune_ok_append [of s t] rune_size_le_length [of s] by simp
  qed
qed simp

lemma valid_utf8_append: "valid_utf8 s \<Longrightarrow> valid_utf8 t \<Longrightarrow> valid_utf8 (s @ t)"
  using all_runes_ok_append [of "length s" s "length t" t] by (simp add: valid_utf8_def)

text \<open>
  \<open>encoding/json\<close> writes a string with every invalid byte replaced by U+FFFD, and reads it
  back in that form.
\<close>

definition replacement_rune :: string where
  "replacement_rune = [CHR 0xEF, CHR 0xBF, CHR 0xBD]"

function coerce_utf8 :: "string \<Rightarrow> string" where
  "coerce_utf8 s =
     (if s = [] then []
      else (if rune_ok s then take (rune_size s) s else replacement_rune) @
           coerce_utf8 (drop (rune_size s) s))"
  by pat_completeness auto
termination
  by (relation "measure length") (auto simp: Suc_le_eq)

declare coerce_utf8.simps [simp del]

lemma coerce_utf8_Nil [simp]: "coerce_utf8 [] = []"
  by (simp add: coerce_utf8.simps)

lemma coerce_all_ok: "all_runes_ok n s \<Longrightarrow> coerce_utf8 s = s"
proof (induction n arbitrary: s)
  case (Suc n)
  then show ?case
    by (subst coerce_utf8.simps) auto
qed simp

lemma coerce_valid [simp]: "valid_utf8 s \<Longrightarrow> coerce_utf8 s = s"
  by (auto simp: valid_utf8_def intro: coerce_all_ok)

lemma all_runes_ok_ascii: "\<forall>c\<in>set s. is_ascii c \<Longrightarrow> all_runes_ok (length s) s"
  by (induction s) (auto simp: rune_ok_def)

lemma valid_utf8_ascii: "\<forall>c\<in>set s. is_ascii c \<Longrightarrow> valid_utf8 s"
  by (simp add: valid_utf8_def all_runes_ok_ascii)

lemma valid_utf8_Nil [simp]: "valid_utf8 []"
  by (simp add: valid_utf8_def)

subsection \<open>Lower case\<close>

text \<open>
  \<open>strings.ToLower\<close>, as far as the result is ASCII: besides the ASCII letters, U+0130 and U+212A
  have an ASCII letter as their lower case.  Other letters are left as they are; they are compared
  with ASCII words only.
\<close>

definition lower_rune :: "string \<Rightarrow> string" where
  "lower_rune r =
     (if r = [CHR 0xC4, CHR 0xB0] then ''i''
      else if r = [CHR 0xE2, CHR 0x84, CHR 0xAA] then ''k''
      else ascii_lower r)"

definition to_lower :: "string \<Rightarrow> string" where
  "to_lower s = concat (map lower_rune (runes s))"

end
