(* ===== verification/GoErrors.thy ===== *)
theory GoErrors
  imports Prelude
begin

section \<open>Errors as values\<close>

text \<open>
  Models \<open>errors.go\<close>, the \<open>APIError\<close> of \<open>internal/protocol/api.go\<close> and the error-tree
  functions of \<open>reauth.go\<close>.  A Go error of this program is a tree: sentinels
  (\<open>errors.New\<close> at package level), plain messages, API errors, \<open>fmt.Errorf\<close> with one
  \<open>%w\<close>, \<open>errors.Join\<close>, and \<open>*ReauthRequiredError\<close>.  A variable of type \<open>error\<close> is
  a \<open>goerr option\<close>, \<open>None\<close> being \<open>nil\<close>.  The lemmas give the algebra of
  \<open>errors.Is\<close> and show what \<open>normalizeSessionChangeError\<close> keeps and drops.
\<close>

subsection \<open>The error tree\<close>

datatype sentinel =
    NotLoggedIn | LoginInProgress | SessionChanged | ReauthRequired
  | AlreadyRunning | NoMessageHandler | InvalidatedCredential
  | ExplicitReauthentication | DurableReauthentication
  | CtxCanceled | ShortWrite

record api_error =
  Endpoint :: string
  Message :: string
  HTTPStatus :: int
  RetCode :: int
  ErrCode :: int

datatype goerr =
    Sentinel sentinel
  | Msg string
  | ApiErr api_error
  | Wrapf string goerr string
  | Joined "goerr list"
  | ReauthRequiredError "goerr option" "goerr option"

text \<open>\<open>APIError.Code\<close> and \<open>APIError.IsSessionExpired\<close>.\<close>

definition api_code :: "api_error \<Rightarrow> int" where
  "api_code e = (if ErrCode e \<noteq> 0 then ErrCode e else RetCode e)"

definition is_session_expired :: "api_error \<Rightarrow> bool" where
  "is_session_expired e \<longleftrightarrow> RetCode e = -14 \<or> ErrCode e = -14"

subsection \<open>\<open>errors.Is\<close>, \<open>errors.As\<close> and \<open>errors.Join\<close>\<close>

text \<open>
  \<open>errors.Is\<close> compares the error, asks its \<open>Is\<close> method and descends through \<open>Unwrap\<close>.
  \<open>ReauthRequiredError.Is\<close> matches \<open>ErrReauthRequired\<close>, its \<open>Unwrap\<close> is the cause
  only: the cleanup error is not reachable by \<open>errors.Is\<close>.
\<close>

fun errors_is :: "goerr \<Rightarrow> sentinel \<Rightarrow> bool" where
  "errors_is (Sentinel s) t = (s = t)"
| "errors_is (Msg m) t = False"
| "errors_is (ApiErr a) t = False"
| "errors_is (Wrapf p e q) t = errors_is e t"
| "errors_is (Joined es) t = list_ex (\<lambda>e. errors_is e t) es"
| "errors_is (ReauthRequiredError cause cleanup) t =
     (t = ReauthRequired \<or> (case cause of None \<Rightarrow> False | Some e \<Rightarrow> errors_is e t))"

fun first_some :: "'a option list \<Rightarrow> 'a option" where
  "first_some [] = None"
| "first_some (None # xs) = first_some xs"
| "first_some (Some x # xs) = Some x"

text \<open>\<open>errors.As(err, &apiErr)\<close>: the first \<open>*APIError\<close> in depth-first order.\<close>

fun errors_as_api :: "goerr \<Rightarrow> api_error option" where
  "errors_as_api (Sentinel s) = None"
| "errors_as_api (Msg m) = None"
| "errors_as_api (ApiErr a) = Some a"
| "errors_as_api (Wrapf p e q) = errors_as_api e"
| "errors_as_api (Joined es) = first_some (map errors_as_api es)"
| "errors_as_api (ReauthRequiredError cause cleanup) =
     (case cause of None \<Rightarrow> None | Some e \<Rightarrow> errors_as_api e)"

text \<open>\<open>errors.As(err, &reauthErr)\<close>: the cause and cleanup error of the first match.\<close>

fun errors_as_reauth :: "goerr \<Rightarrow> (goerr option \<times> goerr option) option" where
  "errors_as_reauth (Sentinel s) = None"
| "errors_as_reauth (Msg m) = None"
| "errors_as_reauth (ApiErr a) = None"
| "errors_as_reauth (Wrapf p e q) = errors_as_reauth e"
| "errors_as_reauth (Joined es) = first_some (map errors_as_reauth es)"
| "errors_as_reauth (ReauthRequiredError cause cleanup) = Some (cause, cleanup)"

fun somes :: "'a option list \<Rightarrow> 'a list" where
  "somes [] = []"
| "somes (None # xs) = somes xs"
| "somes (Some x # xs) = x # somes xs"

definition errors_join :: "goerr option list \<Rightarrow> goerr option" where
  "errors_join es = (case somes es of [] \<Rightarrow> None | e # es' \<Rightarrow> Some (Joined (e # es')))"

lemma set_somes [simp]: "set (somes es) = {e. Some e \<in> set es}"
  by (induction es rule: somes.induct) auto

lemma somes_eq_Nil [simp]: "somes es = [] \<longleftrightarrow> (\<forall>e\<in>set es. e = None)"
  by (induction es rule: somes.induct) auto

definition opt_is :: "goerr option \<Rightarrow> sentinel \<Rightarrow> bool" where
  "opt_is e t = (case e of None \<Rightarrow> False | Some x \<Rightarrow> errors_is x t)"

lemma opt_is_simps [simp]: "opt_is None t = False" "opt_is (Some e) t = errors_is e t"
  by (simp_all add: opt_is_def)

lemma errors_is_Joined [simp]: "errors_is (Joined es) t \<longleftrightarrow> (\<exists>e\<in>set es. errors_is e t)"
  by (simp add: list_ex_iff)

declare errors_is.simps(5) [simp del]

lemma errors_join_Nil [simp]: "errors_join [] = None"
  by (simp add: errors_join_def)

lemma errors_join_alt:
  "errors_join es = (if somes es = [] then None else Some (Joined (somes es)))"
  by (cases "somes es") (simp_all add: errors_join_def del: somes_eq_Nil)

lemma errors_join_eq_None [simp]: "errors_join es = None \<longleftrightarrow> (\<forall>e\<in>set es. e = None)"
  by (simp add: errors_join_alt)

lemma opt_is_errors_join [simp]: "opt_is (errors_join es) t \<longleftrightarrow> (\<exists>e\<in>set es. opt_is e t)"
  by (auto simp: errors_join_alt opt_is_def split: option.splits)

subsection \<open>Errors of operations that belong to a replaced session\<close>

text \<open>
  \<open>collectSessionChangeErrors\<close> flattens an error into the parts that say neither
  "session changed" nor "reauthentication required".
\<close>

fun collect_session_change_errors :: "goerr \<Rightarrow> goerr list" where
  "collect_session_change_errors (Sentinel s) =
     (if s = SessionChanged \<or> s = ReauthRequired then [] else [Sentinel s])"
| "collect_session_change_errors (Msg m) = [Msg m]"
| "collect_session_change_errors (ApiErr a) = [ApiErr a]"
| "collect_session_change_errors (ReauthRequiredError cause cleanup) =
     (case cause of None \<Rightarrow> [] | Some e \<Rightarrow> collect_session_change_errors e) @
     (case cleanup of None \<Rightarrow> [] | Some e \<Rightarrow> collect_session_change_errors e)"
| "collect_session_change_errors (Joined es) = concat (map collect_session_change_errors es)"
| "collect_session_change_errors (Wrapf p e q) =
     (if errors_is (Wrapf p e q) ReauthRequired \<or> errors_is (Wrapf p e q) SessionChanged
      then collect_session_change_errors e else [Wrapf p e q])"

text \<open>
  \<open>normalizeSessionChangeError\<close>, with the result of \<open>b.sessionError(generation)\<close> as an
  argument.
\<close>

definition normalize_session_change_error :: "goerr option \<Rightarrow> goerr option \<Rightarrow> goerr option" where
  "normalize_session_change_error session_err err =
     (if \<not> opt_is session_err SessionChanged then err
      else errors_join
        (map Some (case err of None \<Rightarrow> [] | Some e \<Rightarrow> collect_session_change_errors e) @
         [Some (Sentinel SessionChanged)]))"

text \<open>The leaves of an error tree, cleanup errors included.\<close>

fun err_leaves :: "goerr \<Rightarrow> goerr set" where
  "err_leaves (Sentinel s) = {Sentinel s}"
| "err_leaves (Msg m) = {Msg m}"
| "err_leaves (ApiErr a) = {ApiErr a}"
| "err_leaves (Wrapf p e q) = err_leaves e"
| "err_leaves (Joined es) = \<Union> (err_leaves ` set es)"
| "err_leaves (ReauthRequiredError cause cleanup) =
     (case cause of None \<Rightarrow> {} | Some e \<Rightarrow> err_leaves e) \<union>
     (case cleanup of None \<Rightarrow> {} | Some e \<Rightarrow> err_leaves e)"

abbreviation session_sentinels :: "goerr set" where
  "session_sentinels \<equiv> {Sentinel SessionChanged, Sentinel ReauthRequired}"

lemma collected_not_session:
  "r \<in> set (collect_session_change_errors e) \<Longrightarrow>
   \<not> errors_is r SessionChanged \<and> \<not> errors_is r ReauthRequired"
proof (induction e)
  case (ReauthRequiredError cause cleanup)
  then show ?case by (auto split: option.splits)
qed (auto split: if_splits)

lemma errors_is_leaf:
  "t \<noteq> ReauthRequired \<Longrightarrow> errors_is e t \<Longrightarrow> Sentinel t \<in> err_leaves e"
proof (induction e)
  case (ReauthRequiredError cause cleanup)
  then show ?case by (auto split: option.splits)
qed auto

text \<open>
  A wrapped error that matches neither sentinel may still hold one in the cleanup part of a
  \<open>ReauthRequiredError\<close> only if it contains a \<open>ReauthRequiredError\<close>, and then it would match
  \<open>ErrReauthRequired\<close>.  So the leaves of what is retained are exactly the other leaves.
\<close>

lemma not_session_leaves:
  "\<not> errors_is e SessionChanged \<Longrightarrow> \<not> errors_is e ReauthRequired \<Longrightarrow>
   err_leaves e \<inter> session_sentinels = {}"
proof (induction e)
  case (Joined es)
  then show ?case by fastforce
qed auto

lemma collected_leaves:
  "(\<Union>r\<in>set (collect_session_change_errors e). err_leaves r) = err_leaves e - session_sentinels"
proof (induction e)
  case (Wrapf p e q)
  then show ?case
    using not_session_leaves [of e] by auto
next
  case (Joined es)
  then show ?case by auto
next
  case (ReauthRequiredError cause cleanup)
  then show ?case by (cases cause; cases cleanup) auto
qed auto

lemma normalized_leaves:
  assumes "opt_is session_err SessionChanged"
  shows "\<exists>n. normalize_session_change_error session_err (Some e) = Some n \<and>
    err_leaves n = err_leaves e - session_sentinels \<union> {Sentinel SessionChanged}"
proof -
  let ?xs = "collect_session_change_errors e @ [Sentinel SessionChanged]"
  have "somes (map Some ys) = ys" for ys :: "goerr list"
    by (induction ys) auto
  from this [of ?xs] assms
  have "normalize_session_change_error session_err (Some e) = Some (Joined ?xs)"
    by (simp add: normalize_session_change_error_def errors_join_alt del: somes_eq_Nil)
  moreover have "err_leaves (Joined ?xs) = err_leaves e - session_sentinels \<union> {Sentinel SessionChanged}"
    by (simp add: collected_leaves [symmetric])
  ultimately show ?thesis by blast
qed

text \<open>C24: when the session of an operation has been replaced, the error that \<open>Run\<close> returns
  matches "session changed" and never "reauthentication required" (the current session is
  healthy), and it keeps every other part of the original error, cleanup errors included.\<close>

theorem normalize_session_change:
  assumes "opt_is session_err SessionChanged"
  shows "\<exists>n. normalize_session_change_error session_err (Some e) = Some n \<and>
    errors_is n SessionChanged \<and> \<not> errors_is n ReauthRequired \<and>
    err_leaves n = err_leaves e - session_sentinels \<union> {Sentinel SessionChanged}"
proof -
  let ?n = "normalize_session_change_error session_err (Some e)"
  from assms have "opt_is ?n SessionChanged" "\<not> opt_is ?n ReauthRequired"
    by (auto simp: normalize_session_change_error_def dest: collected_not_session)
  with normalized_leaves [OF assms, of e] show ?thesis by auto
qed

theorem normalize_session_change_witness:
  "\<exists>n. normalize_session_change_error (Some (Sentinel SessionChanged))
      (Some (Joined [ReauthRequiredError (Some (Msg ''a'')) (Some (Msg ''b'')), Msg ''c''])) = Some n \<and>
    errors_is n SessionChanged \<and> \<not> errors_is n ReauthRequired \<and>
    err_leaves n = {Msg ''a'', Msg ''b'', Msg ''c'', Sentinel SessionChanged}"
proof -
  have "opt_is (Some (Sentinel SessionChanged)) SessionChanged" by simp
  from normalize_session_change
      [OF this, of "Joined [ReauthRequiredError (Some (Msg ''a'')) (Some (Msg ''b'')), Msg ''c'']"]
  show ?thesis by (auto simp: insert_commute)
qed

end
