(* ===== verification/Json.thy ===== *)
theory Json
  imports Utf8 GoErrors
begin

section \<open>JSON documents and the fields the program reads\<close>

text \<open>
  The state files and the wire messages are JSON.  A document is a value of \<open>json\<close>; the
  functions below are \<open>encoding/json\<close> on the field types the program uses: a field is found
  by its name, exactly or up to case, the last occurrence wins, \<open>null\<close> leaves the
  field as it is, a value of another kind is an error.  (One corner is left out: of several members
  with one name, a \<open>null\<close> after another value resets a map, slice or pointer in Go; here it
  leaves them too.)  Number literals that are no integer
  are \<open>JReal\<close> (Go refuses them for an integer field).  Only the value is modelled, not the
  layout of the text.
\<close>

datatype json =
    JNull | JBool bool | JInt int | JReal string | JStr string
  | JArr "json list" | JObj "(string \<times> json) list"

definition json_type_error :: goerr where
  "json_type_error = Msg ''json: cannot unmarshal value into Go value''"

text \<open>
  The library folds the runes of a name.  The names of the program's fields are ASCII, and the only
  other runes that fold to one of their bytes are U+017F (to \<open>s\<close>) and U+212A (to \<open>k\<close>).
\<close>

fun fold_name :: "string \<Rightarrow> string" where
  "fold_name (a # b # c # r) =
     (if [a, b, c] = [CHR 0xE2, CHR 0x84, CHR 0xAA] then CHR ''k'' # fold_name r
      else if [a, b] = [CHR 0xC5, CHR 0xBF] then CHR ''s'' # fold_name (c # r)
      else ascii_lower_byte a # fold_name (b # c # r))"
| "fold_name [a, b] = (if [a, b] = [CHR 0xC5, CHR 0xBF] then ''s'' else [ascii_lower_byte a, ascii_lower_byte b])"
| "fold_name [a] = [ascii_lower_byte a]"
| "fold_name [] = []"

definition key_matches :: "string \<Rightarrow> string \<Rightarrow> bool" where
  "key_matches key field \<longleftrightarrow> key = field \<or> fold_name key = fold_name field"

definition field_values :: "string \<Rightarrow> (string \<times> json) list \<Rightarrow> json list" where
  "field_values field kvs = map snd (filter (\<lambda>(k, v). key_matches k field) kvs)"

fun dec_last :: "('a \<Rightarrow> json \<Rightarrow> goerr + 'a) \<Rightarrow> 'a \<Rightarrow> json list \<Rightarrow> goerr + 'a" where
  "dec_last dec d [] = Inr d"
| "dec_last dec d (v # vs) =
     (if v = JNull then dec_last dec d vs
      else (case dec d v of Inl e \<Rightarrow> Inl e | Inr x \<Rightarrow> dec_last dec x vs))"

text \<open>The decoder of a field is given the value so far: a map is extended, all else replaced.\<close>

definition dec_field :: "('a \<Rightarrow> json \<Rightarrow> goerr + 'a) \<Rightarrow> 'a \<Rightarrow> string \<Rightarrow> (string \<times> json) list \<Rightarrow> goerr + 'a" where
  "dec_field dec d field kvs = dec_last dec d (field_values field kvs)"

definition dec_str :: "json \<Rightarrow> goerr + string" where
  "dec_str v = (case v of JStr s \<Rightarrow> Inr s | _ \<Rightarrow> Inl json_type_error)"

definition dec_bool :: "json \<Rightarrow> goerr + bool" where
  "dec_bool v = (case v of JBool b \<Rightarrow> Inr b | _ \<Rightarrow> Inl json_type_error)"

text \<open>\<open>int\<close> and \<open>int64\<close> are 64 bits wide: a larger literal is an error.\<close>

definition in_int64 :: "int \<Rightarrow> bool" where
  "in_int64 i \<longleftrightarrow> - (2 ^ 63) \<le> i \<and> i < 2 ^ 63"

definition dec_int64 :: "json \<Rightarrow> goerr + int" where
  "dec_int64 v = (case v of JInt i \<Rightarrow> if in_int64 i then Inr i else Inl json_type_error
                          | _ \<Rightarrow> Inl json_type_error)"

text \<open>Elements of slices and maps: \<open>null\<close> is the zero value.\<close>

definition dec_elem :: "(json \<Rightarrow> goerr + 'a) \<Rightarrow> 'a \<Rightarrow> json \<Rightarrow> goerr + 'a" where
  "dec_elem dec d v = (if v = JNull then Inr d else dec v)"

fun dec_all :: "(json \<Rightarrow> goerr + 'a) \<Rightarrow> json list \<Rightarrow> goerr + 'a list" where
  "dec_all dec [] = Inr []"
| "dec_all dec (v # vs) =
     (case dec v of Inl e \<Rightarrow> Inl e
      | Inr x \<Rightarrow> (case dec_all dec vs of Inl e \<Rightarrow> Inl e | Inr xs \<Rightarrow> Inr (x # xs)))"

definition dec_list :: "(json \<Rightarrow> goerr + 'a) \<Rightarrow> 'a \<Rightarrow> json \<Rightarrow> goerr + 'a list" where
  "dec_list dec d v = (case v of JArr vs \<Rightarrow> dec_all (dec_elem dec d) vs | _ \<Rightarrow> Inl json_type_error)"

fun dec_pairs :: "(json \<Rightarrow> goerr + 'a) \<Rightarrow> (string \<times> json) list \<Rightarrow> (string \<times> 'a) list \<Rightarrow>
    goerr + (string \<times> 'a) list" where
  "dec_pairs dec [] acc = Inr acc"
| "dec_pairs dec ((k, v) # kvs) acc =
     (case dec v of Inl e \<Rightarrow> Inl e | Inr x \<Rightarrow> dec_pairs dec kvs (AList.update k x acc))"

text \<open>A map of type \<open>map[string]T\<close>; \<open>null\<close> sets it to the nil map, which reads as empty.\<close>

definition dec_map :: "(json \<Rightarrow> goerr + 'a) \<Rightarrow> 'a \<Rightarrow> (string \<times> 'a) list \<Rightarrow> json \<Rightarrow>
    goerr + (string \<times> 'a) list" where
  "dec_map dec d acc v = (case v of JObj kvs \<Rightarrow> dec_pairs (dec_elem dec d) kvs acc
                              | JNull \<Rightarrow> Inr []
                              | _ \<Rightarrow> Inl json_type_error)"

text \<open>A struct: an object, or \<open>null\<close> (which leaves every field at its zero value).\<close>

definition dec_struct :: "((string \<times> json) list \<Rightarrow> goerr + 'a) \<Rightarrow> json \<Rightarrow> goerr + 'a" where
  "dec_struct f v = (case v of JObj kvs \<Rightarrow> f kvs | JNull \<Rightarrow> f [] | _ \<Rightarrow> Inl json_type_error)"

subsection \<open>Encoding\<close>

definition enc_str :: "string \<Rightarrow> json" where
  "enc_str s = JStr (coerce_utf8 s)"

definition enc_map :: "('a \<Rightarrow> json) \<Rightarrow> (string \<times> 'a) list \<Rightarrow> json" where
  "enc_map enc m = JObj (map (\<lambda>(k, v). (coerce_utf8 k, enc v)) m)"

subsection \<open>Reading back what was written\<close>

lemma dec_str_enc [simp]: "valid_utf8 s \<Longrightarrow> dec_str (enc_str s) = Inr s"
  by (simp add: dec_str_def enc_str_def)

lemma dec_elem_enc_str [simp]: "valid_utf8 s \<Longrightarrow> dec_elem dec_str d (enc_str s) = Inr s"
  by (simp add: dec_elem_def enc_str_def dec_str_def)

lemma dec_elem_int64 [simp]: "in_int64 i \<Longrightarrow> dec_elem dec_int64 d (JInt i) = Inr i"
  by (simp add: dec_elem_def dec_int64_def)

lemma dec_pairs_enc:
  "(\<And>k v. (k, v) \<in> set m \<Longrightarrow> valid_utf8 k \<and> dec (enc v) = Inr v) \<Longrightarrow>
   dec_pairs dec (map (\<lambda>(k, v). (coerce_utf8 k, enc v)) m) acc =
   Inr (fold (\<lambda>(k, v). AList.update k v) m acc)"
proof (induction m arbitrary: acc)
  case (Cons x m)
  obtain k v where x: "x = (k, v)" by fastforce
  with Cons.prems [of k v] have "valid_utf8 k" "dec (enc v) = Inr v" by auto
  with Cons x show ?case by auto
qed simp

lemma dec_map_enc:
  assumes "\<And>k v. (k, v) \<in> set m \<Longrightarrow> valid_utf8 k \<and> dec_elem dec d (enc v) = Inr v"
  shows "dec_map dec d [] (enc_map enc m) = Inr (fold (\<lambda>(k, v). AList.update k v) m [])"
  using dec_pairs_enc [of m "dec_elem dec d" enc "[]"] assms
  by (simp add: dec_map_def enc_map_def)

lemma fold_update_fresh:
  "distinct (map fst xs) \<Longrightarrow> fst ` set xs \<inter> fst ` set acc = {} \<Longrightarrow>
   fold (\<lambda>(k, v). AList.update k v) xs acc = acc @ xs"
proof (induction xs arbitrary: acc)
  case (Cons x xs)
  obtain k v where x: "x = (k, v)" by fastforce
  with Cons.prems have "k \<notin> fst ` set acc" by auto
  then have "AList.update k v acc = acc @ [(k, v)]"
    by (induction acc) auto
  with Cons x show ?case by auto
qed simp

lemma fold_update_self: "alist_wf m \<Longrightarrow> fold (\<lambda>(k, v). AList.update k v) m [] = m"
  by (simp add: alist_wf_def fold_update_fresh)

lemma dec_map_enc_wf:
  assumes "alist_wf m"
    and "\<And>k v. (k, v) \<in> set m \<Longrightarrow> valid_utf8 k \<and> dec_elem dec d (enc v) = Inr v"
  shows "dec_map dec d [] (enc_map enc m) = Inr m"
  using dec_map_enc [OF assms(2)] assms(1) by (simp add: fold_update_self)

lemma dec_all_enc_str: "\<forall>s\<in>set ss. valid_utf8 s \<Longrightarrow> dec_all (dec_elem dec_str d) (map enc_str ss) = Inr ss"
  by (induction ss) auto

lemma dec_list_enc_str: "\<forall>s\<in>set ss. valid_utf8 s \<Longrightarrow> dec_list dec_str d (JArr (map enc_str ss)) = Inr ss"
  by (simp add: dec_list_def dec_all_enc_str)

end
