(* ===== verification/Persist.thy ===== *)
theory Persist
  imports Json
begin

section \<open>The file system and atomic persistence\<close>

text \<open>
  Models \<open>internal/persist/json.go\<close> and the calls of package \<open>os\<close> the stores make.  The
  world holds the files, every file system state passed through so far (\<open>hist\<close>, newest
  first: what a process that dies at that moment leaves behind), a counter of system calls
  and an arbitrary fault plan that says which call fails with which error.  A file is empty,
  unreadable as JSON (\<open>CBad\<close>), or a document.  Directories and permissions are not modelled.
\<close>

datatype fname = Named path | TempFor path nat

datatype content = CEmpty | CBad | CDoc json

datatype oscall =
    OsReadFile | OsMkdirAll | OsCreateTemp | OsChmod | OsWrite | OsShortWrite | OsSync
  | OsClose | OsRename | OsRemove | OsStat

type_synonym fsys = "fname \<Rightarrow> content option"

record world =
  files :: fsys
  hist :: "fsys list"
  tick :: nat
  fault :: "nat \<Rightarrow> oscall \<Rightarrow> goerr option"

abbreviation file_at :: "world \<Rightarrow> path \<Rightarrow> content option" where
  "file_at w p \<equiv> files w (Named p)"

text \<open>One system call: it may fail as the plan says.\<close>

definition os_call :: "oscall \<Rightarrow> world \<Rightarrow> goerr option \<times> world" where
  "os_call c w = (fault w (tick w) c, w\<lparr>tick := Suc (tick w)\<rparr>)"

text \<open>One change of the file system, visible as a whole.\<close>

definition set_files :: "fsys \<Rightarrow> world \<Rightarrow> world" where
  "set_files fs w = w\<lparr>files := fs, hist := fs # hist w\<rparr>"

datatype read_result = ReadErr goerr | ReadMissing | ReadData content

definition os_read_file :: "path \<Rightarrow> world \<Rightarrow> read_result \<times> world" where
  "os_read_file p w =
     (case os_call OsReadFile w of
        (Some e, w) \<Rightarrow> (ReadErr e, w)
      | (None, w) \<Rightarrow> (case file_at w p of None \<Rightarrow> ReadMissing | Some c \<Rightarrow> ReadData c, w))"

text \<open>\<open>os.Remove\<close>: a missing file is the error that \<open>os.IsNotExist\<close> recognises.\<close>

datatype remove_result = Removed | RemoveMissing | RemoveErr goerr

definition os_remove :: "fname \<Rightarrow> world \<Rightarrow> remove_result \<times> world" where
  "os_remove f w =
     (case os_call OsRemove w of
        (Some e, w) \<Rightarrow> (RemoveErr e, w)
      | (None, w) \<Rightarrow>
          if files w f = None then (RemoveMissing, w)
          else (Removed, set_files ((files w)(f := None)) w))"

text \<open>\<open>os.Stat\<close>, as far as \<open>err == nil || !os.IsNotExist(err)\<close> asks.\<close>

definition os_exists :: "path \<Rightarrow> world \<Rightarrow> bool \<times> world" where
  "os_exists p w =
     (case os_call OsStat w of
        (Some e, w) \<Rightarrow> (True, w)
      | (None, w) \<Rightarrow> (file_at w p \<noteq> None, w))"

text \<open>\<open>json.Unmarshal\<close> of a file's bytes, before the fields are read.\<close>

fun unmarshal :: "content \<Rightarrow> goerr + json" where
  "unmarshal CEmpty = Inl (Msg ''unexpected end of JSON input'')"
| "unmarshal CBad = Inl (Msg ''invalid character'')"
| "unmarshal (CDoc j) = Inr j"

subsection \<open>\<open>WriteJSONAtomic\<close>\<close>

text \<open>
  The part after the temporary file exists: its result, whether the file was closed, and the
  world.  A failed or short write leaves a part of the bytes in the temporary file.
\<close>

definition write_temp_and_rename :: "path \<Rightarrow> json \<Rightarrow> fname \<Rightarrow> world \<Rightarrow> goerr option \<times> bool \<times> world" where
  "write_temp_and_rename path v tmp w0 =
    (case os_call OsChmod w0 of (Some e, w) \<Rightarrow>
       (Some (Wrapf ''set temporary file permissions: '' e []), False, w)
     | (None, w) \<Rightarrow> (case os_call OsWrite w of (Some e, w) \<Rightarrow>
       (Some (Wrapf ''write temporary file: '' e []), False, set_files ((files w)(tmp \<mapsto> CBad)) w)
     | (None, w) \<Rightarrow> (case os_call OsShortWrite w of (Some _, w) \<Rightarrow>
       (Some (Wrapf ''write temporary file: '' (Sentinel ShortWrite) []), False,
        set_files ((files w)(tmp \<mapsto> CBad)) w)
     | (None, w) \<Rightarrow>
       (let w = set_files ((files w)(tmp \<mapsto> CDoc v)) w in
        case os_call OsSync w of (Some e, w) \<Rightarrow>
          (Some (Wrapf ''sync temporary file: '' e []), False, w)
        | (None, w) \<Rightarrow> (case os_call OsClose w of (Some e, w) \<Rightarrow>
          (Some (Wrapf ''close temporary file: '' e []), False, w)
        | (None, w) \<Rightarrow> (case os_call OsRename w of (Some e, w) \<Rightarrow>
          (Some (Wrapf ''replace destination file: '' e []), True, w)
        | (None, w) \<Rightarrow>
          (None, True, set_files ((files w)(Named path := files w tmp, tmp := None)) w)))))))"

text \<open>The deferred function: close if still open, remove the temporary file, ignore errors.\<close>

definition cleanup_temp :: "fname \<Rightarrow> bool \<Rightarrow> world \<Rightarrow> world" where
  "cleanup_temp tmp closed w =
     (let w = (if closed then w else snd (os_call OsClose w)) in snd (os_remove tmp w))"

text \<open>
  \<open>WriteJSONAtomic\<close>; \<open>doc\<close> is the outcome of \<open>json.MarshalIndent\<close>.  \<open>os.CreateTemp\<close>
  makes a file that did not exist: its name carries the number of the call.
\<close>

definition write_json_atomic :: "path \<Rightarrow> goerr + json \<Rightarrow> world \<Rightarrow> goerr option \<times> world" where
  "write_json_atomic path doc w0 =
    (case doc of Inl e \<Rightarrow> (Some (Wrapf ''marshal JSON: '' e []), w0)
     | Inr v \<Rightarrow> (case os_call OsMkdirAll w0 of (Some e, w) \<Rightarrow>
         (Some (Wrapf ''create parent directory: '' e []), w)
     | (None, w) \<Rightarrow> (let tmp = TempFor path (tick w) in
         case os_call OsCreateTemp w of (Some e, w) \<Rightarrow>
           (Some (Wrapf ''create temporary file: '' e []), w)
         | (None, w) \<Rightarrow>
           (let w = set_files ((files w)(tmp \<mapsto> CEmpty)) w;
                (r, closed, w) = write_temp_and_rename path v tmp w
            in (r, cleanup_temp tmp closed w)))))"

subsection \<open>Evolution of the file system\<close>

text \<open>
  \<open>evolves P w w'\<close>: \<open>w'\<close> comes from \<open>w\<close> by system calls, under the same fault plan, and
  every file system state on the way satisfies \<open>P\<close>.
\<close>

definition evolves :: "(fsys \<Rightarrow> bool) \<Rightarrow> world \<Rightarrow> world \<Rightarrow> bool" where
  "evolves P w w' \<longleftrightarrow> fault w' = fault w \<and> tick w \<le> tick w' \<and>
     (\<exists>new. hist w' = new @ hist w \<and> (\<forall>fs\<in>set new. P fs) \<and>
            files w' = (if new = [] then files w else hd new))"

lemma evolves_refl [simp]: "evolves P w w"
  by (auto simp: evolves_def)

lemma evolves_trans:
  assumes "evolves P u v" and "evolves P v w"
  shows "evolves P u w"
proof -
  from assms(1) obtain a where a: "hist v = a @ hist u" "\<forall>fs\<in>set a. P fs"
    "files v = (if a = [] then files u else hd a)" by (auto simp: evolves_def)
  from assms(2) obtain b where b: "hist w = b @ hist v" "\<forall>fs\<in>set b. P fs"
    "files w = (if b = [] then files v else hd b)" by (auto simp: evolves_def)
  have "hist w = (b @ a) @ hist u \<and> (\<forall>fs\<in>set (b @ a). P fs) \<and>
    files w = (if b @ a = [] then files u else hd (b @ a))"
    using a b by (auto simp: hd_append)
  with assms show ?thesis unfolding evolves_def by (metis le_trans)
qed

lemma evolves_mono: "evolves P w w' \<Longrightarrow> (\<And>fs. P fs \<Longrightarrow> Q fs) \<Longrightarrow> evolves Q w w'"
  unfolding evolves_def by blast

lemma evolves_files: "evolves P w w' \<Longrightarrow> P (files w) \<Longrightarrow> P (files w')"
  by (auto simp: evolves_def split: if_splits)

lemma evolves_fault: "evolves P w w' \<Longrightarrow> fault w' = fault w"
  by (simp add: evolves_def)

lemma evolves_same: "files w' = files w \<Longrightarrow> hist w' = hist w \<Longrightarrow> fault w' = fault w \<Longrightarrow>
   tick w \<le> tick w' \<Longrightarrow> evolves P w w'"
  unfolding evolves_def by (intro conjI exI [of _ "[]"]) simp_all

lemma os_callD: "os_call c w = (r, w') \<Longrightarrow> files w' = files w \<and> evolves P w w'"
  by (auto simp: os_call_def intro!: evolves_same)

lemma files_os_call [simp]: "files (snd (os_call c w)) = files w"
  by (simp add: os_call_def)

lemma evolves_os_call [simp]: "evolves P w (snd (os_call c w))"
  by (simp add: os_call_def evolves_same)

lemma evolves_set_files: "P fs \<Longrightarrow> evolves P w (set_files fs w)"
  unfolding evolves_def set_files_def by (intro conjI exI [of _ "[fs]"]) simp_all

lemma files_set_files [simp]: "files (set_files fs w) = fs"
  by (simp add: set_files_def)

subsection \<open>Atomicity of \<open>WriteJSONAtomic\<close>\<close>

text \<open>
  What a single step of the writer may do to the named files: nothing, or replace the target
  by the complete document.
\<close>

definition named_except :: "path \<Rightarrow> fsys \<Rightarrow> fsys \<Rightarrow> bool" where
  "named_except path old fs \<longleftrightarrow> (\<forall>q. q \<noteq> path \<longrightarrow> fs (Named q) = old (Named q))"

definition old_or_new :: "path \<Rightarrow> json \<Rightarrow> fsys \<Rightarrow> fsys \<Rightarrow> bool" where
  "old_or_new path v old fs \<longleftrightarrow>
     named_except path old fs \<and> (fs (Named path) = old (Named path) \<or> fs (Named path) = Some (CDoc v))"

definition unchanged_named :: "fsys \<Rightarrow> fsys \<Rightarrow> bool" where
  "unchanged_named old fs \<longleftrightarrow> (\<forall>q. fs (Named q) = old (Named q))"

text \<open>On success the target passes from old to new; on failure it is never touched.\<close>

definition write_ok :: "goerr option \<Rightarrow> path \<Rightarrow> json \<Rightarrow> fsys \<Rightarrow> fsys \<Rightarrow> bool" where
  "write_ok r path v old fs \<longleftrightarrow>
     (if r = None then old_or_new path v old fs else unchanged_named old fs)"

lemma old_or_new_refl [simp]: "old_or_new path v old old"
  by (simp add: old_or_new_def named_except_def)

lemma write_ok_old [simp]: "write_ok r path v old old"
  by (simp add: write_ok_def unchanged_named_def)

lemma write_ok_temp [simp]: "write_ok r path v old (fs(TempFor p n := c)) = write_ok r path v old fs"
  by (simp add: write_ok_def old_or_new_def named_except_def unchanged_named_def)

lemma write_ok_cong: "(r = None) = (r' = None) \<Longrightarrow> write_ok r = write_ok r'"
  by (simp add: write_ok_def fun_eq_iff)

lemma write_ok_old_or_new: "write_ok r path v old fs \<Longrightarrow> old_or_new path v old fs"
  by (auto simp: write_ok_def old_or_new_def named_except_def unchanged_named_def split: if_splits)

lemma old_or_new_temp [simp]: "old_or_new path v old (fs(TempFor p n := c)) = old_or_new path v old fs"
  by (simp add: old_or_new_def named_except_def)

lemma tick_set_files [simp]: "tick (set_files fs w) = tick w"
  by (simp add: set_files_def)

lemma fault_set_files [simp]: "fault (set_files fs w) = fault w"
  by (simp add: set_files_def)

lemma evolves_step_tick: "evolves P w u \<Longrightarrow> tick u \<le> n \<Longrightarrow> evolves P w (u\<lparr>tick := n\<rparr>)"
  by (rule evolves_trans, assumption, rule evolves_same) simp_all

lemma evolves_step_set: "evolves P w u \<Longrightarrow> P fs \<Longrightarrow> evolves P w (set_files fs u)"
  by (rule evolves_trans, assumption, rule evolves_set_files)

lemmas evolves_steps = evolves_refl evolves_step_tick evolves_step_set

lemma write_temp_spec:
  assumes "write_temp_and_rename path v (TempFor path n) w = (r, closed, w')"
  shows "evolves (write_ok r path v (files w)) w w'"
    and "file_at w' path = (if r = None then Some (CDoc v) else file_at w path)"
proof -
  show "evolves (write_ok r path v (files w)) w w'"
    using assms unfolding write_temp_and_rename_def os_call_def Let_def
    by (auto split: option.splits intro!: evolves_steps)
      (auto simp: write_ok_def old_or_new_def named_except_def)
  show "file_at w' path = (if r = None then Some (CDoc v) else file_at w path)"
    using assms unfolding write_temp_and_rename_def os_call_def Let_def
    by (auto split: option.splits)
qed

lemma cleanup_temp_spec:
  "evolves (write_ok r path v old) w u \<Longrightarrow> write_ok r path v old (files u) \<Longrightarrow>
   evolves (write_ok r path v old) w (cleanup_temp (TempFor path n) closed u)"
  unfolding cleanup_temp_def os_call_def os_remove_def Let_def
  by (auto split: option.splits intro!: evolves_steps)

lemma cleanup_temp_named [simp]:
  "file_at (cleanup_temp (TempFor path n) closed u) q = file_at u q"
  unfolding cleanup_temp_def os_call_def os_remove_def Let_def
  by (auto split: option.splits)

lemma write_json_atomic_spec:
  assumes "write_json_atomic path (Inr v) w = (r, w')"
  shows "evolves (write_ok r path v (files w)) w w'"
    and "file_at w' path = (if r = None then Some (CDoc v) else file_at w path)"
proof -
  let ?P = "write_ok r path v (files w)"
  let ?w1 = "w\<lparr>tick := Suc (tick w)\<rparr>"
  let ?w2 = "?w1\<lparr>tick := Suc (tick ?w1)\<rparr>"
  let ?tmp = "TempFor path (tick ?w1)"
  let ?w3 = "set_files ((files w)(?tmp \<mapsto> CEmpty)) ?w2"
  have w3: "evolves ?P w ?w3" and P3: "write_ok r path v (files ?w3) = ?P"
    by (auto simp: write_ok_def old_or_new_def named_except_def unchanged_named_def fun_eq_iff intro!: evolves_steps)
  have "files w' = files w \<and> evolves ?P w w' \<and> r \<noteq> None \<or>
    (\<exists>closed u. write_temp_and_rename path v ?tmp ?w3 = (r, closed, u) \<and> w' = cleanup_temp ?tmp closed u)"
    using assms unfolding write_json_atomic_def os_call_def Let_def
    by (auto split: option.splits prod.splits intro!: evolves_steps)
  then consider (early) "files w' = files w" "evolves ?P w w'" "r \<noteq> None"
    | (written) closed u where "write_temp_and_rename path v ?tmp ?w3 = (r, closed, u)"
      "w' = cleanup_temp ?tmp closed u"
    by blast
  then have "evolves ?P w w' \<and> file_at w' path = (if r = None then Some (CDoc v) else file_at w path)"
  proof cases
    case early
    then show ?thesis by auto
  next
    case written
    note spec = write_temp_spec [OF written(1)]
    from spec(1) w3 have ev: "evolves ?P w u"
      unfolding P3 by (blast intro: evolves_trans)
    then have "?P (files u)"
      by (rule evolves_files) simp
    with ev have "evolves ?P w w'"
      unfolding written(2) by (rule cleanup_temp_spec)
    moreover have "file_at w' path = (if r = None then Some (CDoc v) else file_at w path)"
      using spec(2) by (simp add: written(2))
    ultimately show ?thesis by blast
  qed
  then show "evolves ?P w w'"
    and "file_at w' path = (if r = None then Some (CDoc v) else file_at w path)"
    by blast+
qed

lemma write_json_atomic_other:
  assumes "write_json_atomic path (Inr v) w = (r, w')" and "q \<noteq> path"
  shows "file_at w' q = file_at w q"
proof -
  from write_json_atomic_spec(1) [OF assms(1)] have "write_ok r path v (files w) (files w')"
    by (rule evolves_files) simp
  with assms(2) show ?thesis
    by (auto simp: write_ok_def old_or_new_def named_except_def unchanged_named_def split: if_splits)
qed

lemma write_json_atomic_fault: "write_json_atomic path (Inr v) w = (r, w') \<Longrightarrow> fault w' = fault w"
  using write_json_atomic_spec(1) evolves_fault by blast

text \<open>With no fault the write succeeds.\<close>

definition no_faults :: "world \<Rightarrow> bool" where
  "no_faults w \<longleftrightarrow> fault w = (\<lambda>_ _. None)"

lemma write_json_atomic_ok: "no_faults w \<Longrightarrow> fst (write_json_atomic path (Inr v) w) = None"
  unfolding write_json_atomic_def write_temp_and_rename_def os_call_def no_faults_def set_files_def
  by (simp add: Let_def)

lemma no_faults_evolves: "evolves P w w' \<Longrightarrow> no_faults w' = no_faults w"
  by (simp add: no_faults_def evolves_def)

text \<open>C18: \<open>WriteJSONAtomic\<close> is atomic under faults and crashes.  Whatever system calls fail,
  every file system state a crash could leave behind holds, at the target, either the old
  content or the complete new document, and no other file is touched; the call reports
  success exactly when the new document is in place.\<close>

theorem write_json_atomic_crash_safe:
  assumes "write_json_atomic path (Inr v) w = (r, w')"
  shows "file_at w' path = (if r = None then Some (CDoc v) else file_at w path) \<and>
    (\<exists>new. hist w' = new @ hist w \<and>
      (\<forall>fs\<in>set new. fs (Named path) \<in> {file_at w path, Some (CDoc v)} \<and>
        (\<forall>q. q \<noteq> path \<longrightarrow> fs (Named q) = file_at w q)))"
proof -
  from write_json_atomic_spec(1) [OF assms] obtain new where
    "hist w' = new @ hist w" "\<forall>fs\<in>set new. old_or_new path v (files w) fs"
    unfolding evolves_def by (blast intro: write_ok_old_or_new)
  then have "\<exists>new. hist w' = new @ hist w \<and>
      (\<forall>fs\<in>set new. fs (Named path) \<in> {file_at w path, Some (CDoc v)} \<and>
        (\<forall>q. q \<noteq> path \<longrightarrow> fs (Named q) = file_at w q))"
    by (intro exI [of _ new]) (auto simp: old_or_new_def named_except_def)
  with write_json_atomic_spec(2) [OF assms] show ?thesis by blast
qed

definition empty_world :: "(nat \<Rightarrow> oscall \<Rightarrow> goerr option) \<Rightarrow> world" where
  "empty_world plan = \<lparr>files = (\<lambda>_. None), hist = [], tick = 0, fault = plan\<rparr>"

text \<open>An empty disk on which nothing fails.\<close>

definition quiet_world :: world where
  "quiet_world = empty_world (\<lambda>n c. None)"

lemma no_faults_quiet [simp]: "no_faults quiet_world"
  by (simp add: quiet_world_def no_faults_def empty_world_def)

theorem write_json_atomic_crash_safe_witness:
  "\<exists>w'. write_json_atomic ''cursor.json'' (Inr JNull) (empty_world (\<lambda>n c. None)) = (None, w') \<and>
     file_at w' ''cursor.json'' = Some (CDoc JNull)"
proof -
  obtain r w' where run: "write_json_atomic ''cursor.json'' (Inr JNull) (empty_world (\<lambda>n c. None)) = (r, w')"
    by fastforce
  have "r = None"
    using write_json_atomic_ok [of "empty_world (\<lambda>n c. None)" "''cursor.json''" JNull] run
    by (simp add: no_faults_def empty_world_def)
  with run write_json_atomic_crash_safe [OF run] show ?thesis by simp
qed

end
