(* ===== verification/Paths.thy ===== *)
theory Paths
  imports Prelude
begin

section \<open>Paths of the state files\<close>

text \<open>
  Models \<open>internal/store/path.go\<close>, the path helpers of \<open>reauth.go\<close> and the default paths of
  \<open>internal/auth/login.go\<close>, with \<open>path/filepath\<close> in its Unix form (lexical \<open>Clean\<close>,
  \<open>Join\<close>, \<open>Abs\<close>).  The process environment is a record: home directory and working
  directory as the operating system reports them, whether the build is for Windows (the only
  effect modelled is \<open>statePathKey\<close>'s lower-casing), and the SHA-256 fingerprint of
  \<open>crypto/sha256\<close> as an arbitrary function.  Main result: cleaning is idempotent, so a
  canonical path is its own canonical form and \<open>canonicalContextPaths\<close> has no duplicates.
\<close>

record os_env =
  UserHomeDir :: "string option"
  Getwd :: "string option"
  Windows :: bool
  Sha256Hex :: "string \<Rightarrow> string"

subsection \<open>\<open>path/filepath\<close>\<close>

abbreviation slash :: char where "slash \<equiv> CHR ''/''"

text \<open>The components kept so far, last first, and the components still to read.\<close>

fun clean_comps :: "bool \<Rightarrow> string list \<Rightarrow> string list \<Rightarrow> string list" where
  "clean_comps rooted out [] = rev out"
| "clean_comps rooted out (c # cs) =
     (if c = [] \<or> c = ''.'' then clean_comps rooted out cs
      else if c = ''..'' then
        (case out of
           [] \<Rightarrow> if rooted then clean_comps rooted [] cs else clean_comps rooted [c] cs
         | x # xs \<Rightarrow> if x \<noteq> ''..'' then clean_comps rooted xs cs
                   else clean_comps rooted (c # out) cs)
      else clean_comps rooted (c # out) cs)"

definition is_abs :: "path \<Rightarrow> bool" where
  "is_abs p \<longleftrightarrow> (case p of [] \<Rightarrow> False | c # _ \<Rightarrow> c = slash)"

definition path_clean :: "path \<Rightarrow> path" where
  "path_clean p =
     (if p = [] then ''.''
      else let cs = clean_comps (is_abs p) [] (split_on slash p);
               body = strings_join cs [slash]
           in if is_abs p then slash # body else if cs = [] then ''.'' else body)"

definition path_join :: "path list \<Rightarrow> path" where
  "path_join elems =
     (case filter (\<lambda>e. e \<noteq> []) elems of [] \<Rightarrow> [] | e # es \<Rightarrow> path_clean (strings_join (e # es) [slash]))"

definition path_abs :: "os_env \<Rightarrow> path \<Rightarrow> path option" where
  "path_abs E p =
     (if is_abs p then Some (path_clean p)
      else (case Getwd E of None \<Rightarrow> None | Some wd \<Rightarrow> Some (path_join [wd, p])))"

text \<open>Components of a clean path: leading \<open>..\<close> (in a relative path only), then names.\<close>

definition plain_comp :: "string \<Rightarrow> bool" where
  "plain_comp c \<longleftrightarrow> c \<noteq> [] \<and> c \<noteq> ''.'' \<and> c \<noteq> ''..'' \<and> slash \<notin> set c"

definition clean_form :: "bool \<Rightarrow> string list \<Rightarrow> bool" where
  "clean_form rooted cs \<longleftrightarrow>
     (\<exists>n ds. cs = replicate n ''..'' @ ds \<and> (\<forall>d\<in>set ds. plain_comp d) \<and> (rooted \<longrightarrow> n = 0))"

lemma clean_form_Nil [simp]: "clean_form rooted []"
  by (simp add: clean_form_def)

lemma clean_form_snoc_plain: "clean_form rooted cs \<Longrightarrow> plain_comp c \<Longrightarrow> clean_form rooted (cs @ [c])"
proof -
  assume "clean_form rooted cs" and c: "plain_comp c"
  then obtain n ds where "cs = replicate n ''..'' @ ds" "\<forall>d\<in>set ds. plain_comp d" "rooted \<longrightarrow> n = 0"
    by (auto simp: clean_form_def)
  with c show ?thesis
    unfolding clean_form_def by (intro exI [of _ n] exI [of _ "ds @ [c]"]) simp
qed

lemma clean_form_butlast: "clean_form rooted (cs @ [x]) \<Longrightarrow> clean_form rooted cs"
  unfolding clean_form_def
proof (elim exE conjE)
  fix n ds
  assume *: "cs @ [x] = replicate n ''..'' @ ds" "\<forall>d\<in>set ds. plain_comp d" "rooted \<longrightarrow> n = 0"
  show "\<exists>n ds. cs = replicate n ''..'' @ ds \<and> (\<forall>d\<in>set ds. plain_comp d) \<and> (rooted \<longrightarrow> n = 0)"
  proof (cases ds rule: rev_cases)
    case Nil
    with * have "cs @ [x] = replicate n ''..''" by simp
    then have "cs = butlast (replicate n ''..'')" by (metis butlast_snoc)
    then have "cs = replicate (n - 1) ''..'' @ []"
      by (simp add: butlast_conv_take min_def)
    with * show ?thesis by (intro exI [of _ "n - 1"] exI [of _ "[]"]) simp
  next
    case (snoc es e)
    with * show ?thesis by (intro exI [of _ n] exI [of _ es]) auto
  qed
qed

lemma clean_form_snoc_dots:
  "clean_form False (cs @ [''..'']) \<Longrightarrow> clean_form False (cs @ [''..'', ''..''])"
  unfolding clean_form_def
proof (elim exE conjE)
  fix n ds
  assume *: "cs @ [''..''] = replicate n ''..'' @ ds" "\<forall>d\<in>set ds. plain_comp d"
  then have "ds = []"
    by (cases ds rule: rev_cases) (auto simp: plain_comp_def)
  with * have "cs @ [''..'', ''..''] = replicate (Suc n) ''..'' @ []"
    by (metis append.assoc append.right_neutral append_Cons append_Nil replicate_Suc replicate_append_same)
  then show "\<exists>n ds. cs @ [''..'', ''..''] = replicate n ''..'' @ ds \<and> (\<forall>d\<in>set ds. plain_comp d) \<and> (False \<longrightarrow> n = 0)"
    by (intro exI [of _ "Suc n"] exI [of _ "[]"]) simp
qed

lemma clean_form_rooted_last: "clean_form True (cs @ [x]) \<Longrightarrow> x \<noteq> ''..''"
  by (auto simp: clean_form_def plain_comp_def)

lemma clean_form_dots: "clean_form False [''..'']"
  unfolding clean_form_def by (intro exI [of _ 1] exI [of _ "[]"]) simp

lemma clean_comps_form:
  "\<lbrakk>\<forall>c\<in>set cs. slash \<notin> set c; clean_form rooted (rev out)\<rbrakk> \<Longrightarrow>
   clean_form rooted (clean_comps rooted out cs)"
proof (induction rooted out cs rule: clean_comps.induct)
  case (2 rooted out c cs)
  consider (skip) "c = [] \<or> c = ''.''" | (dots) "c = ''..''" | (plain) "plain_comp c"
    using "2.prems"(1) by (auto simp: plain_comp_def)
  then show ?case
  proof cases
    case dots
    show ?thesis
    proof (cases out)
      case Nil
      with dots 2 show ?thesis by (auto simp: clean_form_dots)
    next
      case (Cons x xs)
      with "2.prems"(2) have form: "clean_form rooted (rev xs @ [x])" by simp
      show ?thesis
      proof (cases "x = ''..''")
        case True
        with form clean_form_rooted_last have "rooted = False" by (cases rooted) auto
        with True form have "clean_form rooted (rev (c # out))"
          using clean_form_snoc_dots [of "rev xs"] dots Cons by simp
        with True dots Cons "2.prems"(1) "2.IH"(5) show ?thesis by simp
      next
        case False
        with form dots Cons "2.prems"(1) "2.IH"(4) clean_form_butlast show ?thesis by auto
      qed
    qed
  next
    case plain
    with "2.prems" "2.IH"(6) show ?thesis
      by (auto simp: plain_comp_def intro: clean_form_snoc_plain [unfolded plain_comp_def])
  qed (use 2 in auto)
qed simp

lemma clean_comps_plain:
  "\<forall>d\<in>set ds. plain_comp d \<Longrightarrow> clean_comps rooted out ds = rev out @ ds"
  by (induction ds arbitrary: out) (auto simp: plain_comp_def)

lemma clean_comps_dots:
  "clean_comps False (replicate m ''..'') (replicate n ''..'' @ ds) =
   clean_comps False (replicate (m + n) ''..'') ds"
proof (induction n arbitrary: m)
  case (Suc n)
  from Suc [of "Suc m"] show ?case by (cases m) auto
qed simp

lemma clean_comps_fixed: "clean_form rooted cs \<Longrightarrow> clean_comps rooted [] cs = cs"
proof -
  assume "clean_form rooted cs"
  then obtain n ds where cs: "cs = replicate n ''..'' @ ds" "\<forall>d\<in>set ds. plain_comp d"
    "rooted \<longrightarrow> n = 0" by (auto simp: clean_form_def)
  show ?thesis
  proof (cases rooted)
    case True
    with cs show ?thesis by (simp add: clean_comps_plain)
  next
    case False
    with cs clean_comps_dots [of 0 n ds] show ?thesis
      by (simp add: clean_comps_plain)
  qed
qed

lemma clean_form_comp: "clean_form rooted cs \<Longrightarrow> c \<in> set cs \<Longrightarrow> c = ''..'' \<or> plain_comp c"
  by (auto simp: clean_form_def)

lemma clean_form_no_slash: "clean_form rooted cs \<Longrightarrow> c \<in> set cs \<Longrightarrow> slash \<notin> set c"
  by (drule (1) clean_form_comp) (auto simp: plain_comp_def)

lemma clean_form_nonempty: "clean_form rooted cs \<Longrightarrow> c \<in> set cs \<Longrightarrow> c \<noteq> []"
  by (drule (1) clean_form_comp) (auto simp: plain_comp_def)

lemma split_join_clean:
  "clean_form rooted cs \<Longrightarrow> cs \<noteq> [] \<Longrightarrow> split_on slash (strings_join cs [slash]) = cs"
  by (rule split_join) (auto dest: clean_form_no_slash)

lemma join_clean_head:
  assumes "clean_form rooted cs" and "cs \<noteq> []"
  shows "strings_join cs [slash] \<noteq> [] \<and> \<not> is_abs (strings_join cs [slash])"
proof -
  obtain d ds where cs: "cs = d # ds" using assms(2) by (cases cs) auto
  with assms(1) have "d \<noteq> []" "slash \<notin> set d"
    by (auto dest: clean_form_nonempty clean_form_no_slash)
  then obtain x xs where "d = x # xs" "x \<noteq> slash" by (cases d) auto
  with cs show ?thesis by (cases ds) (auto simp: is_abs_def)
qed

lemma path_clean_form:
  obtains cs where "clean_form (is_abs p) cs"
    and "path_clean p = (if is_abs p then slash # strings_join cs [slash]
      else if cs = [] then ''.'' else strings_join cs [slash])"
proof (cases "p = []")
  case True
  then show ?thesis
    using that [of "[]"] by (simp add: path_clean_def is_abs_def)
next
  case False
  have "clean_form (is_abs p) (clean_comps (is_abs p) [] (split_on slash p))"
    by (rule clean_comps_form) (auto dest: split_on_no_sep)
  with False show ?thesis
    using that by (simp add: path_clean_def Let_def)
qed

lemma path_clean_idem [simp]: "path_clean (path_clean p) = path_clean p"
proof -
  obtain cs where cs: "clean_form (is_abs p) cs"
    and p: "path_clean p = (if is_abs p then slash # strings_join cs [slash]
      else if cs = [] then ''.'' else strings_join cs [slash])"
    by (rule path_clean_form)
  show ?thesis
  proof (cases "cs = []")
    case True
    with p show ?thesis by (simp add: path_clean_def is_abs_def)
  next
    case False
    note spl = split_join_clean [OF cs False] and hd = join_clean_head [OF cs False]
    show ?thesis
    proof (cases "is_abs p")
      case True
      have "split_on slash (slash # strings_join cs [slash]) = [] # cs"
        by (simp add: spl)
      with True cs p show ?thesis
        by (simp add: path_clean_def is_abs_def clean_comps_fixed)
    next
      case abs: False
      with cs p False hd spl show ?thesis
        by (simp add: path_clean_def clean_comps_fixed)
    qed
  qed
qed

lemma is_abs_path_clean [simp]: "is_abs (path_clean p) = is_abs p"
proof -
  obtain cs where cs: "clean_form (is_abs p) cs"
    and p: "path_clean p = (if is_abs p then slash # strings_join cs [slash]
      else if cs = [] then ''.'' else strings_join cs [slash])"
    by (rule path_clean_form)
  then show ?thesis
    using join_clean_head [OF cs] by (cases "cs = []") (auto simp: is_abs_def)
qed

subsection \<open>State directories\<close>

definition default_state_dir :: "os_env \<Rightarrow> path" where
  "default_state_dir E =
     (case UserHomeDir E of None \<Rightarrow> ''.wechatbot'' | Some home \<Rightarrow> path_join [home, ''.wechatbot''])"

definition account_state_dir :: "os_env \<Rightarrow> string \<Rightarrow> path" where
  "account_state_dir E accountID =
     (if accountID = [] then default_state_dir E
      else path_join [default_state_dir E, ''accounts'', accountID])"

definition default_cred_path :: "os_env \<Rightarrow> path" where
  "default_cred_path E =
     path_join [case UserHomeDir E of None \<Rightarrow> [] | Some home \<Rightarrow> home, ''.wechatbot'', ''credentials.json'']"

subsection \<open>Canonical state paths\<close>

definition canonical_state_path :: "os_env \<Rightarrow> path \<Rightarrow> path" where
  "canonical_state_path E p =
     (case path_abs E p of Some a \<Rightarrow> path_clean a | None \<Rightarrow> path_clean p)"

definition state_path_key :: "os_env \<Rightarrow> path \<Rightarrow> string" where
  "state_path_key E p =
     (let p = canonical_state_path E p in if Windows E then ascii_lower p else p)"

text \<open>
  \<open>canonicalContextPaths\<close>: the canonical forms of the non-empty paths, first occurrences
  only; \<open>seen\<close> is the set of keys met so far.
\<close>

fun canonical_paths_from :: "os_env \<Rightarrow> string list \<Rightarrow> path list \<Rightarrow> path list" where
  "canonical_paths_from E seen [] = []"
| "canonical_paths_from E seen (p # ps) =
     (if p = [] then canonical_paths_from E seen ps
      else let p = canonical_state_path E p; key = state_path_key E p
           in if key \<in> set seen then canonical_paths_from E seen ps
              else p # canonical_paths_from E (key # seen) ps)"

definition canonical_context_paths :: "os_env \<Rightarrow> path list \<Rightarrow> path list" where
  "canonical_context_paths E paths = canonical_paths_from E [] paths"

text \<open>\<open>os.Getwd\<close> returns an absolute path.\<close>

definition env_wf :: "os_env \<Rightarrow> bool" where
  "env_wf E \<longleftrightarrow> (case Getwd E of None \<Rightarrow> True | Some wd \<Rightarrow> is_abs wd)"

lemma is_abs_join_wd: "is_abs wd \<Longrightarrow> is_abs (path_join [wd, p])"
  by (cases wd; cases p) (auto simp: path_join_def is_abs_def [of "_ # _"] is_abs_def [of "[]"])

lemma canonical_state_path_idem [simp]:
  "env_wf E \<Longrightarrow> canonical_state_path E (canonical_state_path E p) = canonical_state_path E p"
  by (auto simp: canonical_state_path_def path_abs_def env_wf_def is_abs_join_wd split: option.splits)

lemma state_path_key_canonical [simp]:
  "env_wf E \<Longrightarrow> state_path_key E (canonical_state_path E p) = state_path_key E p"
  by (simp add: state_path_key_def)

lemma canonical_paths_from_keys:
  "env_wf E \<Longrightarrow> set seen \<inter> state_path_key E ` set (canonical_paths_from E seen ps) = {} \<and>
     distinct (map (state_path_key E) (canonical_paths_from E seen ps)) \<and>
     state_path_key E ` {p \<in> set ps. p \<noteq> []} \<subseteq>
       set seen \<union> state_path_key E ` set (canonical_paths_from E seen ps)"
proof (induction ps arbitrary: seen)
  case (Cons p ps)
  show ?case
    using Cons.IH [OF Cons.prems, of seen] Cons.prems
      Cons.IH [OF Cons.prems, of "state_path_key E p # seen"]
    by (auto simp: Let_def)
qed simp

lemma canonical_paths_from_canonical:
  "env_wf E \<Longrightarrow> q \<in> set (canonical_paths_from E seen ps) \<Longrightarrow>
   \<exists>p\<in>set ps. p \<noteq> [] \<and> q = canonical_state_path E p"
  by (induction ps arbitrary: seen) (auto simp: Let_def split: if_splits)

end
