(* ===== verification/Durable.thy ===== *)
theory Durable
  imports Persist Paths
begin

section \<open>The contract of the durable stores\<close>

text \<open>
  The four stores of \<open>internal/store\<close> share one contract: an operation computes the new
  value, writes it, and publishes it in memory only when the write succeeded.  The locale
  states that contract over an arbitrary store; its lemmas say what a run of operations
  leaves on disk, under any faults and at any crash.  Each store theory interprets it on
  its own definitions.
\<close>

text \<open>
  The pattern every mutating method follows: write the next value, return a wrapped error if
  that fails, otherwise publish the next state.
\<close>

definition write_through :: "string \<Rightarrow> path \<Rightarrow> json \<Rightarrow> 's \<Rightarrow> 's \<Rightarrow> world \<Rightarrow> goerr option \<times> 's \<times> world" where
  "write_through what p j s s_next w =
     (case write_json_atomic p (Inr j) w of
        (Some e, w) \<Rightarrow> (Some (Wrapf what e []), s, w)
      | (None, w) \<Rightarrow> (None, s_next, w))"

lemma write_through_spec:
  assumes "write_through what p j s s_next w = (r, s', w')"
  shows "s' = (if r = None then s_next else s)"
    and "evolves (write_ok r p j (files w)) w w'"
    and "file_at w' p = (if r = None then Some (CDoc j) else file_at w p)"
proof -
  obtain r0 w0 where wr: "write_json_atomic p (Inr j) w = (r0, w0)" by fastforce
  with assms have "w' = w0" "r = None \<longleftrightarrow> r0 = None" "s' = (if r = None then s_next else s)"
    by (auto simp: write_through_def split: option.splits)
  with write_json_atomic_spec [OF wr] write_ok_cong [of r r0]
  show "s' = (if r = None then s_next else s)"
    and "evolves (write_ok r p j (files w)) w w'"
    and "file_at w' p = (if r = None then Some (CDoc j) else file_at w p)"
    by simp_all
qed

lemma write_through_ok: "no_faults w \<Longrightarrow> fst (write_through what p j s s_next w) = None"
  using write_json_atomic_ok [of w p j] by (auto simp: write_through_def split: option.splits prod.splits)

text \<open>What an atomic write of a readable document means for a reader of the target.\<close>

lemma write_ok_reads:
  assumes "evolves (write_ok r p j (files w)) w w'"
    and "file_at w' p = (if r = None then Some (CDoc j) else file_at w p)"
    and "dec (file_at w p) = Some v"
    and "r = None \<Longrightarrow> dec (Some (CDoc j)) = Some v'" and "r \<noteq> None \<Longrightarrow> v' = v"
  shows "dec (file_at w' p) = Some v' \<and>
    evolves (\<lambda>fs. dec (fs (Named p)) \<in> {Some v, Some v'} \<and> named_except p (files w) fs) w w'"
proof
  show "dec (file_at w' p) = Some v'"
    using assms(2-5) by (cases r) auto
  show "evolves (\<lambda>fs. dec (fs (Named p)) \<in> {Some v, Some v'} \<and> named_except p (files w) fs) w w'"
  proof (rule evolves_mono [OF assms(1)])
    fix fs
    assume "write_ok r p j (files w) fs"
    then show "dec (fs (Named p)) \<in> {Some v, Some v'} \<and> named_except p (files w) fs"
      using assms(3-5)
      by (auto simp: write_ok_def old_or_new_def unchanged_named_def named_except_def split: if_splits)
  qed
qed

text \<open>
  A run of operations: a failed one changes nothing and the caller goes on.  The result lists
  the acknowledged operations.
\<close>

fun run_ops :: "('op \<Rightarrow> 's \<Rightarrow> world \<Rightarrow> goerr option \<times> 's \<times> world) \<Rightarrow> 'op list \<Rightarrow> 's \<Rightarrow> world \<Rightarrow>
    'op list \<times> 's \<times> world" where
  "run_ops exec [] s w = ([], s, w)"
| "run_ops exec (a # as) s w =
     (case exec a s w of
        (None, s, w) \<Rightarrow> (case run_ops exec as s w of (acked, s, w) \<Rightarrow> (a # acked, s, w))
      | (Some e, s, w) \<Rightarrow> run_ops exec as s w)"

text \<open>
  An operation that writes through and whose document reads back as the next value keeps
  memory and disk together at every moment.
\<close>

lemma write_through_disk:
  assumes wr: "write_through what p j s s_next w = (r, s', w')"
    and "dec (file_at w p) = Some (val s)" and "dec (Some (CDoc j)) = Some (val s_next)"
  shows "dec (file_at w' p) = Some (val s') \<and>
    evolves (\<lambda>fs. dec (fs (Named p)) \<in> {Some (val s), Some (val s')} \<and> named_except p (files w) fs) w w'"
  using write_through_spec(2,3) [OF wr] assms(2)
proof (rule write_ok_reads)
  show "dec (Some (CDoc j)) = Some (val s')" if "r = None"
    using that write_through_spec(1) [OF wr] assms(3) by simp
  show "val s' = val s" if "r \<noteq> None"
    using that write_through_spec(1) [OF wr] by auto
qed

locale durable_store =
  fixes path_of :: "'s \<Rightarrow> path"
    and config :: "'s \<Rightarrow> 'c"
    and view :: "'s \<Rightarrow> 'v"
    and decode :: "content option \<Rightarrow> 'v option"
    and valid :: "'v \<Rightarrow> bool"
    and valid_op :: "'op \<Rightarrow> bool"
    and effect :: "'c \<Rightarrow> 'op \<Rightarrow> 'v \<Rightarrow> 'v"
    and exec :: "'op \<Rightarrow> 's \<Rightarrow> world \<Rightarrow> goerr option \<times> 's \<times> world"
    and load :: "'s \<Rightarrow> world \<Rightarrow> goerr option \<times> 's \<times> world"
    and reload :: "'c \<Rightarrow> 'v \<Rightarrow> 'v"
  assumes exec_path: "exec a s w = (r, s', w') \<Longrightarrow> path_of s' = path_of s"
    and exec_config: "exec a s w = (r, s', w') \<Longrightarrow> config s' = config s"
    and exec_ok: "exec a s w = (None, s', w') \<Longrightarrow> view s' = effect (config s) a (view s)"
    and exec_err: "exec a s w = (Some e, s', w') \<Longrightarrow> s' = s"
    and exec_valid: "valid (view s) \<Longrightarrow> valid_op a \<Longrightarrow> valid (effect (config s) a (view s))"
    and exec_disk: "exec a s w = (r, s', w') \<Longrightarrow> valid (view s) \<Longrightarrow> valid_op a \<Longrightarrow>
        decode (file_at w (path_of s)) = Some (view s) \<Longrightarrow>
        decode (file_at w' (path_of s)) = Some (view s') \<and>
        evolves (\<lambda>fs. decode (fs (Named (path_of s))) \<in> {Some (view s), Some (view s')} \<and>
                      named_except (path_of s) (files w) fs) w w'"
    and load_ok: "load s w = (None, s', w') \<Longrightarrow> decode (file_at w (path_of s)) = Some v \<Longrightarrow>
        view s' = reload (config s) v"
    and load_total: "no_faults w \<Longrightarrow> decode (file_at w (path_of s)) = Some v \<Longrightarrow> fst (load s w) = None"
begin

text \<open>Memory and disk agree.\<close>

definition synced :: "'s \<Rightarrow> world \<Rightarrow> bool" where
  "synced s w \<longleftrightarrow> valid (view s) \<and> decode (file_at w (path_of s)) = Some (view s)"

lemma exec_synced:
  assumes "synced s w" and "valid_op a" and "exec a s w = (r, s', w')"
  shows "synced s' w'"
proof -
  have "valid (view s')"
    using assms exec_ok [of a s w s' w'] exec_err [of a s w _ s' w'] exec_valid [of s a]
    by (cases r) (auto simp: synced_def)
  with assms show ?thesis
    using exec_disk [of a s w r s' w'] exec_path [of a s w r s' w'] by (simp add: synced_def)
qed

text \<open>
  \<open>reads_prefix s w acked fs\<close>: a process that dies with the files \<open>fs\<close> leaves, at the path of
  \<open>s\<close>, the effect of some prefix of the acknowledged operations, and nothing else changed.
\<close>

definition reads_prefix :: "'s \<Rightarrow> world \<Rightarrow> 'op list \<Rightarrow> fsys \<Rightarrow> bool" where
  "reads_prefix s w acked fs \<longleftrightarrow>
     (\<exists>n\<le>length acked. decode (fs (Named (path_of s))) = Some (fold (effect (config s)) (take n acked) (view s))) \<and>
     named_except (path_of s) (files w) fs"

lemma exec_view:
  "exec a s w = (r, s', w') \<Longrightarrow> view s' = (if r = None then effect (config s) a (view s) else view s)"
  using exec_ok [of a s w s' w'] exec_err [of a s w _ s' w'] by (cases r) auto

lemma exec_reads_prefix:
  assumes "synced s w" and "valid_op a" and ex: "exec a s w = (r, s1, w1)"
  shows "evolves (reads_prefix s w (if r = None then a # acked else acked)) w w1"
    and "named_except (path_of s) (files w) (files w1)"
proof -
  have disk: "evolves (\<lambda>fs. decode (fs (Named (path_of s))) \<in> {Some (view s), Some (view s1)} \<and>
      named_except (path_of s) (files w) fs) w w1"
    using assms exec_disk [OF ex] by (simp add: synced_def)
  show "evolves (reads_prefix s w (if r = None then a # acked else acked)) w w1"
  proof (rule evolves_mono [OF disk])
    fix fs
    assume *: "decode (fs (Named (path_of s))) \<in> {Some (view s), Some (view s1)} \<and>
      named_except (path_of s) (files w) fs"
    show "reads_prefix s w (if r = None then a # acked else acked) fs"
    proof (cases "decode (fs (Named (path_of s))) = Some (view s)")
      case True
      with * show ?thesis unfolding reads_prefix_def by (intro conjI exI [of _ 0]) auto
    next
      case False
      with * exec_view [OF ex] have "r = None" "decode (fs (Named (path_of s))) = Some (effect (config s) a (view s))"
        by (auto split: if_splits)
      with * show ?thesis unfolding reads_prefix_def by (intro conjI exI [of _ 1]) auto
    qed
  qed
  have "evolves (named_except (path_of s) (files w)) w w1"
    by (rule evolves_mono [OF disk]) simp
  then show "named_except (path_of s) (files w) (files w1)"
    by (rule evolves_files) (simp add: named_except_def)
qed

lemma reads_prefix_shift:
  assumes "exec a s w = (r, s1, w1)" and "named_except (path_of s) (files w) (files w1)"
    and "reads_prefix s1 w1 acked fs"
  shows "reads_prefix s w (if r = None then a # acked else acked) fs"
proof -
  note p = exec_path [OF assms(1)] and v = exec_view [OF assms(1)] and c = exec_config [OF assms(1)]
  from assms(3) obtain n where "n \<le> length acked"
    "decode (fs (Named (path_of s))) = Some (fold (effect (config s)) (take n acked) (view s1))"
    unfolding reads_prefix_def by (auto simp: p c)
  then have "\<exists>m\<le>length (if r = None then a # acked else acked).
      decode (fs (Named (path_of s))) =
      Some (fold (effect (config s)) (take m (if r = None then a # acked else acked)) (view s))"
    by (intro exI [of _ "if r = None then Suc n else n"]) (simp add: v)
  with assms(2,3) p show ?thesis
    by (auto simp: reads_prefix_def named_except_def)
qed

text \<open>
  The state after a run is the effect of the acknowledged operations, and every file system
  state on the way reads back as the effect of a prefix of them.
\<close>

lemma run_synced:
  assumes "synced s w" and "\<forall>a\<in>set as. valid_op a" and "run_ops exec as s w = (acked, s', w')"
  shows "synced s' w' \<and> path_of s' = path_of s \<and> view s' = fold (effect (config s)) acked (view s) \<and>
    evolves (reads_prefix s w acked) w w'"
  using assms
proof (induction as arbitrary: s w acked s' w')
  case Nil
  then show ?case by simp
next
  case (Cons a as)
  obtain r s1 w1 where ex: "exec a s w = (r, s1, w1)" by (cases "exec a s w") auto
  obtain acked' where rest: "run_ops exec as s1 w1 = (acked', s', w')"
    and acked: "acked = (if r = None then a # acked' else acked')"
    using Cons.prems(3) ex by (auto split: option.splits prod.splits)
  have sync1: "synced s1 w1"
    using exec_synced [OF Cons.prems(1) _ ex] Cons.prems(2) by simp
  have first: "evolves (reads_prefix s w acked) w w1"
    and nx: "named_except (path_of s) (files w) (files w1)"
    using exec_reads_prefix [OF Cons.prems(1) _ ex] Cons.prems(2) by (simp_all add: acked)
  from Cons.IH [OF sync1 _ rest] Cons.prems(2) exec_config [OF ex]
  have IH: "synced s' w'" "path_of s' = path_of s1" "view s' = fold (effect (config s)) acked' (view s1)"
    "evolves (reads_prefix s1 w1 acked') w1 w'"
    by auto
  have "evolves (reads_prefix s w acked) w1 w'"
    by (rule evolves_mono [OF IH(4)]) (simp add: acked reads_prefix_shift [OF ex nx])
  with first have "evolves (reads_prefix s w acked) w w'"
    by (rule evolves_trans)
  then show ?case
    using IH exec_path [OF ex] exec_view [OF ex] acked by auto
qed

text \<open>
  Restart: a new store on the same path, loaded after the run without a fault, holds what
  \<open>reload\<close> makes of the acknowledged operations.
\<close>

lemma restart_recovers:
  assumes "synced s w" and "\<forall>a\<in>set as. valid_op a" and "run_ops exec as s w = (acked, s', w')"
    and "path_of t = path_of s" and "load t w' = (None, t', w'')"
  shows "view t' = reload (config t) (fold (effect (config s)) acked (view s))"
proof -
  note run = run_synced [OF assms(1-3)]
  have "decode (file_at w' (path_of t)) = Some (view s')"
    using run assms(4) by (auto simp: synced_def)
  with assms(5) show ?thesis using load_ok run by metis
qed

end

end
