(* ===== verification/ContextCursor.thy ===== *)
theory ContextCursor
  imports Durable
begin

section \<open>The context token store and the cursor store\<close>

text \<open>
  Models \<open>internal/store/context.go\<close> and \<open>internal/store/cursor.go\<close>.  A store is a record
  of its path and its in-memory value; every operation takes the environment \<open>E\<close> (through
  which a path names a file) and the world, and returns the error, the store and the world.
  Both stores interpret the contract of theory \<open>Durable\<close>.
\<close>

subsection \<open>Context tokens\<close>

record context_store =
  cs_path :: path
  cs_data :: "(string \<times> string) list"

definition new_context_store :: "os_env \<Rightarrow> string \<Rightarrow> path \<Rightarrow> context_store" where
  "new_context_store E accountID p =
     \<lparr>cs_path = (if p = [] then path_join [account_state_dir E accountID, ''context_tokens.json''] else p),
      cs_data = []\<rparr>"

abbreviation resolve :: "os_env \<Rightarrow> path \<Rightarrow> path" where
  "resolve E p \<equiv> canonical_state_path E p"

definition enc_context :: "(string \<times> string) list \<Rightarrow> json" where
  "enc_context data = enc_map enc_str data"

definition dec_context :: "content \<Rightarrow> goerr + (string \<times> string) list" where
  "dec_context c =
     (if c = CEmpty then Inr []
      else (case unmarshal c of Inl e \<Rightarrow> Inl e | Inr j \<Rightarrow> dec_map dec_str [] [] j))"

definition context_load :: "os_env \<Rightarrow> context_store \<Rightarrow> world \<Rightarrow> goerr option \<times> context_store \<times> world" where
  "context_load E s w =
     (case os_read_file (resolve E (cs_path s)) w of
        (ReadMissing, w) \<Rightarrow> (None, s\<lparr>cs_data := []\<rparr>, w)
      | (ReadErr e, w) \<Rightarrow> (Some (Wrapf ''read context tokens: '' e []), s, w)
      | (ReadData c, w) \<Rightarrow>
          (case dec_context c of
             Inl e \<Rightarrow> (Some (Wrapf ''decode context tokens: '' e []), s, w)
           | Inr parsed \<Rightarrow> (None, s\<lparr>cs_data := parsed\<rparr>, w)))"

definition context_write :: "os_env \<Rightarrow> context_store \<Rightarrow> (string \<times> string) list \<Rightarrow> world \<Rightarrow>
    goerr option \<times> context_store \<times> world" where
  "context_write E s next_data w =
     write_through ''write context tokens: '' (resolve E (cs_path s)) (enc_context next_data)
       s (s\<lparr>cs_data := next_data\<rparr>) w"

definition context_save :: "os_env \<Rightarrow> context_store \<Rightarrow> world \<Rightarrow> goerr option \<times> context_store \<times> world" where
  "context_save E s w = context_write E s (cs_data s) w"

definition context_get :: "context_store \<Rightarrow> string \<Rightarrow> string" where
  "context_get s userID = (case map_of (cs_data s) userID of None \<Rightarrow> [] | Some t \<Rightarrow> t)"

definition context_set :: "os_env \<Rightarrow> string \<Rightarrow> string \<Rightarrow> context_store \<Rightarrow> world \<Rightarrow>
    goerr option \<times> context_store \<times> world" where
  "context_set E userID tok s w =
     (if userID = [] \<or> tok = [] then (None, s, w)
      else context_write E s (AList.update userID tok (cs_data s)) w)"

definition context_delete :: "os_env \<Rightarrow> string \<Rightarrow> context_store \<Rightarrow> world \<Rightarrow>
    goerr option \<times> context_store \<times> world" where
  "context_delete E userID s w = context_write E s (AList.delete userID (cs_data s)) w"

definition context_all :: "context_store \<Rightarrow> string \<rightharpoonup> string" where
  "context_all s = map_of (cs_data s)"

definition context_clear :: "os_env \<Rightarrow> context_store \<Rightarrow> world \<Rightarrow> goerr option \<times> context_store \<times> world" where
  "context_clear E s w = context_write E s [] w"

lemmas context_defs [store_defs] =
  context_load_def context_write_def context_save_def context_set_def context_delete_def context_clear_def

subsection \<open>The contract\<close>

datatype context_op = CSet string string | CDelete string | CClear | CSave

fun context_exec :: "os_env \<Rightarrow> context_op \<Rightarrow> context_store \<Rightarrow> world \<Rightarrow>
    goerr option \<times> context_store \<times> world" where
  "context_exec E (CSet u t) s w = context_set E u t s w"
| "context_exec E (CDelete u) s w = context_delete E u s w"
| "context_exec E CClear s w = context_clear E s w"
| "context_exec E CSave s w = context_save E s w"

fun context_effect :: "context_op \<Rightarrow> (string \<times> string) list \<Rightarrow> (string \<times> string) list" where
  "context_effect (CSet u t) m = (if u = [] \<or> t = [] then m else AList.update u t m)"
| "context_effect (CDelete u) m = AList.delete u m"
| "context_effect CClear m = []"
| "context_effect CSave m = m"

definition valid_context :: "(string \<times> string) list \<Rightarrow> bool" where
  "valid_context m \<longleftrightarrow> alist_wf m \<and> (\<forall>(k, v)\<in>set m. valid_utf8 k \<and> valid_utf8 v)"

fun valid_context_op :: "context_op \<Rightarrow> bool" where
  "valid_context_op (CSet u t) = (valid_utf8 u \<and> valid_utf8 t)"
| "valid_context_op _ = True"

definition read_context :: "content option \<Rightarrow> (string \<times> string) list option" where
  "read_context c =
     (case c of None \<Rightarrow> Some [] | Some c \<Rightarrow> (case dec_context c of Inl e \<Rightarrow> None | Inr m \<Rightarrow> Some m))"

lemma read_context_written [simp]: "valid_context m \<Longrightarrow> read_context (Some (CDoc (enc_context m))) = Some m"
proof -
  assume "valid_context m"
  then have "dec_map dec_str [] [] (enc_map enc_str m) = Inr m"
    by (intro dec_map_enc_wf) (auto simp: valid_context_def)
  then show ?thesis
    by (simp add: read_context_def dec_context_def enc_context_def)
qed

lemma set_update_subset: "set (AList.update k v m) \<subseteq> insert (k, v) (set m)"
  by (induction m) auto

lemma valid_context_update: "valid_context m \<Longrightarrow> valid_utf8 k \<Longrightarrow> valid_utf8 v \<Longrightarrow> valid_context (AList.update k v m)"
  using set_update_subset [of k v m] by (fastforce simp: valid_context_def)

lemma valid_context_delete: "valid_context m \<Longrightarrow> valid_context (AList.delete k m)"
  by (auto simp: valid_context_def AList.delete_eq)

text \<open>Every operation either writes its effect, or is a no-op that succeeds.\<close>

lemma context_exec_cases:
  obtains (writes) "context_exec E a s w = context_write E s (context_effect a (cs_data s)) w"
  | (noop) "context_exec E a s w = (None, s, w)" "context_effect a (cs_data s) = cs_data s"
proof (cases "\<exists>u t. a = CSet u t \<and> (u = [] \<or> t = [])")
  case True
  then show ?thesis by (intro noop) (auto simp: context_set_def)
next
  case False
  then show ?thesis
    by (intro writes; cases a)
      (auto simp: context_set_def context_delete_def context_clear_def context_save_def)
qed

lemma valid_context_effect: "valid_context m \<Longrightarrow> valid_context_op a \<Longrightarrow> valid_context (context_effect a m)"
  by (cases a) (auto simp: valid_context_update valid_context_delete valid_context_def [of "[]"])

lemma context_exec_disk:
  assumes "context_exec E a s w = (r, s', w')" and "valid_context (cs_data s)" and "valid_context_op a"
    and "read_context (file_at w (resolve E (cs_path s))) = Some (cs_data s)"
  shows "read_context (file_at w' (resolve E (cs_path s))) = Some (cs_data s') \<and>
    evolves (\<lambda>fs. read_context (fs (Named (resolve E (cs_path s)))) \<in> {Some (cs_data s), Some (cs_data s')} \<and>
      named_except (resolve E (cs_path s)) (files w) fs) w w'"
proof (cases rule: context_exec_cases [of E a s w])
  case writes
  with assms(1) have wr: "context_write E s (context_effect a (cs_data s)) w = (r, s', w')" by simp
  from write_through_disk [OF wr [unfolded context_write_def], of read_context cs_data] assms(4)
  show ?thesis
    using valid_context_effect [OF assms(2,3)] by simp
next
  case noop
  with assms show ?thesis by simp
qed

lemma context_loadD:
  "context_load E s w = (None, s', w') \<Longrightarrow> read_context (file_at w (resolve E (cs_path s))) = Some v \<Longrightarrow>
   cs_data s' = v"
  by (auto simp: context_load_def os_read_file_def read_context_def dest!: os_callD
      split: prod.splits option.splits sum.splits read_result.splits)

lemma context_load_total:
  "no_faults w \<Longrightarrow> read_context (file_at w (resolve E (cs_path s))) = Some v \<Longrightarrow>
   fst (context_load E s w) = None"
  by (auto simp: context_load_def os_read_file_def read_context_def os_call_def no_faults_def
      split: option.splits sum.splits)

interpretation context_durable: durable_store
  "\<lambda>s. resolve E (cs_path s)" "\<lambda>s. ()" cs_data read_context valid_context valid_context_op
  "\<lambda>_. context_effect" "context_exec E" "context_load E" "\<lambda>_ m. m"
  for E
proof unfold_locales
  fix a s w r s' w' e v
  show "resolve E (cs_path s') = resolve E (cs_path s)" if "context_exec E a s w = (r, s', w')"
    using that by (cases rule: context_exec_cases [of E a s w]) (auto simp: context_write_def dest: write_through_spec(1) split: if_splits)
  show "() = ()" by simp
  show "cs_data s' = context_effect a (cs_data s)" if "context_exec E a s w = (None, s', w')"
    using that by (cases rule: context_exec_cases [of E a s w]) (auto simp: context_write_def dest: write_through_spec(1))
  show "s' = s" if "context_exec E a s w = (Some e, s', w')"
    using that by (cases rule: context_exec_cases [of E a s w]) (auto simp: context_write_def dest: write_through_spec(1))
  show "valid_context (context_effect a (cs_data s))" if "valid_context (cs_data s)" "valid_context_op a"
    using that by (rule valid_context_effect)
  show "read_context (file_at w' (resolve E (cs_path s))) = Some (cs_data s') \<and>
    evolves (\<lambda>fs. read_context (fs (Named (resolve E (cs_path s)))) \<in> {Some (cs_data s), Some (cs_data s')} \<and>
      named_except (resolve E (cs_path s)) (files w) fs) w w'"
    if "context_exec E a s w = (r, s', w')" "valid_context (cs_data s)" "valid_context_op a"
      "read_context (file_at w (resolve E (cs_path s))) = Some (cs_data s)"
    using that by (rule context_exec_disk)
  show "cs_data s' = v" if "context_load E s w = (None, s', w')"
    "read_context (file_at w (resolve E (cs_path s))) = Some v"
    using that by (rule context_loadD)
  show "fst (context_load E s w) = None" if "no_faults w"
    "read_context (file_at w (resolve E (cs_path s))) = Some v"
    using that by (rule context_load_total)
qed

subsection \<open>The polling cursor\<close>

record cursor_store =
  cu_path :: path
  cu_buf :: string

definition new_cursor_store :: "os_env \<Rightarrow> string \<Rightarrow> path \<Rightarrow> cursor_store" where
  "new_cursor_store E accountID p =
     \<lparr>cu_path = (if p = [] then path_join [account_state_dir E accountID, ''cursor.json''] else p),
      cu_buf = []\<rparr>"

definition enc_cursor :: "string \<Rightarrow> json" where
  "enc_cursor buf = JObj [(''get_updates_buf'', enc_str buf)]"

definition dec_cursor :: "content \<Rightarrow> goerr + string" where
  "dec_cursor c =
     (if c = CEmpty then Inr []
      else (case unmarshal c of Inl e \<Rightarrow> Inl e
            | Inr j \<Rightarrow> dec_struct (dec_field (\<lambda>_. dec_str) [] ''get_updates_buf'') j))"

definition cursor_load :: "os_env \<Rightarrow> cursor_store \<Rightarrow> world \<Rightarrow> goerr option \<times> cursor_store \<times> world" where
  "cursor_load E s w =
     (case os_read_file (resolve E (cu_path s)) w of
        (ReadMissing, w) \<Rightarrow> (None, s\<lparr>cu_buf := []\<rparr>, w)
      | (ReadErr e, w) \<Rightarrow> (Some (Wrapf ''read cursor: '' e []), s, w)
      | (ReadData c, w) \<Rightarrow>
          (case dec_cursor c of
             Inl e \<Rightarrow> (Some (Wrapf ''decode cursor: '' e []), s, w)
           | Inr buf \<Rightarrow> (None, s\<lparr>cu_buf := buf\<rparr>, w)))"

definition cursor_set :: "os_env \<Rightarrow> string \<Rightarrow> cursor_store \<Rightarrow> world \<Rightarrow> goerr option \<times> cursor_store \<times> world" where
  "cursor_set E buf s w =
     write_through ''write cursor: '' (resolve E (cu_path s)) (enc_cursor buf) s (s\<lparr>cu_buf := buf\<rparr>) w"

definition cursor_save :: "os_env \<Rightarrow> cursor_store \<Rightarrow> world \<Rightarrow> goerr option \<times> cursor_store \<times> world" where
  "cursor_save E s w =
     write_through ''write cursor: '' (resolve E (cu_path s)) (enc_cursor (cu_buf s)) s s w"

definition cursor_get :: "cursor_store \<Rightarrow> string" where
  "cursor_get s = cu_buf s"

definition cursor_clear :: "os_env \<Rightarrow> cursor_store \<Rightarrow> world \<Rightarrow> goerr option \<times> cursor_store \<times> world" where
  "cursor_clear E s w = cursor_set E [] s w"

lemmas cursor_defs [store_defs] = cursor_load_def cursor_set_def cursor_save_def cursor_clear_def

datatype cursor_op = CuSet string | CuClear | CuSave

fun cursor_exec :: "os_env \<Rightarrow> cursor_op \<Rightarrow> cursor_store \<Rightarrow> world \<Rightarrow> goerr option \<times> cursor_store \<times> world" where
  "cursor_exec E (CuSet b) s w = cursor_set E b s w"
| "cursor_exec E CuClear s w = cursor_clear E s w"
| "cursor_exec E CuSave s w = cursor_save E s w"

fun cursor_effect :: "cursor_op \<Rightarrow> string \<Rightarrow> string" where
  "cursor_effect (CuSet b) c = b"
| "cursor_effect CuClear c = []"
| "cursor_effect CuSave c = c"

fun valid_cursor_op :: "cursor_op \<Rightarrow> bool" where
  "valid_cursor_op (CuSet b) = valid_utf8 b"
| "valid_cursor_op _ = True"

definition read_cursor :: "content option \<Rightarrow> string option" where
  "read_cursor c =
     (case c of None \<Rightarrow> Some [] | Some c \<Rightarrow> (case dec_cursor c of Inl e \<Rightarrow> None | Inr b \<Rightarrow> Some b))"

lemma read_cursor_written [simp]: "valid_utf8 b \<Longrightarrow> read_cursor (Some (CDoc (enc_cursor b))) = Some b"
  by (simp add: read_cursor_def dec_cursor_def enc_cursor_def dec_struct_def dec_field_def
      field_values_def key_matches_def enc_str_def dec_str_def)

lemma cursor_exec_write:
  "cursor_exec E a s w = write_through ''write cursor: '' (resolve E (cu_path s))
     (enc_cursor (cursor_effect a (cu_buf s))) s (s\<lparr>cu_buf := cursor_effect a (cu_buf s)\<rparr>) w"
  by (cases a) (simp_all add: cursor_set_def cursor_save_def cursor_clear_def)

lemma valid_cursor_effect: "valid_utf8 b \<Longrightarrow> valid_cursor_op a \<Longrightarrow> valid_utf8 (cursor_effect a b)"
  by (cases a) auto

lemma cursor_loadD:
  "cursor_load E s w = (None, s', w') \<Longrightarrow> read_cursor (file_at w (resolve E (cu_path s))) = Some v \<Longrightarrow>
   cu_buf s' = v"
  by (auto simp: cursor_load_def os_read_file_def read_cursor_def dest!: os_callD
      split: prod.splits option.splits sum.splits read_result.splits)

lemma cursor_load_total:
  "no_faults w \<Longrightarrow> read_cursor (file_at w (resolve E (cu_path s))) = Some v \<Longrightarrow>
   fst (cursor_load E s w) = None"
  by (auto simp: cursor_load_def os_read_file_def read_cursor_def os_call_def no_faults_def
      split: option.splits sum.splits)

interpretation cursor_durable: durable_store
  "\<lambda>s. resolve E (cu_path s)" "\<lambda>s. ()" cu_buf read_cursor valid_utf8 valid_cursor_op
  "\<lambda>_. cursor_effect" "cursor_exec E" "cursor_load E" "\<lambda>_ b. b"
  for E
proof unfold_locales
  fix a s w r s' w' e v
  show "resolve E (cu_path s') = resolve E (cu_path s)" if "cursor_exec E a s w = (r, s', w')"
    using write_through_spec(1) [OF that [unfolded cursor_exec_write]] by simp
  show "() = ()" by simp
  show "cu_buf s' = cursor_effect a (cu_buf s)" if "cursor_exec E a s w = (None, s', w')"
    using write_through_spec(1) [OF that [unfolded cursor_exec_write]] by simp
  show "s' = s" if "cursor_exec E a s w = (Some e, s', w')"
    using write_through_spec(1) [OF that [unfolded cursor_exec_write]] by simp
  show "valid_utf8 (cursor_effect a (cu_buf s))" if "valid_utf8 (cu_buf s)" "valid_cursor_op a"
    using that by (rule valid_cursor_effect)
  show "read_cursor (file_at w' (resolve E (cu_path s))) = Some (cu_buf s') \<and>
    evolves (\<lambda>fs. read_cursor (fs (Named (resolve E (cu_path s)))) \<in> {Some (cu_buf s), Some (cu_buf s')} \<and>
      named_except (resolve E (cu_path s)) (files w) fs) w w'"
    if "cursor_exec E a s w = (r, s', w')" "valid_utf8 (cu_buf s)" "valid_cursor_op a"
      "read_cursor (file_at w (resolve E (cu_path s))) = Some (cu_buf s)"
    using write_through_disk [OF that(1) [unfolded cursor_exec_write], of read_cursor cu_buf]
      that(4) valid_cursor_effect [OF that(2,3)] by simp
  show "cu_buf s' = v" if "cursor_load E s w = (None, s', w')"
    "read_cursor (file_at w (resolve E (cu_path s))) = Some v"
    using that by (rule cursor_loadD)
  show "fst (cursor_load E s w) = None" if "no_faults w"
    "read_cursor (file_at w (resolve E (cu_path s))) = Some v"
    using that by (rule cursor_load_total)
qed

subsection \<open>Durability\<close>

text \<open>C19: the context token store loses no acknowledged operation.  Whatever writes fail, the
  tokens in memory are the effect of the acknowledged operations; whenever the process dies,
  the file reads back as the effect of a prefix of them; and a store loaded afterwards holds
  all of them.\<close>

theorem context_store_durable:
  assumes "valid_context (cs_data s)"
    and "read_context (file_at w (resolve E (cs_path s))) = Some (cs_data s)"
    and "\<forall>a\<in>set ops. valid_context_op a"
    and "run_ops (context_exec E) ops s w = (acked, s', w')"
  shows "cs_data s' = fold context_effect acked (cs_data s) \<and>
    evolves (\<lambda>fs. \<exists>n\<le>length acked.
      read_context (fs (Named (resolve E (cs_path s)))) =
      Some (fold context_effect (take n acked) (cs_data s))) w w' \<and>
    (\<forall>t t' w''. cs_path t = cs_path s \<longrightarrow> context_load E t w' = (None, t', w'') \<longrightarrow>
      cs_data t' = fold context_effect acked (cs_data s))"
proof -
  have sync: "context_durable.synced E s w"
    using assms(1,2) by (simp add: context_durable.synced_def)
  note run = context_durable.run_synced [OF sync assms(3,4)]
  have "evolves (\<lambda>fs. \<exists>n\<le>length acked.
      read_context (fs (Named (resolve E (cs_path s)))) =
      Some (fold context_effect (take n acked) (cs_data s))) w w'"
    using run by (auto simp: context_durable.reads_prefix_def elim!: evolves_mono)
  moreover have "\<forall>t t' w''. cs_path t = cs_path s \<longrightarrow> context_load E t w' = (None, t', w'') \<longrightarrow>
      cs_data t' = fold context_effect acked (cs_data s)"
    by (intro allI impI) (rule context_durable.restart_recovers [OF sync assms(3,4)], simp_all)
  ultimately show ?thesis using run by blast
qed

definition sample_env :: os_env where
  "sample_env = \<lparr>UserHomeDir = Some ''/home/bot'', Getwd = Some ''/srv'', Windows = False,
     Sha256Hex = (\<lambda>s. s)\<rparr>"

definition sample_world :: world where
  "sample_world = empty_world (\<lambda>n c. if n = 9 then Some (Msg ''disk full'') else None)"

theorem context_store_durable_witness:
  "\<exists>acked s' w'. run_ops (context_exec sample_env) [CSet ''u'' ''t1'', CSet ''u'' ''t2'']
     (new_context_store sample_env [] ''/tokens.json'') sample_world = (acked, s', w') \<and>
     cs_data s' = fold context_effect acked []"
proof -
  let ?s = "new_context_store sample_env [] ''/tokens.json''"
  let ?ops = "[CSet ''u'' ''t1'', CSet ''u'' ''t2'']"
  obtain acked s' w' where run: "run_ops (context_exec sample_env) ?ops ?s sample_world = (acked, s', w')"
    by (metis prod_cases3)
  have data: "cs_data ?s = []" by (simp add: new_context_store_def)
  have 1: "valid_context (cs_data ?s)" by (simp add: data valid_context_def)
  have 2: "read_context (file_at sample_world (resolve sample_env (cs_path ?s))) = Some (cs_data ?s)"
    by (simp add: data read_context_def sample_world_def empty_world_def)
  have 3: "\<forall>a\<in>set ?ops. valid_context_op a"
    by (simp add: valid_utf8_ascii is_ascii_def)
  from context_store_durable [OF 1 2 3 run] run data show ?thesis by auto
qed

end
