(* ===== verification/ReauthStore.thy ===== *)
theory ReauthStore
  imports ContextCursor
begin

section \<open>The reauthentication marker store\<close>

text \<open>
  Models \<open>internal/store/reauth.go\<close>.  The marker is the durable, fail-closed sign of an
  interrupted session transition: \<open>Load\<close> reports a malformed marker as an error, and
  \<open>Required\<close> counts an unreadable one as required.  The store interprets the contract of
  theory \<open>Durable\<close> with the optional record as its value; clearing removes the file.
\<close>

subsection \<open>State and operations\<close>

record reauth_record =
  Version :: int
  InvalidTokenSHA256 :: string
  RecAccountID :: string
  ContextPaths :: "string list"

record reauth_store =
  rs_path :: path
  rs_state :: "reauth_record option"

definition reauth_state_version :: int where
  "reauth_state_version = 1"

definition reauth_state_path :: "path \<Rightarrow> path" where
  "reauth_state_path credentialsPath = credentialsPath @ ''.reauth.json''"

definition new_reauth_store :: "path \<Rightarrow> reauth_store" where
  "new_reauth_store p = \<lparr>rs_path = p, rs_state = None\<rparr>"

text \<open>The fields marked \<open>omitempty\<close> are left out when empty.\<close>

definition enc_reauth :: "reauth_record \<Rightarrow> json" where
  "enc_reauth r = JObj ([(''version'', JInt (Version r))] @
     (if InvalidTokenSHA256 r = [] then [] else [(''invalid_token_sha256'', enc_str (InvalidTokenSHA256 r))]) @
     (if RecAccountID r = [] then [] else [(''account_id'', enc_str (RecAccountID r))]) @
     (if ContextPaths r = [] then [] else [(''context_paths'', JArr (map enc_str (ContextPaths r)))]))"

definition dec_reauth_fields :: "(string \<times> json) list \<Rightarrow> goerr + reauth_record" where
  "dec_reauth_fields kvs =
     (case dec_field (\<lambda>_. dec_int64) 0 ''version'' kvs of Inl e \<Rightarrow> Inl e | Inr ver \<Rightarrow>
     (case dec_field (\<lambda>_. dec_str) [] ''invalid_token_sha256'' kvs of Inl e \<Rightarrow> Inl e | Inr sha \<Rightarrow>
     (case dec_field (\<lambda>_. dec_str) [] ''account_id'' kvs of Inl e \<Rightarrow> Inl e | Inr acc \<Rightarrow>
     (case dec_field (\<lambda>_. dec_list dec_str []) [] ''context_paths'' kvs of Inl e \<Rightarrow> Inl e | Inr paths \<Rightarrow>
       Inr \<lparr>Version = ver, InvalidTokenSHA256 = sha, RecAccountID = acc, ContextPaths = paths\<rparr>))))"

text \<open>\<open>hex.DecodeString\<close> succeeds and gives 32 bytes.\<close>

definition is_hex_digit :: "char \<Rightarrow> bool" where
  "is_hex_digit c \<longleftrightarrow> is_digit c \<or> (97 \<le> byte_val c \<and> byte_val c \<le> 102) \<or> (65 \<le> byte_val c \<and> byte_val c \<le> 70)"

definition is_fingerprint :: "string \<Rightarrow> bool" where
  "is_fingerprint s \<longleftrightarrow> length s = 64 \<and> list_all is_hex_digit s"

definition check_reauth :: "reauth_record \<Rightarrow> goerr option" where
  "check_reauth r =
     (if Version r \<noteq> reauth_state_version
      then Some (Msg (''unsupported reauthentication marker version '' @ dec_int (Version r)))
      else if InvalidTokenSHA256 r \<noteq> [] \<and> \<not> is_fingerprint (InvalidTokenSHA256 r)
      then Some (Msg ''invalid reauthentication token fingerprint'')
      else None)"

definition dec_reauth :: "content \<Rightarrow> goerr + reauth_record" where
  "dec_reauth c =
     (case unmarshal c of Inl e \<Rightarrow> Inl (Wrapf ''decode reauthentication marker: '' e [])
      | Inr j \<Rightarrow> (case dec_struct dec_reauth_fields j of
          Inl e \<Rightarrow> Inl (Wrapf ''decode reauthentication marker: '' e [])
        | Inr r \<Rightarrow> (case check_reauth r of Some e \<Rightarrow> Inl e | None \<Rightarrow> Inr r)))"

definition reauth_load :: "os_env \<Rightarrow> reauth_store \<Rightarrow> world \<Rightarrow>
    (goerr + reauth_record option) \<times> reauth_store \<times> world" where
  "reauth_load E s w =
     (case os_read_file (resolve E (rs_path s)) w of
        (ReadMissing, w) \<Rightarrow> (Inr None, s\<lparr>rs_state := None\<rparr>, w)
      | (ReadErr e, w) \<Rightarrow> (Inl (Wrapf ''read reauthentication marker: '' e []), s, w)
      | (ReadData c, w) \<Rightarrow>
          (case dec_reauth c of
             Inl e \<Rightarrow> (Inl e, s, w)
           | Inr r \<Rightarrow> (Inr (Some r), s\<lparr>rs_state := Some r\<rparr>, w)))"

definition reauth_required :: "os_env \<Rightarrow> reauth_store \<Rightarrow> world \<Rightarrow> bool \<times> world" where
  "reauth_required E s w =
     (if rs_state s \<noteq> None then (True, w) else os_exists (resolve E (rs_path s)) w)"

definition reauth_mark :: "os_env \<Rightarrow> reauth_record \<Rightarrow> reauth_store \<Rightarrow> world \<Rightarrow>
    goerr option \<times> reauth_store \<times> world" where
  "reauth_mark E r s w =
     (let r = r\<lparr>Version := reauth_state_version\<rparr>
      in write_through ''write reauthentication marker: '' (resolve E (rs_path s)) (enc_reauth r)
           s (s\<lparr>rs_state := Some r\<rparr>) w)"

definition reauth_clear :: "os_env \<Rightarrow> reauth_store \<Rightarrow> world \<Rightarrow> goerr option \<times> reauth_store \<times> world" where
  "reauth_clear E s w =
     (case os_remove (Named (resolve E (rs_path s))) w of
        (RemoveErr e, w) \<Rightarrow> (Some (Wrapf ''remove reauthentication marker: '' e []), s, w)
      | (Removed, w) \<Rightarrow> (None, s\<lparr>rs_state := None\<rparr>, w)
      | (RemoveMissing, w) \<Rightarrow> (None, s\<lparr>rs_state := None\<rparr>, w))"

lemmas reauth_store_defs [store_defs] =
  reauth_load_def reauth_required_def reauth_mark_def reauth_clear_def

subsection \<open>The marker on disk\<close>

text \<open>What a marker must satisfy to be read back as it was written.\<close>

definition valid_marker :: "reauth_record \<Rightarrow> bool" where
  "valid_marker r \<longleftrightarrow> Version r = reauth_state_version \<and>
     (InvalidTokenSHA256 r = [] \<or> is_fingerprint (InvalidTokenSHA256 r)) \<and>
     valid_utf8 (RecAccountID r) \<and> (\<forall>p\<in>set (ContextPaths r). valid_utf8 p)"

lemma hex_digit_ascii: "is_hex_digit c \<Longrightarrow> byte_val c < 128"
  by (auto simp: is_hex_digit_def is_digit_def)

lemma fingerprint_utf8: "is_fingerprint s \<Longrightarrow> valid_utf8 s"
  by (rule valid_utf8_ascii) (auto simp: is_fingerprint_def list_all_iff is_ascii_def hex_digit_ascii)

lemma dec_reauth_written: "valid_marker r \<Longrightarrow> dec_reauth (CDoc (enc_reauth r)) = Inr r"
proof -
  assume v: "valid_marker r"
  then have utf8: "valid_utf8 (InvalidTokenSHA256 r)"
    by (auto simp: valid_marker_def fingerprint_utf8)
  from v have "dec_list dec_str [] (JArr (map enc_str (ContextPaths r))) = Inr (ContextPaths r)"
    by (intro dec_list_enc_str) (simp add: valid_marker_def)
  with v utf8 have "dec_struct dec_reauth_fields (enc_reauth r) = Inr r"
    by (auto simp: enc_reauth_def dec_struct_def dec_reauth_fields_def dec_field_def
        field_values_def key_matches_def ascii_lower_def ascii_lower_byte_def is_upper_letter_def
        valid_marker_def reauth_state_version_def dec_int64_def in_int64_def enc_str_def dec_str_def)
  moreover have "check_reauth r = None"
    using v by (auto simp: check_reauth_def valid_marker_def)
  ultimately show ?thesis by (simp add: dec_reauth_def)
qed

definition read_marker :: "content option \<Rightarrow> reauth_record option option" where
  "read_marker c =
     (case c of None \<Rightarrow> Some None
      | Some c \<Rightarrow> (case dec_reauth c of Inl e \<Rightarrow> None | Inr r \<Rightarrow> Some (Some r)))"

lemma read_marker_missing [simp]: "read_marker None = Some None"
  by (simp add: read_marker_def)

lemma read_marker_written [simp]: "valid_marker r \<Longrightarrow> read_marker (Some (CDoc (enc_reauth r))) = Some (Some r)"
  by (simp add: read_marker_def dec_reauth_written)

subsection \<open>The contract\<close>

datatype reauth_op = RMark reauth_record | RClear

fun reauth_exec :: "os_env \<Rightarrow> reauth_op \<Rightarrow> reauth_store \<Rightarrow> world \<Rightarrow> goerr option \<times> reauth_store \<times> world" where
  "reauth_exec E (RMark r) s w = reauth_mark E r s w"
| "reauth_exec E RClear s w = reauth_clear E s w"

fun reauth_effect :: "reauth_op \<Rightarrow> reauth_record option \<Rightarrow> reauth_record option" where
  "reauth_effect (RMark r) m = Some (r\<lparr>Version := reauth_state_version\<rparr>)"
| "reauth_effect RClear m = None"

fun valid_reauth_op :: "reauth_op \<Rightarrow> bool" where
  "valid_reauth_op (RMark r) = valid_marker (r\<lparr>Version := reauth_state_version\<rparr>)"
| "valid_reauth_op RClear = True"

definition valid_reauth_state :: "reauth_record option \<Rightarrow> bool" where
  "valid_reauth_state m \<longleftrightarrow> (case m of None \<Rightarrow> True | Some r \<Rightarrow> valid_marker r)"

definition reauth_reload :: "os_env \<Rightarrow> reauth_store \<Rightarrow> world \<Rightarrow> goerr option \<times> reauth_store \<times> world" where
  "reauth_reload E s w =
     (case reauth_load E s w of (Inl e, s, w) \<Rightarrow> (Some e, s, w) | (Inr _, s, w) \<Rightarrow> (None, s, w))"

lemma os_remove_spec:
  assumes "os_remove (Named p) w = (r, w')"
  shows "evolves (\<lambda>fs. (fs (Named p) = file_at w p \<or> (r = Removed \<and> fs (Named p) = None)) \<and>
      named_except p (files w) fs) w w'"
    and "file_at w' p = (case r of RemoveErr e \<Rightarrow> file_at w p | _ \<Rightarrow> None)"
    and "q \<noteq> p \<Longrightarrow> file_at w' q = file_at w q"
  using assms
  by (auto simp: os_remove_def os_call_def named_except_def split: option.splits if_splits
      intro!: evolves_steps)

lemma reauth_clear_spec:
  assumes "reauth_clear E s w = (r, s', w')"
  shows "s' = (if r = None then s\<lparr>rs_state := None\<rparr> else s)"
    and "file_at w' (resolve E (rs_path s)) = (if r = None then None else file_at w (resolve E (rs_path s)))"
    and "evolves (\<lambda>fs. fs (Named (resolve E (rs_path s))) \<in>
        {file_at w (resolve E (rs_path s)), file_at w' (resolve E (rs_path s))} \<and>
      named_except (resolve E (rs_path s)) (files w) fs) w w'"
proof -
  let ?p = "resolve E (rs_path s)"
  obtain x u where rm: "os_remove (Named ?p) w = (x, u)" by fastforce
  note sp = os_remove_spec [OF rm]
  with assms rm show "s' = (if r = None then s\<lparr>rs_state := None\<rparr> else s)"
    by (auto simp: reauth_clear_def split: remove_result.splits)
  from assms rm sp(2) show "file_at w' ?p = (if r = None then None else file_at w ?p)"
    by (auto simp: reauth_clear_def split: remove_result.splits)
  have "w' = u" using assms rm by (auto simp: reauth_clear_def split: remove_result.splits)
  with sp(1,2) show "evolves (\<lambda>fs. fs (Named ?p) \<in> {file_at w ?p, file_at w' ?p} \<and> named_except ?p (files w) fs) w w'"
    by (auto elim!: evolves_mono split: remove_result.splits)
qed

lemma reauth_mark_spec:
  assumes "reauth_mark E r s w = (x, s', w')"
  shows "s' = (if x = None then s\<lparr>rs_state := Some (r\<lparr>Version := reauth_state_version\<rparr>)\<rparr> else s)"
    and "file_at w' (resolve E (rs_path s)) =
      (if x = None then Some (CDoc (enc_reauth (r\<lparr>Version := reauth_state_version\<rparr>)))
       else file_at w (resolve E (rs_path s)))"
    and "evolves (write_ok x (resolve E (rs_path s)) (enc_reauth (r\<lparr>Version := reauth_state_version\<rparr>)) (files w)) w w'"
  using write_through_spec [OF assms [unfolded reauth_mark_def Let_def]] by simp_all

lemma reauth_exec_result:
  assumes "reauth_exec E a s w = (x, s', w')"
  shows "rs_path s' = rs_path s" and "rs_state s' = (if x = None then reauth_effect a (rs_state s) else rs_state s)"
    and "x \<noteq> None \<Longrightarrow> s' = s"
  using assms
  by (cases a; auto dest!: reauth_clear_spec(1) reauth_mark_spec(1) split: if_splits)+

lemma reauth_exec_disk:
  assumes ex: "reauth_exec E a s w = (x, s', w')" and "valid_reauth_op a"
    and now: "read_marker (file_at w (resolve E (rs_path s))) = Some (rs_state s)"
  shows "read_marker (file_at w' (resolve E (rs_path s))) = Some (rs_state s') \<and>
    evolves (\<lambda>fs. read_marker (fs (Named (resolve E (rs_path s)))) \<in> {Some (rs_state s), Some (rs_state s')} \<and>
      named_except (resolve E (rs_path s)) (files w) fs) w w'"
proof (cases a)
  case (RMark r)
  with ex have wr: "write_through ''write reauthentication marker: '' (resolve E (rs_path s))
      (enc_reauth (r\<lparr>Version := reauth_state_version\<rparr>)) s
      (s\<lparr>rs_state := Some (r\<lparr>Version := reauth_state_version\<rparr>)\<rparr>) w = (x, s', w')"
    by (simp add: reauth_mark_def Let_def)
  show ?thesis
    using write_through_disk [OF wr, of read_marker rs_state] now assms(2) RMark by simp
next
  case RClear
  with ex have cl: "reauth_clear E s w = (x, s', w')" by simp
  note sp = reauth_clear_spec [OF cl]
  have "read_marker (file_at w' (resolve E (rs_path s))) = Some (rs_state s')"
    using sp(1,2) now by auto
  with sp(3) now show ?thesis by (auto elim!: evolves_mono)
qed

lemma reauth_loadD:
  assumes "reauth_load E s w = (Inr m, s', w')"
  shows "read_marker (file_at w (resolve E (rs_path s))) = Some m" and "rs_state s' = m"
    and "rs_path s' = rs_path s" and "files w' = files w"
  using assms
  by (auto simp: reauth_load_def os_read_file_def read_marker_def dest!: os_callD
      split: prod.splits option.splits sum.splits read_result.splits)

lemma reauth_load_frame:
  assumes "reauth_load E s w = (r, s', w')"
  shows "rs_path s' = rs_path s" and "files w' = files w" and "evolves P w w'"
    and "(\<exists>e. r = Inl e) \<Longrightarrow> s' = s"
  using assms
  by (auto simp: reauth_load_def os_read_file_def dest!: os_callD
      split: prod.splits option.splits sum.splits read_result.splits)

lemma reauth_load_total:
  "no_faults w \<Longrightarrow> read_marker (file_at w (resolve E (rs_path s))) = Some m \<Longrightarrow>
   \<exists>s' w'. reauth_load E s w = (Inr m, s', w')"
  by (auto simp: reauth_load_def os_read_file_def read_marker_def os_call_def no_faults_def
      split: option.splits sum.splits)

interpretation reauth_durable: durable_store
  "\<lambda>s. resolve E (rs_path s)" "\<lambda>s. ()" rs_state read_marker valid_reauth_state valid_reauth_op
  "\<lambda>_. reauth_effect" "reauth_exec E" "reauth_reload E" "\<lambda>_ m. m"
  for E
proof unfold_locales
  fix a s w r s' w' e v
  show "resolve E (rs_path s') = resolve E (rs_path s)" if "reauth_exec E a s w = (r, s', w')"
    using reauth_exec_result(1) [OF that] by simp
  show "() = ()" by simp
  show "rs_state s' = reauth_effect a (rs_state s)" if "reauth_exec E a s w = (None, s', w')"
    using reauth_exec_result(2) [OF that] by simp
  show "s' = s" if "reauth_exec E a s w = (Some e, s', w')"
    using reauth_exec_result(3) [OF that] by simp
  show "valid_reauth_state (reauth_effect a (rs_state s))"
    if "valid_reauth_state (rs_state s)" "valid_reauth_op a"
    using that by (cases a) (simp_all add: valid_reauth_state_def)
  show "read_marker (file_at w' (resolve E (rs_path s))) = Some (rs_state s') \<and>
    evolves (\<lambda>fs. read_marker (fs (Named (resolve E (rs_path s)))) \<in> {Some (rs_state s), Some (rs_state s')} \<and>
      named_except (resolve E (rs_path s)) (files w) fs) w w'"
    if "reauth_exec E a s w = (r, s', w')" "valid_reauth_state (rs_state s)" "valid_reauth_op a"
      "read_marker (file_at w (resolve E (rs_path s))) = Some (rs_state s)"
    using that(1,3,4) by (rule reauth_exec_disk)
  show "rs_state s' = v" if "reauth_reload E s w = (None, s', w')"
    "read_marker (file_at w (resolve E (rs_path s))) = Some v"
    using that reauth_loadD(1,2) [of E s w _ s' w']
    by (fastforce simp: reauth_reload_def split: prod.splits sum.splits)
  show "fst (reauth_reload E s w) = None" if "no_faults w"
    "read_marker (file_at w (resolve E (rs_path s))) = Some v"
    using reauth_load_total [OF that] by (auto simp: reauth_reload_def)
qed

subsection \<open>Fail closed\<close>

lemma os_existsD:
  "os_exists p w = (False, w') \<Longrightarrow> file_at w p = None"
  by (auto simp: os_exists_def os_call_def split: option.splits)

lemma os_exists_present: "file_at w p \<noteq> None \<Longrightarrow> fst (os_exists p w)"
  by (auto simp: os_exists_def os_call_def split: option.splits)

text \<open>A run of marks: the acknowledged ones, and what they leave.\<close>

lemma run_marks_acked:
  "run_ops (reauth_exec E) (map RMark recs) s w = (acked, s', w') \<Longrightarrow>
   \<exists>ms. acked = map RMark ms \<and> set ms \<subseteq> set recs"
proof (induction recs arbitrary: s w acked)
  case (Cons r recs)
  then obtain x s1 w1 acked1 where "reauth_mark E r s w = (x, s1, w1)"
    "run_ops (reauth_exec E) (map RMark recs) s1 w1 = (acked1, s', w')"
    "acked = (if x = None then RMark r # acked1 else acked1)"
    by (auto split: prod.splits option.splits)
  moreover from Cons.IH [OF this(2)] obtain ms where "acked1 = map RMark ms" "set ms \<subseteq> set recs"
    by blast
  ultimately show ?case
    by (intro exI [of _ "if x = None then r # ms else ms"]) auto
qed simp

lemma marks_effect:
  "fold reauth_effect (map RMark recs) (Some (r\<lparr>Version := reauth_state_version\<rparr>)) =
   Some (last (r # recs)\<lparr>Version := reauth_state_version\<rparr>)"
  by (induction recs arbitrary: r) auto

lemma read_marker_present:
  assumes "read_marker (files v (Named (resolve E p))) = Some (Some q)"
  shows "fst (reauth_required E (new_reauth_store p) v)"
    and "reauth_load E (new_reauth_store p) v \<noteq> (Inr None, t, v')"
proof -
  from assms have "file_at v (resolve E p) \<noteq> None" by (auto simp: read_marker_def split: option.splits)
  then show "fst (reauth_required E (new_reauth_store p) v)"
    by (simp add: reauth_required_def new_reauth_store_def os_exists_present)
  show "reauth_load E (new_reauth_store p) v \<noteq> (Inr None, t, v')"
    using assms reauth_loadD(1) [of E "new_reauth_store p" v None t v']
    by (auto simp: new_reauth_store_def)
qed

text \<open>C21: the marker is fail-closed over a restart.  Once a mark is acknowledged, through any
  further marks and write failures, every file system state a crash can leave behind makes a
  fresh store report that reauthentication is required and never load as inactive; a load that
  succeeds returns the last acknowledged marker.\<close>

theorem marker_fail_closed:
  assumes "valid_reauth_state (rs_state s)"
    and "read_marker (file_at w (resolve E (rs_path s))) = Some (rs_state s)"
    and "\<forall>r\<in>set (r # recs). valid_reauth_op (RMark r)"
    and "reauth_mark E r s w = (None, s1, w1)"
    and "run_ops (reauth_exec E) (map RMark recs) s1 w1 = (acked, s', w')"
  shows "\<exists>ms. acked = map RMark ms \<and>
    evolves (\<lambda>fs. \<forall>v t v'. files v = fs \<longrightarrow>
      fst (reauth_required E (new_reauth_store (rs_path s)) v) \<and>
      reauth_load E (new_reauth_store (rs_path s)) v \<noteq> (Inr None, t, v')) w1 w' \<and>
    (\<forall>m t v'. reauth_load E (new_reauth_store (rs_path s)) w' = (Inr m, t, v') \<longrightarrow>
      m = Some (last (r # ms)\<lparr>Version := reauth_state_version\<rparr>))"
proof -
  let ?p = "resolve E (rs_path s)"
  have path: "rs_path s1 = rs_path s"
    and st: "rs_state s1 = Some (r\<lparr>Version := reauth_state_version\<rparr>)"
    using reauth_mark_spec(1) [OF assms(4)] by auto
  have "reauth_durable.synced E s w" using assms(1,2) by (simp add: reauth_durable.synced_def)
  then have sync: "reauth_durable.synced E s1 w1"
    by (rule reauth_durable.exec_synced [where a = "RMark r"]) (use assms(3,4) in simp_all)
  have "\<forall>a\<in>set (map RMark recs). valid_reauth_op a" using assms(3) by auto
  note run = reauth_durable.run_synced [OF sync this assms(5)]
  from run_marks_acked [OF assms(5)] obtain ms where acked: "acked = map RMark ms" by blast
  have "evolves (\<lambda>fs. \<exists>q. read_marker (fs (Named ?p)) = Some (Some q)) w1 w'"
  proof (rule evolves_mono [OF conjunct2 [OF conjunct2 [OF conjunct2 [OF run]]]])
    fix fs
    assume "reauth_durable.reads_prefix E s1 w1 acked fs"
    then show "\<exists>q. read_marker (fs (Named ?p)) = Some (Some q)"
      by (auto simp: reauth_durable.reads_prefix_def path st acked take_map marks_effect)
  qed
  then have crash: "evolves (\<lambda>fs. \<forall>v t v'. files v = fs \<longrightarrow>
      fst (reauth_required E (new_reauth_store (rs_path s)) v) \<and>
      reauth_load E (new_reauth_store (rs_path s)) v \<noteq> (Inr None, t, v')) w1 w'"
    by (rule evolves_mono) (use read_marker_present in blast)
  have end_m: "read_marker (file_at w' ?p) = Some (Some (last (r # ms)\<lparr>Version := reauth_state_version\<rparr>))"
    using run by (auto simp: reauth_durable.synced_def path st acked marks_effect split: if_splits)
  have "m = Some (last (r # ms)\<lparr>Version := reauth_state_version\<rparr>)"
    if "reauth_load E (new_reauth_store (rs_path s)) w' = (Inr m, t, v')" for m t v'
    using reauth_loadD(1) [OF that] end_m by (simp add: new_reauth_store_def)
  with crash acked show ?thesis by blast
qed

definition sample_marker :: reauth_record where
  "sample_marker = \<lparr>Version = 0, InvalidTokenSHA256 = [], RecAccountID = ''acc'', ContextPaths = [''/tokens.json'']\<rparr>"

theorem marker_fail_closed_witness:
  "\<exists>s1 w1 acked s' w'. reauth_mark sample_env sample_marker (new_reauth_store ''/c.reauth.json'') quiet_world = (None, s1, w1) \<and>
    run_ops (reauth_exec sample_env) (map RMark [sample_marker]) s1 w1 = (acked, s', w') \<and>
    (\<forall>m t v'. reauth_load sample_env (new_reauth_store ''/c.reauth.json'') w' = (Inr m, t, v') \<longrightarrow>
      m = Some (sample_marker\<lparr>Version := 1\<rparr>))"
proof -
  let ?s = "new_reauth_store ''/c.reauth.json''"
  have "fst (reauth_mark sample_env sample_marker ?s quiet_world) = None"
    by (simp add: reauth_mark_def Let_def write_through_ok)
  then obtain s1 w1 where run: "reauth_mark sample_env sample_marker ?s quiet_world = (None, s1, w1)"
    by (metis fst_conv prod_cases3)
  have 1: "valid_reauth_state (rs_state ?s)" by (simp add: new_reauth_store_def valid_reauth_state_def)
  have 2: "read_marker (file_at quiet_world (resolve sample_env (rs_path ?s))) = Some (rs_state ?s)"
    by (simp add: new_reauth_store_def quiet_world_def empty_world_def)
  have 3: "\<forall>r\<in>set [sample_marker, sample_marker]. valid_reauth_op (RMark r)"
    by (simp add: sample_marker_def valid_marker_def valid_utf8_ascii is_ascii_def)
  obtain acked s' w' where rest: "run_ops (reauth_exec sample_env) (map RMark [sample_marker]) s1 w1 = (acked, s', w')"
    by (metis prod_cases3)
  from marker_fail_closed [OF 1 2 3 run rest] obtain ms where
    ms: "acked = map RMark ms" "\<forall>m t v'. reauth_load sample_env (new_reauth_store (rs_path ?s)) w' = (Inr m, t, v') \<longrightarrow>
      m = Some (last (sample_marker # ms)\<lparr>Version := reauth_state_version\<rparr>)"
    by blast
  from run_marks_acked [OF rest] ms(1) have "set ms \<subseteq> {sample_marker}"
    by (auto simp: inj_map_eq_map inj_def)
  then have "last (sample_marker # ms) = sample_marker"
    by (cases ms rule: rev_cases) auto
  with run rest ms(2) show ?thesis
    by (auto simp: new_reauth_store_def reauth_state_version_def)
qed

end
