(* ===== verification/AuthLogin.thy ===== *)
theory AuthLogin
  imports ReauthStore
begin

section \<open>Credentials and QR login\<close>

text \<open>
  Models \<open>internal/auth/login.go\<close>.  The server, the person who scans the code and the
  verify-code prompt are a script: the replies to \<open>GetQRCode\<close>, the replies to
  \<open>PollQRStatus\<close> and the entered codes, each consumed in order.  A login whose script runs
  out is still waiting (\<open>LBlocked\<close>), so nothing is assumed about the server.  Requests and
  callbacks are recorded in a trace, newest first.  The deadline of the context shows as an
  error reply; \<open>time.Sleep\<close> has no effect in the model.
\<close>

subsection \<open>Credentials\<close>

record credentials =
  cr_token :: string
  cr_base_url :: string
  cr_account_id :: string
  cr_user_id :: string
  cr_saved_at :: string

definition enc_creds :: "credentials \<Rightarrow> json" where
  "enc_creds c = JObj ([(''token'', enc_str (cr_token c)), (''baseUrl'', enc_str (cr_base_url c)),
     (''accountId'', enc_str (cr_account_id c)), (''userId'', enc_str (cr_user_id c))] @
     (if cr_saved_at c = [] then [] else [(''savedAt'', enc_str (cr_saved_at c))]))"

definition dec_creds_fields :: "(string \<times> json) list \<Rightarrow> goerr + credentials" where
  "dec_creds_fields kvs =
     (case dec_field (\<lambda>_. dec_str) [] ''token'' kvs of Inl e \<Rightarrow> Inl e | Inr tok \<Rightarrow>
     (case dec_field (\<lambda>_. dec_str) [] ''baseUrl'' kvs of Inl e \<Rightarrow> Inl e | Inr base \<Rightarrow>
     (case dec_field (\<lambda>_. dec_str) [] ''accountId'' kvs of Inl e \<Rightarrow> Inl e | Inr acc \<Rightarrow>
     (case dec_field (\<lambda>_. dec_str) [] ''userId'' kvs of Inl e \<Rightarrow> Inl e | Inr usr \<Rightarrow>
     (case dec_field (\<lambda>_. dec_str) [] ''savedAt'' kvs of Inl e \<Rightarrow> Inl e | Inr saved \<Rightarrow>
       Inr \<lparr>cr_token = tok, cr_base_url = base, cr_account_id = acc, cr_user_id = usr,
            cr_saved_at = saved\<rparr>)))))"

definition dec_creds :: "content \<Rightarrow> goerr + credentials" where
  "dec_creds c = (case unmarshal c of Inl e \<Rightarrow> Inl e | Inr j \<Rightarrow> dec_struct dec_creds_fields j)"

definition credential_file :: "os_env \<Rightarrow> path \<Rightarrow> path" where
  "credential_file E p = resolve E (if p = [] then default_cred_path E else p)"

definition load_credentials :: "os_env \<Rightarrow> path \<Rightarrow> world \<Rightarrow> (goerr + credentials option) \<times> world" where
  "load_credentials E p w =
     (case os_read_file (credential_file E p) w of
        (ReadMissing, w) \<Rightarrow> (Inr None, w)
      | (ReadErr e, w) \<Rightarrow> (Inl e, w)
      | (ReadData c, w) \<Rightarrow> (case dec_creds c of Inl e \<Rightarrow> (Inl e, w) | Inr r \<Rightarrow> (Inr (Some r), w)))"

definition save_credentials :: "os_env \<Rightarrow> credentials \<Rightarrow> path \<Rightarrow> world \<Rightarrow> goerr option \<times> world" where
  "save_credentials E c p w = write_json_atomic (credential_file E p) (Inr (enc_creds c)) w"

definition clear_credentials :: "os_env \<Rightarrow> path \<Rightarrow> world \<Rightarrow> goerr option \<times> world" where
  "clear_credentials E p w =
     (case os_remove (Named (credential_file E p)) w of
        (RemoveErr e, w) \<Rightarrow> (Some e, w)
      | (Removed, w) \<Rightarrow> (None, w)
      | (RemoveMissing, w) \<Rightarrow> (None, w))"

text \<open>\<open>creds, _ := LoadCredentials(path)\<close>: the error is dropped.\<close>

definition loaded :: "goerr + credentials option \<Rightarrow> credentials option" where
  "loaded r = (case r of Inl e \<Rightarrow> None | Inr c \<Rightarrow> c)"

subsection \<open>The login loop\<close>

record qr_status =
  qs_status :: string
  qs_bot_token :: string
  qs_bot_id :: string
  qs_user_id :: string
  qs_base_url :: string
  qs_redirect_host :: string

record qr_code =
  qc_code :: string
  qc_img_url :: string

record login_options =
  lo_base_url :: string
  lo_cred_path :: path
  lo_force :: bool
  lo_invalid_token :: string
  lo_has_verify :: bool

datatype login_event =
    EvGetQR "string list"
  | EvShowQR string
  | EvPoll string string string
  | EvStatus string
  | EvAskCode

record login_io =
  io_qr :: "(goerr + qr_code) list"
  io_poll :: "(goerr + qr_status) list"
  io_codes :: "(goerr + string) list"
  io_trace :: "login_event list"

datatype login_outcome = LErr goerr | LOk credentials | LBlocked

text \<open>The three bytes of the dash in the message.\<close>

definition em_dash :: string where
  "em_dash = [CHR 0xE2, CHR 0x80, CHR 0x94]"

definition max_qr_refresh_count :: nat where
  "max_qr_refresh_count = 3"

definition fixed_qr_base_url :: string where
  "fixed_qr_base_url = ''https://ilinkai.weixin.qq.com''"

definition default_base_url :: string where
  "default_base_url = ''https://ilinkai.weixin.qq.com''"

definition reject_invalid_token :: "string \<Rightarrow> string \<Rightarrow> goerr option" where
  "reject_invalid_token tok invalid =
     (if invalid \<noteq> [] \<and> tok = invalid then Some (Sentinel InvalidatedCredential) else None)"

definition local_token_list :: "credentials option \<Rightarrow> string list" where
  "local_token_list existing =
     (case existing of Some c \<Rightarrow> if cr_token c \<noteq> [] then [cr_token c] else [] | None \<Rightarrow> [])"

definition finalize_login :: "os_env \<Rightarrow> string \<Rightarrow> qr_status \<Rightarrow> string \<Rightarrow> path \<Rightarrow> world \<Rightarrow> login_outcome \<times> world" where
  "finalize_login E now st baseURL credPath w =
     (let c = \<lparr>cr_token = qs_bot_token st,
               cr_base_url = (if qs_base_url st \<noteq> [] then qs_base_url st else baseURL),
               cr_account_id = qs_bot_id st, cr_user_id = qs_user_id st, cr_saved_at = now\<rparr>
      in case save_credentials E c credPath w of
           (Some e, w) \<Rightarrow> (LErr (Wrapf ''save credentials: '' e []), w)
         | (None, w) \<Rightarrow> (LOk c, w))"

text \<open>Stored credentials are handed out unless their token is the rejected one.\<close>

definition checked :: "credentials \<Rightarrow> string \<Rightarrow> login_outcome" where
  "checked c invalid =
     (case reject_invalid_token (cr_token c) invalid of Some e \<Rightarrow> LErr e | None \<Rightarrow> LOk c)"

definition bound_redirect :: "os_env \<Rightarrow> login_options \<Rightarrow> credentials option \<Rightarrow> world \<Rightarrow> login_outcome \<times> world" where
  "bound_redirect E opts existing w =
     (if lo_force opts
      then (LErr (Msg ''account already bound; forced login cannot reuse existing credentials''), w)
      else (case existing of
        Some c \<Rightarrow> (checked c (lo_invalid_token opts), w)
      | None \<Rightarrow> (case load_credentials E (lo_cred_path opts) w of
            (Inr (Some c), w) \<Rightarrow> (checked c (lo_invalid_token opts), w)
          | (_, w) \<Rightarrow> (LErr (Msg ''account already bound but no local credentials found''), w))))"

text \<open>Entering a verify code: the next script entry, checked as the code checks it.\<close>

definition ask_code :: "login_options \<Rightarrow> (goerr + string) list \<Rightarrow> (login_outcome + string) \<times> (goerr + string) list" where
  "ask_code opts codes =
     (if \<not> lo_has_verify opts
      then (Inl (LErr (Msg ''verify code required but no OnVerifyCode handler configured'')), codes)
      else (case codes of
        [] \<Rightarrow> (Inl LBlocked, codes)
      | Inl e # rest \<Rightarrow> (Inl (LErr (Wrapf ''verify code input failed: '' e [])), rest)
      | Inr code # rest \<Rightarrow>
          (if code = [] then Inl (LErr (Msg ''verify code cannot be empty'')) else Inr code, rest)))"

text \<open>
  One turn of the inner loop after a reply: return a result (\<open>Inl\<close>), leave the loop for a
  new QR code (\<open>Inr None\<close>, the source's \<open>break\<close>), or poll again at a base URL with a
  pending verify code.
\<close>

definition poll_step :: "os_env \<Rightarrow> string \<Rightarrow> login_options \<Rightarrow> string \<Rightarrow> credentials option \<Rightarrow> qr_status \<Rightarrow>
    (goerr + string) list \<Rightarrow> string \<Rightarrow> login_event list \<Rightarrow> world \<Rightarrow>
    (login_outcome + (string \<times> string) option) \<times> (goerr + string) list \<times> login_event list \<times> world" where
  "poll_step E now opts baseURL existing st codes pollBase tr w =
     (if qs_status st = ''confirmed'' then
        (if qs_bot_token st = [] \<or> qs_bot_id st = [] \<or> qs_user_id st = []
         then (Inl (LErr (Msg ''login confirmed but missing credentials'')), codes, tr, w)
         else (case reject_invalid_token (qs_bot_token st) (lo_invalid_token opts) of
             Some e \<Rightarrow> (Inl (LErr e), codes, tr, w)
           | None \<Rightarrow> (case finalize_login E now st baseURL (lo_cred_path opts) w of
                 (r, w) \<Rightarrow> (Inl r, codes, tr, w))))
      else if qs_status st = ''binded_redirect'' then
        (case bound_redirect E opts existing w of (r, w) \<Rightarrow> (Inl r, codes, tr, w))
      else if qs_status st = ''need_verifycode'' then
        (case ask_code opts codes of
           (Inl r, codes) \<Rightarrow> (Inl r, codes, EvAskCode # tr, w)
         | (Inr code, codes) \<Rightarrow> (Inr (Some (pollBase, code)), codes, EvAskCode # tr, w))
      else if qs_status st = ''verify_code_blocked'' then (Inr None, codes, tr, w)
      else if qs_status st = ''scaned_but_redirect'' then
        (Inr (Some (if qs_redirect_host st \<noteq> [] then ''https://'' @ qs_redirect_host st else pollBase, [])),
         codes, tr, w)
      else if qs_status st = ''expired'' then (Inr None, codes, tr, w)
      else (Inr (Some (pollBase, [])), codes, tr, w))"

text \<open>
  The inner loop.  It ends with a result, or with \<open>None\<close> when a new QR code is needed; the
  recursion is over the replies of the server.
\<close>

fun poll_loop :: "os_env \<Rightarrow> string \<Rightarrow> login_options \<Rightarrow> string \<Rightarrow> credentials option \<Rightarrow> string \<Rightarrow>
    (goerr + qr_status) list \<Rightarrow> (goerr + string) list \<Rightarrow> string \<Rightarrow> string \<Rightarrow> string \<Rightarrow>
    login_event list \<Rightarrow> world \<Rightarrow>
    login_outcome option \<times> (goerr + qr_status) list \<times> (goerr + string) list \<times> login_event list \<times> world" where
  "poll_loop E now opts baseURL existing qrcode [] codes lastStatus pollBase pending tr w =
     (Some LBlocked, [], codes, EvPoll pollBase qrcode pending # tr, w)"
| "poll_loop E now opts baseURL existing qrcode (Inl e # polls) codes lastStatus pollBase pending tr w =
     (Some (LErr (Wrapf ''poll QR status: '' e [])), polls, codes, EvPoll pollBase qrcode pending # tr, w)"
| "poll_loop E now opts baseURL existing qrcode (Inr st # polls) codes lastStatus pollBase pending tr w =
     (case poll_step E now opts baseURL existing st codes pollBase
         ((if qs_status st \<noteq> lastStatus then [EvStatus (qs_status st)] else []) @
          EvPoll pollBase qrcode pending # tr) w of
        (Inl r, codes, tr, w) \<Rightarrow> (Some r, polls, codes, tr, w)
      | (Inr None, codes, tr, w) \<Rightarrow> (None, polls, codes, tr, w)
      | (Inr (Some (pollBase, pending)), codes, tr, w) \<Rightarrow>
          poll_loop E now opts baseURL existing qrcode polls codes (qs_status st) pollBase pending tr w)"

text \<open>The outer loop, with the number of QR codes it may still request.\<close>

fun qr_loop :: "os_env \<Rightarrow> string \<Rightarrow> login_options \<Rightarrow> string \<Rightarrow> credentials option \<Rightarrow> nat \<Rightarrow> login_io \<Rightarrow> world \<Rightarrow>
    login_outcome \<times> login_io \<times> world" where
  "qr_loop E now opts baseURL existing 0 io w =
     (LErr (Msg (''QR code expired '' @ dec_nat max_qr_refresh_count @ '' times '' @ em_dash @ '' login aborted'')), io, w)"
| "qr_loop E now opts baseURL existing (Suc n) io w =
     (let io = io\<lparr>io_trace := EvGetQR (local_token_list existing) # io_trace io\<rparr> in
      case io_qr io of
        [] \<Rightarrow> (LBlocked, io, w)
      | Inl e # qrs \<Rightarrow> (LErr (Wrapf ''get QR code: '' e []), io\<lparr>io_qr := qrs\<rparr>, w)
      | Inr qr # qrs \<Rightarrow>
         (case poll_loop E now opts baseURL existing (qc_code qr) (io_poll io) (io_codes io) []
                 fixed_qr_base_url [] (EvShowQR (qc_img_url qr) # io_trace io) w of
            (Some r, polls, codes, tr, w) \<Rightarrow>
              (r, \<lparr>io_qr = qrs, io_poll = polls, io_codes = codes, io_trace = tr\<rparr>, w)
          | (None, polls, codes, tr, w) \<Rightarrow>
              qr_loop E now opts baseURL existing n
                \<lparr>io_qr = qrs, io_poll = polls, io_codes = codes, io_trace = tr\<rparr> w))"

definition auth_login :: "os_env \<Rightarrow> string \<Rightarrow> login_options \<Rightarrow> login_io \<Rightarrow> world \<Rightarrow> login_outcome \<times> login_io \<times> world" where
  "auth_login E now opts io w =
     (let baseURL = (if lo_base_url opts = [] then default_base_url else lo_base_url opts) in
      if \<not> lo_force opts then
        (case load_credentials E (lo_cred_path opts) w of
           (r, w) \<Rightarrow> (case loaded r of
               Some c \<Rightarrow> (checked c (lo_invalid_token opts), io, w)
             | None \<Rightarrow> qr_loop E now opts baseURL None max_qr_refresh_count io w))
      else qr_loop E now opts baseURL None max_qr_refresh_count io w)"

subsection \<open>What a login returns and requests\<close>

lemma checked_ok: "checked c iv = LOk c' \<Longrightarrow> c' = c \<and> \<not> (iv \<noteq> [] \<and> cr_token c = iv)"
  by (auto simp: checked_def reject_invalid_token_def split: if_splits)

text \<open>A result that carries credentials never carries the rejected token.\<close>

definition outcome_ok :: "string \<Rightarrow> login_outcome \<Rightarrow> bool" where
  "outcome_ok invalid r \<longleftrightarrow> (case r of LOk c \<Rightarrow> \<not> (invalid \<noteq> [] \<and> cr_token c = invalid) | _ \<Rightarrow> True)"

lemma outcome_ok_simps [simp]:
  "outcome_ok iv (LErr e)" "outcome_ok iv LBlocked"
  "outcome_ok iv (LOk c) \<longleftrightarrow> \<not> (iv \<noteq> [] \<and> cr_token c = iv)"
  "outcome_ok iv (checked c iv)"
  by (simp_all add: outcome_ok_def checked_def reject_invalid_token_def)

text \<open>
  The credentials a forced login returns: freshly confirmed by one of the replies, complete,
  and on disk.
\<close>

definition confirmed_by :: "qr_status \<Rightarrow> credentials \<Rightarrow> bool" where
  "confirmed_by st c \<longleftrightarrow> qs_status st = ''confirmed'' \<and> cr_token c = qs_bot_token st \<and>
     cr_account_id c = qs_bot_id st \<and> cr_user_id c = qs_user_id st \<and>
     cr_token c \<noteq> [] \<and> cr_account_id c \<noteq> [] \<and> cr_user_id c \<noteq> []"

definition fresh :: "os_env \<Rightarrow> path \<Rightarrow> (goerr + qr_status) list \<Rightarrow> credentials \<Rightarrow> world \<Rightarrow> bool" where
  "fresh E p polls c w \<longleftrightarrow> (\<exists>st. Inr st \<in> set polls \<and> confirmed_by st c) \<and>
     file_at w (credential_file E p) = Some (CDoc (enc_creds c))"

lemma fresh_mono: "fresh E p polls c w \<Longrightarrow> set polls \<subseteq> set polls' \<Longrightarrow> fresh E p polls' c w"
  by (auto simp: fresh_def)

lemma finalize_login_spec:
  assumes "finalize_login E now st baseURL p w = (r, w')"
  shows "evolves (named_except (credential_file E p) (files w)) w w'"
    and "r = LOk c \<Longrightarrow> cr_token c = qs_bot_token st \<and> cr_account_id c = qs_bot_id st \<and>
      cr_user_id c = qs_user_id st \<and> file_at w' (credential_file E p) = Some (CDoc (enc_creds c))"
    and "r \<noteq> LBlocked" and "(\<nexists>c. r = LOk c) \<Longrightarrow> file_at w' (credential_file E p) = file_at w (credential_file E p)"
proof -
  let ?c = "\<lparr>cr_token = qs_bot_token st,
      cr_base_url = (if qs_base_url st \<noteq> [] then qs_base_url st else baseURL),
      cr_account_id = qs_bot_id st, cr_user_id = qs_user_id st, cr_saved_at = now\<rparr>"
  obtain x u where wr: "save_credentials E ?c p w = (x, u)" by fastforce
  note sp = write_json_atomic_spec [OF wr [unfolded save_credentials_def]]
  have *: "w' = u" "r = (case x of None \<Rightarrow> LOk ?c | Some e \<Rightarrow> LErr (Wrapf ''save credentials: '' e []))"
    using assms wr by (auto simp: finalize_login_def Let_def split: option.splits)
  show "evolves (named_except (credential_file E p) (files w)) w w'"
    unfolding * by (rule evolves_mono [OF sp(1)]) (auto dest: write_ok_old_or_new simp: old_or_new_def)
  show "r = LOk c \<Longrightarrow> cr_token c = qs_bot_token st \<and> cr_account_id c = qs_bot_id st \<and>
      cr_user_id c = qs_user_id st \<and> file_at w' (credential_file E p) = Some (CDoc (enc_creds c))"
    using sp(2) by (auto simp: * split: option.splits)
  show "r \<noteq> LBlocked" by (auto simp: * split: option.splits)
  show "(\<nexists>c. r = LOk c) \<Longrightarrow> file_at w' (credential_file E p) = file_at w (credential_file E p)"
    using sp(2) by (auto simp: * split: option.splits)
qed

definition cred_only :: "os_env \<Rightarrow> path \<Rightarrow> world \<Rightarrow> world \<Rightarrow> bool" where
  "cred_only E p w w' \<longleftrightarrow> evolves (named_except (credential_file E p) (files w)) w w'"

lemma cred_only_refl [simp]: "cred_only E p w w"
  by (simp add: cred_only_def)

lemma load_credentials_frame:
  "load_credentials E p w = (r, w') \<Longrightarrow> files w' = files w \<and> evolves P w w'"
  by (auto simp: load_credentials_def os_read_file_def dest!: os_callD
      split: prod.splits option.splits sum.splits read_result.splits)

text \<open>A login that returns no credentials leaves the stored ones alone.\<close>

definition kept :: "os_env \<Rightarrow> path \<Rightarrow> login_outcome \<Rightarrow> world \<Rightarrow> world \<Rightarrow> bool" where
  "kept E p r w w' \<longleftrightarrow> (\<exists>c. r = LOk c) \<or> file_at w' (credential_file E p) = file_at w (credential_file E p)"

lemma kept_refl [simp]: "kept E p r w w"
  by (simp add: kept_def)

lemma kept_files: "files w' = files w \<Longrightarrow> kept E p r w w'"
  by (simp add: kept_def)

lemma bound_redirect_frame:
  "bound_redirect E opts existing w = (r, w') \<Longrightarrow>
   files w' = files w \<and> cred_only E (lo_cred_path opts) w w' \<and> outcome_ok (lo_invalid_token opts) r \<and>
   (lo_force opts \<longrightarrow> (\<exists>e. r = LErr e))"
  by (auto simp: bound_redirect_def cred_only_def dest!: load_credentials_frame
      split: if_splits option.splits prod.splits sum.splits)

text \<open>The QR codes requested so far, with the tokens sent along.\<close>

definition qr_requests :: "login_event list \<Rightarrow> string list list" where
  "qr_requests tr = concat (map (\<lambda>e. case e of EvGetQR ts \<Rightarrow> [ts] | _ \<Rightarrow> []) tr)"

lemma qr_requests_simps [simp]:
  "qr_requests [] = []" "qr_requests (EvGetQR ts # tr) = ts # qr_requests tr"
  "qr_requests (EvShowQR u # tr) = qr_requests tr" "qr_requests (EvPoll a b c # tr) = qr_requests tr"
  "qr_requests (EvStatus u # tr) = qr_requests tr" "qr_requests (EvAskCode # tr) = qr_requests tr"
  "qr_requests (xs @ ys) = qr_requests xs @ qr_requests ys"
  by (simp_all add: qr_requests_def)

lemma poll_step_props:
  assumes "poll_step E now opts baseURL existing st codes pollBase tr w = (r, codes', tr', w')"
  shows "\<forall>x. r = Inl x \<longrightarrow> outcome_ok (lo_invalid_token opts) x"
    and "qr_requests tr' = qr_requests tr"
    and "cred_only E (lo_cred_path opts) w w'" and "r = Inr x \<Longrightarrow> w' = w"
    and "r = Inl y \<Longrightarrow> kept E (lo_cred_path opts) y w w'"
    and "lo_force opts \<Longrightarrow> r = Inl (LOk c) \<Longrightarrow> fresh E (lo_cred_path opts) [Inr st] c w'"
proof -
  consider (confirmed) "qs_status st = ''confirmed''" | (bound) "qs_status st = ''binded_redirect''"
    | (verify) "qs_status st = ''need_verifycode''"
    | (other) "qs_status st \<notin> {''confirmed'', ''binded_redirect'', ''need_verifycode''}"
    by blast
  then have "(\<forall>x. r = Inl x \<longrightarrow> outcome_ok (lo_invalid_token opts) x) \<and>
    qr_requests tr' = qr_requests tr \<and> cred_only E (lo_cred_path opts) w w' \<and>
    ((\<exists>x. r = Inr x) \<longrightarrow> w' = w) \<and> (\<forall>y. r = Inl y \<longrightarrow> kept E (lo_cred_path opts) y w w') \<and>
    (lo_force opts \<longrightarrow> (\<forall>c. r = Inl (LOk c) \<longrightarrow> fresh E (lo_cred_path opts) [Inr st] c w'))"
  proof cases
    case confirmed
    show ?thesis
    proof (cases "qs_bot_token st = [] \<or> qs_bot_id st = [] \<or> qs_user_id st = [] \<or>
        reject_invalid_token (qs_bot_token st) (lo_invalid_token opts) \<noteq> None")
      case True
      with assms confirmed show ?thesis
        by (auto simp: poll_step_def split: if_splits option.splits)
    next
      case False
      obtain x u where fin: "finalize_login E now st baseURL (lo_cred_path opts) w = (x, u)" by fastforce
      with assms confirmed False have "r = Inl x" "w' = u" "tr' = tr"
        by (simp_all add: poll_step_def)
      with False confirmed finalize_login_spec(1,2,4) [OF fin] show ?thesis
        by (cases x) (simp_all add: cred_only_def kept_def fresh_def confirmed_by_def reject_invalid_token_def
          split: if_splits)
    qed
  next
    case bound
    obtain x u where br: "bound_redirect E opts existing w = (x, u)" by fastforce
    with assms bound have "r = Inl x" "w' = u" "tr' = tr" by (simp_all add: poll_step_def)
    with bound_redirect_frame [OF br] show ?thesis by (auto simp: kept_files)
  next
    case verify
    with assms show ?thesis
      by (auto simp: poll_step_def ask_code_def split: prod.splits sum.splits if_splits list.splits)
  next
    case other
    with assms show ?thesis
      by (auto simp: poll_step_def split: if_splits)
  qed
  then show "\<forall>x. r = Inl x \<longrightarrow> outcome_ok (lo_invalid_token opts) x"
    and "qr_requests tr' = qr_requests tr"
    and "cred_only E (lo_cred_path opts) w w'" and "r = Inr x \<Longrightarrow> w' = w"
    and "r = Inl y \<Longrightarrow> kept E (lo_cred_path opts) y w w'"
    and "lo_force opts \<Longrightarrow> r = Inl (LOk c) \<Longrightarrow> fresh E (lo_cred_path opts) [Inr st] c w'"
    by blast+
qed

lemma poll_loop_props:
  assumes "poll_loop E now opts baseURL existing qrcode polls codes lastStatus pollBase pending tr w =
      (r, polls', codes', tr', w')"
  shows "(\<forall>x. r = Some x \<longrightarrow> outcome_ok (lo_invalid_token opts) x) \<and>
    set polls' \<subseteq> set polls \<and> qr_requests tr' = qr_requests tr \<and>
    cred_only E (lo_cred_path opts) w w' \<and> (r = None \<longrightarrow> w' = w) \<and>
    (\<forall>x. r = Some x \<longrightarrow> kept E (lo_cred_path opts) x w w') \<and>
    (lo_force opts \<longrightarrow> (\<forall>c. r = Some (LOk c) \<longrightarrow> fresh E (lo_cred_path opts) polls c w'))"
  using assms
proof (induction polls arbitrary: codes lastStatus pollBase pending tr w)
  case Nil
  then show ?case by auto
next
  case (Cons reply polls)
  show ?case
  proof (cases reply)
    case (Inl e)
    with Cons.prems show ?thesis by auto
  next
    case (Inr st)
    let ?tr = "(if qs_status st \<noteq> lastStatus then [EvStatus (qs_status st)] else []) @
        EvPoll pollBase qrcode pending # tr"
    obtain x codes1 tr1 w1 where
      step: "poll_step E now opts baseURL existing st codes pollBase ?tr w = (x, codes1, tr1, w1)"
      by (metis prod_cases4)
    note sp = poll_step_props [OF step]
    consider (ret) y where "x = Inl y" | (leave) "x = Inr None" | (again) b p where "x = Inr (Some (b, p))"
      by (cases x) (auto, metis not_None_eq surj_pair)
    then show ?thesis
    proof cases
      case again
      with Cons.prems Inr step have
        "poll_loop E now opts baseURL existing qrcode polls codes1 (qs_status st) b p tr1 w1 =
          (r, polls', codes', tr', w')" by simp
      note IH = Cons.IH [OF this]
      with sp(2) sp(4) [of "Some (b, p)"] again show ?thesis by (auto simp: fresh_def)
    qed (use Cons.prems Inr step sp in \<open>auto simp: fresh_def\<close>)
  qed
qed

lemma qr_loop_props:
  "qr_loop E now opts baseURL existing n io w = (r, io', w') \<Longrightarrow>
   outcome_ok (lo_invalid_token opts) r \<and> set (io_poll io') \<subseteq> set (io_poll io) \<and>
   (\<exists>m\<le>n. qr_requests (io_trace io') = replicate m (local_token_list existing) @ qr_requests (io_trace io)) \<and>
   cred_only E (lo_cred_path opts) w w' \<and> kept E (lo_cred_path opts) r w w' \<and>
   (lo_force opts \<longrightarrow> (\<forall>c. r = LOk c \<longrightarrow> fresh E (lo_cred_path opts) (io_poll io) c w'))"
proof (induction n arbitrary: io w)
  case 0
  then show ?case by (auto intro: exI [of _ 0])
next
  case (Suc n)
  let ?tl = "local_token_list existing"
  have one: "\<exists>m\<le>Suc n. ?tl # xs = replicate m ?tl @ xs" for xs
    by (intro exI [of _ 1]) simp
  show ?case
  proof (cases "io_qr io")
    case Nil
    with Suc.prems one show ?thesis by (auto simp: Let_def)
  next
    case (Cons q qrs)
    show ?thesis
    proof (cases q)
      case (Inl e)
      with Suc.prems Cons one show ?thesis by (auto simp: Let_def)
    next
      case (Inr qr)
      let ?tr = "EvShowQR (qc_img_url qr) # EvGetQR ?tl # io_trace io"
      obtain x polls codes tr w1 where
        loop: "poll_loop E now opts baseURL existing (qc_code qr) (io_poll io) (io_codes io) []
          fixed_qr_base_url [] ?tr w = (x, polls, codes, tr, w1)"
        by (metis prod_cases5)
      note lp = poll_loop_props [OF loop]
      show ?thesis
      proof (cases x)
        case None
        let ?io = "\<lparr>io_qr = qrs, io_poll = polls, io_codes = codes, io_trace = tr\<rparr>"
        from Suc.prems Cons Inr loop None have "qr_loop E now opts baseURL existing n ?io w1 = (r, io', w')"
          by (simp add: Let_def)
        note IH = Suc.IH [OF this]
        from IH obtain m where "m \<le> n" "qr_requests (io_trace io') = replicate m ?tl @ qr_requests tr" by auto
        with lp have "\<exists>m\<le>Suc n. qr_requests (io_trace io') = replicate m ?tl @ qr_requests (io_trace io)"
          by (intro exI [of _ "Suc m"]) (simp add: replicate_app_Cons_same)
        moreover have "lo_force opts \<longrightarrow> (\<forall>c. r = LOk c \<longrightarrow> fresh E (lo_cred_path opts) (io_poll io) c w')"
          using IH lp by (auto intro: fresh_mono)
        moreover have "set (io_poll io') \<subseteq> set (io_poll io)"
          using IH lp by (auto dest: subsetD)
        ultimately show ?thesis using IH lp None by simp
      next
        case (Some y)
        with Suc.prems Cons Inr loop have "r = y" "w' = w1" "io_poll io' = polls" "io_trace io' = tr"
          by (auto simp: Let_def)
        with lp Some one show ?thesis by (simp)
      qed
    qed
  qed
qed

lemma auth_login_props:
  assumes "auth_login E now opts io w = (r, io', w')"
  shows "outcome_ok (lo_invalid_token opts) r"
    and "\<exists>m\<le>max_qr_refresh_count. qr_requests (io_trace io') = replicate m [] @ qr_requests (io_trace io)"
    and "cred_only E (lo_cred_path opts) w w'" and "kept E (lo_cred_path opts) r w w'"
    and "lo_force opts \<Longrightarrow> r = LOk c \<Longrightarrow> fresh E (lo_cred_path opts) (io_poll io) c w'"
proof -
  let ?base = "if lo_base_url opts = [] then default_base_url else lo_base_url opts"
  have tl: "local_token_list None = []" by (simp add: local_token_list_def)
  consider (stored) c where "\<not> lo_force opts" "r = checked c (lo_invalid_token opts)" "io' = io"
      "files w' = files w" "cred_only E (lo_cred_path opts) w w'"
    | (qr) w1 where "files w1 = files w" "cred_only E (lo_cred_path opts) w w1" "w1 = w \<or> \<not> lo_force opts"
      "qr_loop E now opts ?base None max_qr_refresh_count io w1 = (r, io', w')"
  proof (cases "lo_force opts")
    case True
    with assms show ?thesis by (intro qr [of w]) (simp_all add: auth_login_def Let_def)
  next
    case False
    obtain x w1 where ld: "load_credentials E (lo_cred_path opts) w = (x, w1)" by fastforce
    then have frame: "files w1 = files w" "cred_only E (lo_cred_path opts) w w1"
      by (auto simp: cred_only_def dest: load_credentials_frame)
    show ?thesis
    proof (cases "loaded x")
      case None
      with frame assms False ld show ?thesis by (intro qr [of w1]) (simp_all add: auth_login_def Let_def)
    next
      case (Some c)
      with frame assms False ld show ?thesis by (intro stored [of c]) (simp_all add: auth_login_def Let_def)
    qed
  qed
  then have "outcome_ok (lo_invalid_token opts) r \<and>
    (\<exists>m\<le>max_qr_refresh_count. qr_requests (io_trace io') = replicate m [] @ qr_requests (io_trace io)) \<and>
    cred_only E (lo_cred_path opts) w w' \<and> kept E (lo_cred_path opts) r w w' \<and>
    (lo_force opts \<longrightarrow> (\<forall>c. r = LOk c \<longrightarrow> fresh E (lo_cred_path opts) (io_poll io) c w'))"
  proof cases
    case stored
    then show ?thesis by (auto simp: kept_files intro: exI [of _ 0])
  next
    case qr
    note lp = qr_loop_props [OF qr(4), unfolded tl]
    have "cred_only E (lo_cred_path opts) w w'"
      using lp qr(1,2) by (auto simp: cred_only_def intro: evolves_trans)
    with lp qr(1) show ?thesis by (auto simp: kept_def)
  qed
  then show "outcome_ok (lo_invalid_token opts) r"
    and "\<exists>m\<le>max_qr_refresh_count. qr_requests (io_trace io') = replicate m [] @ qr_requests (io_trace io)"
    and "cred_only E (lo_cred_path opts) w w'" and "kept E (lo_cred_path opts) r w w'"
    and "lo_force opts \<Longrightarrow> r = LOk c \<Longrightarrow> fresh E (lo_cred_path opts) (io_poll io) c w'"
    by blast+
qed

text \<open>C22: what a login returns can be trusted.  It never hands out the token its caller has
  marked invalid, and credentials of a forced login were confirmed by a reply of this login,
  are complete, and are on disk; a login that returns no credentials leaves the stored ones
  and every other file as they were.\<close>

theorem login_credentials_trusted:
  assumes "auth_login E now opts io w = (r, io', w')"
  shows "(case r of
      LOk c \<Rightarrow> \<not> (lo_invalid_token opts \<noteq> [] \<and> cr_token c = lo_invalid_token opts) \<and>
        (lo_force opts \<longrightarrow> (\<exists>st. Inr st \<in> set (io_poll io) \<and> confirmed_by st c) \<and>
          file_at w' (credential_file E (lo_cred_path opts)) = Some (CDoc (enc_creds c)))
    | _ \<Rightarrow> file_at w' (credential_file E (lo_cred_path opts)) = file_at w (credential_file E (lo_cred_path opts))) \<and>
    (\<forall>q. q \<noteq> credential_file E (lo_cred_path opts) \<longrightarrow> file_at w' q = file_at w q)"
proof -
  note lp = auth_login_props [OF assms]
  have "named_except (credential_file E (lo_cred_path opts)) (files w) (files w')"
    using lp(3) unfolding cred_only_def by (rule evolves_files) (simp add: named_except_def)
  with lp(1,4,5) show ?thesis
    by (auto simp: outcome_ok_def kept_def fresh_def named_except_def split: login_outcome.splits)
qed

definition sample_status :: "string \<Rightarrow> qr_status" where
  "sample_status st = \<lparr>qs_status = st, qs_bot_token = ''new'', qs_bot_id = ''acc'', qs_user_id = ''usr'',
     qs_base_url = [], qs_redirect_host = []\<rparr>"

definition sample_login :: login_options where
  "sample_login = \<lparr>lo_base_url = [], lo_cred_path = ''/c.json'', lo_force = True, lo_invalid_token = ''old'',
     lo_has_verify = False\<rparr>"

definition sample_io :: login_io where
  "sample_io = \<lparr>io_qr = [Inr \<lparr>qc_code = ''q'', qc_img_url = ''u''\<rparr>, Inr \<lparr>qc_code = ''q'', qc_img_url = ''u''\<rparr>],
     io_poll = [Inr (sample_status ''wait''), Inr (sample_status ''expired''), Inr (sample_status ''confirmed'')],
     io_codes = [], io_trace = []\<rparr>"

definition sample_creds :: credentials where
  "sample_creds = \<lparr>cr_token = ''new'', cr_base_url = default_base_url, cr_account_id = ''acc'', cr_user_id = ''usr'',
      cr_saved_at = ''now''\<rparr>"

lemma sample_login_succeeds:
  assumes "no_faults w" and "lo_force opts" and "lo_invalid_token opts \<noteq> ''new''"
    and "lo_base_url opts = [] \<or> lo_base_url opts = default_base_url"
  shows "\<exists>io' w'. auth_login E ''now'' opts sample_io w = (LOk sample_creds, io', w') \<and>
     length (qr_requests (io_trace io')) = 2"
proof -
  have "fst (save_credentials E sample_creds (lo_cred_path opts) w) = None"
    using assms(1) by (simp add: save_credentials_def write_json_atomic_ok)
  then obtain u where "save_credentials E sample_creds (lo_cred_path opts) w = (None, u)"
    by (metis prod.collapse)
  with assms(2-) show ?thesis
    by (auto simp: auth_login_def sample_io_def sample_status_def max_qr_refresh_count_def sample_creds_def
        numeral_3_eq_3 poll_step_def Let_def finalize_login_def reject_invalid_token_def
        local_token_list_def)
qed

lemma sample_login_run:
  "\<exists>c io' w'. auth_login E ''now'' sample_login sample_io quiet_world = (LOk c, io', w') \<and>
     length (qr_requests (io_trace io')) = 2"
  using sample_login_succeeds [of quiet_world sample_login E] by (auto simp: sample_login_def)

theorem login_credentials_trusted_witness:
  "\<exists>c io' w'. auth_login sample_env ''now'' sample_login sample_io quiet_world = (LOk c, io', w') \<and>
     cr_token c \<noteq> ''old'' \<and>
     file_at w' (credential_file sample_env ''/c.json'') = Some (CDoc (enc_creds c))"
proof -
  obtain c io' w' where run: "auth_login sample_env ''now'' sample_login sample_io quiet_world = (LOk c, io', w')"
    using sample_login_run by blast
  with login_credentials_trusted [OF run] show ?thesis
    by (auto simp: sample_login_def)
qed

text \<open>A login requests at most three QR codes, and never offers a stored token to the
  server with any of them.\<close>

theorem login_requests_bounded:
  assumes "auth_login E now opts io w = (r, io', w')"
  shows "\<exists>m\<le>3. qr_requests (io_trace io') = replicate m [] @ qr_requests (io_trace io)"
  using auth_login_props(2) [OF assms] by (simp add: max_qr_refresh_count_def)

theorem login_requests_bounded_witness:
  "\<exists>c io' w'. auth_login sample_env ''now'' sample_login sample_io quiet_world = (LOk c, io', w') \<and>
     qr_requests (io_trace io') = [[], []]"
proof -
  obtain c io' w' where run: "auth_login sample_env ''now'' sample_login sample_io quiet_world = (LOk c, io', w')"
    and two: "length (qr_requests (io_trace io')) = 2"
    using sample_login_run by blast
  from login_requests_bounded [OF run] obtain m where
    m: "qr_requests (io_trace io') = replicate m [] @ qr_requests (io_trace sample_io)" by blast
  with two have "m = 2" by (simp add: sample_io_def)
  with m have "qr_requests (io_trace io') = [[], []]"
    by (simp add: sample_io_def numeral_2_eq_2)
  with run show ?thesis by blast
qed

end
