(* ===== verification/ReplayStore.thy ===== *)
theory ReplayStore
  imports ContextCursor
begin

section \<open>The replay store\<close>

text \<open>
  Models \<open>internal/store/replay.go\<close>.  A time is its number of nanoseconds since the epoch
  and \<open>UnixMilli\<close> rounds down to milliseconds; the current time is an argument of the
  operations that read the clock.  The lemmas give the replay window exactly and show that
  pruning only drops entries that no later look-up would accept.
\<close>

subsection \<open>State and operations\<close>

record replay_store =
  rp_path :: path
  rp_ttl :: int
  rp_seen_at :: "(string \<times> int) list"

definition unix_milli :: "int \<Rightarrow> int" where
  "unix_milli t = t div 1000000"

text \<open>\<open>DefaultReplayTTL\<close>, 24 hours.\<close>

definition default_replay_ttl :: int where
  "default_replay_ttl = 24 * 3600 * 1000000000"

definition new_replay_store :: "os_env \<Rightarrow> string \<Rightarrow> path \<Rightarrow> int \<Rightarrow> replay_store" where
  "new_replay_store E accountID p ttl =
     \<lparr>rp_path = (if p = [] then path_join [account_state_dir E accountID, ''replay_dedupe.json''] else p),
      rp_ttl = (if ttl \<le> 0 then default_replay_ttl else ttl), rp_seen_at = []\<rparr>"

definition replay_cutoff :: "int \<Rightarrow> int \<Rightarrow> int" where
  "replay_cutoff now ttl = unix_milli (now - ttl)"

definition prune_replay :: "(string \<times> int) list \<Rightarrow> int \<Rightarrow> int \<Rightarrow> (string \<times> int) list" where
  "prune_replay seen now ttl = filter (\<lambda>(key, timestamp). \<not> timestamp < replay_cutoff now ttl) seen"

definition enc_replay :: "(string \<times> int) list \<Rightarrow> json" where
  "enc_replay seen = JObj [(''seen_at'', enc_map JInt seen)]"

definition dec_replay :: "content \<Rightarrow> goerr + (string \<times> int) list" where
  "dec_replay c =
     (if c = CEmpty then Inr []
      else (case unmarshal c of Inl e \<Rightarrow> Inl e
            | Inr j \<Rightarrow> dec_struct (dec_field (dec_map dec_int64 0) [] ''seen_at'') j))"

definition replay_load :: "os_env \<Rightarrow> int \<Rightarrow> replay_store \<Rightarrow> world \<Rightarrow> goerr option \<times> replay_store \<times> world" where
  "replay_load E now s w =
     (case os_read_file (resolve E (rp_path s)) w of
        (ReadMissing, w) \<Rightarrow> (None, s\<lparr>rp_seen_at := []\<rparr>, w)
      | (ReadErr e, w) \<Rightarrow> (Some (Wrapf ''read replay state: '' e []), s, w)
      | (ReadData c, w) \<Rightarrow>
          (case dec_replay c of
             Inl e \<Rightarrow> (Some (Wrapf ''decode replay state: '' e []), s, w)
           | Inr parsed \<Rightarrow> (None, s\<lparr>rp_seen_at := prune_replay parsed now (rp_ttl s)\<rparr>, w)))"

definition seen_any :: "replay_store \<Rightarrow> int \<Rightarrow> string list \<Rightarrow> bool" where
  "seen_any s now keys =
     list_ex (\<lambda>key. key \<noteq> [] \<and>
       (case map_of (rp_seen_at s) key of None \<Rightarrow> False | Some t \<Rightarrow> replay_cutoff now (rp_ttl s) \<le> t)) keys"

definition replay_seen :: "replay_store \<Rightarrow> int \<Rightarrow> string \<Rightarrow> bool" where
  "replay_seen s now key = seen_any s now [key]"

text \<open>The loop of \<open>CommitAll\<close> over the keys.\<close>

fun mark_keys :: "int \<Rightarrow> string list \<Rightarrow> (string \<times> int) list \<Rightarrow> (string \<times> int) list" where
  "mark_keys ms [] m = m"
| "mark_keys ms (key # keys) m = (if key = [] then mark_keys ms keys m else mark_keys ms keys (AList.update key ms m))"

definition commit_all :: "os_env \<Rightarrow> int \<Rightarrow> string list \<Rightarrow> replay_store \<Rightarrow> world \<Rightarrow>
    goerr option \<times> replay_store \<times> world" where
  "commit_all E now keys s w =
     (let seen = mark_keys (unix_milli now) keys (prune_replay (rp_seen_at s) now (rp_ttl s)) in
      if \<forall>key\<in>set keys. key = [] then (None, s, w)
      else write_through ''write replay state: '' (resolve E (rp_path s)) (enc_replay seen)
             s (s\<lparr>rp_seen_at := seen\<rparr>) w)"

definition replay_commit :: "os_env \<Rightarrow> int \<Rightarrow> string \<Rightarrow> replay_store \<Rightarrow> world \<Rightarrow>
    goerr option \<times> replay_store \<times> world" where
  "replay_commit E now key s w = commit_all E now [key] s w"

lemmas replay_defs [store_defs] = replay_load_def commit_all_def replay_commit_def

subsection \<open>The window\<close>

lemma unix_milli_mono: "a \<le> b \<Longrightarrow> unix_milli a \<le> unix_milli b"
  by (simp add: unix_milli_def zdiv_mono1)

lemma replay_cutoff_mono: "a \<le> b \<Longrightarrow> replay_cutoff a ttl \<le> replay_cutoff b ttl"
  by (simp add: replay_cutoff_def unix_milli_mono)

lemma map_of_prune:
  "alist_wf m \<Longrightarrow> map_of (prune_replay m now ttl) k =
   (case map_of m k of Some t \<Rightarrow> if t < replay_cutoff now ttl then None else Some t | None \<Rightarrow> None)"
  unfolding prune_replay_def
  by (subst map_of_filter_wf) (auto split: option.split)

lemma alist_wf_prune [simp]: "alist_wf m \<Longrightarrow> alist_wf (prune_replay m now ttl)"
  by (simp add: prune_replay_def)

lemma map_of_mark_keys:
  "map_of (mark_keys ms keys m) k = (if k \<noteq> [] \<and> k \<in> set keys then Some ms else map_of m k)"
  by (induction keys arbitrary: m) (auto simp: update_conv')

lemma alist_wf_mark_keys [simp]: "alist_wf m \<Longrightarrow> alist_wf (mark_keys ms keys m)"
  by (induction keys arbitrary: m) auto

lemma commit_all_ok:
  assumes "commit_all E now keys s w = (None, s', w')"
  shows "rp_ttl s' = rp_ttl s" and "rp_path s' = rp_path s"
    and "\<exists>k\<in>set keys. k \<noteq> [] \<Longrightarrow>
      rp_seen_at s' = mark_keys (unix_milli now) keys (prune_replay (rp_seen_at s) now (rp_ttl s))"
    and "\<forall>k\<in>set keys. k = [] \<Longrightarrow> s' = s \<and> w' = w"
  using assms write_through_spec(1)
  by (auto simp: commit_all_def Let_def split: if_splits dest!: write_through_spec(1))

lemma commit_all_err: "commit_all E now keys s w = (Some e, s', w') \<Longrightarrow> s' = s"
  by (auto simp: commit_all_def Let_def split: if_splits dest!: write_through_spec(1))

lemma commit_then_seen_ex:
  assumes "alist_wf (rp_seen_at s)" and "commit_all E now keys s w = (None, s', w')"
    and "k \<noteq> []" and "now \<le> later"
  shows "seen_any s' later [k] \<longleftrightarrow>
    (if k \<in> set keys then replay_cutoff later (rp_ttl s) \<le> unix_milli now else seen_any s later [k])"
proof (cases "\<exists>k\<in>set keys. k \<noteq> []")
  case True
  note ok = commit_all_ok [OF assms(2)]
  have "replay_cutoff now (rp_ttl s) \<le> replay_cutoff later (rp_ttl s)"
    using assms(4) by (rule replay_cutoff_mono)
  then show ?thesis
    using assms(1,3) ok(1) ok(3) [OF True]
    by (auto simp: seen_any_def map_of_mark_keys map_of_prune split: option.splits if_splits)
next
  case False
  with assms show ?thesis using commit_all_ok(4) [OF assms(2)] by auto
qed

text \<open>C20: the replay window is exact.  After a successful commit at time \<open>now\<close>, a committed
  identity is recognised at a later time precisely while that time lies within the window,
  and every identity recognised before stays recognised for as long as it would have been.\<close>

theorem commit_then_seen:
  assumes "alist_wf (rp_seen_at s)" and "commit_all E now keys s w = (None, s', w')"
    and "k \<noteq> []" and "now \<le> later"
  shows "seen_any s' later [k] \<longleftrightarrow>
    (if k \<in> set keys then replay_cutoff later (rp_ttl s) \<le> unix_milli now else seen_any s later [k])"
  using assms by (rule commit_then_seen_ex)

lemma commit_all_total: "no_faults w \<Longrightarrow> fst (commit_all E now keys s w) = None"
  by (simp add: commit_all_def Let_def write_through_ok)

theorem commit_then_seen_witness:
  "\<exists>s' w'. commit_all sample_env 5000000 [''k''] (new_replay_store sample_env [] ''/replay.json'' 0)
      quiet_world = (None, s', w') \<and> seen_any s' 6000000 [''k'']"
proof -
  let ?s = "new_replay_store sample_env [] ''/replay.json'' 0"
  have "fst (commit_all sample_env 5000000 [''k''] ?s quiet_world) = None"
    by (rule commit_all_total) simp
  then obtain s' w' where run: "commit_all sample_env 5000000 [''k''] ?s quiet_world = (None, s', w')"
    by (metis fst_conv prod_cases3)
  have "alist_wf (rp_seen_at ?s)" by (simp add: new_replay_store_def)
  from commit_then_seen [OF this run, of "''k''" 6000000] have "seen_any s' 6000000 [''k'']"
    by (simp add: replay_cutoff_def unix_milli_def new_replay_store_def default_replay_ttl_def)
  with run show ?thesis by blast
qed

text \<open>A window of at least a millisecond recognises a commit at once.\<close>

lemma seen_at_once:
  assumes "0 \<le> ttl"
  shows "replay_cutoff now ttl \<le> unix_milli now"
  using assms by (simp add: replay_cutoff_def unix_milli_mono)

subsection \<open>The contract\<close>

text \<open>An operation is a commit of some identities at some time.\<close>

fun replay_exec :: "os_env \<Rightarrow> string list \<times> int \<Rightarrow> replay_store \<Rightarrow> world \<Rightarrow> goerr option \<times> replay_store \<times> world" where
  "replay_exec E (keys, now) s w = commit_all E now keys s w"

fun replay_effect :: "int \<Rightarrow> string list \<times> int \<Rightarrow> (string \<times> int) list \<Rightarrow> (string \<times> int) list" where
  "replay_effect ttl (keys, now) seen =
     (if \<forall>key\<in>set keys. key = [] then seen
      else mark_keys (unix_milli now) keys (prune_replay seen now ttl))"

definition valid_replay :: "(string \<times> int) list \<Rightarrow> bool" where
  "valid_replay m \<longleftrightarrow> alist_wf m \<and> (\<forall>(k, t)\<in>set m. valid_utf8 k \<and> in_int64 t)"

definition valid_replay_op :: "string list \<times> int \<Rightarrow> bool" where
  "valid_replay_op a \<longleftrightarrow> (\<forall>k\<in>set (fst a). valid_utf8 k) \<and> in_int64 (unix_milli (snd a))"

definition read_replay :: "content option \<Rightarrow> (string \<times> int) list option" where
  "read_replay c =
     (case c of None \<Rightarrow> Some [] | Some c \<Rightarrow> (case dec_replay c of Inl e \<Rightarrow> None | Inr m \<Rightarrow> Some m))"

lemma read_replay_written [simp]: "valid_replay m \<Longrightarrow> read_replay (Some (CDoc (enc_replay m))) = Some m"
proof -
  assume "valid_replay m"
  then have "dec_map dec_int64 0 [] (enc_map JInt m) = Inr m"
    by (intro dec_map_enc_wf) (auto simp: valid_replay_def)
  then show ?thesis
    by (simp add: read_replay_def dec_replay_def enc_replay_def dec_struct_def dec_field_def
        field_values_def key_matches_def enc_map_def)
qed

lemma valid_replay_update:
  "valid_replay m \<Longrightarrow> valid_utf8 k \<Longrightarrow> in_int64 t \<Longrightarrow> valid_replay (AList.update k t m)"
  using set_update_subset [of k t m] by (fastforce simp: valid_replay_def)

lemma valid_replay_prune: "valid_replay m \<Longrightarrow> valid_replay (prune_replay m now ttl)"
  by (auto simp: valid_replay_def prune_replay_def)

lemma valid_replay_mark:
  "valid_replay m \<Longrightarrow> \<forall>k\<in>set keys. valid_utf8 k \<Longrightarrow> in_int64 ms \<Longrightarrow> valid_replay (mark_keys ms keys m)"
  by (induction keys arbitrary: m) (auto simp: valid_replay_update)

lemma valid_replay_effect:
  "valid_replay m \<Longrightarrow> valid_replay_op a \<Longrightarrow> valid_replay (replay_effect ttl a m)"
  by (cases a) (auto simp: valid_replay_op_def valid_replay_mark valid_replay_prune)

lemma replay_exec_result:
  assumes "replay_exec E a s w = (r, s', w')"
  shows "rp_path s' = rp_path s" and "rp_ttl s' = rp_ttl s"
    and "rp_seen_at s' = (if r = None then replay_effect (rp_ttl s) a (rp_seen_at s) else rp_seen_at s)"
    and "r \<noteq> None \<Longrightarrow> s' = s"
  using assms
  by (cases a; auto simp: commit_all_def Let_def split: if_splits dest!: write_through_spec(1))+

lemma replay_exec_disk:
  assumes "replay_exec E a s w = (r, s', w')" and "valid_replay (rp_seen_at s)" and "valid_replay_op a"
    and "read_replay (file_at w (resolve E (rp_path s))) = Some (rp_seen_at s)"
  shows "read_replay (file_at w' (resolve E (rp_path s))) = Some (rp_seen_at s') \<and>
    evolves (\<lambda>fs. read_replay (fs (Named (resolve E (rp_path s)))) \<in> {Some (rp_seen_at s), Some (rp_seen_at s')} \<and>
      named_except (resolve E (rp_path s)) (files w) fs) w w'"
proof (cases "\<forall>k\<in>set (fst a). k = []")
  case True
  with assms(1) have "s' = s \<and> w' = w"
    by (cases a) (auto simp: commit_all_def Let_def)
  with assms(4) show ?thesis by simp
next
  case False
  let ?seen = "replay_effect (rp_ttl s) a (rp_seen_at s)"
  have wr: "write_through ''write replay state: '' (resolve E (rp_path s)) (enc_replay ?seen)
      s (s\<lparr>rp_seen_at := ?seen\<rparr>) w = (r, s', w')"
    using assms(1) False by (cases a) (auto simp: commit_all_def Let_def split: if_splits)
  show ?thesis
    using write_through_disk [OF wr, of read_replay rp_seen_at] assms(4)
      valid_replay_effect [OF assms(2,3), of "rp_ttl s"] by simp
qed

lemma replay_loadD:
  "replay_load E now s w = (None, s', w') \<Longrightarrow> read_replay (file_at w (resolve E (rp_path s))) = Some v \<Longrightarrow>
   rp_seen_at s' = prune_replay v now (rp_ttl s)"
  by (auto simp: replay_load_def os_read_file_def read_replay_def prune_replay_def dest!: os_callD
      split: prod.splits option.splits sum.splits read_result.splits)

lemma replay_load_total:
  "no_faults w \<Longrightarrow> read_replay (file_at w (resolve E (rp_path s))) = Some v \<Longrightarrow>
   fst (replay_load E now s w) = None"
  by (auto simp: replay_load_def os_read_file_def read_replay_def os_call_def no_faults_def
      split: option.splits sum.splits)

interpretation replay_durable: durable_store
  "\<lambda>s. resolve E (rp_path s)" rp_ttl rp_seen_at read_replay valid_replay valid_replay_op
  replay_effect "replay_exec E" "replay_load E now" "\<lambda>ttl m. prune_replay m now ttl"
  for E now
proof unfold_locales
  fix a s w r s' w' e v
  show "resolve E (rp_path s') = resolve E (rp_path s)" if "replay_exec E a s w = (r, s', w')"
    using replay_exec_result(1) [OF that] by simp
  show "rp_ttl s' = rp_ttl s" if "replay_exec E a s w = (r, s', w')"
    using replay_exec_result(2) [OF that] .
  show "rp_seen_at s' = replay_effect (rp_ttl s) a (rp_seen_at s)" if "replay_exec E a s w = (None, s', w')"
    using replay_exec_result(3) [OF that] by simp
  show "s' = s" if "replay_exec E a s w = (Some e, s', w')"
    using replay_exec_result(4) [OF that] by simp
  show "valid_replay (replay_effect (rp_ttl s) a (rp_seen_at s))"
    if "valid_replay (rp_seen_at s)" "valid_replay_op a"
    using that by (rule valid_replay_effect)
  show "read_replay (file_at w' (resolve E (rp_path s))) = Some (rp_seen_at s') \<and>
    evolves (\<lambda>fs. read_replay (fs (Named (resolve E (rp_path s)))) \<in> {Some (rp_seen_at s), Some (rp_seen_at s')} \<and>
      named_except (resolve E (rp_path s)) (files w) fs) w w'"
    if "replay_exec E a s w = (r, s', w')" "valid_replay (rp_seen_at s)" "valid_replay_op a"
      "read_replay (file_at w (resolve E (rp_path s))) = Some (rp_seen_at s)"
    using that by (rule replay_exec_disk)
  show "rp_seen_at s' = prune_replay v now (rp_ttl s)" if "replay_load E now s w = (None, s', w')"
    "read_replay (file_at w (resolve E (rp_path s))) = Some v"
    using that by (rule replay_loadD)
  show "fst (replay_load E now s w) = None" if "no_faults w"
    "read_replay (file_at w (resolve E (rp_path s))) = Some v"
    using that by (rule replay_load_total)
qed

text \<open>An identity committed before a restart is still recognised after it.  A replay store
  that is reloaded from the file after any sequence of commits, acknowledged or failed,
  recognises exactly the identities the running store recognises at that time.\<close>

theorem replay_survives_restart:
  assumes "valid_replay (rp_seen_at s)"
    and "read_replay (file_at w (resolve E (rp_path s))) = Some (rp_seen_at s)"
    and "\<forall>a\<in>set ops. valid_replay_op a"
    and "run_ops (replay_exec E) ops s w = (acked, s', w')"
    and "rp_path t = rp_path s" and "rp_ttl t = rp_ttl s"
    and "replay_load E now t w' = (None, t', w'')" and "now \<le> later"
  shows "seen_any t' later keys = seen_any s' later keys"
proof -
  have sync: "replay_durable.synced E s w"
    using assms(1,2) by (simp add: replay_durable.synced_def)
  note run = replay_durable.run_synced [OF sync assms(3,4)]
  have ttl: "rp_ttl s' = rp_ttl s"
    using assms(4)
  proof (induction ops arbitrary: s w acked)
    case (Cons a as)
    then show ?case
      by (auto split: prod.splits option.splits dest!: replay_exec_result(2))
  qed simp
  have view: "rp_seen_at t' = prune_replay (rp_seen_at s') now (rp_ttl s)"
    using replay_durable.restart_recovers [OF sync assms(3,4) _ assms(7)] run assms(5,6) by simp
  have ttl': "rp_ttl t' = rp_ttl t"
    using assms(7) by (auto simp: replay_load_def split: prod.splits read_result.splits sum.splits)
  have "alist_wf (rp_seen_at s')"
    using conjunct1 [OF run] by (simp add: replay_durable.synced_def valid_replay_def)
  moreover have "replay_cutoff now (rp_ttl s) \<le> replay_cutoff later (rp_ttl s)"
    using assms(8) by (rule replay_cutoff_mono)
  ultimately show ?thesis
    unfolding seen_any_def ttl ttl' assms(6) view
    by (intro list_ex_cong refl) (auto simp: map_of_prune split: option.splits)
qed

theorem replay_survives_restart_witness:
  "\<exists>acked s' w' t' w''. run_ops (replay_exec sample_env) [([''a''], 5000000), ([''b''], 6000000)]
      (new_replay_store sample_env [] ''/replay.json'' 0) quiet_world = (acked, s', w') \<and>
    replay_load sample_env 7000000 (new_replay_store sample_env [] ''/replay.json'' 0) w' = (None, t', w'') \<and>
    seen_any t' 8000000 [''a''] = seen_any s' 8000000 [''a'']"
proof -
  let ?s = "new_replay_store sample_env [] ''/replay.json'' 0"
  let ?ops = "[([''a''], 5000000), ([''b''], 6000000)]"
  obtain acked s' w' where run: "run_ops (replay_exec sample_env) ?ops ?s quiet_world = (acked, s', w')"
    by (metis prod_cases3)
  have data: "rp_seen_at ?s = []" by (simp add: new_replay_store_def)
  have 1: "valid_replay (rp_seen_at ?s)" by (simp add: data valid_replay_def)
  have 2: "read_replay (file_at quiet_world (resolve sample_env (rp_path ?s))) = Some (rp_seen_at ?s)"
    by (simp add: data read_replay_def quiet_world_def empty_world_def)
  have 3: "\<forall>a\<in>set ?ops. valid_replay_op a"
    by (simp add: valid_replay_op_def valid_utf8_ascii is_ascii_def in_int64_def unix_milli_def)
  have sync: "replay_durable.synced sample_env ?s quiet_world"
    using 1 2 by (simp add: replay_durable.synced_def)
  note fin = replay_durable.run_synced [OF sync 3 run]
  then have "no_faults w'"
    using no_faults_evolves [of _ quiet_world w'] by auto
  moreover have "read_replay (file_at w' (resolve sample_env (rp_path ?s))) = Some (rp_seen_at s')"
    using fin by (auto simp: replay_durable.synced_def)
  ultimately have "fst (replay_load sample_env 7000000 ?s w') = None"
    by (rule replay_load_total)
  then obtain t' w'' where load: "replay_load sample_env 7000000 ?s w' = (None, t', w'')"
    by (metis fst_conv prod_cases3)
  from replay_survives_restart [OF 1 2 3 run refl refl load, of 8000000 "[''a'']"] run load
  show ?thesis by auto
qed

end
