(* ===== verification/Session.thy ===== *)
theory Session
  imports AuthLogin ReplayStore
begin

section \<open>The session state machine: state and invalidation\<close>

text \<open>
  Models \<open>bot.go\<close>, \<open>session.go\<close> and \<open>reauth.go\<close>.  A method that runs under the locks
  \<open>sessionMu\<close> and \<open>mu\<close> is one function from the bot and the world to its result, the new
  bot and the new world.  Pointer comparison of \<open>*reauthState\<close> is comparison of \<open>rx_id\<close>,
  which is drawn from the counter \<open>b_next_id\<close>; a reauthentication state is published
  together with its final error, because every reader of the error waits until the state is
  done.  Contexts are numbers, and \<open>b_cancelled\<close> lists the cancelled ones.  In error texts a
  value printed with \<open>%q\<close> appears without escapes.
\<close>

subsection \<open>State\<close>

record options =
  o_base_url :: string
  o_account_id :: string
  o_cred_path :: path
  o_context_token_path :: path
  o_cursor_path :: path
  o_replay_path :: path
  o_has_verify :: bool

record reauth_state =
  rx_id :: nat
  rx_invalid_token :: string
  rx_invalid_sha :: string
  rx_account_id :: string
  rx_context_paths :: "path list"
  rx_generation :: "64 word"
  rx_err :: "goerr option"

record bot =
  b_opts :: options
  b_creds :: "credentials option"
  b_config_cache :: "(credentials \<times> 64 word) option"
  b_reauth :: "reauth_state option"
  b_generation :: "64 word"
  b_initialized :: bool
  b_session_context :: "nat option"
  b_context_tokens :: context_store
  b_cursor_store :: cursor_store
  b_replay_store :: replay_store
  b_reauth_store :: reauth_store
  b_running :: bool
  b_cancel_poll :: "nat option"
  b_login_mu :: bool
  b_cancelled :: "nat list"
  b_next_id :: nat

text \<open>\<open>New\<close>, as far as the state of the bot is concerned.\<close>

definition new_options :: "os_env \<Rightarrow> options \<Rightarrow> options" where
  "new_options E opts =
     (let acc = o_account_id opts;
          dflt = (\<lambda>p name. if p = [] \<and> acc \<noteq> [] then path_join [account_state_dir E acc, name] else p)
      in opts\<lparr>o_base_url := (if o_base_url opts = [] then default_base_url else o_base_url opts),
           o_cred_path := dflt (o_cred_path opts) ''credentials.json'',
           o_context_token_path := dflt (o_context_token_path opts) ''context_tokens.json'',
           o_cursor_path := dflt (o_cursor_path opts) ''cursor.json'',
           o_replay_path := dflt (o_replay_path opts) ''replay_dedupe.json''\<rparr>)"

definition new_bot :: "os_env \<Rightarrow> options \<Rightarrow> bot" where
  "new_bot E o0 =
     (let opts = new_options E o0;
          reauthCredentialPath = (if o_cred_path opts = [] then default_cred_path E else o_cred_path opts)
      in \<lparr>b_opts = opts, b_creds = None, b_config_cache = None, b_reauth = None, b_generation = 0,
          b_initialized = False, b_session_context = None,
          b_context_tokens = new_context_store E (o_account_id opts) (o_context_token_path opts),
          b_cursor_store = new_cursor_store E (o_account_id opts) (o_cursor_path opts),
          b_replay_store = new_replay_store E (o_account_id opts) (o_replay_path opts) default_replay_ttl,
          b_reauth_store = new_reauth_store (reauth_state_path reauthCredentialPath),
          b_running = False, b_cancel_poll = None, b_login_mu = False, b_cancelled = [], b_next_id = 0\<rparr>)"

subsection \<open>Tokens and reauthentication states\<close>

definition token_sha256 :: "os_env \<Rightarrow> string \<Rightarrow> string" where
  "token_sha256 E tok = (if tok = [] then [] else Sha256Hex E tok)"

definition rejects_token :: "os_env \<Rightarrow> reauth_state option \<Rightarrow> string \<Rightarrow> bool" where
  "rejects_token E st tok =
     (case st of None \<Rightarrow> False | Some s \<Rightarrow>
        tok \<noteq> [] \<and>
        ((rx_invalid_token s \<noteq> [] \<and> tok = rx_invalid_token s) \<or>
         (rx_invalid_sha s \<noteq> [] \<and> token_sha256 E tok = rx_invalid_sha s)))"

definition wait_reauth_state :: "reauth_state \<Rightarrow> goerr" where
  "wait_reauth_state s = (case rx_err s of Some e \<Rightarrow> e | None \<Rightarrow> Wrapf [] (Sentinel ReauthRequired) [])"

definition not_logged_in_error :: goerr where
  "not_logged_in_error = Wrapf [] (Sentinel NotLoggedIn) ''; call Login() first''"

definition reauth_required_now :: "os_env \<Rightarrow> bot \<Rightarrow> world \<Rightarrow> bool \<times> world" where
  "reauth_required_now E b w =
     (if b_reauth b \<noteq> None then (True, w) else reauth_required E (b_reauth_store b) w)"

subsection \<open>Paths\<close>

definition credentials_path :: "os_env \<Rightarrow> bot \<Rightarrow> path" where
  "credentials_path E b = (if o_cred_path (b_opts b) \<noteq> [] then o_cred_path (b_opts b) else default_cred_path E)"

text \<open>The loop of \<open>validateStatePaths\<close>; \<open>seen\<close> maps keys to names.\<close>

fun distinct_paths :: "os_env \<Rightarrow> (string \<times> string) list \<Rightarrow> (string \<times> path) list \<Rightarrow> goerr option" where
  "distinct_paths E seen [] = None"
| "distinct_paths E seen ((name, p) # entries) =
     (let path = canonical_state_path E p; key = state_path_key E path in
      case map_of seen key of
        Some previous \<Rightarrow> Some (Msg (''state paths must be distinct: '' @ previous @ '' and '' @ name @
          '' both resolve to '' @ path))
      | None \<Rightarrow> distinct_paths E ((key, name) # seen) entries)"

definition validate_state_paths :: "os_env \<Rightarrow> bot \<Rightarrow> path \<Rightarrow> path \<Rightarrow> path \<Rightarrow> goerr option" where
  "validate_state_paths E b contextPath cursorPath replayPath =
     distinct_paths E [] [(''credentials'', credentials_path E b),
       (''reauthentication marker'', rs_path (b_reauth_store b)), (''context tokens'', contextPath),
       (''cursor'', cursorPath), (''replay deduplication'', replayPath)]"

definition validate_current_state_paths :: "os_env \<Rightarrow> bot \<Rightarrow> goerr option" where
  "validate_current_state_paths E b =
     validate_state_paths E b (cs_path (b_context_tokens b)) (cu_path (b_cursor_store b)) (rp_path (b_replay_store b))"

text \<open>
  \<open>protected\<close> is a map literal: were two of its keys equal, the later would win.  It is searched
  for each canonical path in turn.
\<close>

definition protected_paths :: "os_env \<Rightarrow> bot \<Rightarrow> path \<Rightarrow> path \<Rightarrow> (string \<times> string) list" where
  "protected_paths E b cursorPath replayPath =
     [(state_path_key E replayPath, ''replay deduplication''), (state_path_key E cursorPath, ''cursor''),
      (state_path_key E (rs_path (b_reauth_store b)), ''reauthentication marker''),
      (state_path_key E (credentials_path E b), ''credentials'')]"

definition validate_context_paths :: "os_env \<Rightarrow> bot \<Rightarrow> path list \<Rightarrow> path \<Rightarrow> path \<Rightarrow> goerr option" where
  "validate_context_paths E b paths cursorPath replayPath =
     (case List.find (\<lambda>p. map_of (protected_paths E b cursorPath replayPath) (state_path_key E p) \<noteq> None)
         (canonical_context_paths E paths) of
        None \<Rightarrow> None
      | Some p \<Rightarrow> Some (Msg (''context state path '' @ p @ '' collides with '' @
          the (map_of (protected_paths E b cursorPath replayPath) (state_path_key E p)) @ '' state'')))"

subsection \<open>Clearing context tokens\<close>

text \<open>
  The loop of \<open>clearContextPaths\<close>.  The primary store is cleared as an object, another path
  through a store made for it; the errors are collected.
\<close>

fun clear_paths :: "os_env \<Rightarrow> context_store \<Rightarrow> path list \<Rightarrow> goerr option list \<Rightarrow> world \<Rightarrow>
    goerr option list \<times> context_store \<times> world" where
  "clear_paths E primary [] errs w = (errs, primary, w)"
| "clear_paths E primary (p # ps) errs w =
     (if state_path_key E p = state_path_key E (cs_path primary)
      then (case context_clear E primary w of
          (None, primary, w) \<Rightarrow> clear_paths E primary ps errs w
        | (Some e, primary, w) \<Rightarrow>
            clear_paths E primary ps (errs @ [Some (Wrapf (''clear context state '' @ p @ '': '') e [])]) w)
      else (case context_clear E (new_context_store E [] p) w of
          (None, _, w) \<Rightarrow> clear_paths E primary ps errs w
        | (Some e, _, w) \<Rightarrow>
            clear_paths E primary ps (errs @ [Some (Wrapf (''clear context state '' @ p @ '': '') e [])]) w))"

definition clear_context_paths :: "os_env \<Rightarrow> context_store \<Rightarrow> path list \<Rightarrow> world \<Rightarrow>
    goerr option \<times> context_store \<times> world" where
  "clear_context_paths E primary paths w =
     (case clear_paths E primary (canonical_context_paths E paths) [] w of
        (errs, primary, w) \<Rightarrow> (errors_join errs, primary, w))"

definition cleanup_reauthentication_files :: "os_env \<Rightarrow> reauth_state \<Rightarrow> bot \<Rightarrow> world \<Rightarrow> goerr option \<times> bot \<times> world" where
  "cleanup_reauthentication_files E st b w =
     (case clear_context_paths E (b_context_tokens b) (rx_context_paths st) w of
        (e1, primary, w) \<Rightarrow>
          (case clear_credentials E (o_cred_path (b_opts b)) w of
             (e2, w) \<Rightarrow> (errors_join [e1, e2], b\<lparr>b_context_tokens := primary\<rparr>, w)))"

subsection \<open>The durable marker\<close>

definition marker_of :: "reauth_state \<Rightarrow> reauth_record" where
  "marker_of st = \<lparr>Version = 0, InvalidTokenSHA256 = rx_invalid_sha st, RecAccountID = rx_account_id st,
     ContextPaths = rx_context_paths st\<rparr>"

definition mark_reauthentication :: "os_env \<Rightarrow> reauth_state \<Rightarrow> path list \<Rightarrow> bot \<Rightarrow> world \<Rightarrow>
    goerr option \<times> reauth_state \<times> bot \<times> world" where
  "mark_reauthentication E st contextPaths b w =
     (let st = st\<lparr>rx_context_paths := canonical_context_paths E (rx_context_paths st @ contextPaths)\<rparr> in
      case validate_context_paths E b (rx_context_paths st) (cu_path (b_cursor_store b)) (rp_path (b_replay_store b)) of
        Some e \<Rightarrow> (Some e, st, b, w)
      | None \<Rightarrow> (case reauth_mark E (marker_of st) (b_reauth_store b) w of
            (Some e, rs, w) \<Rightarrow>
              (Some (Wrapf ''persist reauthentication requirement: '' e []), st, b\<lparr>b_reauth_store := rs\<rparr>, w)
          | (None, rs, w) \<Rightarrow> (None, st, b\<lparr>b_reauth_store := rs\<rparr>, w)))"

subsection \<open>Invalidating the session\<close>

text \<open>
  What the three invalidating operations share: publish the state, drop the credentials and
  the configuration cache, cancel the poll loop and the session's context.
\<close>

definition opt_list :: "'a option \<Rightarrow> 'a list" where
  "opt_list x = (case x of None \<Rightarrow> [] | Some y \<Rightarrow> [y])"

lemma set_opt_list [simp]: "set (opt_list x) = set_option x"
  by (cases x) (simp_all add: opt_list_def)

definition publish_reauth :: "reauth_state \<Rightarrow> bot \<Rightarrow> bot" where
  "publish_reauth st b =
     b\<lparr>b_reauth := Some st, b_creds := None, b_config_cache := None, b_session_context := None,
       b_cancelled := opt_list (b_session_context b) @ opt_list (b_cancel_poll b) @ b_cancelled b\<rparr>"

text \<open>Close the state with its final error.\<close>

definition finish_reauth :: "goerr \<Rightarrow> goerr option \<Rightarrow> reauth_state \<Rightarrow> bot \<Rightarrow> reauth_state \<times> bot" where
  "finish_reauth cause cleanupErr st b =
     (let st = st\<lparr>rx_err := Some (ReauthRequiredError (Some cause) cleanupErr)\<rparr>
      in (st, b\<lparr>b_reauth := Some st\<rparr>))"

text \<open>
  The common second half of \<open>requireReauthenticationForSession\<close> and
  \<open>requireReauthenticationWithoutCredentials\<close>: mark, publish, clean up, close the state.
\<close>

definition invalidate_session :: "os_env \<Rightarrow> goerr \<Rightarrow> reauth_state \<Rightarrow> bot \<Rightarrow> world \<Rightarrow> goerr \<times> bot \<times> world" where
  "invalidate_session E cause st0 b w =
     (case mark_reauthentication E st0 [] (b\<lparr>b_next_id := Suc (b_next_id b)\<rparr>) w of
        (markerErr, st, b, w) \<Rightarrow>
      (case cleanup_reauthentication_files E st (publish_reauth st b) w of
        (cleanup, b, w) \<Rightarrow>
      (case finish_reauth cause (errors_join [markerErr, cleanup]) st b of
        (st, b) \<Rightarrow> (wait_reauth_state st, b, w))))"

definition require_reauthentication_for_session :: "os_env \<Rightarrow> 64 word \<Rightarrow> string \<Rightarrow> goerr \<Rightarrow> bot \<Rightarrow> world \<Rightarrow>
    goerr \<times> bot \<times> world" where
  "require_reauthentication_for_session E generation tok cause b w =
     (let changed = Joined [cause, Sentinel SessionChanged] in
      if b_generation b \<noteq> generation then (changed, b, w)
      else (case b_reauth b of
        Some st \<Rightarrow> (if rx_generation st \<noteq> generation then changed else wait_reauth_state st, b, w)
      | None \<Rightarrow> (case b_creds b of
          None \<Rightarrow> (changed, b, w)
        | Some c \<Rightarrow>
           (if cr_token c \<noteq> tok then (changed, b, w)
            else (let st0 = \<lparr>rx_id = b_next_id b, rx_invalid_token = cr_token c,
                        rx_invalid_sha = token_sha256 E (cr_token c), rx_account_id = cr_account_id c,
                        rx_context_paths = canonical_context_paths E [cs_path (b_context_tokens b)],
                        rx_generation = generation, rx_err = None\<rparr>
                  in invalidate_session E cause st0 b w)))))"

definition require_reauthentication_without_credentials :: "os_env \<Rightarrow> goerr \<Rightarrow> bot \<Rightarrow> world \<Rightarrow> goerr \<times> bot \<times> world" where
  "require_reauthentication_without_credentials E cause b w =
     (case load_credentials E (o_cred_path (b_opts b)) w of (r, w) \<Rightarrow>
      (case b_reauth b of
        Some st \<Rightarrow> (wait_reauth_state st, b, w)
      | None \<Rightarrow>
         (let stored = loaded r;
              accountID = o_account_id (b_opts b);
              st0 = \<lparr>rx_id = b_next_id b,
                rx_invalid_token = (case stored of None \<Rightarrow> [] | Some c \<Rightarrow> cr_token c),
                rx_invalid_sha = token_sha256 E (case stored of None \<Rightarrow> [] | Some c \<Rightarrow> cr_token c),
                rx_account_id = (case stored of None \<Rightarrow> accountID
                  | Some c \<Rightarrow> if accountID = [] then cr_account_id c else accountID),
                rx_context_paths = canonical_context_paths E (cs_path (b_context_tokens b) #
                  (case stored of None \<Rightarrow> []
                   | Some c \<Rightarrow> if cr_account_id c \<noteq> [] then [cs_path (new_context_store E (cr_account_id c) [])] else [])),
                rx_generation = b_generation b, rx_err = None\<rparr>
          in invalidate_session E cause st0 b w)))"

subsection \<open>Preparing and restoring a reauthentication\<close>

text \<open>
  \<open>retryReauthenticationCleanup\<close>: the new state, with what the stored credentials add to it,
  and the retry.  The first result is the error, the second the state to reauthenticate with.
\<close>

definition retry_state :: "os_env \<Rightarrow> credentials option \<Rightarrow> nat \<Rightarrow> reauth_state \<Rightarrow> reauth_state" where
  "retry_state E stored newId previous =
     (let next0 = previous\<lparr>rx_id := newId, rx_err := None\<rparr> in
      case stored of
        None \<Rightarrow> next0
      | Some c \<Rightarrow>
         (let n = (if rx_invalid_sha next0 = []
                   then next0\<lparr>rx_invalid_token := cr_token c, rx_invalid_sha := token_sha256 E (cr_token c)\<rparr>
                   else next0);
              n = (if rx_account_id n = [] then n\<lparr>rx_account_id := cr_account_id c\<rparr> else n)
          in if cr_account_id c \<noteq> []
             then n\<lparr>rx_context_paths := canonical_context_paths E
               (rx_context_paths n @ [cs_path (new_context_store E (cr_account_id c) [])])\<rparr>
             else n))"

definition retry_reauthentication_cleanup :: "os_env \<Rightarrow> reauth_state \<Rightarrow> goerr option \<Rightarrow> bot \<Rightarrow> world \<Rightarrow>
    goerr option \<times> reauth_state option \<times> bot \<times> world" where
  "retry_reauthentication_cleanup E previous cause b w =
     (case load_credentials E (o_cred_path (b_opts b)) w of (r, w) \<Rightarrow>
      (let next0 = retry_state E (loaded r) (b_next_id b) previous;
           b = b\<lparr>b_next_id := Suc (b_next_id b)\<rparr>
       in case b_reauth b of
            None \<Rightarrow> (None, None, b, w)
          | Some current \<Rightarrow>
             (if rx_id current \<noteq> rx_id previous then (Some (wait_reauth_state current), Some current, b, w)
              else (case mark_reauthentication E next0 [cs_path (b_context_tokens b)] b w of
                      (markerErr, st, b, w) \<Rightarrow>
                   (case cleanup_reauthentication_files E st (b\<lparr>b_reauth := Some st\<rparr>) w of
                      (cleanup, b, w) \<Rightarrow>
                   (let cleanupErr = errors_join [markerErr, cleanup];
                        st = st\<lparr>rx_err := Some (ReauthRequiredError cause cleanupErr)\<rparr>;
                        b = b\<lparr>b_reauth := Some st\<rparr>
                    in if cleanupErr \<noteq> None then (Some (wait_reauth_state st), None, b, w)
                       else (None, Some st, b, w)))))))"

definition prepare_reauthentication :: "os_env \<Rightarrow> bot \<Rightarrow> world \<Rightarrow> goerr option \<times> reauth_state option \<times> bot \<times> world" where
  "prepare_reauthentication E b w =
     (let created = (b_reauth b = None) in
      case (if created then
              (case b_creds b of
                 Some c \<Rightarrow> snd (require_reauthentication_for_session E (b_generation b) (cr_token c)
                   (Sentinel ExplicitReauthentication) b w)
               | None \<Rightarrow> snd (require_reauthentication_without_credentials E (Sentinel ExplicitReauthentication) b w))
            else (b, w)) of (b, w) \<Rightarrow>
      (case b_reauth b of
         None \<Rightarrow> (None, None, b, w)
       | Some st \<Rightarrow>
          (case errors_as_reauth (wait_reauth_state st) of
             Some (cause, Some _) \<Rightarrow>
               (if created then (Some (wait_reauth_state st), None, b, w)
                else retry_reauthentication_cleanup E st cause b w)
           | _ \<Rightarrow> (None, Some st, b, w))))"

text \<open>
  The stores that \<open>restoreDurableReauthentication\<close> switches to when the marker names an account
  and the bot has none.
\<close>

definition restored_stores :: "os_env \<Rightarrow> string \<Rightarrow> bot \<Rightarrow> context_store \<times> cursor_store \<times> replay_store" where
  "restored_stores E acc b =
     (if o_account_id (b_opts b) = [] \<and> acc \<noteq> []
      then (if o_context_token_path (b_opts b) = [] then new_context_store E acc [] else b_context_tokens b,
            if o_cursor_path (b_opts b) = [] then new_cursor_store E acc [] else b_cursor_store b,
            if o_replay_path (b_opts b) = [] then new_replay_store E acc [] default_replay_ttl else b_replay_store b)
      else (b_context_tokens b, b_cursor_store b, b_replay_store b))"

definition durable_reauth_error :: "goerr option \<Rightarrow> goerr" where
  "durable_reauth_error cleanupErr = ReauthRequiredError (Some (Sentinel DurableReauthentication)) cleanupErr"

definition restore_from_record :: "os_env \<Rightarrow> reauth_record \<Rightarrow> bot \<Rightarrow> world \<Rightarrow> goerr option \<times> bot \<times> world" where
  "restore_from_record E rec b w =
     (case restored_stores E (RecAccountID rec) b of (ctx, cur, rep) \<Rightarrow>
      if o_account_id (b_opts b) \<noteq> [] \<and> RecAccountID rec \<noteq> [] \<and> o_account_id (b_opts b) \<noteq> RecAccountID rec
      then (Some (durable_reauth_error (Some (Msg (''reauthentication marker account '' @ RecAccountID rec @
              '' does not match configured account '' @ o_account_id (b_opts b))))), b, w)
      else (case validate_state_paths E b (cs_path ctx) (cu_path cur) (rp_path rep) of
        Some e \<Rightarrow> (Some (durable_reauth_error (Some e)), b, w)
      | None \<Rightarrow>
         (let st0 = \<lparr>rx_id = b_next_id b, rx_invalid_token = [], rx_invalid_sha = InvalidTokenSHA256 rec,
                rx_account_id = (if RecAccountID rec = [] then o_account_id (b_opts b) else RecAccountID rec),
                rx_context_paths = canonical_context_paths E
                  (ContextPaths rec @ [cs_path (b_context_tokens b), cs_path ctx]),
                rx_generation = b_generation b, rx_err = None\<rparr>;
              b = b\<lparr>b_next_id := Suc (b_next_id b)\<rparr>
          in case validate_context_paths E b (rx_context_paths st0) (cu_path cur) (rp_path rep) of
               Some e \<Rightarrow> (Some (durable_reauth_error (Some e)), b, w)
             | None \<Rightarrow>
                (case mark_reauthentication E st0 [] b w of
                   (Some e, st, b, w) \<Rightarrow> (Some (durable_reauth_error (Some e)), b, w)
                 | (None, st, b, w) \<Rightarrow>
                    (let b = (if o_account_id (b_opts b) = [] \<and> RecAccountID rec \<noteq> []
                              then b\<lparr>b_opts := (b_opts b)\<lparr>o_account_id := RecAccountID rec\<rparr>,
                                     b_context_tokens := ctx, b_cursor_store := cur, b_replay_store := rep\<rparr>
                              else b)
                     in case cleanup_reauthentication_files E st (publish_reauth st b) w of
                          (cleanup, b, w) \<Rightarrow>
                            (None, snd (finish_reauth (Sentinel DurableReauthentication) cleanup st b), w))))))"

definition restore_durable_reauthentication :: "os_env \<Rightarrow> bot \<Rightarrow> world \<Rightarrow> goerr option \<times> bot \<times> world" where
  "restore_durable_reauthentication E b w =
     (if b_reauth b \<noteq> None then (None, b, w)
      else (case reauth_load E (b_reauth_store b) w of (r, rs, w) \<Rightarrow>
        (let b = b\<lparr>b_reauth_store := rs\<rparr> in
         case r of
           Inl e \<Rightarrow> (None, snd (require_reauthentication_without_credentials E
               (Joined [Sentinel DurableReauthentication, e]) b w))
         | Inr None \<Rightarrow> (None, b, w)
         | Inr (Some rec) \<Rightarrow> restore_from_record E rec b w)))"

subsection \<open>Reading the session\<close>

definition ready_session_snapshot :: "bot \<Rightarrow> goerr + (credentials \<times> 64 word)" where
  "ready_session_snapshot b =
     (case b_reauth b of
        Some st \<Rightarrow> Inl (wait_reauth_state st)
      | None \<Rightarrow> (case b_creds b of None \<Rightarrow> Inl not_logged_in_error | Some c \<Rightarrow> Inr (c, b_generation b)))"

definition ready_creds :: "bot \<Rightarrow> goerr + credentials" where
  "ready_creds b = (case ready_session_snapshot b of Inl e \<Rightarrow> Inl e | Inr (c, g) \<Rightarrow> Inr c)"

definition ready_session :: "64 word \<Rightarrow> bot \<Rightarrow> goerr + credentials" where
  "ready_session generation b =
     (if b_generation b \<noteq> generation then Inl (Sentinel SessionChanged)
      else (case b_reauth b of
        Some st \<Rightarrow> Inl (wait_reauth_state st)
      | None \<Rightarrow> (case b_creds b of None \<Rightarrow> Inl not_logged_in_error | Some c \<Rightarrow> Inr c)))"

text \<open>
  \<open>beginAuthenticatedRequest\<close>: the credentials and the session context that cancels the
  request (\<open>None\<close>: the caller's context is used as it is).
\<close>

definition begin_authenticated_request :: "64 word \<Rightarrow> bot \<Rightarrow> goerr + (credentials \<times> nat option)" where
  "begin_authenticated_request generation b =
     (case ready_session generation b of Inl e \<Rightarrow> Inl e | Inr c \<Rightarrow> Inr (c, b_session_context b))"

text \<open>The request itself is the call the caller supplies; the token used is reported back.\<close>

definition authenticated_request :: "64 word \<Rightarrow> (string \<Rightarrow> string \<Rightarrow> goerr option) \<Rightarrow> bot \<Rightarrow> string \<times> goerr option" where
  "authenticated_request generation call b =
     (case begin_authenticated_request generation b of
        Inl e \<Rightarrow> ([], Some e)
      | Inr (c, _) \<Rightarrow> (cr_token c, call (cr_base_url c) (cr_token c)))"

definition authenticated_request_result :: "64 word \<Rightarrow> (string \<Rightarrow> string \<Rightarrow> goerr + 'a) \<Rightarrow> bot \<Rightarrow>
    (goerr + 'a) \<times> string" where
  "authenticated_request_result generation call b =
     (case begin_authenticated_request generation b of
        Inl e \<Rightarrow> (Inl e, [])
      | Inr (c, _) \<Rightarrow> (call (cr_base_url c) (cr_token c), cr_token c))"

definition validate_delivery_session :: "64 word \<Rightarrow> bot \<Rightarrow> goerr option" where
  "validate_delivery_session generation b =
     (if \<not> b_initialized b then None
      else (case ready_session generation b of Inl e \<Rightarrow> Some e | Inr _ \<Rightarrow> None))"

text \<open>The generation bound to a handler's context, when there is one.\<close>

definition ready_session_for_context :: "64 word option \<Rightarrow> bot \<Rightarrow> goerr + (credentials \<times> 64 word)" where
  "ready_session_for_context bound b =
     (case bound of
        Some g \<Rightarrow> (case ready_session g b of Inl e \<Rightarrow> Inl e | Inr c \<Rightarrow> Inr (c, g))
      | None \<Rightarrow> ready_session_snapshot b)"

definition incoming_session_generation :: "bool \<Rightarrow> 64 word \<Rightarrow> bot \<Rightarrow> goerr + 64 word" where
  "incoming_session_generation bound generation b =
     (if bound then (case ready_session generation b of Inl e \<Rightarrow> Inl e | Inr _ \<Rightarrow> Inr generation)
      else (case ready_session_snapshot b of Inl e \<Rightarrow> Inl e | Inr (_, g) \<Rightarrow> Inr g))"

definition ready_config :: "64 word option \<Rightarrow> bot \<Rightarrow> goerr + (credentials \<times> (credentials \<times> 64 word) \<times> 64 word)" where
  "ready_config bound b =
     (if (case bound of Some g \<Rightarrow> g \<noteq> b_generation b | None \<Rightarrow> False) then Inl (Sentinel SessionChanged)
      else (case b_reauth b of
        Some st \<Rightarrow> Inl (wait_reauth_state st)
      | None \<Rightarrow> (case (b_creds b, b_config_cache b) of
          (Some c, Some cache) \<Rightarrow> Inr (c, cache, b_generation b)
        | _ \<Rightarrow> Inl not_logged_in_error)))"

definition reauth_error :: "bot \<Rightarrow> goerr option" where
  "reauth_error b = (case b_reauth b of None \<Rightarrow> None | Some st \<Rightarrow> Some (wait_reauth_state st))"

definition session_error :: "64 word \<Rightarrow> bot \<Rightarrow> goerr option" where
  "session_error generation b =
     (if b_generation b \<noteq> generation then Some (Sentinel SessionChanged)
      else (case b_reauth b of
        Some st \<Rightarrow> Some (wait_reauth_state st)
      | None \<Rightarrow> (if b_creds b = None then Some (Sentinel SessionChanged) else None)))"

definition handle_authenticated_error_for_session :: "os_env \<Rightarrow> 64 word \<Rightarrow> string \<Rightarrow> goerr option \<Rightarrow> bot \<Rightarrow> world \<Rightarrow>
    goerr option \<times> bot \<times> world" where
  "handle_authenticated_error_for_session E generation tok err b w =
     (case err of
        None \<Rightarrow> (None, b, w)
      | Some e \<Rightarrow>
         (if (case errors_as_api e of Some a \<Rightarrow> is_session_expired a | None \<Rightarrow> False)
          then (case require_reauthentication_for_session E generation tok e b w of (r, b, w) \<Rightarrow> (Some r, b, w))
          else (case session_error generation b of
              Some s \<Rightarrow> (Some (Joined [e, s]), b, w)
            | None \<Rightarrow> (Some e, b, w))))"

definition current_token :: "bot \<Rightarrow> string" where
  "current_token b = (case b_creds b of None \<Rightarrow> [] | Some c \<Rightarrow> cr_token c)"

definition handle_authenticated_error :: "os_env \<Rightarrow> goerr option \<Rightarrow> bot \<Rightarrow> world \<Rightarrow> goerr option \<times> bot \<times> world" where
  "handle_authenticated_error E err b w =
     handle_authenticated_error_for_session E (b_generation b) (current_token b) err b w"

definition require_reauthentication :: "os_env \<Rightarrow> goerr \<Rightarrow> bot \<Rightarrow> world \<Rightarrow> goerr \<times> bot \<times> world" where
  "require_reauthentication E cause b w =
     require_reauthentication_for_session E (b_generation b) (current_token b) cause b w"

definition persist_context_token :: "os_env \<Rightarrow> 64 word \<Rightarrow> string \<Rightarrow> string \<Rightarrow> bot \<Rightarrow> world \<Rightarrow>
    goerr option \<times> bot \<times> world" where
  "persist_context_token E generation userID tok b w =
     (if userID = [] \<or> tok = [] then (None, b, w)
      else if b_generation b \<noteq> generation then (Some (Sentinel SessionChanged), b, w)
      else if b_reauth b \<noteq> None then (Some (Wrapf [] (Sentinel ReauthRequired) []), b, w)
      else (case context_set E userID tok (b_context_tokens b) w of
              (r, ctx, w) \<Rightarrow> (r, b\<lparr>b_context_tokens := ctx\<rparr>, w)))"

subsection \<open>The poll loop's share of the state\<close>

text \<open>
  \<open>beginRun\<close> up to the composition of the handler: the credentials, the generation and the
  context of the run.
\<close>

definition begin_run :: "bool \<Rightarrow> bot \<Rightarrow> (goerr + (credentials \<times> 64 word \<times> nat)) \<times> bot" where
  "begin_run hasHandler b =
     (if b_running b then (Inl (Sentinel AlreadyRunning), b)
      else (case b_reauth b of
        Some st \<Rightarrow> (Inl (wait_reauth_state st), b)
      | None \<Rightarrow> (case b_creds b of
          None \<Rightarrow> (Inl not_logged_in_error, b)
        | Some c \<Rightarrow>
           (if \<not> hasHandler then (Inl (Sentinel NoMessageHandler), b)
            else (Inr (c, b_generation b, b_next_id b),
                  b\<lparr>b_initialized := True, b_running := True, b_cancel_poll := Some (b_next_id b),
                    b_next_id := Suc (b_next_id b)\<rparr>)))))"

definition finish_run :: "nat \<Rightarrow> bot \<Rightarrow> bot" where
  "finish_run pollCtx b =
     b\<lparr>b_running := False, b_cancel_poll := None, b_cancelled := pollCtx # b_cancelled b\<rparr>"

definition stop_run :: "bot \<Rightarrow> bot" where
  "stop_run b = b\<lparr>b_cancelled := opt_list (b_cancel_poll b) @ b_cancelled b\<rparr>"

end
