(* ===== verification/Login.thy ===== *)
theory Login
  imports Session
begin

section \<open>Login and reauthentication\<close>

text \<open>
  Models \<open>login.go\<close>.  A login acquires credentials (network and person, theory \<open>AuthLogin\<close>),
  selects the stores of the account, and installs the session under the locks.  Between the
  three phases other goroutines and the \<open>BeforeLogin\<close> hook may change the bot and the files:
  the arguments \<open>between1\<close> and \<open>between2\<close> are arbitrary functions that stand for them.  The
  \<open>AfterLogin\<close> hook runs after the result is settled and is not modelled.
\<close>

subsection \<open>Acquiring credentials\<close>

definition reauthentication_attempt_error :: "reauth_state option \<Rightarrow> goerr \<Rightarrow> goerr" where
  "reauthentication_attempt_error st err =
     (case st of None \<Rightarrow> err | Some s \<Rightarrow> Joined [err, wait_reauth_state s])"

text \<open>Give up after credentials were acquired: remove them and report why.\<close>

definition give_up :: "os_env \<Rightarrow> reauth_state option \<Rightarrow> goerr option list \<Rightarrow> bot \<Rightarrow> world \<Rightarrow> goerr \<times> world" where
  "give_up E reauth errs b w =
     (case clear_credentials E (o_cred_path (b_opts b)) w of
        (cleanupErr, w) \<Rightarrow> (reauthentication_attempt_error reauth (Joined (somes (errs @ [cleanupErr]))), w))"

definition login_options_of :: "reauth_state option \<Rightarrow> bool \<Rightarrow> bot \<Rightarrow> login_options" where
  "login_options_of reauth force b =
     \<lparr>lo_base_url = o_base_url (b_opts b), lo_cred_path = o_cred_path (b_opts b), lo_force = force,
      lo_invalid_token = (case reauth of None \<Rightarrow> [] | Some st \<Rightarrow> rx_invalid_token st),
      lo_has_verify = o_has_verify (b_opts b)\<rparr>"

definition expected_account :: "reauth_state option \<Rightarrow> bot \<Rightarrow> string" where
  "expected_account reauth b =
     (case reauth of None \<Rightarrow> o_account_id (b_opts b)
      | Some st \<Rightarrow> if rx_account_id st \<noteq> [] then rx_account_id st else o_account_id (b_opts b))"

definition login_acquire :: "os_env \<Rightarrow> string \<Rightarrow> bool \<Rightarrow> reauth_state option \<Rightarrow> login_io \<Rightarrow> bot \<Rightarrow> world \<Rightarrow>
    login_outcome \<times> login_io \<times> world" where
  "login_acquire E now force reauth io b w =
     (case auth_login E now (login_options_of reauth force b) io w of
        (LBlocked, io, w) \<Rightarrow> (LBlocked, io, w)
      | (LErr e, io, w) \<Rightarrow> (LErr (reauthentication_attempt_error reauth e), io, w)
      | (LOk c, io, w) \<Rightarrow>
         (if reauth \<noteq> None \<and> rejects_token E reauth (cr_token c)
          then (case give_up E reauth [Some (Sentinel InvalidatedCredential)] b w of (e, w) \<Rightarrow> (LErr e, io, w))
          else if expected_account reauth b \<noteq> [] \<and> cr_account_id c \<noteq> expected_account reauth b
          then (case give_up E reauth [Some (Msg (''reauthenticated account '' @ cr_account_id c @
                  '' does not match '' @ expected_account reauth b))] b w of (e, w) \<Rightarrow> (LErr e, io, w))
          else (LOk c, io, w)))"

subsection \<open>Selecting the stores\<close>

text \<open>\<open>ls_context\<close> is \<open>None\<close> when the selected store is the bot's own object.\<close>

record login_selection =
  ls_account_id :: string
  ls_context :: "context_store option"
  ls_cursor :: cursor_store
  ls_replay :: replay_store

definition selected_context :: "login_selection \<Rightarrow> bot \<Rightarrow> context_store" where
  "selected_context sel b = (case ls_context sel of None \<Rightarrow> b_context_tokens b | Some c \<Rightarrow> c)"

definition select_stores :: "os_env \<Rightarrow> reauth_state option \<Rightarrow> credentials \<Rightarrow> bot \<Rightarrow> login_selection" where
  "select_stores E reauth c b =
     (let opts = b_opts b;
          acc = (if o_account_id opts = [] then cr_account_id c else o_account_id opts);
          renew = (\<lambda>p. p = [] \<and> (reauth = None \<or> o_account_id opts = []))
      in \<lparr>ls_account_id = acc,
          ls_context = (if renew (o_context_token_path opts) then Some (new_context_store E acc []) else None),
          ls_cursor = (if renew (o_cursor_path opts) then new_cursor_store E acc [] else b_cursor_store b),
          ls_replay = (if renew (o_replay_path opts) then new_replay_store E acc [] default_replay_ttl
                       else b_replay_store b)\<rparr>)"

definition check_selection :: "os_env \<Rightarrow> reauth_state option \<Rightarrow> login_selection \<Rightarrow> bot \<Rightarrow> goerr option" where
  "check_selection E reauth sel b =
     (case validate_state_paths E b (cs_path (selected_context sel b)) (cu_path (ls_cursor sel)) (rp_path (ls_replay sel)) of
        Some e \<Rightarrow> Some e
      | None \<Rightarrow> (case reauth of None \<Rightarrow> None
          | Some st \<Rightarrow> validate_context_paths E b (rx_context_paths st) (cu_path (ls_cursor sel)) (rp_path (ls_replay sel))))"

subsection \<open>Installing the session\<close>

text \<open>
  The selected context store is an object of its own or the bot's: writing it back keeps the
  aliasing.  The reauthentication state is the bot's object when the identities agree.
\<close>

definition put_context :: "login_selection \<Rightarrow> context_store \<Rightarrow> bot \<Rightarrow> login_selection \<times> bot" where
  "put_context sel c b =
     (case ls_context sel of
        None \<Rightarrow> (sel, b\<lparr>b_context_tokens := c\<rparr>)
      | Some _ \<Rightarrow> (sel\<lparr>ls_context := Some c\<rparr>, b))"

definition same_state :: "reauth_state option \<Rightarrow> reauth_state option \<Rightarrow> bool" where
  "same_state s t = (map_option rx_id s = map_option rx_id t)"

definition put_reauth :: "reauth_state \<Rightarrow> bot \<Rightarrow> bot" where
  "put_reauth st b = (if same_state (Some st) (b_reauth b) then b\<lparr>b_reauth := Some st\<rparr> else b)"

text \<open>\<open>persistAndClearReauthenticationContexts\<close> for a reauthentication state.\<close>

definition persist_and_clear_contexts :: "os_env \<Rightarrow> reauth_state \<Rightarrow> login_selection \<Rightarrow> bot \<Rightarrow> world \<Rightarrow>
    goerr option \<times> reauth_state \<times> login_selection \<times> bot \<times> world" where
  "persist_and_clear_contexts E st0 sel b w =
     (let primary = selected_context sel b;
          st = st0\<lparr>rx_context_paths := canonical_context_paths E (rx_context_paths st0 @ [cs_path primary])\<rparr>;
          b = put_reauth st b
      in case reauth_mark E (marker_of st) (b_reauth_store b) w of
           (Some e, rs, w) \<Rightarrow>
             (Some (Wrapf ''update reauthentication requirement: '' e []), st, sel, b\<lparr>b_reauth_store := rs\<rparr>, w)
         | (None, rs, w) \<Rightarrow>
            (case clear_context_paths E primary (rx_context_paths st) w of
               (r, primary, w) \<Rightarrow>
                 (case put_context sel primary (b\<lparr>b_reauth_store := rs\<rparr>) of (sel, b) \<Rightarrow> (r, st, sel, b, w))))"

text \<open>The contexts of a new session: cleared for a forced login, loaded otherwise.\<close>

definition prepare_contexts :: "os_env \<Rightarrow> bool \<Rightarrow> reauth_state option \<Rightarrow> login_selection \<Rightarrow> bot \<Rightarrow> world \<Rightarrow>
    goerr option \<times> reauth_state option \<times> login_selection \<times> bot \<times> world" where
  "prepare_contexts E force reauth sel b w =
     (if force then
        (case reauth of
           Some st \<Rightarrow> (case persist_and_clear_contexts E st sel b w of
               (r, st, sel, b, w) \<Rightarrow> (r, Some st, sel, b, w))
         | None \<Rightarrow> (case context_clear E (selected_context sel b) w of
               (r, c, w) \<Rightarrow> (case put_context sel c b of (sel, b) \<Rightarrow> (r, None, sel, b, w))))
      else (case context_load E (selected_context sel b) w of
              (_, c, w) \<Rightarrow> (case put_context sel c b of (sel, b) \<Rightarrow> (None, reauth, sel, b, w))))"

text \<open>The last atomic block: the bot of the new session.\<close>

definition install_session :: "credentials \<Rightarrow> login_selection \<Rightarrow> bot \<Rightarrow> bot" where
  "install_session c sel b =
     (let g = b_generation b + 1 in
      b\<lparr>b_creds := Some c, b_config_cache := Some (c, g), b_context_tokens := selected_context sel b,
        b_cursor_store := ls_cursor sel, b_replay_store := ls_replay sel,
        b_opts := (b_opts b)\<lparr>o_base_url := cr_base_url c, o_account_id := ls_account_id sel\<rparr>,
        b_generation := g, b_initialized := True, b_session_context := Some (b_next_id b),
        b_reauth := None, b_cancelled := opt_list (b_session_context b) @ b_cancelled b,
        b_next_id := Suc (b_next_id b)\<rparr>)"

definition login_install :: "os_env \<Rightarrow> bool \<Rightarrow> reauth_state option \<Rightarrow> credentials \<Rightarrow> login_selection \<Rightarrow> bot \<Rightarrow> world \<Rightarrow>
    login_outcome \<times> bot \<times> world" where
  "login_install E force reauth c sel b w =
     (case prepare_contexts E force reauth sel b w of
        (Some e, reauth, sel, b, w) \<Rightarrow>
          (case give_up E reauth [Some (Wrapf ''clear context tokens for reauthentication: '' e [])] b w of
             (e, w) \<Rightarrow> (LErr e, b, w))
      | (None, reauth, sel, b, w) \<Rightarrow>
         (if (reauth = None \<and> b_reauth b \<noteq> None) \<or> (reauth \<noteq> None \<and> \<not> same_state (b_reauth b) reauth)
          then (case give_up E reauth [Some (Msg ''login state changed while credentials were being acquired''),
                  map_option wait_reauth_state (b_reauth b)] b w of
                  (e, w) \<Rightarrow> (LErr e, b, w))
          else (case (if reauth \<noteq> None then reauth_clear E (b_reauth_store b) w else (None, b_reauth_store b, w)) of
                  (Some e, rs, w) \<Rightarrow>
                    (case give_up E reauth [Some (Wrapf ''clear durable reauthentication marker: '' e [])]
                        (b\<lparr>b_reauth_store := rs\<rparr>) w of
                       (e, w) \<Rightarrow> (LErr e, b\<lparr>b_reauth_store := rs\<rparr>, w))
                | (None, rs, w) \<Rightarrow> (LOk c, install_session c sel (b\<lparr>b_reauth_store := rs\<rparr>), w))))"

subsection \<open>The operations\<close>

type_synonym interference = "bot \<Rightarrow> world \<Rightarrow> bot \<times> world"

definition login_run :: "os_env \<Rightarrow> string \<Rightarrow> interference \<Rightarrow> interference \<Rightarrow> bool \<Rightarrow> reauth_state option \<Rightarrow>
    login_io \<Rightarrow> bot \<Rightarrow> world \<Rightarrow> login_outcome \<times> login_io \<times> bot \<times> world" where
  "login_run E now between1 between2 force reauth io b w =
     (case login_acquire E now force reauth io b w of
        (LOk c, io, w) \<Rightarrow>
          (case between1 b w of (b, w) \<Rightarrow>
           (let sel = select_stores E reauth c b in
            case check_selection E reauth sel b of
              Some e \<Rightarrow> (case give_up E reauth [Some e] b w of (e, w) \<Rightarrow> (LErr e, io, b, w))
            | None \<Rightarrow> (case between2 b w of (b, w) \<Rightarrow>
                (case login_install E force reauth c sel b w of (r, b, w) \<Rightarrow> (r, io, b, w)))))
      | (r, io, w) \<Rightarrow> (r, io, b, w))"

definition release :: "login_outcome \<times> login_io \<times> bot \<times> world \<Rightarrow> login_outcome \<times> login_io \<times> bot \<times> world" where
  "release x = (case x of (r, io, b, w) \<Rightarrow> (r, io, b\<lparr>b_login_mu := r = LBlocked\<rparr>, w))"

definition reauthenticate :: "os_env \<Rightarrow> string \<Rightarrow> interference \<Rightarrow> interference \<Rightarrow> login_io \<Rightarrow> bot \<Rightarrow> world \<Rightarrow>
    login_outcome \<times> login_io \<times> bot \<times> world" where
  "reauthenticate E now between1 between2 io b w =
     (if b_login_mu b then (LErr (Sentinel LoginInProgress), io, b, w)
      else release (let b = b\<lparr>b_login_mu := True\<rparr> in
        case validate_current_state_paths E b of
          Some e \<Rightarrow> (LErr e, io, b, w)
        | None \<Rightarrow> (case restore_durable_reauthentication E b w of
            (Some e, b, w) \<Rightarrow> (LErr e, io, b, w)
          | (None, b, w) \<Rightarrow> (case prepare_reauthentication E b w of
              (Some e, _, b, w) \<Rightarrow> (LErr e, io, b, w)
            | (None, st, b, w) \<Rightarrow> login_run E now between1 between2 True st io b w))))"

definition bot_login :: "os_env \<Rightarrow> string \<Rightarrow> interference \<Rightarrow> interference \<Rightarrow> bool \<Rightarrow> login_io \<Rightarrow> bot \<Rightarrow> world \<Rightarrow>
    login_outcome \<times> login_io \<times> bot \<times> world" where
  "bot_login E now between1 between2 force io b w =
     (if force then reauthenticate E now between1 between2 io b w
      else (case b_reauth b of
        Some st \<Rightarrow> (LErr (wait_reauth_state st), io, b, w)
      | None \<Rightarrow> (case b_creds b of
          Some c \<Rightarrow> (LOk c, io, b, w)
        | None \<Rightarrow>
           (if b_login_mu b then (LErr (Sentinel LoginInProgress), io, b, w)
            else release (let b = b\<lparr>b_login_mu := True\<rparr> in
              case validate_current_state_paths E b of
                Some e \<Rightarrow> (LErr e, io, b, w)
              | None \<Rightarrow> (case restore_durable_reauthentication E b w of
                  (Some e, b, w) \<Rightarrow> (LErr e, io, b, w)
                | (None, b, w) \<Rightarrow> (case reauth_error b of
                    Some e \<Rightarrow> (LErr e, io, b, w)
                  | None \<Rightarrow> (case b_creds b of
                      Some c \<Rightarrow> (LOk c, io, b, w)
                    | None \<Rightarrow> login_run E now between1 between2 False None io b w))))))))"

end
