(* ===== verification/SessionFrame.thy ===== *)
theory SessionFrame
  imports Login
begin

section \<open>What the session operations do to the files\<close>

text \<open>
  Frame lemmas for theory \<open>Session\<close>: which files an operation may change at any moment, which
  files it never deletes, and what it has achieved when it reports no error.  Files are
  identified by the key of their path (\<open>statePathKey\<close>), which is what the validation of the
  code compares.
\<close>

subsection \<open>Footprints\<close>

definition writes_only :: "path set \<Rightarrow> world \<Rightarrow> world \<Rightarrow> bool" where
  "writes_only S w w' \<longleftrightarrow> evolves (\<lambda>fs. \<forall>q. q \<notin> S \<longrightarrow> fs (Named q) = file_at w q) w w'"

text \<open>\<open>keeps S\<close>: a file outside \<open>S\<close> that exists goes on existing.\<close>

definition keeps :: "path set \<Rightarrow> world \<Rightarrow> world \<Rightarrow> bool" where
  "keeps S w w' \<longleftrightarrow> evolves (\<lambda>fs. \<forall>q. q \<notin> S \<longrightarrow> file_at w q \<noteq> None \<longrightarrow> fs (Named q) \<noteq> None) w w'"

lemma writes_only_refl [simp]: "writes_only S w w" and keeps_refl [simp]: "keeps S w w"
  by (simp_all add: writes_only_def keeps_def)

lemma writes_only_file: "writes_only S w w' \<Longrightarrow> q \<notin> S \<Longrightarrow> file_at w' q = file_at w q"
  unfolding writes_only_def using evolves_files by fastforce

lemma keeps_file: "keeps S w w' \<Longrightarrow> q \<notin> S \<Longrightarrow> file_at w q \<noteq> None \<Longrightarrow> file_at w' q \<noteq> None"
  unfolding keeps_def using evolves_files by fastforce

lemma writes_only_trans [trans]: "writes_only S u v \<Longrightarrow> writes_only S v w \<Longrightarrow> writes_only S u w"
proof -
  assume uv: "writes_only S u v" and vw: "writes_only S v w"
  have "evolves (\<lambda>fs. \<forall>q. q \<notin> S \<longrightarrow> fs (Named q) = file_at u q) v w"
    by (rule evolves_mono [OF vw [unfolded writes_only_def]]) (simp add: writes_only_file [OF uv])
  with uv show "writes_only S u w" unfolding writes_only_def by (rule evolves_trans)
qed

lemma keeps_trans [trans]: "keeps S u v \<Longrightarrow> keeps S v w \<Longrightarrow> keeps S u w"
proof -
  assume uv: "keeps S u v" and vw: "keeps S v w"
  have "evolves (\<lambda>fs. \<forall>q. q \<notin> S \<longrightarrow> file_at u q \<noteq> None \<longrightarrow> fs (Named q) \<noteq> None) v w"
    by (rule evolves_mono [OF vw [unfolded keeps_def]]) (use keeps_file [OF uv] in blast)
  with uv show "keeps S u w" unfolding keeps_def by (rule evolves_trans)
qed

lemma writes_only_mono: "writes_only S w w' \<Longrightarrow> S \<subseteq> T \<Longrightarrow> writes_only T w w'"
  unfolding writes_only_def by (auto elim!: evolves_mono)

lemma keeps_mono: "keeps S w w' \<Longrightarrow> S \<subseteq> T \<Longrightarrow> keeps T w w'"
  unfolding keeps_def by (auto elim!: evolves_mono)

lemma writes_only_fault: "writes_only S w w' \<Longrightarrow> fault w' = fault w"
  unfolding writes_only_def by (rule evolves_fault)

lemma write_ok_frame:
  assumes "evolves (write_ok r p j (files w)) w w'"
  shows "writes_only {p} w w'" and "keeps {} w w'"
proof -
  have new: "evolves (old_or_new p j (files w)) w w'"
    by (rule evolves_mono [OF assms]) (rule write_ok_old_or_new)
  show "writes_only {p} w w'"
    unfolding writes_only_def by (rule evolves_mono [OF new]) (simp add: old_or_new_def named_except_def)
  show "keeps {} w w'"
    unfolding keeps_def
  proof (rule evolves_mono [OF new], intro allI impI)
    fix fs q
    assume "old_or_new p j (files w) fs" and "file_at w q \<noteq> None"
    then show "fs (Named q) \<noteq> None"
      by (cases "q = p") (auto simp: old_or_new_def named_except_def)
  qed
qed

lemma same_files_frame:
  assumes "\<And>P. files w' = files w \<and> evolves P w w'"
  shows "writes_only S w w'" and "keeps S w w'"
  using assms by (simp_all add: writes_only_def keeps_def)

abbreviation key_of :: "os_env \<Rightarrow> path \<Rightarrow> string" where
  "key_of E p \<equiv> state_path_key E p"

text \<open>The files whose key is one of the keys.\<close>

definition keyed :: "os_env \<Rightarrow> string set \<Rightarrow> path set" where
  "keyed E ks = {q. key_of E q \<in> ks}"

lemma keyed_mono: "ks \<subseteq> ks' \<Longrightarrow> keyed E ks \<subseteq> keyed E ks'"
  by (auto simp: keyed_def)

lemma resolve_keyed: "env_wf E \<Longrightarrow> resolve E p \<in> keyed E ks \<longleftrightarrow> key_of E p \<in> ks"
  by (simp add: keyed_def)

subsection \<open>The primitive operations\<close>

lemma context_clear_spec:
  assumes "context_clear E s w = (r, s', w')"
  shows "cs_path s' = cs_path s" and "writes_only {resolve E (cs_path s)} w w'" and "keeps {} w w'"
    and "r = None \<Longrightarrow> cs_data s' = [] \<and> read_context (file_at w' (resolve E (cs_path s))) = Some []"
    and "read_context (file_at w q) = Some [] \<Longrightarrow> read_context (file_at w' q) = Some []"
proof -
  note wr = write_through_spec [OF assms [unfolded context_clear_def context_write_def]]
  have empty: "read_context (Some (CDoc (enc_context []))) = Some []"
    by (rule read_context_written) (simp add: valid_context_def)
  show "cs_path s' = cs_path s" using wr(1) by simp
  show w: "writes_only {resolve E (cs_path s)} w w'" "keeps {} w w'"
    using write_ok_frame [OF wr(2)] by simp_all
  show "r = None \<Longrightarrow> cs_data s' = [] \<and> read_context (file_at w' (resolve E (cs_path s))) = Some []"
    using wr(1,3) empty by simp
  show "read_context (file_at w' q) = Some []" if "read_context (file_at w q) = Some []"
    using that wr(3) empty writes_only_file [OF w(1), of q]
    by (cases "q = resolve E (cs_path s)") (auto split: if_splits)
qed

lemma clear_credentials_spec:
  assumes "clear_credentials E p w = (r, w')"
  shows "writes_only {credential_file E p} w w'" and "keeps {credential_file E p} w w'"
    and "file_at w' (credential_file E p) = (if r = None then None else file_at w (credential_file E p))"
proof -
  let ?f = "credential_file E p"
  obtain x u where rm: "os_remove (Named ?f) w = (x, u)" by fastforce
  note sp = os_remove_spec [OF rm]
  have eq: "w' = u" "r = (case x of RemoveErr e \<Rightarrow> Some e | _ \<Rightarrow> None)"
    using assms rm by (auto simp: clear_credentials_def split: remove_result.splits)
  show "writes_only {?f} w w'" "keeps {?f} w w'"
    using sp(1) unfolding eq writes_only_def keeps_def by (auto elim!: evolves_mono simp: named_except_def)
  show "file_at w' ?f = (if r = None then None else file_at w ?f)"
    using sp(2) by (auto simp: eq split: remove_result.splits)
qed

lemma load_credentials_quiet:
  assumes "load_credentials E p w = (r, w')"
  shows "writes_only S w w'" and "keeps S w w'" and "files w' = files w"
  using load_credentials_frame [OF assms] same_files_frame [of w' w] by auto

lemma credential_file_key: "env_wf E \<Longrightarrow> key_of E (credential_file E (o_cred_path (b_opts b))) = key_of E (credentials_path E b)"
  by (simp add: credential_file_def credentials_path_def)

subsection \<open>Clearing contexts\<close>

text \<open>The file that the loop clears for a path: the primary store's for its own key.\<close>

definition cleared_file :: "os_env \<Rightarrow> context_store \<Rightarrow> path \<Rightarrow> path" where
  "cleared_file E primary p =
     resolve E (if key_of E p = key_of E (cs_path primary) then cs_path primary else p)"

lemma new_context_path: "p \<noteq> [] \<Longrightarrow> cs_path (new_context_store E a p) = p"
  by (simp add: new_context_store_def)

lemma cleared_file_key: "env_wf E \<Longrightarrow> key_of E (cleared_file E primary p) = key_of E p"
  by (simp add: cleared_file_def)

lemma clear_paths_spec:
  assumes "env_wf E" and "\<forall>p\<in>set ps. p \<noteq> []" and "clear_paths E primary ps errs w = (errs', primary', w')"
  shows "cs_path primary' = cs_path primary \<and>
    writes_only (keyed E (key_of E ` set ps)) w w' \<and> keeps {} w w' \<and>
    (\<forall>q. read_context (file_at w q) = Some [] \<longrightarrow> read_context (file_at w' q) = Some []) \<and>
    (\<exists>es. errs' = errs @ es \<and> None \<notin> set es \<and>
      (es = [] \<longrightarrow> (\<forall>p\<in>set ps. read_context (file_at w' (cleared_file E primary p)) = Some [])))"
  using assms(2,3)
proof (induction ps arbitrary: primary errs w)
  case Nil
  then show ?case by auto
next
  case (Cons p ps)
  let ?s = "if key_of E p = key_of E (cs_path primary) then primary else new_context_store E [] p"
  obtain r s1 w1 where cl: "context_clear E ?s w = (r, s1, w1)" by (metis prod_cases3)
  let ?primary = "if key_of E p = key_of E (cs_path primary) then s1 else primary"
  let ?es = "case r of None \<Rightarrow> [] | Some e \<Rightarrow> [Some (Wrapf (''clear context state '' @ p @ '': '') e [])]"
  have rec: "clear_paths E ?primary ps (errs @ ?es) w1 = (errs', primary', w')"
    using Cons.prems(2) cl by (auto split: if_splits option.splits)
  have fl: "resolve E (cs_path ?s) = cleared_file E primary p"
    using Cons.prems(1) by (simp add: cleared_file_def new_context_path)
  note sp = context_clear_spec [OF cl]
  have path: "cs_path ?primary = cs_path primary" using sp(1) by auto
  then have same: "cleared_file E ?primary = cleared_file E primary"
    unfolding cleared_file_def fun_eq_iff path by simp
  from Cons.prems(1) have "\<forall>p\<in>set ps. p \<noteq> []" by simp
  from Cons.IH [OF this rec, unfolded same path] obtain es where IH:
    "cs_path primary' = cs_path primary" "writes_only (keyed E (key_of E ` set ps)) w1 w'" "keeps {} w1 w'"
    "\<forall>q. read_context (file_at w1 q) = Some [] \<longrightarrow> read_context (file_at w' q) = Some []"
    "errs' = (errs @ ?es) @ es" "None \<notin> set es"
    "es = [] \<longrightarrow> (\<forall>q\<in>set ps. read_context (file_at w' (cleared_file E primary q)) = Some [])"
    by blast
  have "writes_only (keyed E (key_of E ` set (p # ps))) w w'"
  proof (rule writes_only_trans)
    show "writes_only (keyed E (key_of E ` set (p # ps))) w w1"
      by (rule writes_only_mono [OF sp(2)]) (simp add: fl keyed_def cleared_file_key assms(1))
    show "writes_only (keyed E (key_of E ` set (p # ps))) w1 w'"
      by (rule writes_only_mono [OF IH(2)]) (auto simp: keyed_def)
  qed
  moreover have "?es @ es = [] \<longrightarrow> (\<forall>q\<in>set (p # ps). read_context (file_at w' (cleared_file E primary q)) = Some [])"
  proof
    assume "?es @ es = []"
    then have "r = None" "es = []" by (auto split: option.splits)
    with sp(4) IH(4,7) show "\<forall>q\<in>set (p # ps). read_context (file_at w' (cleared_file E primary q)) = Some []"
      by (auto simp: fl)
  qed
  moreover have "None \<notin> set (?es @ es)" using IH(6) by (auto split: option.splits)
  moreover have "keeps {} w w'" using sp(3) IH(3) by (rule keeps_trans)
  ultimately show ?case
    using IH(1,4,5) sp(5) by (intro conjI exI [of _ "?es @ es"]) auto
qed

lemma path_clean_not_Nil [simp]: "path_clean p \<noteq> []"
  by (rule path_clean_form [of p]) (use join_clean_head in \<open>auto split: if_splits\<close>)

lemma canonical_state_path_not_Nil [simp]: "canonical_state_path E p \<noteq> []"
  by (simp add: canonical_state_path_def split: option.splits)

lemma canonical_not_Nil: "env_wf E \<Longrightarrow> p \<in> set (canonical_context_paths E ps) \<Longrightarrow> p \<noteq> []"
  unfolding canonical_context_paths_def by (drule (1) canonical_paths_from_canonical) auto

lemma canonical_keys:
  assumes "env_wf E"
  shows "key_of E ` set (canonical_context_paths E ps) = key_of E ` {p \<in> set ps. p \<noteq> []}"
proof
  show "key_of E ` set (canonical_context_paths E ps) \<subseteq> key_of E ` {p \<in> set ps. p \<noteq> []}"
  proof
    fix k
    assume "k \<in> key_of E ` set (canonical_context_paths E ps)"
    then obtain q where q: "k = key_of E q" "q \<in> set (canonical_context_paths E ps)" by blast
    with canonical_paths_from_canonical [OF assms, of q "[]" ps] obtain p where
      "p \<in> set ps" "p \<noteq> []" "q = canonical_state_path E p"
      by (auto simp: canonical_context_paths_def)
    with q assms show "k \<in> key_of E ` {p \<in> set ps. p \<noteq> []}" by auto
  qed
  show "key_of E ` {p \<in> set ps. p \<noteq> []} \<subseteq> key_of E ` set (canonical_context_paths E ps)"
    using canonical_paths_from_keys [OF assms, of "[]" ps] by (simp add: canonical_context_paths_def)
qed

text \<open>A canonical list is its own canonical list.\<close>

lemma canonical_paths_from_fixed:
  "\<lbrakk>\<forall>p\<in>set ps. p \<noteq> [] \<and> canonical_state_path E p = p; distinct (map (key_of E) ps);
    set seen \<inter> key_of E ` set ps = {}\<rbrakk> \<Longrightarrow> canonical_paths_from E seen ps = ps"
  by (induction ps arbitrary: seen) (auto simp: Let_def)

lemma canonical_idem [simp]:
  assumes "env_wf E"
  shows "canonical_context_paths E (canonical_context_paths E ps) = canonical_context_paths E ps"
  unfolding canonical_context_paths_def
proof (rule canonical_paths_from_fixed)
  show "\<forall>p\<in>set (canonical_paths_from E [] ps). p \<noteq> [] \<and> canonical_state_path E p = p"
  proof
    fix q
    assume "q \<in> set (canonical_paths_from E [] ps)"
    with canonical_paths_from_canonical [OF assms this] assms show "q \<noteq> [] \<and> canonical_state_path E q = q"
      by auto
  qed
  show "distinct (map (key_of E) (canonical_paths_from E [] ps))"
    using canonical_paths_from_keys [OF assms, of "[]" ps] by simp
qed simp

lemma clear_context_paths_spec:
  assumes "env_wf E" and "clear_context_paths E primary paths w = (r, primary', w')"
  shows "cs_path primary' = cs_path primary"
    and "writes_only (keyed E (key_of E ` {p \<in> set paths. p \<noteq> []})) w w'" and "keeps {} w w'"
    and "r = None \<Longrightarrow> p \<in> set (canonical_context_paths E paths) \<Longrightarrow>
      read_context (file_at w' (cleared_file E primary p)) = Some []"
proof -
  obtain errs s1 w1 where cl: "clear_paths E primary (canonical_context_paths E paths) [] w = (errs, s1, w1)"
    by (metis prod_cases3)
  with assms(2) have eq: "r = errors_join errs" "primary' = s1" "w' = w1"
    by (auto simp: clear_context_paths_def)
  have "\<forall>p\<in>set (canonical_context_paths E paths). p \<noteq> []"
    using canonical_not_Nil [OF assms(1)] by blast
  from clear_paths_spec [OF assms(1) this cl] canonical_keys [OF assms(1), of paths]
  have sp: "cs_path s1 = cs_path primary" "writes_only (keyed E (key_of E ` {p \<in> set paths. p \<noteq> []})) w w1"
    "keeps {} w w1" "None \<notin> set errs"
    "errs = [] \<longrightarrow> (\<forall>p\<in>set (canonical_context_paths E paths). read_context (file_at w1 (cleared_file E primary p)) = Some [])"
    by auto
  show "cs_path primary' = cs_path primary" "keeps {} w w'"
    "writes_only (keyed E (key_of E ` {p \<in> set paths. p \<noteq> []})) w w'"
    using sp eq by simp_all
  show "read_context (file_at w' (cleared_file E primary p)) = Some []"
    if "r = None" "p \<in> set (canonical_context_paths E paths)"
  proof -
    from that(1) have "errs = []" using sp(4) eq(1) by (cases errs) auto
    with that(2) sp(5) eq show ?thesis by simp
  qed
qed

subsection \<open>Marking and cleaning up\<close>

abbreviation cred_key :: "os_env \<Rightarrow> bot \<Rightarrow> string" where
  "cred_key E b \<equiv> key_of E (credentials_path E b)"

abbreviation marker_key :: "os_env \<Rightarrow> bot \<Rightarrow> string" where
  "marker_key E b \<equiv> key_of E (rs_path (b_reauth_store b))"

abbreviation cred_file :: "os_env \<Rightarrow> bot \<Rightarrow> path" where
  "cred_file E b \<equiv> credential_file E (o_cred_path (b_opts b))"

abbreviation marker_file :: "os_env \<Rightarrow> bot \<Rightarrow> path" where
  "marker_file E b \<equiv> resolve E (rs_path (b_reauth_store b))"

definition path_keys :: "os_env \<Rightarrow> path list \<Rightarrow> string set" where
  "path_keys E ps = key_of E ` {p \<in> set ps. p \<noteq> []}"

lemma path_keys_canonical [simp]: "env_wf E \<Longrightarrow> path_keys E (canonical_context_paths E ps) = path_keys E ps"
  using canonical_keys [of E ps] canonical_not_Nil [of E _ ps] by (auto simp: path_keys_def)

lemma cleanup_spec:
  assumes "env_wf E" and "cleanup_reauthentication_files E st b w = (r, b', w')"
  shows "\<exists>c. b' = b\<lparr>b_context_tokens := c\<rparr> \<and> cs_path c = cs_path (b_context_tokens b)"
    and "writes_only (keyed E (insert (cred_key E b) (path_keys E (rx_context_paths st)))) w w'"
    and "keeps (keyed E {cred_key E b}) w w'"
    and "r = None \<Longrightarrow> file_at w' (cred_file E b) = None"
    and "r = None \<Longrightarrow> p \<in> set (canonical_context_paths E (rx_context_paths st)) \<Longrightarrow>
      read_context (file_at w' (cleared_file E (b_context_tokens b) p)) = Some []"
proof -
  obtain e1 s1 w1 where cl: "clear_context_paths E (b_context_tokens b) (rx_context_paths st) w = (e1, s1, w1)"
    by (metis prod_cases3)
  obtain e2 w2 where rm: "clear_credentials E (o_cred_path (b_opts b)) w1 = (e2, w2)" by fastforce
  have eq: "r = errors_join [e1, e2]" "b' = b\<lparr>b_context_tokens := s1\<rparr>" "w' = w2"
    using assms(2) cl rm by (auto simp: cleanup_reauthentication_files_def)
  note c = clear_context_paths_spec [OF assms(1) cl] and d = clear_credentials_spec [OF rm]
  have ck: "key_of E (cred_file E b) = cred_key E b" by (rule credential_file_key [OF assms(1)])
  show "\<exists>c. b' = b\<lparr>b_context_tokens := c\<rparr> \<and> cs_path c = cs_path (b_context_tokens b)"
    using eq c(1) by blast
  show "writes_only (keyed E (insert (cred_key E b) (path_keys E (rx_context_paths st)))) w w'"
    unfolding eq
  proof (rule writes_only_trans)
    show "writes_only (keyed E (insert (cred_key E b) (path_keys E (rx_context_paths st)))) w w1"
      by (rule writes_only_mono [OF c(2)]) (auto simp: path_keys_def keyed_def)
    show "writes_only (keyed E (insert (cred_key E b) (path_keys E (rx_context_paths st)))) w1 w2"
      by (rule writes_only_mono [OF d(1)]) (simp add: keyed_def ck)
  qed
  show "keeps (keyed E {cred_key E b}) w w'"
    unfolding eq
  proof (rule keeps_trans)
    show "keeps (keyed E {cred_key E b}) w w1" by (rule keeps_mono [OF c(3)]) simp
    show "keeps (keyed E {cred_key E b}) w1 w2" by (rule keeps_mono [OF d(2)]) (simp add: keyed_def ck)
  qed
  show "r = None \<Longrightarrow> file_at w' (cred_file E b) = None"
    using d(3) by (simp add: eq)
  show "read_context (file_at w' (cleared_file E (b_context_tokens b) p)) = Some []"
    if "r = None" and p: "p \<in> set (canonical_context_paths E (rx_context_paths st))"
  proof -
    from that(1) have none: "e1 = None" "e2 = None" by (auto simp: eq)
    let ?q = "cleared_file E (b_context_tokens b) p"
    have "read_context (file_at w1 ?q) = Some []" using c(4) none p by simp
    then show ?thesis
      using d(3) none writes_only_file [OF d(1), of ?q]
      by (cases "?q = cred_file E b") (auto simp: eq read_context_def)
  qed
qed

lemma mark_spec:
  assumes "env_wf E" and "mark_reauthentication E st ps b w = (r, st', b', w')"
  shows "st' = st\<lparr>rx_context_paths := canonical_context_paths E (rx_context_paths st @ ps)\<rparr>"
    and "\<exists>rs. b' = b\<lparr>b_reauth_store := rs\<rparr> \<and> rs_path rs = rs_path (b_reauth_store b)"
    and "writes_only {marker_file E b} w w'" and "keeps {} w w'"
    and "r = None \<Longrightarrow> file_at w' (marker_file E b) =
      Some (CDoc (enc_reauth ((marker_of st')\<lparr>Version := reauth_state_version\<rparr>)))"
    and "r = None \<Longrightarrow> validate_context_paths E b (rx_context_paths st')
      (cu_path (b_cursor_store b)) (rp_path (b_replay_store b)) = None"
    and "validate_context_paths E b (rx_context_paths st')
      (cu_path (b_cursor_store b)) (rp_path (b_replay_store b)) \<noteq> None \<Longrightarrow> w' = w"
proof -
  let ?st = "st\<lparr>rx_context_paths := canonical_context_paths E (rx_context_paths st @ ps)\<rparr>"
  let ?v = "validate_context_paths E b (rx_context_paths ?st) (cu_path (b_cursor_store b)) (rp_path (b_replay_store b))"
  obtain x rs w1 where mk: "reauth_mark E (marker_of ?st) (b_reauth_store b) w = (x, rs, w1)"
    by (metis prod_cases3)
  show st: "st' = ?st"
    using assms(2) mk by (auto simp: mark_reauthentication_def Let_def split: option.splits)
  note sp = reauth_mark_spec [OF mk]
  have eq: "?v = None \<and> b' = b\<lparr>b_reauth_store := rs\<rparr> \<and> w' = w1 \<and> (r = None \<longleftrightarrow> x = None) \<or>
      ?v \<noteq> None \<and> r \<noteq> None \<and> b' = b \<and> w' = w"
    using assms(2) mk by (auto simp: mark_reauthentication_def Let_def split: option.splits)
  show "\<exists>rs. b' = b\<lparr>b_reauth_store := rs\<rparr> \<and> rs_path rs = rs_path (b_reauth_store b)"
    using eq
  proof (elim disjE conjE)
    show ?thesis if "b' = b\<lparr>b_reauth_store := rs\<rparr>"
      using that sp(1) by (intro exI [of _ rs]) auto
    show ?thesis if "b' = b"
      using that by (intro exI [of _ "b_reauth_store b"]) simp
  qed
  show "writes_only {marker_file E b} w w'" "keeps {} w w'"
    using eq write_ok_frame [OF sp(3)] by auto
  show "r = None \<Longrightarrow> file_at w' (marker_file E b) =
      Some (CDoc (enc_reauth ((marker_of st')\<lparr>Version := reauth_state_version\<rparr>)))"
    using eq sp(2) st by auto
  show "r = None \<Longrightarrow> validate_context_paths E b (rx_context_paths st')
      (cu_path (b_cursor_store b)) (rp_path (b_replay_store b)) = None"
    using eq st by auto
  show "validate_context_paths E b (rx_context_paths st')
      (cu_path (b_cursor_store b)) (rp_path (b_replay_store b)) \<noteq> None \<Longrightarrow> w' = w"
    using eq st by auto
qed

text \<open>What the validation of context paths says about keys.\<close>

lemma validate_context_paths_None:
  assumes "env_wf E" and "validate_context_paths E b ps cur rep = None"
  shows "path_keys E ps \<inter> {key_of E rep, key_of E cur, marker_key E b, cred_key E b} = {}"
proof -
  have "map_of (protected_paths E b cur rep) (key_of E p) = None"
    if "p \<in> set (canonical_context_paths E ps)" for p
    using assms(2) that by (auto simp: validate_context_paths_def find_None_iff split: option.splits)
  then have "key_of E ` set (canonical_context_paths E ps) \<inter> fst ` set (protected_paths E b cur rep) = {}"
    by (auto simp: map_of_eq_None_iff)
  then show ?thesis
    using canonical_keys [OF assms(1), of ps] by (simp add: path_keys_def protected_paths_def)
qed

lemma distinct_paths_None:
  "env_wf E \<Longrightarrow> distinct_paths E seen entries = None \<Longrightarrow>
   distinct (map (\<lambda>(n, p). key_of E p) entries) \<and>
   fst ` set seen \<inter> (\<lambda>(n, p). key_of E p) ` set entries = {}"
proof (induction entries arbitrary: seen)
  case (Cons x entries)
  obtain n p where x: "x = (n, p)" by fastforce
  with Cons.prems have "map_of seen (key_of E p) = None"
    "distinct_paths E ((key_of E p, n) # seen) entries = None"
    by (auto simp: Let_def split: option.splits)
  with Cons.IH [OF Cons.prems(1) this(2)] x show ?case
    by (auto simp: map_of_eq_None_iff)
qed simp

lemma validate_state_paths_None:
  assumes "env_wf E" and "validate_state_paths E b ctx cur rep = None"
  shows "distinct [cred_key E b, marker_key E b, key_of E ctx, key_of E cur, key_of E rep]"
  using distinct_paths_None [OF assms(1) assms(2) [unfolded validate_state_paths_def]] by simp

subsection \<open>Invalidating a session\<close>

lemma invalidate_spec:
  assumes "env_wf E" and "invalidate_session E cause st0 b w = (e, b', w')"
  shows "\<exists>cleanup st. e = ReauthRequiredError (Some cause) cleanup \<and> b_reauth b' = Some st \<and>
      rx_err st = Some e \<and> rx_id st = rx_id st0 \<and> rx_generation st = rx_generation st0 \<and>
      rx_invalid_sha st = rx_invalid_sha st0 \<and> rx_invalid_token st = rx_invalid_token st0 \<and>
      rx_account_id st = rx_account_id st0 \<and>
      rx_context_paths st = canonical_context_paths E (rx_context_paths st0) \<and>
      (cleanup = None \<longrightarrow>
        file_at w' (marker_file E b) = Some (CDoc (enc_reauth ((marker_of st)\<lparr>Version := reauth_state_version\<rparr>))) \<or>
          cred_key E b = marker_key E b) \<and>
      (cleanup = None \<longrightarrow> file_at w' (cred_file E b) = None \<and>
        (\<forall>p\<in>set (rx_context_paths st). read_context (file_at w' (cleared_file E (b_context_tokens b) p)) = Some [])) \<and>
      (cleanup = None \<longrightarrow> cred_key E b \<noteq> marker_key E b \<longrightarrow>
        evolves (\<lambda>fs. fs (Named (cred_file E b)) = file_at w (cred_file E b) \<or>
          fs (Named (marker_file E b)) = Some (CDoc (enc_reauth ((marker_of st)\<lparr>Version := reauth_state_version\<rparr>)))) w w')"
    and "b_creds b' = None \<and> b_config_cache b' = None \<and> b_session_context b' = None \<and>
      b_generation b' = b_generation b \<and> b_opts b' = b_opts b \<and> b_cursor_store b' = b_cursor_store b \<and>
      b_replay_store b' = b_replay_store b \<and> rs_path (b_reauth_store b') = rs_path (b_reauth_store b) \<and>
      cs_path (b_context_tokens b') = cs_path (b_context_tokens b) \<and> b_next_id b' = Suc (b_next_id b) \<and>
      b_initialized b' = b_initialized b \<and> b_login_mu b' = b_login_mu b \<and>
      b_cancel_poll b' = b_cancel_poll b \<and>
      b_cancelled b' = opt_list (b_session_context b) @ opt_list (b_cancel_poll b) @ b_cancelled b"
    and "writes_only (keyed E ({cred_key E b, marker_key E b} \<union> path_keys E (rx_context_paths st0))) w w'"
    and "keeps (keyed E {cred_key E b}) w w'"
proof -
  let ?b = "b\<lparr>b_next_id := Suc (b_next_id b)\<rparr>"
  obtain me st1 b1 w1 where mk: "mark_reauthentication E st0 [] ?b w = (me, st1, b1, w1)"
    by (metis prod_cases4)
  obtain ce b2 w2 where cl: "cleanup_reauthentication_files E st1 (publish_reauth st1 b1) w1 = (ce, b2, w2)"
    by (metis prod_cases3)
  note m = mark_spec [OF assms(1) mk] and c = cleanup_spec [OF assms(1) cl]
  from m(2) obtain rs where b1: "b1 = ?b\<lparr>b_reauth_store := rs\<rparr>" "rs_path rs = rs_path (b_reauth_store b)" by auto
  from c(1) obtain ct where b2: "b2 = (publish_reauth st1 b1)\<lparr>b_context_tokens := ct\<rparr>"
    "cs_path ct = cs_path (b_context_tokens b)" by (auto simp: publish_reauth_def b1)
  let ?cleanup = "errors_join [me, ce]"
  let ?st = "st1\<lparr>rx_err := Some (ReauthRequiredError (Some cause) ?cleanup)\<rparr>"
  have res: "e = ReauthRequiredError (Some cause) ?cleanup" "b' = b2\<lparr>b_reauth := Some ?st\<rparr>" "w' = w2"
    using assms(2) mk cl by (auto simp: invalidate_session_def finish_reauth_def wait_reauth_state_def Let_def)
  have ck: "cred_key E (publish_reauth st1 b1) = cred_key E b" "cred_file E (publish_reauth st1 b1) = cred_file E b"
    "marker_file E ?b = marker_file E b"
    by (simp_all add: publish_reauth_def b1 credentials_path_def)
  have tok: "b_context_tokens (publish_reauth st1 b1) = b_context_tokens b"
    by (simp add: publish_reauth_def b1)
  have paths: "rx_context_paths st1 = canonical_context_paths E (rx_context_paths st0)"
    using m(1) by simp
  have none: "?cleanup = None \<longleftrightarrow> me = None \<and> ce = None" by auto
  show "b_creds b' = None \<and> b_config_cache b' = None \<and> b_session_context b' = None \<and>
      b_generation b' = b_generation b \<and> b_opts b' = b_opts b \<and> b_cursor_store b' = b_cursor_store b \<and>
      b_replay_store b' = b_replay_store b \<and> rs_path (b_reauth_store b') = rs_path (b_reauth_store b) \<and>
      cs_path (b_context_tokens b') = cs_path (b_context_tokens b) \<and> b_next_id b' = Suc (b_next_id b) \<and>
      b_initialized b' = b_initialized b \<and> b_login_mu b' = b_login_mu b \<and>
      b_cancel_poll b' = b_cancel_poll b \<and>
      b_cancelled b' = opt_list (b_session_context b) @ opt_list (b_cancel_poll b) @ b_cancelled b"
    by (simp add: res b2 b1 publish_reauth_def)
  show "keeps (keyed E {cred_key E b}) w w'"
    unfolding res(3) by (rule keeps_trans [OF keeps_mono [OF m(4)] c(3) [unfolded ck]]) simp
  show "writes_only (keyed E ({cred_key E b, marker_key E b} \<union> path_keys E (rx_context_paths st0))) w w'"
    unfolding res(3)
  proof (rule writes_only_trans)
    show "writes_only (keyed E ({cred_key E b, marker_key E b} \<union> path_keys E (rx_context_paths st0))) w w1"
      by (rule writes_only_mono [OF m(3)]) (simp add: keyed_def ck assms(1))
    show "writes_only (keyed E ({cred_key E b, marker_key E b} \<union> path_keys E (rx_context_paths st0))) w1 w2"
      by (rule writes_only_mono [OF c(2)]) (auto simp: ck paths assms(1) keyed_def)
  qed
  let ?S = "keyed E (insert (cred_key E (publish_reauth st1 b1)) (path_keys E (rx_context_paths st1)))"
  have outside: "marker_file E b \<notin> ?S" if "me = None" "cred_key E b \<noteq> marker_key E b"
  proof -
    have "path_keys E (rx_context_paths st1) \<inter> {marker_key E ?b} = {}"
      using validate_context_paths_None [OF assms(1) m(6) [OF that(1)]] by auto
    with that(2) show ?thesis by (auto simp: ck keyed_def assms(1))
  qed
  then have "file_at w' (marker_file E b) = file_at w1 (marker_file E b)"
    if "me = None" "cred_key E b \<noteq> marker_key E b"
    unfolding res(3) using that by (intro writes_only_file [OF c(2)])
  then have marker: "file_at w' (marker_file E b) = Some (CDoc (enc_reauth ((marker_of ?st)\<lparr>Version := reauth_state_version\<rparr>)))"
    if "?cleanup = None" "cred_key E b \<noteq> marker_key E b"
    using that m(5) none by (simp add: ck marker_of_def)
  let ?rec = "(marker_of st1)\<lparr>Version := reauth_state_version\<rparr>"
  have rec: "(marker_of ?st)\<lparr>Version := reauth_state_version\<rparr> = ?rec" by (simp add: marker_of_def)
  have order: "evolves (\<lambda>fs. fs (Named (cred_file E b)) = file_at w (cred_file E b) \<or>
      fs (Named (marker_file E b)) = Some (CDoc (enc_reauth ?rec))) w w'"
    if "?cleanup = None" "cred_key E b \<noteq> marker_key E b"
    unfolding res(3)
  proof (rule evolves_trans)
    have "cred_file E b \<noteq> marker_file E b"
      using that(2) credential_file_key [OF assms(1), of b] state_path_key_canonical [OF assms(1)] by metis
    then show "evolves (\<lambda>fs. fs (Named (cred_file E b)) = file_at w (cred_file E b) \<or>
        fs (Named (marker_file E b)) = Some (CDoc (enc_reauth ?rec))) w w1"
      using m(3) unfolding writes_only_def by (auto elim!: evolves_mono simp: ck)
    have "file_at w1 (marker_file E b) = Some (CDoc (enc_reauth ?rec))"
      using m(5) that none by (simp add: ck marker_of_def)
    then show "evolves (\<lambda>fs. fs (Named (cred_file E b)) = file_at w (cred_file E b) \<or>
        fs (Named (marker_file E b)) = Some (CDoc (enc_reauth ?rec))) w1 w2"
      using c(2) outside that none unfolding writes_only_def by (auto elim!: evolves_mono)
  qed
  have cleaned: "file_at w' (cred_file E b) = None \<and>
      (\<forall>p\<in>set (rx_context_paths ?st). read_context (file_at w' (cleared_file E (b_context_tokens b) p)) = Some [])"
    if "?cleanup = None"
    using c(4,5) that none by (simp add: res(3) ck tok paths assms(1))
  show "\<exists>cleanup st. e = ReauthRequiredError (Some cause) cleanup \<and> b_reauth b' = Some st \<and>
      rx_err st = Some e \<and> rx_id st = rx_id st0 \<and> rx_generation st = rx_generation st0 \<and>
      rx_invalid_sha st = rx_invalid_sha st0 \<and> rx_invalid_token st = rx_invalid_token st0 \<and>
      rx_account_id st = rx_account_id st0 \<and>
      rx_context_paths st = canonical_context_paths E (rx_context_paths st0) \<and>
      (cleanup = None \<longrightarrow>
        file_at w' (marker_file E b) = Some (CDoc (enc_reauth ((marker_of st)\<lparr>Version := reauth_state_version\<rparr>))) \<or>
          cred_key E b = marker_key E b) \<and>
      (cleanup = None \<longrightarrow> file_at w' (cred_file E b) = None \<and>
        (\<forall>p\<in>set (rx_context_paths st). read_context (file_at w' (cleared_file E (b_context_tokens b) p)) = Some [])) \<and>
      (cleanup = None \<longrightarrow> cred_key E b \<noteq> marker_key E b \<longrightarrow>
        evolves (\<lambda>fs. fs (Named (cred_file E b)) = file_at w (cred_file E b) \<or>
          fs (Named (marker_file E b)) = Some (CDoc (enc_reauth ((marker_of st)\<lparr>Version := reauth_state_version\<rparr>)))) w w')"
    using marker cleaned order [folded rec] m(1)
    by (intro exI [of _ ?cleanup] exI [of _ ?st]) (auto simp: res(1,2) paths)
qed

subsection \<open>When nothing fails\<close>

lemma nf_frame: "writes_only S w w' \<Longrightarrow> no_faults w \<Longrightarrow> no_faults w'"
  by (simp add: no_faults_def writes_only_fault)

lemma nf_context_clear: "no_faults w \<Longrightarrow> context_clear E s w = (r, s', w') \<Longrightarrow> r = None"
  using write_through_ok [of w] by (metis context_clear_def context_write_def fst_conv)

lemma nf_clear_paths:
  assumes "no_faults w" and "clear_paths E primary ps errs w = (errs', primary', w')"
  shows "errs' = errs"
  using assms
proof (induction ps arbitrary: primary w)
  case (Cons p ps)
  let ?s = "if key_of E p = key_of E (cs_path primary) then primary else new_context_store E [] p"
  obtain r s1 w1 where cl: "context_clear E ?s w = (r, s1, w1)" by (metis prod_cases3)
  have "r = None" by (rule nf_context_clear [OF Cons.prems(1) cl])
  moreover have "no_faults w1" using nf_frame [OF context_clear_spec(2) [OF cl] Cons.prems(1)] .
  ultimately show ?case
    using Cons.prems(2) cl Cons.IH by (auto split: if_splits)
qed simp

lemma nf_clear_context_paths:
  "no_faults w \<Longrightarrow> clear_context_paths E primary ps w = (r, primary', w') \<Longrightarrow> r = None"
  by (auto simp: clear_context_paths_def split: prod.splits dest!: nf_clear_paths)

lemma nf_os_remove: "no_faults w \<Longrightarrow> os_remove f w = (RemoveErr e, w') \<Longrightarrow> False"
  by (auto simp: os_remove_def os_call_def no_faults_def split: if_splits)

lemma nf_clear_credentials: "no_faults w \<Longrightarrow> clear_credentials E p w = (r, w') \<Longrightarrow> r = None"
  by (auto simp: clear_credentials_def split: prod.splits remove_result.splits dest: nf_os_remove)

lemma nf_reauth_clear: "no_faults w \<Longrightarrow> reauth_clear E s w = (r, s', w') \<Longrightarrow> r = None"
  by (auto simp: reauth_clear_def split: prod.splits remove_result.splits dest: nf_os_remove)

lemma nf_reauth_mark: "no_faults w \<Longrightarrow> reauth_mark E r s w = (x, s', w') \<Longrightarrow> x = None"
  using write_through_ok [of w] by (metis reauth_mark_def fst_conv)

subsection \<open>A sample bot\<close>

text \<open>A bot with explicit paths, and a disk with a marker for it.\<close>

definition sample_hash_env :: os_env where
  "sample_hash_env = sample_env\<lparr>Sha256Hex := (\<lambda>s. replicate 64 (if s = ''old'' then CHR ''a'' else CHR ''b''))\<rparr>"

definition sample_options :: options where
  "sample_options = \<lparr>o_base_url = [], o_account_id = [], o_cred_path = ''/c'', o_context_token_path = ''/t'',
     o_cursor_path = ''/u'', o_replay_path = ''/r'', o_has_verify = False\<rparr>"

definition sample_bot :: bot where
  "sample_bot = new_bot sample_hash_env sample_options"

definition sample_record :: reauth_record where
  "sample_record = \<lparr>Version = 1, InvalidTokenSHA256 = replicate 64 CHR ''a'', RecAccountID = ''acc'',
     ContextPaths = [''/t'']\<rparr>"

definition marked_world :: world where
  "marked_world = quiet_world\<lparr>files := [Named ''/c.reauth.json'' \<mapsto> CDoc (enc_reauth sample_record)]\<rparr>"

lemma env_wf_sample [simp]: "env_wf sample_hash_env"
  by (simp add: env_wf_def sample_hash_env_def sample_env_def is_abs_def)

lemma no_faults_marked [simp]: "no_faults marked_world"
  using no_faults_quiet by (simp add: marked_world_def no_faults_def)

lemma sample_bot_fields [simp]:
  "b_creds sample_bot = None" "b_reauth sample_bot = None" "b_login_mu sample_bot = False"
  "b_generation sample_bot = 0" "b_session_context sample_bot = None" "b_cancel_poll sample_bot = None"
  by (simp_all add: sample_bot_def new_bot_def Let_def)

lemma sample_marker_file: "file_at marked_world (marker_file sample_hash_env sample_bot) = Some (CDoc (enc_reauth sample_record))"
proof -
  have "marker_file sample_hash_env sample_bot = ''/c.reauth.json''" by code_simp
  then show ?thesis by (simp add: marked_world_def)
qed

lemma sample_paths_valid: "validate_current_state_paths sample_hash_env sample_bot = None"
  by code_simp

end
