(* ===== verification/SessionProps.thy ===== *)
theory SessionProps
  imports SessionFrame
begin

section \<open>Correctness of the session state machine\<close>

text \<open>
  The properties of invalidation, restoration and login that the durable marker is for: a bot
  that restarts over a marker stays closed, a rejected token is never installed, the marker
  goes only after the new session is durable, and operations of a replaced session have no
  effect.
\<close>

subsection \<open>Restoring\<close>

lemma without_credentials_spec:
  assumes "env_wf E" and "require_reauthentication_without_credentials E cause b w = (e, b', w')"
    and "b_reauth b = None"
  shows "b_reauth b' \<noteq> None \<and> b_creds b' = None" and "keeps (keyed E {cred_key E b}) w w'"
    and "b_login_mu b' = b_login_mu b" and "marker_file E b' = marker_file E b"
proof -
  obtain r w1 where ld: "load_credentials E (o_cred_path (b_opts b)) w = (r, w1)" by fastforce
  with assms(2,3) obtain st0 where inv: "invalidate_session E cause st0 b w1 = (e, b', w')"
    by (auto simp: require_reauthentication_without_credentials_def Let_def)
  note sp = invalidate_spec [OF assms(1) inv]
  show "b_reauth b' \<noteq> None \<and> b_creds b' = None" using sp(1,2) by auto
  show "b_login_mu b' = b_login_mu b" "marker_file E b' = marker_file E b" using sp(2) by auto
  show "keeps (keyed E {cred_key E b}) w w'"
    using load_credentials_quiet(2) [OF ld] sp(4) by (rule keeps_trans)
qed

text \<open>The state a marker restores, and the checks that come before any file is written.\<close>

definition restored_state :: "os_env \<Rightarrow> reauth_record \<Rightarrow> context_store \<Rightarrow> bot \<Rightarrow> reauth_state" where
  "restored_state E rec ctx b =
     \<lparr>rx_id = b_next_id b, rx_invalid_token = [], rx_invalid_sha = InvalidTokenSHA256 rec,
      rx_account_id = (if RecAccountID rec = [] then o_account_id (b_opts b) else RecAccountID rec),
      rx_context_paths = canonical_context_paths E (ContextPaths rec @ [cs_path (b_context_tokens b), cs_path ctx]),
      rx_generation = b_generation b, rx_err = None\<rparr>"

definition adopt_stores :: "reauth_record \<Rightarrow> context_store \<Rightarrow> cursor_store \<Rightarrow> replay_store \<Rightarrow> bot \<Rightarrow> bot" where
  "adopt_stores rec ctx cur rep b =
     (if o_account_id (b_opts b) = [] \<and> RecAccountID rec \<noteq> []
      then b\<lparr>b_opts := (b_opts b)\<lparr>o_account_id := RecAccountID rec\<rparr>,
             b_context_tokens := ctx, b_cursor_store := cur, b_replay_store := rep\<rparr>
      else b)"

lemma restore_cases:
  assumes "restore_from_record E rec b w = (r, b', w')" and "restored_stores E (RecAccountID rec) b = (ctx, cur, rep)"
  obtains (refused) "r \<noteq> None" "w' = w" "b' = b \<or> b' = b\<lparr>b_next_id := Suc (b_next_id b)\<rparr>"
  | (unmarked) st1 me where "validate_state_paths E b (cs_path ctx) (cu_path cur) (rp_path rep) = None"
      "mark_reauthentication E (restored_state E rec ctx b) [] (b\<lparr>b_next_id := Suc (b_next_id b)\<rparr>) w =
        (Some me, st1, b', w')" "r \<noteq> None"
  | (restored) st1 b1 w1 cleanup b2 where
      "validate_state_paths E b (cs_path ctx) (cu_path cur) (rp_path rep) = None"
      "validate_context_paths E b (rx_context_paths (restored_state E rec ctx b)) (cu_path cur) (rp_path rep) = None"
      "mark_reauthentication E (restored_state E rec ctx b) [] (b\<lparr>b_next_id := Suc (b_next_id b)\<rparr>) w =
        (None, st1, b1, w1)"
      "cleanup_reauthentication_files E st1 (publish_reauth st1 (adopt_stores rec ctx cur rep b1)) w1 =
        (cleanup, b2, w')"
      "r = None" "b' = snd (finish_reauth (Sentinel DurableReauthentication) cleanup st1 b2)"
proof -
  let ?b = "b\<lparr>b_next_id := Suc (b_next_id b)\<rparr>"
  obtain me st1 b1 w1 where mk: "mark_reauthentication E (restored_state E rec ctx b) [] ?b w = (me, st1, b1, w1)"
    by (metis prod_cases4)
  obtain cleanup b2 w2 where cl: "cleanup_reauthentication_files E st1
      (publish_reauth st1 (adopt_stores rec ctx cur rep b1)) w1 = (cleanup, b2, w2)"
    by (metis prod_cases3)
  have "protected_paths E ?b x y = protected_paths E b x y" for x y
    by (simp add: protected_paths_def credentials_path_def)
  then have vc: "validate_context_paths E ?b ps x y = validate_context_paths E b ps x y" for ps x y
    by (simp only: validate_context_paths_def)
  note unfolded = assms(1) [unfolded restore_from_record_def assms(2) prod.case Let_def,
      folded restored_state_def, folded adopt_stores_def, unfolded vc]
  let ?mismatch = "o_account_id (b_opts b) \<noteq> [] \<and> RecAccountID rec \<noteq> [] \<and> o_account_id (b_opts b) \<noteq> RecAccountID rec"
  let ?v1 = "validate_state_paths E b (cs_path ctx) (cu_path cur) (rp_path rep)"
  let ?v2 = "validate_context_paths E b (rx_context_paths (restored_state E rec ctx b)) (cu_path cur) (rp_path rep)"
  consider "?mismatch" | e where "\<not> ?mismatch" "?v1 = Some e"
    | e where "\<not> ?mismatch" "?v1 = None" "?v2 = Some e"
    | e where "\<not> ?mismatch" "?v1 = None" "?v2 = None" "me = Some e"
    | "\<not> ?mismatch" "?v1 = None" "?v2 = None" "me = None"
    by (metis not_None_eq)
  then show ?thesis
  proof cases
    case 1
    with unfolded show ?thesis by (intro refused) auto
  next
    case 2
    with unfolded show ?thesis by (intro refused) (auto split: if_splits)
  next
    case 3
    with unfolded show ?thesis by (intro refused) (auto split: if_splits)
  next
    case 4
    with unfolded mk show ?thesis by (intro unmarked [of e st1]) (auto split: if_splits)
  next
    case 5
    with unfolded mk cl show ?thesis
      by (intro restored [of st1 b1 w1 cleanup b2]) (auto split: if_splits)
  qed
qed

lemma restored_stores_keep:
  "restored_stores E acc b = (ctx, cur, rep) \<Longrightarrow> \<not> (o_account_id (b_opts b) = [] \<and> acc \<noteq> []) \<Longrightarrow>
   ctx = b_context_tokens b \<and> cur = b_cursor_store b \<and> rep = b_replay_store b"
  by (auto simp: restored_stores_def)

lemma restore_from_record_spec:
  assumes "env_wf E" and "restore_from_record E rec b w = (r, b', w')"
  shows "r = None \<Longrightarrow> b_reauth b' \<noteq> None \<and> b_creds b' = None"
    and "r \<noteq> None \<Longrightarrow> b_creds b' = b_creds b \<and> b_reauth b' = b_reauth b"
    and "b_login_mu b' = b_login_mu b" and "marker_file E b' = marker_file E b"
    and "keeps (keyed E {cred_key E b}) w w'"
    and "validate_current_state_paths E b = None \<Longrightarrow>
      \<exists>ks. writes_only (keyed E ks) w w' \<and>
        ks \<inter> key_of E ` {cu_path (b_cursor_store b), rp_path (b_replay_store b),
          cu_path (b_cursor_store b'), rp_path (b_replay_store b')} = {}"
proof -
  obtain ctx cur rep where rs: "restored_stores E (RecAccountID rec) b = (ctx, cur, rep)" by (metis prod_cases3)
  let ?prot = "key_of E ` {cu_path (b_cursor_store b), rp_path (b_replay_store b),
      cu_path (b_cursor_store b'), rp_path (b_replay_store b')}"
  have "(r = None \<longrightarrow> b_reauth b' \<noteq> None \<and> b_creds b' = None) \<and>
    (r \<noteq> None \<longrightarrow> b_creds b' = b_creds b \<and> b_reauth b' = b_reauth b) \<and>
    b_login_mu b' = b_login_mu b \<and> marker_file E b' = marker_file E b \<and>
    keeps (keyed E {cred_key E b}) w w' \<and>
    (validate_current_state_paths E b = None \<longrightarrow> (\<exists>ks. writes_only (keyed E ks) w w' \<and> ks \<inter> ?prot = {}))"
    using assms(2) rs
  proof (cases rule: restore_cases)
    case refused
    then show ?thesis by (auto intro: exI [of _ "{}"])
  next
    case (unmarked st1 me)
    note m = mark_spec [OF assms(1) unmarked(2)]
    from m(2) obtain rs where b': "b' = b\<lparr>b_next_id := Suc (b_next_id b), b_reauth_store := rs\<rparr>"
      "rs_path rs = rs_path (b_reauth_store b)" by auto
    have "writes_only (keyed E {marker_key E b}) w w'"
      by (rule writes_only_mono [OF m(3)]) (simp add: keyed_def assms(1))
    moreover have "{marker_key E b} \<inter> ?prot = {}" if "validate_current_state_paths E b = None"
      using validate_state_paths_None [OF assms(1) that [unfolded validate_current_state_paths_def]] b' by auto
    moreover have "keeps (keyed E {cred_key E b}) w w'" by (rule keeps_mono [OF m(4)]) simp
    ultimately show ?thesis using b' unmarked(3) by auto
  next
    case (restored st1 b1 w1 cleanup b2)
    note m = mark_spec [OF assms(1) restored(3)] and c = cleanup_spec [OF assms(1) restored(4)]
    from m(2) obtain rs where b1: "b1 = b\<lparr>b_next_id := Suc (b_next_id b), b_reauth_store := rs\<rparr>"
      "rs_path rs = rs_path (b_reauth_store b)" by auto
    let ?a = "adopt_stores rec ctx cur rep b1"
    have a: "o_cred_path (b_opts ?a) = o_cred_path (b_opts b)" "b_cursor_store ?a = cur" "b_replay_store ?a = rep"
      "b_login_mu ?a = b_login_mu b" "b_reauth_store ?a = rs"
      using restored_stores_keep [OF rs(1)] by (auto simp: adopt_stores_def b1)
    from c(1) obtain ct where b2: "b2 = (publish_reauth st1 ?a)\<lparr>b_context_tokens := ct\<rparr>" by auto
    have b': "b_cursor_store b' = cur" "b_replay_store b' = rep" "b_login_mu b' = b_login_mu b"
      "b_reauth_store b' = rs" "b_creds b' = None" "b_reauth b' \<noteq> None"
      using a by (simp_all add: restored(6) finish_reauth_def b2 publish_reauth_def Let_def)
    have ck: "cred_key E (publish_reauth st1 ?a) = cred_key E b"
      using a by (simp add: publish_reauth_def credentials_path_def)
    have paths: "path_keys E (rx_context_paths st1) = path_keys E (rx_context_paths (restored_state E rec ctx b))"
      using m(1) assms(1) by simp
    let ?ks = "{marker_key E b, cred_key E b} \<union> path_keys E (rx_context_paths st1)"
    have "writes_only (keyed E ?ks) w w'"
    proof (rule writes_only_trans)
      show "writes_only (keyed E ?ks) w w1"
        by (rule writes_only_mono [OF m(3)]) (simp add: keyed_def assms(1))
      show "writes_only (keyed E ?ks) w1 w'"
        by (rule writes_only_mono [OF c(2)]) (auto simp: ck keyed_def)
    qed
    moreover have "?ks \<inter> ?prot = {}" if "validate_current_state_paths E b = None"
      using validate_state_paths_None [OF assms(1) that [unfolded validate_current_state_paths_def]]
        validate_state_paths_None [OF assms(1) restored(1)]
        validate_context_paths_None [OF assms(1) restored(2)]
        validate_context_paths_None [OF assms(1) m(6)] paths b' by auto
    moreover have "keeps (keyed E {cred_key E b}) w w'"
      by (rule keeps_trans [OF keeps_mono [OF m(4)] c(3) [unfolded ck]]) simp
    ultimately show ?thesis using b' b1 restored(5) by auto
  qed
  then show "r = None \<Longrightarrow> b_reauth b' \<noteq> None \<and> b_creds b' = None"
    and "r \<noteq> None \<Longrightarrow> b_creds b' = b_creds b \<and> b_reauth b' = b_reauth b"
    and "b_login_mu b' = b_login_mu b" and "marker_file E b' = marker_file E b"
    and "keeps (keyed E {cred_key E b}) w w'"
    and "validate_current_state_paths E b = None \<Longrightarrow>
      \<exists>ks. writes_only (keyed E ks) w w' \<and> ks \<inter> ?prot = {}"
    by simp_all
qed

subsection \<open>Fail closed over a restart\<close>

lemma reauth_load_present:
  assumes "reauth_load E s w = (r, s', w')" and "file_at w (resolve E (rs_path s)) \<noteq> None"
  shows "r \<noteq> Inr None"
proof
  assume "r = Inr None"
  with reauth_loadD(1) [OF assms(1) [unfolded this]] assms(2) show False
    by (auto simp: read_marker_def split: option.splits sum.splits)
qed

lemma restore_durable_present:
  assumes "env_wf E" and "restore_durable_reauthentication E b w = (r, b', w')"
    and "b_creds b = None" and "file_at w (marker_file E b) \<noteq> None"
  shows "b_creds b' = None" and "r = None \<Longrightarrow> b_reauth b' \<noteq> None"
    and "keeps (keyed E {cred_key E b}) w w'" and "marker_file E b' = marker_file E b"
    and "b_login_mu b' = b_login_mu b"
proof -
  have "b_creds b' = None \<and> (r = None \<longrightarrow> b_reauth b' \<noteq> None) \<and> keeps (keyed E {cred_key E b}) w w' \<and>
    marker_file E b' = marker_file E b \<and> b_login_mu b' = b_login_mu b"
  proof (cases "b_reauth b")
    case (Some st)
    with assms(2,3) show ?thesis by (simp add: restore_durable_reauthentication_def)
  next
    case None
    obtain x rs w1 where ld: "reauth_load E (b_reauth_store b) w = (x, rs, w1)" by (metis prod_cases3)
    note fr = reauth_load_frame [OF ld]
    have q: "keeps (keyed E {cred_key E b}) w w1"
      by (rule same_files_frame) (use fr in simp)
    let ?b = "b\<lparr>b_reauth_store := rs\<rparr>"
    have same: "cred_key E ?b = cred_key E b" "marker_file E ?b = marker_file E b"
      by (simp_all add: credentials_path_def fr(1))
    from reauth_load_present [OF ld assms(4)] consider e where "x = Inl e" | rec where "x = Inr (Some rec)"
      by (cases x) auto
    then show ?thesis
    proof cases
      case 1
      obtain e' b2 w2 where wo: "require_reauthentication_without_credentials E
          (Joined [Sentinel DurableReauthentication, e]) ?b w1 = (e', b2, w2)" by (metis prod_cases3)
      with 1 None ld assms(2) have "r = None" "b' = b2" "w' = w2"
        by (simp_all add: restore_durable_reauthentication_def Let_def)
      with without_credentials_spec [OF assms(1) wo] None same keeps_trans [OF q] show ?thesis by auto
    next
      case 2
      with None ld assms(2) have "restore_from_record E rec ?b w1 = (r, b', w')"
        by (simp add: restore_durable_reauthentication_def Let_def)
      from restore_from_record_spec(1-5) [OF assms(1) this] same assms(3) keeps_trans [OF q]
      show ?thesis by (cases r) auto
    qed
  qed
  then show "b_creds b' = None" and "r = None \<Longrightarrow> b_reauth b' \<noteq> None"
    and "keeps (keyed E {cred_key E b}) w w'" and "marker_file E b' = marker_file E b"
    and "b_login_mu b' = b_login_mu b"
    by blast+
qed

text \<open>C1: a bot that starts over a marker stays closed.  While the marker file exists, readable
  or not and whatever system calls fail, a non-forced login of a bot without credentials ends
  in an error, asks the server nothing, installs nothing, and at every moment leaves the marker
  in place, so the next restart is closed as well.\<close>

theorem restart_fail_closed:
  assumes "env_wf E" and "b_creds b = None" and "file_at w (marker_file E b) \<noteq> None"
    and "bot_login E now between1 between2 False io b w = (r, io', b', w')"
  shows "(\<exists>e. r = LErr e) \<and> io' = io \<and> b_creds b' = None \<and> marker_file E b' = marker_file E b \<and>
    evolves (\<lambda>fs. fs (Named (marker_file E b)) \<noteq> None) w w'"
proof -
  let ?b = "b\<lparr>b_login_mu := True\<rparr>"
  have vc: "validate_current_state_paths E ?b = validate_current_state_paths E b"
    by (simp add: validate_current_state_paths_def validate_state_paths_def credentials_path_def)
  show ?thesis
  proof (cases "b_reauth b \<noteq> None \<or> b_login_mu b \<or> validate_current_state_paths E b \<noteq> None")
    case True
    with assms(2,4) show ?thesis
      by (auto simp: bot_login_def release_def vc Let_def split: option.splits if_splits)
  next
    case False
    obtain x b1 w1 where re: "restore_durable_reauthentication E ?b w = (x, b1, w1)" by (metis prod_cases3)
    have ck: "cred_key E ?b = cred_key E b" by (simp add: credentials_path_def)
    note sp = restore_durable_present [OF assms(1) re, unfolded ck, simplified, OF assms(2)]
    have "reauth_error b1 \<noteq> None" if "x = None"
      using sp(2) that assms(3) by (auto simp: reauth_error_def split: option.splits)
    with False re assms(2,4) have res: "\<exists>e. r = LErr e" "io' = io" "b' = b1\<lparr>b_login_mu := False\<rparr>" "w' = w1"
      by (auto simp: bot_login_def release_def vc Let_def split: option.splits if_splits)
    have "cred_key E b \<noteq> marker_key E b"
      using False validate_state_paths_None [OF assms(1)] by (auto simp: validate_current_state_paths_def)
    then have "marker_file E b \<notin> keyed E {cred_key E b}" by (simp add: keyed_def assms(1))
    with sp(3) assms(3) have "evolves (\<lambda>fs. fs (Named (marker_file E b)) \<noteq> None) w w1"
      unfolding keeps_def by (auto elim!: evolves_mono)
    with res sp assms(3) show ?thesis by auto
  qed
qed

theorem restart_fail_closed_witness:
  "\<exists>e io' b' w'. bot_login sample_hash_env ''now'' Pair Pair False sample_io sample_bot marked_world =
     (LErr e, io', b', w') \<and> io' = sample_io \<and> b_creds b' = None"
proof -
  obtain r io' b' w' where run: "bot_login sample_hash_env ''now'' Pair Pair False sample_io sample_bot marked_world =
      (r, io', b', w')" by (metis prod_cases4)
  have "file_at marked_world (marker_file sample_hash_env sample_bot) \<noteq> None"
    by (simp add: sample_marker_file)
  from restart_fail_closed [OF env_wf_sample sample_bot_fields(1) this run] run show ?thesis by auto
qed

text \<open>C7: restoring from a marker never touches the cursor or the replay state.  Whatever context
  paths the marker lists, at every moment of the restoration the cursor and replay files, those
  in use before and those in use after, are as they were.\<close>

theorem restore_protects_delivery_state:
  assumes "env_wf E" and "validate_current_state_paths E b = None"
    and "restore_from_record E rec b w = (r, b', w')"
  shows "evolves (\<lambda>fs. \<forall>p\<in>{cu_path (b_cursor_store b), rp_path (b_replay_store b),
      cu_path (b_cursor_store b'), rp_path (b_replay_store b')}.
      fs (Named (resolve E p)) = file_at w (resolve E p)) w w'"
proof -
  from restore_from_record_spec(6) [OF assms(1,3,2)] obtain ks where
    ks: "writes_only (keyed E ks) w w'"
    "ks \<inter> key_of E ` {cu_path (b_cursor_store b), rp_path (b_replay_store b),
      cu_path (b_cursor_store b'), rp_path (b_replay_store b')} = {}" by blast
  from ks(2) have "resolve E p \<notin> keyed E ks" if "p \<in> {cu_path (b_cursor_store b), rp_path (b_replay_store b),
      cu_path (b_cursor_store b'), rp_path (b_replay_store b')}" for p
    using that by (auto simp: keyed_def assms(1))
  with ks(1) show ?thesis unfolding writes_only_def by (auto elim!: evolves_mono)
qed

theorem restore_protects_delivery_state_witness:
  "\<exists>r b' w'. restore_from_record sample_hash_env sample_record sample_bot marked_world = (r, b', w') \<and>
     file_at w' (resolve sample_hash_env (cu_path (b_cursor_store b'))) =
     file_at marked_world (resolve sample_hash_env (cu_path (b_cursor_store b')))"
proof -
  obtain r b' w' where run: "restore_from_record sample_hash_env sample_record sample_bot marked_world = (r, b', w')"
    by (metis prod_cases3)
  note ev = restore_protects_delivery_state [OF env_wf_sample sample_paths_valid run]
  show ?thesis using run evolves_files [OF ev] by auto
qed

subsection \<open>Rejected tokens\<close>

lemma login_acquire_ok:
  assumes "login_acquire E now force reauth io b w = (LOk c, io', w')"
  shows "\<not> rejects_token E reauth (cr_token c)"
    and "expected_account reauth b \<noteq> [] \<Longrightarrow> cr_account_id c = expected_account reauth b"
    and "force \<Longrightarrow> cr_token c \<noteq> []"
    and "force \<Longrightarrow> file_at w' (cred_file E b) = Some (CDoc (enc_creds c))"
proof -
  obtain r io1 w1 where al: "auth_login E now (login_options_of reauth force b) io w = (r, io1, w1)"
    by (metis prod_cases3)
  have "r = LOk c \<and> w' = w1 \<and> \<not> rejects_token E reauth (cr_token c) \<and>
    (expected_account reauth b \<noteq> [] \<longrightarrow> cr_account_id c = expected_account reauth b)"
    using assms al
    by (cases r) (auto simp: login_acquire_def rejects_token_def split: if_splits prod.splits option.splits)
  then show "\<not> rejects_token E reauth (cr_token c)"
    and "expected_account reauth b \<noteq> [] \<Longrightarrow> cr_account_id c = expected_account reauth b"
    and "force \<Longrightarrow> cr_token c \<noteq> []"
    and "force \<Longrightarrow> file_at w' (cred_file E b) = Some (CDoc (enc_creds c))"
    using auth_login_props(5) [OF al, of c]
    by (auto simp: fresh_def confirmed_by_def login_options_of_def)
qed

lemma login_install_ok:
  assumes "login_install E force reauth c sel b w = (LOk d, b', w')"
  shows "d = c" and "b_creds b' = Some c" and "b_reauth b' = None"
  using assms
  by (auto simp: login_install_def install_session_def Let_def split: prod.splits option.splits if_splits)

lemma login_run_ok:
  assumes "login_run E now between1 between2 force reauth io b w = (LOk c, io', b', w')"
  obtains io1 w1 where "login_acquire E now force reauth io b w = (LOk c, io1, w1)"
    and "b_creds b' = Some c" and "b_reauth b' = None"
proof -
  obtain r io1 w1 where la: "login_acquire E now force reauth io b w = (r, io1, w1)" by (metis prod_cases3)
  with assms obtain d where r: "r = LOk d" by (cases r) (auto simp: login_run_def)
  obtain b2 w2 where i1: "between1 b w1 = (b2, w2)" by fastforce
  obtain b3 w3 where i2: "between2 b2 w2 = (b3, w3)" by fastforce
  from assms la r i1 i2 have "login_install E force reauth d (select_stores E reauth d b2) b3 w3 = (LOk c, b', w')"
    by (auto simp: login_run_def Let_def split: option.splits prod.splits)
  from login_install_ok [OF this] la r that show ?thesis by simp
qed

text \<open>A prepared state of a bot that is already waiting for reauthentication keeps the fingerprint.\<close>

lemma prepare_keeps_fingerprint:
  assumes "prepare_reauthentication E b w = (None, Some st', b', w')" and "b_reauth b = Some st"
    and "rx_invalid_sha st \<noteq> []"
  shows "rx_invalid_sha st' = rx_invalid_sha st"
    and "rx_account_id st \<noteq> [] \<Longrightarrow> rx_account_id st' = rx_account_id st"
proof -
  have *: "rx_invalid_sha st' = rx_invalid_sha st \<and> (rx_account_id st \<noteq> [] \<longrightarrow> rx_account_id st' = rx_account_id st)"
  proof (cases "\<exists>cause e. errors_as_reauth (wait_reauth_state st) = Some (cause, Some e)")
    case False
    with assms(1,2) have "st' = st"
      by (auto simp: prepare_reauthentication_def split: option.splits prod.splits)
    then show ?thesis by simp
  next
    case True
    then obtain cause where
      rt: "retry_reauthentication_cleanup E st cause b w = (None, Some st', b', w')"
      using assms(1,2) by (auto simp: prepare_reauthentication_def)
    then show ?thesis
      using assms(2,3)
      by (auto simp: retry_reauthentication_cleanup_def retry_state_def mark_reauthentication_def Let_def
          split: prod.splits option.splits if_splits)
  qed
  then show "rx_invalid_sha st' = rx_invalid_sha st"
    and "rx_account_id st \<noteq> [] \<Longrightarrow> rx_account_id st' = rx_account_id st" by blast+
qed

lemma prepare_some: "prepare_reauthentication E b w = (None, x, b', w') \<Longrightarrow> b_reauth b = Some st \<Longrightarrow> x \<noteq> None"
  by (auto simp: prepare_reauthentication_def retry_reauthentication_cleanup_def Let_def dest: sym
      split: option.splits prod.splits if_splits)

lemma restored_fingerprint:
  assumes "restore_from_record E rec b w = (None, b', w')"
  shows "\<exists>st. b_reauth b' = Some st \<and> rx_invalid_sha st = InvalidTokenSHA256 rec \<and>
    (RecAccountID rec \<noteq> [] \<longrightarrow> rx_account_id st = RecAccountID rec)"
proof -
  obtain ctx cur rep where rs: "restored_stores E (RecAccountID rec) b = (ctx, cur, rep)" by (metis prod_cases3)
  from assms rs show ?thesis
  proof (cases rule: restore_cases)
    case (restored st1 b1 w1 cleanup b2)
    then have "rx_invalid_sha st1 = InvalidTokenSHA256 rec \<and>
        (RecAccountID rec \<noteq> [] \<longrightarrow> rx_account_id st1 = RecAccountID rec)"
      by (auto simp: mark_reauthentication_def restored_state_def Let_def split: option.splits prod.splits)
    with restored(6) show ?thesis by (auto simp: finish_reauth_def Let_def)
  qed auto
qed

text \<open>C4: a rejected token stays rejected over a restart.  When a bot that finds a marker on disk
  reauthenticates successfully, the token it installs does not have the fingerprint in the
  marker and belongs to the account the marker names, whatever the server sends and whatever
  other goroutines do in between.\<close>

theorem rejected_token_never_installed:
  assumes "reauthenticate E now between1 between2 io b w = (LOk c, io', b', w')"
    and "b_reauth b = None" and "reauth_load E (b_reauth_store b) w = (Inr (Some rec), rs, w1)"
    and "InvalidTokenSHA256 rec \<noteq> []"
  shows "token_sha256 E (cr_token c) \<noteq> InvalidTokenSHA256 rec \<and>
    (RecAccountID rec \<noteq> [] \<longrightarrow> cr_account_id c = RecAccountID rec) \<and>
    b_creds b' = Some c \<and> b_reauth b' = None"
proof -
  let ?b = "b\<lparr>b_login_mu := True, b_reauth_store := rs\<rparr>"
  obtain x b1 w2 where rest: "restore_from_record E rec ?b w1 = (x, b1, w2)" by (metis prod_cases3)
  have "x = None"
    using assms(1-3) rest
    by (auto simp: reauthenticate_def release_def Let_def restore_durable_reauthentication_def
        split: if_splits option.splits prod.splits)
  with rest have rest: "restore_from_record E rec ?b w1 = (None, b1, w2)" by simp
  from restored_fingerprint [OF this] obtain st where st: "b_reauth b1 = Some st"
    "rx_invalid_sha st = InvalidTokenSHA256 rec" "RecAccountID rec \<noteq> [] \<longrightarrow> rx_account_id st = RecAccountID rec"
    by blast
  obtain y sto b2 w3 where pr: "prepare_reauthentication E b1 w2 = (y, sto, b2, w3)" by (metis prod_cases4)
  obtain r io1 b3 w4 where lr: "login_run E now between1 between2 True sto io b2 w3 = (r, io1, b3, w4)"
    by (metis prod_cases4)
  have res: "y = None" "r = LOk c" "b_creds b' = b_creds b3" "b_reauth b' = b_reauth b3"
    using assms(1-3) rest pr lr
    by (auto simp: reauthenticate_def release_def Let_def restore_durable_reauthentication_def
        split: if_splits option.splits prod.splits)
  from prepare_some [OF pr [unfolded res(1)] st(1)] obtain st' where sto: "sto = Some st'" by blast
  note keep = prepare_keeps_fingerprint [OF pr [unfolded res(1) sto] st(1)]
  from lr [unfolded res(2) sto] show ?thesis
  proof (rule login_run_ok)
    fix io1 w1
    assume la: "login_acquire E now True (Some st') io b2 w3 = (LOk c, io1, w1)"
      and inst: "b_creds b3 = Some c" "b_reauth b3 = None"
    note ok = login_acquire_ok [OF la]
    have "token_sha256 E (cr_token c) \<noteq> InvalidTokenSHA256 rec"
      using ok(1,3) keep(1) st(2) assms(4) by (auto simp: rejects_token_def)
    moreover have "RecAccountID rec \<noteq> [] \<longrightarrow> cr_account_id c = RecAccountID rec"
      using ok(2) keep(2) st(2,3) assms(4) by (auto simp: expected_account_def)
    ultimately show ?thesis using inst res by simp
  qed
qed

subsection \<open>The marker outlives the reauthentication\<close>

text \<open>The context paths a successful reauthentication has to clear.\<close>

definition contexts_to_clear :: "os_env \<Rightarrow> reauth_state \<Rightarrow> login_selection \<Rightarrow> bot \<Rightarrow> path list" where
  "contexts_to_clear E st sel b =
     canonical_context_paths E (rx_context_paths st @ [cs_path (selected_context sel b)])"

lemma give_up_spec:
  assumes "env_wf E" and "give_up E reauth errs b w = (e, w')"
  shows "writes_only (keyed E {cred_key E b}) w w'" and "keeps (keyed E {cred_key E b}) w w'"
proof -
  obtain x w1 where cl: "clear_credentials E (o_cred_path (b_opts b)) w = (x, w1)" by fastforce
  with assms(2) have "w' = w1" by (simp add: give_up_def)
  with clear_credentials_spec(1,2) [OF cl] show "writes_only (keyed E {cred_key E b}) w w'"
    and "keeps (keyed E {cred_key E b}) w w'"
    by (auto elim!: writes_only_mono keeps_mono simp: keyed_def credential_file_key assms(1))
qed

lemma persist_and_clear_spec:
  assumes "env_wf E" and "persist_and_clear_contexts E st sel b w = (r, st', sel', b', w')"
  shows "writes_only (keyed E (insert (marker_key E b) (path_keys E (rx_context_paths st @ [cs_path (selected_context sel b)])))) w w'"
    and "keeps {} w w'" and "marker_file E b' = marker_file E b" and "b_opts b' = b_opts b"
    and "rx_id st' = rx_id st"
    and "r = None \<Longrightarrow> p \<in> set (contexts_to_clear E st sel b) \<Longrightarrow>
      read_context (file_at w' (cleared_file E (selected_context sel b) p)) = Some []"
proof -
  let ?prim = "selected_context sel b" and ?paths = "contexts_to_clear E st sel b"
  let ?st = "st\<lparr>rx_context_paths := ?paths\<rparr>"
  have put: "b_reauth_store (put_reauth x b) = b_reauth_store b" "b_opts (put_reauth x b) = b_opts b" for x
    by (simp_all add: put_reauth_def)
  obtain x rs w1 where mk: "reauth_mark E (marker_of ?st) (b_reauth_store b) w = (x, rs, w1)"
    by (metis prod_cases3)
  obtain y c w2 where cl: "clear_context_paths E ?prim ?paths w1 = (y, c, w2)" by (metis prod_cases3)
  note m = reauth_mark_spec [OF mk] and cs = clear_context_paths_spec [OF assms(1) cl]
  have keys: "key_of E ` {p \<in> set ?paths. p \<noteq> []} = path_keys E (rx_context_paths st @ [cs_path ?prim])"
    using path_keys_canonical [OF assms(1)] by (simp add: path_keys_def contexts_to_clear_def)
  let ?S = "keyed E (insert (marker_key E b) (path_keys E (rx_context_paths st @ [cs_path ?prim])))"
  have w1: "writes_only ?S w w1" "keeps {} w w1"
    using write_ok_frame [OF m(3)] by (auto elim!: writes_only_mono simp: keyed_def assms(1))
  have w2: "writes_only ?S w1 w2" "keeps {} w1 w2"
    using cs(2,3) by (auto elim!: writes_only_mono simp: keyed_def keys)
  have rs: "rs_path rs = rs_path (b_reauth_store b)" using m(1) by auto
  have cases: "x \<noteq> None \<and> r \<noteq> None \<and> w' = w1 \<and> st' = ?st \<and> b_reauth_store b' = rs \<and> b_opts b' = b_opts b \<or>
      x = None \<and> r = y \<and> w' = w2 \<and> st' = ?st \<and> b_reauth_store b' = rs \<and> b_opts b' = b_opts b"
    using assms(2) mk cl
    by (auto simp: persist_and_clear_contexts_def contexts_to_clear_def Let_def put put_context_def
        split: option.splits)
  show "writes_only ?S w w'" using cases w1(1) writes_only_trans [OF w1(1) w2(1)] by auto
  show "keeps {} w w'" using cases w1(2) keeps_trans [OF w1(2) w2(2)] by auto
  show "marker_file E b' = marker_file E b" "b_opts b' = b_opts b" "rx_id st' = rx_id st"
    using cases rs by auto
  show "read_context (file_at w' (cleared_file E ?prim p)) = Some []" if "r = None" "p \<in> set ?paths"
    using cases cs(4) that assms(1) by (auto simp: contexts_to_clear_def)
qed

lemma nf_persist_and_clear:
  assumes "no_faults w" and "env_wf E" and "persist_and_clear_contexts E st sel b w = (r, st', sel', b', w')"
  shows "r = None"
proof -
  let ?prim = "selected_context sel b" and ?paths = "contexts_to_clear E st sel b"
  let ?st = "st\<lparr>rx_context_paths := ?paths\<rparr>"
  obtain x rs w1 where mk: "reauth_mark E (marker_of ?st) (b_reauth_store b) w = (x, rs, w1)"
    by (metis prod_cases3)
  obtain y c w2 where cl: "clear_context_paths E ?prim ?paths w1 = (y, c, w2)" by (metis prod_cases3)
  have x: "x = None" by (rule nf_reauth_mark [OF assms(1) mk])
  have "no_faults w1"
    using nf_frame [OF write_ok_frame(1) [OF reauth_mark_spec(3) [OF mk]] assms(1)] .
  then have "y = None" using cl by (rule nf_clear_context_paths)
  with x assms(3) mk cl show ?thesis
    by (auto simp: persist_and_clear_contexts_def contexts_to_clear_def Let_def put_reauth_def put_context_def
        split: option.splits if_splits prod.splits)
qed

lemma marker_goes_last_aux:
  assumes "env_wf E" and "check_selection E (Some st) sel b = None"
    and "file_at w (marker_file E b) \<noteq> None"
    and "login_install E True (Some st) c sel b w = (r, b', w')"
  shows "evolves (\<lambda>fs. fs (Named (marker_file E b)) = None \<longrightarrow>
      fs (Named (cred_file E b)) = file_at w (cred_file E b) \<and>
      (\<forall>p\<in>set (contexts_to_clear E st sel b).
        read_context (fs (Named (cleared_file E (selected_context sel b) p))) = Some [])) w w' \<and>
    (file_at w' (marker_file E b) = None \<longleftrightarrow> r = LOk c)"
proof -
  let ?prim = "selected_context sel b" and ?m = "marker_file E b" and ?c = "cred_file E b"
  let ?goal = "\<lambda>fs. fs (Named ?m) = None \<longrightarrow> fs (Named ?c) = file_at w ?c \<and>
      (\<forall>p\<in>set (contexts_to_clear E st sel b). read_context (fs (Named (cleared_file E ?prim p))) = Some [])"
  from assms(2) have v: "validate_state_paths E b (cs_path ?prim) (cu_path (ls_cursor sel)) (rp_path (ls_replay sel)) = None"
    "validate_context_paths E b (rx_context_paths st) (cu_path (ls_cursor sel)) (rp_path (ls_replay sel)) = None"
    by (auto simp: check_selection_def split: option.splits)
  note d = validate_state_paths_None [OF assms(1) v(1)] and pc = validate_context_paths_None [OF assms(1) v(2)]
  let ?ks = "path_keys E (rx_context_paths st @ [cs_path ?prim])"
  have ks: "cred_key E b \<notin> insert (marker_key E b) ?ks" "marker_key E b \<notin> ?ks" "cred_key E b \<noteq> marker_key E b"
    using d pc by (auto simp: path_keys_def)
  obtain x st1 sel1 b1 w1 where pa: "persist_and_clear_contexts E st sel b w = (x, st1, sel1, b1, w1)"
    by (metis prod_cases5)
  note sp = persist_and_clear_spec [OF assms(1) pa]
  have ck: "cred_key E b1 = cred_key E b" using sp(4) by (simp add: credentials_path_def)
  have keep1: "evolves (\<lambda>fs. fs (Named ?m) \<noteq> None) w w1"
    using sp(2) assms(3) unfolding keeps_def by (auto elim!: evolves_mono)
  have m1: "file_at w1 ?m \<noteq> None" using evolves_files [OF keep1] assms(3) by simp
  have c1: "file_at w1 ?c = file_at w ?c"
    by (rule writes_only_file [OF sp(1)])
      (use ks in \<open>simp add: keyed_def credential_file_key assms(1)\<close>)
  have giveup: ?thesis if gu: "give_up E z errs b2 w2 = (e, w')" "b_opts b2 = b_opts b"
      and m2: "evolves (\<lambda>fs. fs (Named ?m) \<noteq> None) w w2" and r: "r = LErr e'" for z errs b2 w2 e e'
  proof -
    have "cred_key E b2 = cred_key E b" using gu(2) by (simp add: credentials_path_def)
    with give_up_spec(2) [OF assms(1) gu(1)] have kp: "keeps (keyed E {cred_key E b}) w2 w'" by simp
    have "file_at w2 ?m \<noteq> None" using evolves_files [OF m2] assms(3) by simp
    moreover have "?m \<notin> keyed E {cred_key E b}" using ks(3) by (simp add: keyed_def assms(1))
    ultimately have "evolves (\<lambda>fs. fs (Named ?m) \<noteq> None) w2 w'"
      using kp unfolding keeps_def by (auto elim!: evolves_mono)
    with m2 have ev: "evolves (\<lambda>fs. fs (Named ?m) \<noteq> None) w w'" by (rule evolves_trans)
    then have "file_at w' ?m \<noteq> None" by (rule evolves_files) (rule assms(3))
    moreover have "evolves ?goal w w'" using ev by (auto elim!: evolves_mono)
    ultimately show ?thesis using r by simp
  qed
  show ?thesis
  proof (cases "x \<noteq> None \<or> \<not> same_state (b_reauth b1) (Some st1)")
    case True
    with assms(4) pa have "\<exists>z errs e. give_up E z errs b1 w1 = (e, w') \<and> r = LErr e"
      by (cases x) (auto simp: login_install_def prepare_contexts_def split: prod.splits)
    with giveup [OF _ sp(4) keep1] show ?thesis by blast
  next
    case False
    obtain y rs w2 where cl: "reauth_clear E (b_reauth_store b1) w1 = (y, rs, w2)" by (metis prod_cases3)
    note rc = reauth_clear_spec [OF cl, unfolded sp(3)]
    show ?thesis
    proof (cases y)
      case (Some e)
      have keep2: "evolves (\<lambda>fs. fs (Named ?m) \<noteq> None) w1 w2"
        by (rule evolves_mono [OF rc(3)]) (use rc(2) Some m1 in auto)
      from assms(4) pa False cl Some obtain z errs e' where
        gu: "give_up E z errs (b1\<lparr>b_reauth_store := rs\<rparr>) w2 = (e', w')" "r = LErr e'"
        by (auto simp: login_install_def prepare_contexts_def split: prod.splits)
      have "b_opts (b1\<lparr>b_reauth_store := rs\<rparr>) = b_opts b" using sp(4) by simp
      from giveup [OF gu(1) this evolves_trans [OF keep1 keep2] gu(2)] show ?thesis .
    next
      case None
      from assms(4) pa False cl None have res: "r = LOk c" "w' = w2"
        by (auto simp: login_install_def prepare_contexts_def split: prod.splits)
      have x: "x = None" using False by simp
      have other: "?m \<noteq> ?c" "\<forall>p\<in>set (contexts_to_clear E st sel b). cleared_file E ?prim p \<noteq> ?m"
      proof -
        show "?m \<noteq> ?c"
          using ks(3) credential_file_key [OF assms(1), of b] state_path_key_canonical [OF assms(1)] by metis
        show "\<forall>p\<in>set (contexts_to_clear E st sel b). cleared_file E ?prim p \<noteq> ?m"
        proof
          fix p
          assume "p \<in> set (contexts_to_clear E st sel b)"
          then have "key_of E p \<in> ?ks"
            using path_keys_canonical [OF assms(1)] canonical_not_Nil [OF assms(1)]
            unfolding contexts_to_clear_def path_keys_def by blast
          then have "key_of E (cleared_file E ?prim p) \<in> ?ks" by (simp add: cleared_file_key assms(1))
          with ks(2) show "cleared_file E ?prim p \<noteq> ?m"
            using state_path_key_canonical [OF assms(1)] by metis
        qed
      qed
      have "evolves ?goal w1 w2"
        by (rule evolves_mono [OF rc(3)])
          (use other sp(6) [OF x] c1 in \<open>auto simp: named_except_def\<close>)
      moreover have "evolves ?goal w w1" using keep1 by (auto elim!: evolves_mono)
      ultimately have "evolves ?goal w w'" unfolding res by (blast intro: evolves_trans)
      with rc(2) None res show ?thesis by simp
    qed
  qed
qed

text \<open>C3: the durable marker goes last.  While a reauthentication is being installed, under any
  faults, every file system state without the marker still holds the new credentials and has
  all listed context stores empty; the marker is gone exactly when the session has been
  installed, and after any failure it is still there.\<close>

theorem marker_goes_last:
  assumes "env_wf E" and "check_selection E (Some st) sel b = None"
    and "file_at w (marker_file E b) \<noteq> None"
    and "login_install E True (Some st) c sel b w = (r, b', w')"
  shows "evolves (\<lambda>fs. fs (Named (marker_file E b)) = None \<longrightarrow>
      fs (Named (cred_file E b)) = file_at w (cred_file E b) \<and>
      (\<forall>p\<in>set (contexts_to_clear E st sel b).
        read_context (fs (Named (cleared_file E (selected_context sel b) p))) = Some [])) w w' \<and>
    (file_at w' (marker_file E b) = None \<longleftrightarrow> r = LOk c)"
  using assms by (rule marker_goes_last_aux)

subsection \<open>Invalidating the current session\<close>

lemma expire_invalidates:
  assumes "b_reauth b = None" and "b_creds b = Some c"
  shows "require_reauthentication_for_session E (b_generation b) (cr_token c) cause b w =
    invalidate_session E cause \<lparr>rx_id = b_next_id b, rx_invalid_token = cr_token c,
      rx_invalid_sha = token_sha256 E (cr_token c), rx_account_id = cr_account_id c,
      rx_context_paths = canonical_context_paths E [cs_path (b_context_tokens b)],
      rx_generation = b_generation b, rx_err = None\<rparr> b w"
  using assms by (simp add: require_reauthentication_for_session_def Let_def)

text \<open>C6: an expired session is recorded durably or the failure is reported.  When the server
  reports the current session expired, the credentials are dropped and the session's requests
  and the poll loop are cancelled at once; if the returned error carries no cleanup error, the
  disk holds a marker with the fingerprint of the token, no credentials and no context tokens,
  and at every moment before the marker was on disk the credentials still were.\<close>

theorem expiry_recorded_or_reported:
  assumes "env_wf E" and "b_reauth b = None" and "b_creds b = Some c"
    and "validate_current_state_paths E b = None"
    and "require_reauthentication_for_session E (b_generation b) (cr_token c) cause b w = (e, b', w')"
  shows "\<exists>cleanup paths. e = ReauthRequiredError (Some cause) cleanup \<and>
    paths = canonical_context_paths E [cs_path (b_context_tokens b)] \<and>
    reauth_error b' = Some e \<and> b_creds b' = None \<and> b_config_cache b' = None \<and>
    set (opt_list (b_session_context b)) \<union> set (opt_list (b_cancel_poll b)) \<subseteq> set (b_cancelled b') \<and>
    (let marker = CDoc (enc_reauth \<lparr>Version = 1, InvalidTokenSHA256 = token_sha256 E (cr_token c),
        RecAccountID = cr_account_id c, ContextPaths = paths\<rparr>)
     in cleanup = None \<longrightarrow>
        file_at w' (marker_file E b) = Some marker \<and> file_at w' (cred_file E b) = None \<and>
        (\<forall>p\<in>set paths. read_context (file_at w' (cleared_file E (b_context_tokens b) p)) = Some []) \<and>
        evolves (\<lambda>fs. fs (Named (cred_file E b)) = file_at w (cred_file E b) \<or>
          fs (Named (marker_file E b)) = Some marker) w w')"
proof -
  let ?paths = "canonical_context_paths E [cs_path (b_context_tokens b)]"
  have ne: "cred_key E b \<noteq> marker_key E b"
    using validate_state_paths_None [OF assms(1) assms(4) [unfolded validate_current_state_paths_def]] by auto
  define st0 where "st0 = \<lparr>rx_id = b_next_id b, rx_invalid_token = cr_token c,
      rx_invalid_sha = token_sha256 E (cr_token c), rx_account_id = cr_account_id c,
      rx_context_paths = ?paths, rx_generation = b_generation b, rx_err = None\<rparr>"
  have st0: "rx_invalid_sha st0 = token_sha256 E (cr_token c)" "rx_account_id st0 = cr_account_id c"
    "canonical_context_paths E (rx_context_paths st0) = ?paths"
    by (simp_all add: st0_def assms(1))
  note sp = invalidate_spec [OF assms(1) assms(5) [unfolded expire_invalidates [OF assms(2,3)], folded st0_def],
      unfolded st0]
  from sp(1) obtain cleanup st where st:
    "e = ReauthRequiredError (Some cause) cleanup" "b_reauth b' = Some st" "rx_err st = Some e"
    "rx_invalid_sha st = token_sha256 E (cr_token c)" "rx_account_id st = cr_account_id c"
    "rx_context_paths st = ?paths"
    "cleanup = None \<longrightarrow>
        file_at w' (marker_file E b) = Some (CDoc (enc_reauth ((marker_of st)\<lparr>Version := reauth_state_version\<rparr>))) \<or>
        cred_key E b = marker_key E b"
    "cleanup = None \<longrightarrow> file_at w' (cred_file E b) = None \<and>
        (\<forall>p\<in>set (rx_context_paths st). read_context (file_at w' (cleared_file E (b_context_tokens b) p)) = Some [])"
    "cleanup = None \<longrightarrow> cred_key E b \<noteq> marker_key E b \<longrightarrow>
        evolves (\<lambda>fs. fs (Named (cred_file E b)) = file_at w (cred_file E b) \<or>
          fs (Named (marker_file E b)) = Some (CDoc (enc_reauth ((marker_of st)\<lparr>Version := reauth_state_version\<rparr>)))) w w'"
    by blast
  have rec: "(marker_of st)\<lparr>Version := reauth_state_version\<rparr> = \<lparr>Version = 1,
      InvalidTokenSHA256 = token_sha256 E (cr_token c), RecAccountID = cr_account_id c, ContextPaths = ?paths\<rparr>"
    by (simp add: marker_of_def st(4-6) reauth_state_version_def)
  from sp(2) st ne show ?thesis
    unfolding rec
    by (intro exI [of _ cleanup] exI [of _ ?paths])
      (auto simp: Let_def reauth_error_def wait_reauth_state_def)
qed

subsection \<open>Completion\<close>

lemma persist_and_clear_state:
  assumes "persist_and_clear_contexts E st sel b w = (r, st', sel', b', w')"
  shows "map_option rx_id (b_reauth b') = map_option rx_id (b_reauth b)"
  using assms
  by (auto simp: persist_and_clear_contexts_def put_reauth_def put_context_def same_state_def Let_def
      split: option.splits prod.splits if_splits)

lemma login_install_succeeds:
  assumes "no_faults w" and "env_wf E" and "same_state (b_reauth b) (Some st)"
    and "login_install E True (Some st) c sel b w = (r, b', w')"
  shows "r = LOk c"
proof -
  obtain x st1 sel1 b1 w1 where pa: "persist_and_clear_contexts E st sel b w = (x, st1, sel1, b1, w1)"
    by (metis prod_cases5)
  have x: "x = None" by (rule nf_persist_and_clear [OF assms(1,2) pa])
  have same: "same_state (b_reauth b1) (Some st1)"
    using assms(3) persist_and_clear_state [OF pa] persist_and_clear_spec(5) [OF assms(2) pa]
    by (simp add: same_state_def)
  obtain y rs w2 where cl: "reauth_clear E (b_reauth_store b1) w1 = (y, rs, w2)" by (metis prod_cases3)
  have "y = None"
    using nf_reauth_clear [OF nf_frame [OF persist_and_clear_spec(1) [OF assms(2) pa] assms(1)] cl] .
  with assms(4) pa x same cl show ?thesis
    by (auto simp: login_install_def prepare_contexts_def split: prod.splits)
qed

text \<open>C8: reauthentication completes.  When nothing fails and nothing interferes, and the server
  has confirmed acceptable credentials, the reauthentication installs them, removes the marker,
  leaves the credentials on disk and every listed context store empty.\<close>

theorem reauthentication_completes:
  assumes "env_wf E" and "no_faults w" and "b_reauth b = Some st"
    and "file_at w (marker_file E b) \<noteq> None"
    and "login_acquire E now True (Some st) io b w = (LOk c, io1, w1)"
    and "check_selection E (Some st) (select_stores E (Some st) c b) b = None"
  shows "\<exists>b' w'. login_run E now Pair Pair True (Some st) io b w = (LOk c, io1, b', w') \<and>
    b_creds b' = Some c \<and> b_reauth b' = None \<and>
    file_at w' (marker_file E b) = None \<and> file_at w' (cred_file E b) = Some (CDoc (enc_creds c)) \<and>
    (\<forall>p\<in>set (contexts_to_clear E st (select_stores E (Some st) c b) b).
      read_context (file_at w' (cleared_file E (selected_context (select_stores E (Some st) c b) b) p)) = Some [])"
proof -
  let ?sel = "select_stores E (Some st) c b"
  obtain r0 io0 w0 where al: "auth_login E now (login_options_of (Some st) True b) io w = (r0, io0, w0)"
    by (metis prod_cases3)
  with assms(5) have "r0 = LOk c" "w1 = w0"
    by (cases r0; auto simp: login_acquire_def split: if_splits prod.splits)+
  note al = al [unfolded this(1), folded this(2)]
  have cred: "cred_only E (o_cred_path (b_opts b)) w w1"
    using auth_login_props(3) [OF al] by (simp add: login_options_of_def)
  then have nf: "no_faults w1"
    using assms(2) by (simp add: cred_only_def no_faults_evolves)
  have "validate_state_paths E b (cs_path (selected_context ?sel b)) (cu_path (ls_cursor ?sel)) (rp_path (ls_replay ?sel)) = None"
    using assms(6) by (auto simp: check_selection_def split: option.splits)
  from validate_state_paths_None [OF assms(1) this]
  have "cred_file E b \<noteq> marker_file E b"
    using credential_file_key [OF assms(1), of b] state_path_key_canonical [OF assms(1)]
    by (metis distinct_length_2_or_more)
  then have "file_at w1 (marker_file E b) = file_at w (marker_file E b)"
    using cred evolves_files [of "named_except (cred_file E b) (files w)" w w1]
    by (auto simp: cred_only_def named_except_def)
  with assms(4) have m1: "file_at w1 (marker_file E b) \<noteq> None" by simp
  obtain r b' w' where inst: "login_install E True (Some st) c ?sel b w1 = (r, b', w')" by (metis prod_cases3)
  have r: "r = LOk c"
    by (rule login_install_succeeds [OF nf assms(1) _ inst]) (simp add: same_state_def assms(3))
  have run: "login_run E now Pair Pair True (Some st) io b w = (LOk c, io1, b', w')"
    using assms(5,6) inst r by (simp add: login_run_def Let_def)
  have ev: "evolves (\<lambda>fs. fs (Named (marker_file E b)) = None \<longrightarrow>
      fs (Named (cred_file E b)) = file_at w1 (cred_file E b) \<and>
      (\<forall>p\<in>set (contexts_to_clear E st ?sel b).
        read_context (fs (Named (cleared_file E (selected_context ?sel b) p))) = Some [])) w1 w'"
    and gone: "file_at w' (marker_file E b) = None"
    using marker_goes_last_aux [OF assms(1,6) m1 inst] r by auto
  from evolves_files [OF ev] m1 gone login_acquire_ok(4) [OF assms(5)] login_install_ok [OF inst [unfolded r]] run
  show ?thesis by auto
qed

subsection \<open>The sample bot reauthenticates\<close>

definition sample_state :: reauth_state where
  "sample_state = \<lparr>rx_id = 0, rx_invalid_token = [], rx_invalid_sha = replicate 64 CHR ''a'',
     rx_account_id = ''acc'', rx_context_paths = [''/t''], rx_generation = 0,
     rx_err = Some (ReauthRequiredError (Some (Sentinel DurableReauthentication)) None)\<rparr>"

lemma sample_restored_code:
  "case restore_durable_reauthentication sample_hash_env (sample_bot\<lparr>b_login_mu := True\<rparr>) marked_world of
     (r, b, w) \<Rightarrow> r = None \<and> b_reauth b = Some sample_state \<and> o_cred_path (b_opts b) = ''/c'' \<and>
       o_base_url (b_opts b) = default_base_url \<and>
       check_selection sample_hash_env (Some sample_state)
         (select_stores sample_hash_env (Some sample_state) sample_creds b) b = None"
  by code_simp

lemma sample_restored:
  obtains b w where
    "restore_durable_reauthentication sample_hash_env (sample_bot\<lparr>b_login_mu := True\<rparr>) marked_world = (None, b, w)"
    "b_reauth b = Some sample_state" "no_faults w" "file_at w (marker_file sample_hash_env b) \<noteq> None"
    "\<exists>io'. \<exists>w'. login_acquire sample_hash_env ''now'' True (Some sample_state) sample_io b w = (LOk sample_creds, io', w')"
    "check_selection sample_hash_env (Some sample_state)
       (select_stores sample_hash_env (Some sample_state) sample_creds b) b = None"
proof -
  let ?b = "sample_bot\<lparr>b_login_mu := True\<rparr>"
  obtain r b w where re: "restore_durable_reauthentication sample_hash_env ?b marked_world = (r, b, w)"
    by (metis prod_cases3)
  with sample_restored_code have f: "r = None" "b_reauth b = Some sample_state" "o_cred_path (b_opts b) = ''/c''"
    "o_base_url (b_opts b) = default_base_url"
    "check_selection sample_hash_env (Some sample_state)
       (select_stores sample_hash_env (Some sample_state) sample_creds b) b = None" by auto
  have m: "file_at marked_world (marker_file sample_hash_env ?b) \<noteq> None"
    using sample_marker_file by simp
  have ck: "cred_key sample_hash_env ?b = cred_key sample_hash_env sample_bot" by (simp add: credentials_path_def)
  note sp = restore_durable_present [OF env_wf_sample re _ m, unfolded ck]
  have nf: "no_faults w"
    using sp(3) no_faults_marked by (simp add: keeps_def no_faults_evolves)
  have "cred_key sample_hash_env sample_bot \<noteq> marker_key sample_hash_env sample_bot" by code_simp
  then have "marker_file sample_hash_env ?b \<notin> keyed sample_hash_env {cred_key sample_hash_env sample_bot}"
    by (simp add: keyed_def)
  then have "file_at w (marker_file sample_hash_env b) \<noteq> None"
    using keeps_file [OF sp(3) _ m] sp(4) by simp
  moreover have "\<exists>io' w'. login_acquire sample_hash_env ''now'' True (Some sample_state) sample_io b w = (LOk sample_creds, io', w')"
  proof -
    obtain io' w' where "auth_login sample_hash_env ''now'' (login_options_of (Some sample_state) True b) sample_io w =
        (LOk sample_creds, io', w')"
      using sample_login_succeeds [OF nf, where E = sample_hash_env
          and opts = "login_options_of (Some sample_state) True b"] f(4)
      by (auto simp: login_options_of_def sample_state_def)
    moreover have "\<not> rejects_token sample_hash_env (Some sample_state) (cr_token sample_creds)"
      "expected_account (Some sample_state) b = cr_account_id sample_creds"
      by (simp_all add: rejects_token_def token_sha256_def sample_state_def sample_creds_def sample_hash_env_def
          expected_account_def numeral_eq_Suc)
    ultimately show ?thesis by (simp add: login_acquire_def)
  qed
  ultimately show thesis using that [of b w] re f nf by simp
qed

theorem reauthentication_completes_witness:
  "\<exists>b w io' b' w'. b_reauth b = Some sample_state \<and>
     login_run sample_hash_env ''now'' Pair Pair True (Some sample_state) sample_io b w = (LOk sample_creds, io', b', w') \<and>
     b_creds b' = Some sample_creds"
proof (rule sample_restored)
  fix b w
  assume s: "b_reauth b = Some sample_state" "no_faults w" "file_at w (marker_file sample_hash_env b) \<noteq> None"
    "\<exists>io'. \<exists>w'. login_acquire sample_hash_env ''now'' True (Some sample_state) sample_io b w = (LOk sample_creds, io', w')"
    "check_selection sample_hash_env (Some sample_state)
       (select_stores sample_hash_env (Some sample_state) sample_creds b) b = None"
  from s(4) obtain io1 w1 where
    la: "login_acquire sample_hash_env ''now'' True (Some sample_state) sample_io b w = (LOk sample_creds, io1, w1)"
    by blast
  from reauthentication_completes [OF env_wf_sample s(2,1,3) la s(5)] s(1) show ?thesis by blast
qed

text \<open>A run with the sample bot from the restart to the new session.\<close>

lemma sample_login_run_installs:
  assumes "b_reauth b = Some sample_state" and "no_faults w"
    and "login_acquire sample_hash_env ''now'' True (Some sample_state) sample_io b w = (LOk sample_creds, io1, w1)"
    and "check_selection sample_hash_env (Some sample_state)
       (select_stores sample_hash_env (Some sample_state) sample_creds b) b = None"
  shows "\<exists>b' w'. login_install sample_hash_env True (Some sample_state) sample_creds
      (select_stores sample_hash_env (Some sample_state) sample_creds b) b w1 = (LOk sample_creds, b', w') \<and>
    login_run sample_hash_env ''now'' Pair Pair True (Some sample_state) sample_io b w = (LOk sample_creds, io1, b', w')"
proof -
  obtain r0 io0 w0 where al: "auth_login sample_hash_env ''now'' (login_options_of (Some sample_state) True b) sample_io w = (r0, io0, w0)"
    by (metis prod_cases3)
  with assms(3) have "r0 = LOk sample_creds" "w1 = w0"
    by (cases r0; auto simp: login_acquire_def split: if_splits prod.splits)+
  with auth_login_props(3) [OF al] assms(2) have nf: "no_faults w1"
    by (simp add: cred_only_def no_faults_evolves)
  obtain r b' w' where inst: "login_install sample_hash_env True (Some sample_state) sample_creds
      (select_stores sample_hash_env (Some sample_state) sample_creds b) b w1 = (r, b', w')" by (metis prod_cases3)
  have "r = LOk sample_creds"
    by (rule login_install_succeeds [OF nf env_wf_sample _ inst]) (simp add: same_state_def assms(1))
  with inst assms(3,4) show ?thesis by (simp add: login_run_def Let_def)
qed

theorem rejected_token_never_installed_witness:
  "\<exists>c io' b' w'. reauthenticate sample_hash_env ''now'' Pair Pair sample_io sample_bot marked_world = (LOk c, io', b', w') \<and>
     token_sha256 sample_hash_env (cr_token c) \<noteq> InvalidTokenSHA256 sample_record"
proof (rule sample_restored)
  fix b w
  assume s: "restore_durable_reauthentication sample_hash_env (sample_bot\<lparr>b_login_mu := True\<rparr>) marked_world = (None, b, w)"
    "b_reauth b = Some sample_state" "no_faults w"
    "\<exists>io'. \<exists>w'. login_acquire sample_hash_env ''now'' True (Some sample_state) sample_io b w = (LOk sample_creds, io', w')"
    "check_selection sample_hash_env (Some sample_state)
       (select_stores sample_hash_env (Some sample_state) sample_creds b) b = None"
  from s(4) obtain io1 w1 where
    la: "login_acquire sample_hash_env ''now'' True (Some sample_state) sample_io b w = (LOk sample_creds, io1, w1)"
    by blast
  from sample_login_run_installs [OF s(2,3) la s(5)] obtain b' w' where
    lr: "login_run sample_hash_env ''now'' Pair Pair True (Some sample_state) sample_io b w = (LOk sample_creds, io1, b', w')"
    by blast
  have vc: "validate_current_state_paths sample_hash_env (sample_bot\<lparr>b_login_mu := True\<rparr>) = None" by code_simp
  have pr: "prepare_reauthentication sample_hash_env b w = (None, Some sample_state, b, w)"
    by (simp add: prepare_reauthentication_def s(2) wait_reauth_state_def sample_state_def)
  have run: "reauthenticate sample_hash_env ''now'' Pair Pair sample_io sample_bot marked_world =
      (LOk sample_creds, io1, b'\<lparr>b_login_mu := False\<rparr>, w')"
    by (simp add: reauthenticate_def release_def Let_def vc s(1) pr lr)
  obtain rs u where "reauth_load sample_hash_env (b_reauth_store sample_bot) marked_world = (Inr (Some sample_record), rs, u)"
  proof -
    have "read_marker (file_at marked_world (marker_file sample_hash_env sample_bot)) = Some (Some sample_record)"
      unfolding sample_marker_file
      by (rule read_marker_written) (code_simp)
    from reauth_load_total [OF no_faults_marked this] that show thesis by blast
  qed
  from rejected_token_never_installed [OF run sample_bot_fields(2) this]
  have "token_sha256 sample_hash_env (cr_token sample_creds) \<noteq> InvalidTokenSHA256 sample_record"
    by (simp add: sample_record_def)
  with run show ?thesis by blast
qed

theorem marker_goes_last_witness:
  "\<exists>b w b' w'. login_install sample_hash_env True (Some sample_state) sample_creds
      (select_stores sample_hash_env (Some sample_state) sample_creds b) b w = (LOk sample_creds, b', w') \<and>
    file_at w' (marker_file sample_hash_env b) = None"
proof (rule sample_restored)
  fix b w
  assume s: "b_reauth b = Some sample_state" "no_faults w" "file_at w (marker_file sample_hash_env b) \<noteq> None"
    "check_selection sample_hash_env (Some sample_state)
       (select_stores sample_hash_env (Some sample_state) sample_creds b) b = None"
  obtain r b' w' where inst: "login_install sample_hash_env True (Some sample_state) sample_creds
      (select_stores sample_hash_env (Some sample_state) sample_creds b) b w = (r, b', w')" by (metis prod_cases3)
  have r: "r = LOk sample_creds"
    by (rule login_install_succeeds [OF s(2) env_wf_sample _ inst]) (simp add: same_state_def s(1))
  from marker_goes_last [OF env_wf_sample s(4,3) inst] inst r show ?thesis by blast
qed

definition sample_session :: bot where
  "sample_session = install_session sample_creds (select_stores sample_hash_env None sample_creds sample_bot) sample_bot"

theorem expiry_recorded_or_reported_witness:
  "\<exists>e b' w'. require_reauthentication_for_session sample_hash_env 1 ''new'' (Msg ''expired'') sample_session quiet_world =
     (e, b', w') \<and> b_creds b' = None \<and> reauth_error b' = Some e"
proof -
  have f: "b_reauth sample_session = None" "b_creds sample_session = Some sample_creds" "b_generation sample_session = 1"
    "cr_token sample_creds = ''new''"
    by (simp_all add: sample_session_def install_session_def Let_def sample_creds_def)
  have v: "validate_current_state_paths sample_hash_env sample_session = None" by code_simp
  obtain e b' w' where run: "require_reauthentication_for_session sample_hash_env 1 ''new'' (Msg ''expired'') sample_session quiet_world = (e, b', w')"
    by (metis prod_cases3)
  from expiry_recorded_or_reported [OF env_wf_sample f(1,2) v, of "Msg ''expired''" quiet_world e b' w'] run f(3,4)
  show ?thesis by auto
qed

end
