(* ===== verification/SessionSteps.thy ===== *)
theory SessionSteps
  imports SessionProps
begin

section \<open>Runs of the session state machine\<close>

text \<open>
  The operations of the session, in any order and interleaving of their critical sections, as a
  step relation labelled with the sessions it installs.  The invariant ties the credentials,
  the configuration cache, the session's context and the reauthentication state together; a
  run identifies a session by its generation.
\<close>

datatype session_label = Internal | Installed credentials

text \<open>
  In \<open>install\<close> the caller's reauthentication state is a pointer: a state with the identity of
  the current one is the current one.
\<close>

inductive session_step :: "os_env \<Rightarrow> bot \<times> world \<Rightarrow> session_label \<Rightarrow> bot \<times> world \<Rightarrow> bool" for E where
  expire: "require_reauthentication_for_session E g tok cause b w = (e, b', w') \<Longrightarrow>
    session_step E (b, w) Internal (b', w')"
| logged_out: "require_reauthentication_without_credentials E cause b w = (e, b', w') \<Longrightarrow>
    session_step E (b, w) Internal (b', w')"
| restore: "restore_durable_reauthentication E b w = (r, b', w') \<Longrightarrow>
    session_step E (b, w) Internal (b', w')"
| prepare: "prepare_reauthentication E b w = (r, st, b', w') \<Longrightarrow>
    session_step E (b, w) Internal (b', w')"
| remember: "persist_context_token E g u tok b w = (r, b', w') \<Longrightarrow>
    session_step E (b, w) Internal (b', w')"
| install: "\<lbrakk>login_install E force reauth c sel b w = (r, b', w');
    \<And>st cur. reauth = Some st \<Longrightarrow> b_reauth b = Some cur \<Longrightarrow> rx_id st = rx_id cur \<Longrightarrow> st = cur\<rbrakk> \<Longrightarrow>
    session_step E (b, w) (if r = LOk c then Installed c else Internal) (b', w')"
| run_begins: "begin_run hasHandler b = (r, b') \<Longrightarrow> session_step E (b, w) Internal (b', w)"
| run_ends: "b_cancel_poll b = Some p \<Longrightarrow> session_step E (b, w) Internal (finish_run p b, w)"
| run_stopped: "session_step E (b, w) Internal (stop_run b, w)"

inductive_cases session_stepE: "session_step E s l s'"

inductive session_run :: "os_env \<Rightarrow> bot \<times> world \<Rightarrow> credentials list \<Rightarrow> bot \<times> world \<Rightarrow> bool" for E where
  run_refl: "session_run E s [] s"
| run_step: "\<lbrakk>session_run E s cs s'; session_step E s' l s''\<rbrakk> \<Longrightarrow>
    session_run E s (cs @ (case l of Installed c \<Rightarrow> [c] | Internal \<Rightarrow> [])) s''"

subsection \<open>The invariant\<close>

definition reauth_wf :: "bot \<Rightarrow> bool" where
  "reauth_wf b \<longleftrightarrow> (\<forall>st. b_reauth b = Some st \<longrightarrow>
     rx_id st < b_next_id b \<and> rx_err st \<noteq> None \<and> rx_generation st = b_generation b)"

definition contexts_wf :: "bot \<Rightarrow> bool" where
  "contexts_wf b \<longleftrightarrow> (\<forall>x\<in>set (b_cancelled b). x < b_next_id b) \<and>
     (\<forall>p. b_cancel_poll b = Some p \<longrightarrow> p < b_next_id b \<and> b_session_context b \<noteq> Some p) \<and>
     (\<forall>x. b_session_context b = Some x \<longrightarrow> x < b_next_id b \<and> x \<notin> set (b_cancelled b))"

definition session_inv :: "bot \<Rightarrow> bool" where
  "session_inv b \<longleftrightarrow>
     (case b_creds b of
        None \<Rightarrow> b_config_cache b = None \<and> b_session_context b = None
      | Some c \<Rightarrow> b_config_cache b = Some (c, b_generation b) \<and> b_session_context b \<noteq> None \<and>
          b_initialized b \<and> b_reauth b = None) \<and>
     reauth_wf b \<and> contexts_wf b"

lemma session_inv_new: "session_inv (new_bot E opts)"
  by (simp add: session_inv_def new_bot_def Let_def reauth_wf_def contexts_wf_def)

text \<open>An operation that leaves the session alone.\<close>

definition quiet :: "bot \<Rightarrow> bot \<Rightarrow> bool" where
  "quiet b b' \<longleftrightarrow> b_creds b' = b_creds b \<and> b_config_cache b' = b_config_cache b \<and>
     b_generation b' = b_generation b \<and> b_session_context b' = b_session_context b \<and>
     (b_initialized b \<longrightarrow> b_initialized b') \<and> b_next_id b \<le> b_next_id b' \<and>
     (b_reauth b = None \<longleftrightarrow> b_reauth b' = None) \<and> (reauth_wf b \<longrightarrow> reauth_wf b') \<and>
     (contexts_wf b \<longrightarrow> contexts_wf b')"

text \<open>An operation that closes the session.\<close>

definition closes :: "bot \<Rightarrow> bot \<Rightarrow> bool" where
  "closes b b' \<longleftrightarrow> b_creds b' = None \<and> b_config_cache b' = None \<and> b_session_context b' = None \<and>
     b_generation b' = b_generation b \<and> b_reauth b' \<noteq> None \<and> reauth_wf b' \<and>
     (contexts_wf b \<longrightarrow> contexts_wf b')"

lemma quiet_refl [simp]: "quiet b b"
  by (simp add: quiet_def)

lemma quiet_inv: "quiet b b' \<Longrightarrow> session_inv b \<Longrightarrow> session_inv b'"
  by (auto simp: quiet_def session_inv_def split: option.splits)

lemma closes_inv: "closes b b' \<Longrightarrow> session_inv b \<Longrightarrow> session_inv b'"
  by (simp add: closes_def session_inv_def)

text \<open>Changes of other fields are quiet.\<close>

lemma quiet_stores:
  "quiet b (b\<lparr>b_reauth_store := rs\<rparr>)" "quiet b (b\<lparr>b_context_tokens := ct\<rparr>)"
  "quiet b (b\<lparr>b_next_id := Suc (b_next_id b)\<rparr>)"
  by (auto simp: quiet_def reauth_wf_def contexts_wf_def)

lemma quiet_trans: "quiet a b \<Longrightarrow> quiet b c \<Longrightarrow> quiet a c"
  unfolding quiet_def by auto

lemma quiet_closes: "quiet a b \<Longrightarrow> closes b c \<Longrightarrow> closes a c"
  unfolding quiet_def closes_def by auto

lemma invalidate_closes:
  assumes "env_wf E" and "invalidate_session E cause st0 b w = (e, b', w')"
    and "rx_id st0 = b_next_id b" and "rx_generation st0 = b_generation b"
  shows "closes b b'"
proof -
  note sp = invalidate_spec [OF assms(1,2)]
  from sp(1) obtain st where "b_reauth b' = Some st" "rx_err st \<noteq> None" "rx_id st = rx_id st0"
    "rx_generation st = rx_generation st0" by blast
  with sp(2) assms(3,4) show ?thesis
    by (auto simp: closes_def reauth_wf_def contexts_wf_def less_Suc_eq)
qed

lemma expire_step:
  assumes "env_wf E" and "require_reauthentication_for_session E g tok cause b w = (e, b', w')"
  shows "b' = b \<or> closes b b'"
proof -
  let ?hit = "\<exists>c. b_generation b = g \<and> b_reauth b = None \<and> b_creds b = Some c \<and> cr_token c = tok"
  show ?thesis
  proof (cases ?hit)
    case True
    then obtain c where c: "b_reauth b = None" "b_creds b = Some c" "g = b_generation b" "tok = cr_token c" by auto
    from assms(2) show ?thesis
      unfolding c(3,4) expire_invalidates [OF c(1,2)]
      using invalidate_closes [OF assms(1)] by fastforce
  next
    case False
    with assms(2) show ?thesis
      by (auto simp: require_reauthentication_for_session_def Let_def split: option.splits if_splits)
  qed
qed

lemma logged_out_step:
  assumes "env_wf E" and "require_reauthentication_without_credentials E cause b w = (e, b', w')"
  shows "b' = b \<or> closes b b'"
proof (cases "b_reauth b")
  case (Some st)
  with assms(2) show ?thesis
    by (auto simp: require_reauthentication_without_credentials_def split: prod.splits)
next
  case None
  obtain r w1 where ld: "load_credentials E (o_cred_path (b_opts b)) w = (r, w1)" by fastforce
  with None assms(2) obtain st0 where "invalidate_session E cause st0 b w1 = (e, b', w')"
    "rx_id st0 = b_next_id b" "rx_generation st0 = b_generation b"
    by (fastforce simp: require_reauthentication_without_credentials_def Let_def)
  from invalidate_closes [OF assms(1) this] show ?thesis by blast
qed

lemma restore_record_step:
  assumes "env_wf E" and "restore_from_record E rec b w = (r, b', w')"
  shows "quiet b b' \<or> closes b b'"
proof -
  obtain ctx cur rep where rs: "restored_stores E (RecAccountID rec) b = (ctx, cur, rep)" by (metis prod_cases3)
  from assms(2) rs show ?thesis
  proof (cases rule: restore_cases)
    case refused
    then show ?thesis using quiet_stores(3) by auto
  next
    case (unmarked st1 me)
    from mark_spec(2) [OF assms(1) unmarked(2)] obtain rs where
      "b' = (b\<lparr>b_next_id := Suc (b_next_id b)\<rparr>)\<lparr>b_reauth_store := rs\<rparr>" by blast
    then show ?thesis using quiet_trans [OF quiet_stores(3) quiet_stores(1)] by metis
  next
    case (restored st1 b1 w1 cleanup b2)
    note m = mark_spec [OF assms(1) restored(3)] and c = cleanup_spec [OF assms(1) restored(4)]
    from m(2) obtain rs where b1: "b1 = b\<lparr>b_next_id := Suc (b_next_id b), b_reauth_store := rs\<rparr>" by auto
    have st1: "rx_id st1 = b_next_id b" "rx_generation st1 = b_generation b"
      using m(1) by (simp_all add: restored_state_def)
    from c(1) obtain ct where b2: "b2 = (publish_reauth st1 (adopt_stores rec ctx cur rep b1))\<lparr>b_context_tokens := ct\<rparr>"
      by auto
    have "closes b b'"
      unfolding restored(6) b2 using st1
      by (auto simp: closes_def finish_reauth_def publish_reauth_def adopt_stores_def b1 Let_def
          reauth_wf_def contexts_wf_def less_Suc_eq)
    then show ?thesis ..
  qed
qed

lemma restore_step:
  assumes "env_wf E" and "restore_durable_reauthentication E b w = (r, b', w')"
  shows "quiet b b' \<or> closes b b'"
proof (cases "b_reauth b")
  case (Some st)
  with assms(2) show ?thesis by (simp add: restore_durable_reauthentication_def)
next
  case None
  obtain x rs w1 where ld: "reauth_load E (b_reauth_store b) w = (x, rs, w1)" by (metis prod_cases3)
  let ?b = "b\<lparr>b_reauth_store := rs\<rparr>"
  consider e where "x = Inl e" | "x = Inr None" | rec where "x = Inr (Some rec)"
    by (metis obj_sumE option.exhaust)
  then show ?thesis
  proof cases
    case 1
    obtain e' b2 w2 where wo: "require_reauthentication_without_credentials E
        (Joined [Sentinel DurableReauthentication, e]) ?b w1 = (e', b2, w2)" by (metis prod_cases3)
    with 1 None ld assms(2) have "b' = b2" by (simp add: restore_durable_reauthentication_def Let_def)
    with logged_out_step [OF assms(1) wo] show ?thesis
      using quiet_stores(1) [of b rs] quiet_closes [OF quiet_stores(1) [of b rs]] by auto
  next
    case 2
    with None ld assms(2) have "b' = ?b" by (simp add: restore_durable_reauthentication_def Let_def)
    then show ?thesis using quiet_stores(1) by auto
  next
    case 3
    with None ld assms(2) have "restore_from_record E rec ?b w1 = (r, b', w')"
      by (simp add: restore_durable_reauthentication_def Let_def)
    from restore_record_step [OF assms(1) this] show ?thesis
      using quiet_trans [OF quiet_stores(1) [of b rs]] quiet_closes [OF quiet_stores(1) [of b rs]] by auto
  qed
qed

lemma mark_quiet:
  assumes "env_wf E" and "mark_reauthentication E st ps b w = (r, st', b', w')"
  shows "quiet b b'"
  using mark_spec(2) [OF assms] quiet_stores(1) by auto

text \<open>The retry replaces a reauthentication state by a new one with the same generation.\<close>

lemma retry_step:
  assumes "env_wf E" and "retry_reauthentication_cleanup E previous cause b w = (r, sto, b', w')"
    and "b_reauth b = Some previous"
  shows "session_inv b \<Longrightarrow> closes b b'"
proof -
  assume inv: "session_inv b"
  obtain x w1 where ld: "load_credentials E (o_cred_path (b_opts b)) w = (x, w1)" by fastforce
  let ?b = "b\<lparr>b_next_id := Suc (b_next_id b)\<rparr>"
  let ?next = "retry_state E (loaded x) (b_next_id b) previous"
  have id: "rx_id ?next = b_next_id b" "rx_generation ?next = rx_generation previous"
    by (auto simp: retry_state_def Let_def split: option.splits)
  obtain me st1 b1 w2 where
    mk: "mark_reauthentication E ?next [cs_path (b_context_tokens b)] ?b w1 = (me, st1, b1, w2)"
    by (metis prod_cases4)
  obtain ce b2 w3 where
    cl: "cleanup_reauthentication_files E st1 (b1\<lparr>b_reauth := Some st1\<rparr>) w2 = (ce, b2, w3)"
    by (metis prod_cases3)
  have b': "b' = b2\<lparr>b_reauth := Some (st1\<lparr>rx_err := Some (ReauthRequiredError cause (errors_join [me, ce]))\<rparr>)\<rparr>"
    using assms(2,3) ld mk cl
    by (auto simp: retry_reauthentication_cleanup_def Let_def split: if_splits)
  note m = mark_spec [OF assms(1) mk] and c = cleanup_spec [OF assms(1) cl]
  from m(2) obtain rs where b1: "b1 = ?b\<lparr>b_reauth_store := rs\<rparr>" by blast
  from c(1) obtain ct where b2: "b2 = (b1\<lparr>b_reauth := Some st1\<rparr>)\<lparr>b_context_tokens := ct\<rparr>" by blast
  have "rx_id st1 = b_next_id b" "rx_generation st1 = rx_generation previous"
    using m(1) id by simp_all
  with inv assms(3) show "closes b b'"
    by (auto simp: closes_def b' b2 b1 session_inv_def reauth_wf_def contexts_wf_def less_Suc_eq
        split: option.splits)
qed

lemma prepare_step:
  assumes "env_wf E" and "prepare_reauthentication E b w = (r, sto, b', w')" and "session_inv b"
  shows "quiet b b' \<or> closes b b'"
proof (cases "b_reauth b")
  case (Some st)
  show ?thesis
  proof (cases "\<exists>cause. retry_reauthentication_cleanup E st cause b w = (r, sto, b', w')")
    case True
    with retry_step [OF assms(1) _ Some assms(3)] show ?thesis by blast
  next
    case False
    with Some assms(2) have "b' = b"
      by (auto simp: prepare_reauthentication_def split: option.splits prod.splits)
    then show ?thesis by simp
  qed
next
  case None
  obtain b1 w1 where mid: "b1 = b \<or> closes b b1"
    and res: "b' = b1"
  proof (cases "b_creds b")
    case Some
    fix c
    assume c: "b_creds b = Some c"
    obtain e b1 w1 where rq: "require_reauthentication_for_session E (b_generation b) (cr_token c)
        (Sentinel ExplicitReauthentication) b w = (e, b1, w1)" by (metis prod_cases3)
    have "b' = b1" using assms(2) None c rq
      by (auto simp: prepare_reauthentication_def split: option.splits)
    with expire_step [OF assms(1) rq] that show thesis by blast
  next
    case none: None
    obtain e b1 w1 where rq: "require_reauthentication_without_credentials E
        (Sentinel ExplicitReauthentication) b w = (e, b1, w1)" by (metis prod_cases3)
    have "b' = b1" using assms(2) None none rq
      by (auto simp: prepare_reauthentication_def split: option.splits)
    with logged_out_step [OF assms(1) rq] that show thesis by blast
  qed
  then show ?thesis by auto
qed

lemma remember_step:
  assumes "persist_context_token E g u tok b w = (r, b', w')"
  shows "quiet b b'"
  using assms quiet_stores(2)
  by (auto simp: persist_context_token_def split: if_splits prod.splits)

subsection \<open>Installing\<close>

lemma put_context_quiet: "put_context sel ct b = (sel', b') \<Longrightarrow> quiet b b'"
  using quiet_stores(2) by (auto simp: put_context_def split: option.splits)

lemma put_reauth_quiet:
  assumes "\<And>cur. b_reauth b = Some cur \<Longrightarrow> rx_id st = rx_id cur \<Longrightarrow>
    rx_err st = rx_err cur \<and> rx_generation st = rx_generation cur"
  shows "quiet b (put_reauth st b)"
  using assms
  by (cases "b_reauth b") (auto simp: put_reauth_def same_state_def quiet_def reauth_wf_def contexts_wf_def)

lemma prepare_contexts_quiet:
  assumes "prepare_contexts E force reauth sel b w = (r, reauth', sel', b', w')"
    and "\<And>st cur. reauth = Some st \<Longrightarrow> b_reauth b = Some cur \<Longrightarrow> rx_id st = rx_id cur \<Longrightarrow> st = cur"
  shows "quiet b b'"
proof (cases "force \<and> reauth \<noteq> None")
  case False
  with assms(1) show ?thesis
    by (auto simp: prepare_contexts_def split: prod.splits if_splits option.splits dest: put_context_quiet)
next
  case True
  then obtain st where st: "reauth = Some st" by blast
  let ?st = "st\<lparr>rx_context_paths := contexts_to_clear E st sel b\<rparr>"
  have q1: "quiet b (put_reauth ?st b)"
    by (rule put_reauth_quiet) (use assms(2) [OF st] in auto)
  obtain x rs w1 where mk: "reauth_mark E (marker_of ?st) (b_reauth_store (put_reauth ?st b)) w = (x, rs, w1)"
    by (metis prod_cases3)
  obtain y ct w2 where cl: "clear_context_paths E (selected_context sel b) (contexts_to_clear E st sel b) w1 = (y, ct, w2)"
    by (metis prod_cases3)
  obtain sel2 b2 where pc: "put_context sel ct ((put_reauth ?st b)\<lparr>b_reauth_store := rs\<rparr>) = (sel2, b2)" by fastforce
  note q2 = quiet_trans [OF q1 quiet_stores(1) [of _ rs]]
  from True assms(1) st mk cl pc have "b' = (put_reauth ?st b)\<lparr>b_reauth_store := rs\<rparr> \<or> b' = b2"
    by (auto simp: prepare_contexts_def persist_and_clear_contexts_def contexts_to_clear_def Let_def
        split: option.splits)
  with q2 quiet_trans [OF q2 put_context_quiet [OF pc]] show ?thesis by blast
qed

lemma install_session_inv:
  assumes "session_inv b"
  shows "session_inv (install_session c sel b)"
  using assms
  by (auto simp: session_inv_def install_session_def Let_def reauth_wf_def contexts_wf_def less_Suc_eq
      split: option.splits)

lemma install_step:
  assumes "login_install E force reauth c sel b w = (r, b', w')" and "session_inv b"
    and "\<And>st cur. reauth = Some st \<Longrightarrow> b_reauth b = Some cur \<Longrightarrow> rx_id st = rx_id cur \<Longrightarrow> st = cur"
  obtains (installed) "r = LOk c" "session_inv b'" "b_creds b' = Some c" "b_generation b' = b_generation b + 1"
  | (failed) "r \<noteq> LOk c" "quiet b b'"
proof -
  obtain x reauth1 sel1 b1 w1 where pc: "prepare_contexts E force reauth sel b w = (x, reauth1, sel1, b1, w1)"
    by (metis prod_cases5)
  have q: "quiet b b1" by (rule prepare_contexts_quiet [OF pc]) (rule assms(3))
  obtain y rs w2 where rc: "(if reauth1 \<noteq> None then reauth_clear E (b_reauth_store b1) w1
      else (None, b_reauth_store b1, w1)) = (y, rs, w2)" by (metis prod_cases3)
  let ?b = "b1\<lparr>b_reauth_store := rs\<rparr>"
  have q2: "quiet b ?b" by (rule quiet_trans [OF q quiet_stores(1)])
  have "r = LOk c \<and> b' = install_session c sel1 ?b \<or> (\<exists>e. r = LErr e) \<and> (b' = b1 \<or> b' = ?b)"
  proof (cases x)
    case (Some e)
    with assms(1) pc show ?thesis by (auto simp: login_install_def split: prod.splits)
  next
    case None
    note inst = assms(1) [unfolded login_install_def pc None prod.case option.case]
    show ?thesis
    proof (cases "(reauth1 = None \<and> b_reauth b1 \<noteq> None) \<or> (reauth1 \<noteq> None \<and> \<not> same_state (b_reauth b1) reauth1)")
      case True
      from inst [unfolded if_P [OF True]] show ?thesis by (auto split: prod.splits)
    next
      case False
      from inst [unfolded if_not_P [OF False] rc prod.case] show ?thesis
        by (cases y) (auto split: prod.splits)
    qed
  qed
  then show thesis
  proof (elim disjE conjE)
    assume "r = LOk c" "b' = install_session c sel1 ?b"
    moreover have "session_inv ?b" using quiet_inv [OF q2 assms(2)] .
    moreover have "b_generation ?b = b_generation b" using q2 by (simp add: quiet_def)
    ultimately show thesis
      using install_session_inv [of ?b c sel1] by (intro installed) (simp_all add: install_session_def Let_def)
  next
    assume "\<exists>e. r = LErr e" "b' = b1"
    then show thesis by (intro failed) (auto simp: q)
  next
    assume "\<exists>e. r = LErr e" "b' = ?b"
    then show thesis by (intro failed) (auto simp: q2)
  qed
qed

lemma begin_run_quiet: "begin_run h b = (r, b') \<Longrightarrow> session_inv b \<Longrightarrow> quiet b b'"
proof -
  assume br: "begin_run h b = (r, b')" and inv: "session_inv b"
  let ?b = "b\<lparr>b_initialized := True, b_running := True, b_cancel_poll := Some (b_next_id b),
      b_next_id := Suc (b_next_id b)\<rparr>"
  have "b' = b \<or> b' = ?b"
    using br by (auto simp: begin_run_def split: option.splits if_splits)
  moreover have "quiet b ?b"
    using inv by (auto simp: session_inv_def quiet_def reauth_wf_def contexts_wf_def)
  ultimately show ?thesis by auto
qed

lemma cancel_quiet:
  assumes "session_inv b" and "set xs \<subseteq> set_option (b_cancel_poll b)"
  shows "quiet b (b\<lparr>b_cancelled := xs @ b_cancelled b\<rparr>)"
proof -
  have "contexts_wf (b\<lparr>b_cancelled := xs @ b_cancelled b\<rparr>)"
    using assms by (cases "b_cancel_poll b") (auto simp: session_inv_def contexts_wf_def)
  then show ?thesis by (simp add: quiet_def reauth_wf_def)
qed

lemma stop_run_quiet: "session_inv b \<Longrightarrow> quiet b (stop_run b)"
  unfolding stop_run_def by (rule cancel_quiet) simp_all

lemma finish_run_quiet: "session_inv b \<Longrightarrow> b_cancel_poll b = Some p \<Longrightarrow> quiet b (finish_run p b)"
proof -
  assume "session_inv b" "b_cancel_poll b = Some p"
  then have "quiet b (b\<lparr>b_cancelled := [p] @ b_cancelled b\<rparr>)" by (intro cancel_quiet) simp_all
  then show ?thesis
    by (auto simp: quiet_def finish_run_def reauth_wf_def contexts_wf_def)
qed

lemma session_step_effect:
  assumes "session_step E s l s'" and "env_wf E" and "session_inv (fst s)"
  shows "session_inv (fst s') \<and>
    (case l of
       Internal \<Rightarrow> b_generation (fst s') = b_generation (fst s) \<and>
         (b_creds (fst s') = None \<or> b_creds (fst s') = b_creds (fst s))
     | Installed c \<Rightarrow> b_generation (fst s') = b_generation (fst s) + 1 \<and> b_creds (fst s') = Some c)"
proof -
  have internal: "session_inv b' \<and> b_generation b' = b_generation b \<and> (b_creds b' = None \<or> b_creds b' = b_creds b)"
    if "b' = b \<or> quiet b b' \<or> closes b b'" "session_inv b" for b b'
    using that quiet_inv [of b b'] closes_inv [of b b'] by (auto simp: quiet_def closes_def)
  from assms(1) show ?thesis
  proof (cases rule: session_step.cases)
    case (expire g tok cause b w e b' w')
    then show ?thesis using expire_step [OF assms(2) expire(4)] internal [of b' b] assms(3) by auto
  next
    case (logged_out cause b w e b' w')
    then show ?thesis using logged_out_step [OF assms(2) logged_out(4)] internal [of b' b] assms(3) by auto
  next
    case (restore b w r b' w')
    then show ?thesis using restore_step [OF assms(2) restore(4)] internal [of b' b] assms(3) by auto
  next
    case (prepare b w r st b' w')
    then show ?thesis using prepare_step [OF assms(2) prepare(4)] internal [of b' b] assms(3) by auto
  next
    case (remember g u tok b w r b' w')
    then show ?thesis using remember_step [OF remember(4)] internal [of b' b] assms(3) by simp
  next
    case (install force reauth c sel b w r b' w')
    have inv: "session_inv b" using assms(3) install by simp
    show ?thesis
    proof (rule install_step [OF install(4) inv install(5)], assumption+)
      assume "r = LOk c" "session_inv b'" "b_creds b' = Some c" "b_generation b' = b_generation b + 1"
      with install(1-3) show ?thesis by simp
    next
      assume "r \<noteq> LOk c" "quiet b b'"
      with install(1-3) internal [of b' b] inv show ?thesis by simp
    qed
  next
    case (run_begins h b r b' w)
    then show ?thesis using begin_run_quiet [OF run_begins(4)] internal [of b' b] assms(3) by simp
  next
    case (run_ends b p w)
    then show ?thesis using finish_run_quiet [OF _ run_ends(4)] internal [of "finish_run p b" b] assms(3) by simp
  next
    case (run_stopped b w)
    then show ?thesis using stop_run_quiet internal [of "stop_run b" b] assms(3) by simp
  qed
qed

text \<open>C5: a generation identifies a session.  From any well-formed bot, however the operations
  interleave and whatever fails, credentials, configuration cache, session context and
  reauthentication state stay consistent, the generation counts the installed sessions, and
  the credentials are those of the last installed session or none: within one generation they
  never change to others.\<close>

theorem generation_identifies_session:
  assumes "session_run E (b, w) cs (b', w')" and "env_wf E" and "session_inv b"
  shows "session_inv b' \<and> b_generation b' = b_generation b + of_nat (length cs) \<and>
    (\<forall>c. b_creds b' = Some c \<longrightarrow> (if cs = [] then b_creds b = Some c else c = last cs)) \<and>
    (length cs < 2 ^ 64 \<longrightarrow> b_generation b' = b_generation b \<longrightarrow> b_creds b' \<in> {None, b_creds b})"
proof -
  have run: "session_inv (fst s') \<and> b_generation (fst s') = b_generation (fst s) + of_nat (length cs) \<and>
      (\<forall>c. b_creds (fst s') = Some c \<longrightarrow> (if cs = [] then b_creds (fst s) = Some c else c = last cs))"
    if "session_run E s cs s'" "session_inv (fst s)" for s s'
    using that
  proof (induction rule: session_run.induct)
    case (run_refl s)
    then show ?case by simp
  next
    case (run_step s cs s' l s'')
    then have IH: "session_inv (fst s')" "b_generation (fst s') = b_generation (fst s) + of_nat (length cs)"
      "\<forall>c. b_creds (fst s') = Some c \<longrightarrow> (if cs = [] then b_creds (fst s) = Some c else c = last cs)"
      by blast+
    from session_step_effect [OF run_step.hyps(2) assms(2) IH(1)] IH(2,3) show ?case
      by (cases l) (auto simp: algebra_simps dest: sym)
  qed
  from run [OF assms(1), unfolded fst_conv, OF assms(3)] have *: "session_inv b'"
    "b_generation b' = b_generation b + of_nat (length cs)"
    "\<forall>c. b_creds b' = Some c \<longrightarrow> (if cs = [] then b_creds b = Some c else c = last cs)"
    by blast+
  have "b_creds b' \<in> {None, b_creds b}" if "length cs < 2 ^ 64" "b_generation b' = b_generation b"
  proof -
    have "(of_nat (length cs) :: 64 word) = 0" using that(2) *(2) by simp
    then have "length cs mod 2 ^ 64 = 0" by (simp add: word_of_nat_eq_0_iff dvd_eq_mod_eq_0)
    with that(1) have "cs = []" by simp
    with *(3) show ?thesis by (cases "b_creds b'") auto
  qed
  with * show ?thesis by blast
qed

theorem generation_identifies_session_witness:
  "\<exists>b' w'. session_run sample_hash_env (sample_bot, quiet_world) [sample_creds] (b', w') \<and>
     b_generation b' = 1 \<and> session_inv b'"
proof -
  let ?sel = "select_stores sample_hash_env None sample_creds sample_bot"
  obtain r b' w' where inst: "login_install sample_hash_env False None sample_creds ?sel sample_bot quiet_world = (r, b', w')"
    by (metis prod_cases3)
  have r: "r = LOk sample_creds"
    using inst by (auto simp: login_install_def prepare_contexts_def select_stores_def put_context_def Let_def
        split: prod.splits option.splits if_splits)
  have "session_step sample_hash_env (sample_bot, quiet_world)
      (if r = LOk sample_creds then Installed sample_creds else Internal) (b', w')"
    by (rule session_step.install [OF inst]) simp
  then have "session_run sample_hash_env (sample_bot, quiet_world)
      ([] @ (case Installed sample_creds of Installed c \<Rightarrow> [c] | Internal \<Rightarrow> [])) (b', w')"
    by (intro session_run.run_step [OF session_run.run_refl]) (simp add: r)
  then have run: "session_run sample_hash_env (sample_bot, quiet_world) [sample_creds] (b', w')" by simp
  have "session_inv sample_bot" unfolding sample_bot_def by (rule session_inv_new)
  from generation_identifies_session [OF run env_wf_sample this] run show ?thesis
    by (intro exI [of _ b'] exI [of _ w']) simp
qed

end
