(* ===== verification/Message.thy ===== *)
theory Message
  imports Json
begin

section \<open>Wire messages and parsed messages\<close>

text \<open>
  Models \<open>types.go\<close>, \<open>message.go\<close> and the key functions of \<open>run.go\<close> and
  \<open>dispatcher.go\<close>.  Optional pointers are options; a nested quoted message makes the item
  type mutually recursive.  Times are milliseconds since the epoch.  The lemmas show that a
  replay key determines the peer and the identity it was made from, and that file sizes are
  read back exactly.
\<close>

subsection \<open>The wire types\<close>

type_synonym message_type = int

abbreviation message_type_user :: message_type where "message_type_user \<equiv> 1"
abbreviation message_type_bot :: message_type where "message_type_bot \<equiv> 2"

abbreviation item_text :: int where "item_text \<equiv> 1"
abbreviation item_image :: int where "item_image \<equiv> 2"
abbreviation item_voice :: int where "item_voice \<equiv> 3"
abbreviation item_file :: int where "item_file \<equiv> 4"
abbreviation item_video :: int where "item_video \<equiv> 5"
abbreviation item_tool_call_start :: int where "item_tool_call_start \<equiv> 11"
abbreviation item_tool_call_result :: int where "item_tool_call_result \<equiv> 12"

record cdn_media =
  cdn_encrypt_query_param :: string
  cdn_aes_key :: string
  cdn_encrypt_type :: int
  cdn_full_url :: string

record image_item =
  im_media :: "cdn_media option"
  im_thumb_media :: "cdn_media option"
  im_aes_key :: string
  im_url :: string
  im_mid_size :: int
  im_thumb_size :: int
  im_thumb_width :: int
  im_thumb_height :: int
  im_hd_size :: int

record voice_item =
  vo_media :: "cdn_media option"
  vo_encode_type :: int
  vo_text :: string
  vo_playtime :: int

record file_item =
  fi_media :: "cdn_media option"
  fi_file_name :: string
  fi_md5 :: string
  fi_len :: string

record video_item =
  vi_media :: "cdn_media option"
  vi_video_size :: int
  vi_play_length :: int
  vi_thumb_media :: "cdn_media option"

record tool_call_start_item =
  ts_tool_name :: string
  ts_tool_call_id :: string

record tool_call_result_item =
  tr_tool_name :: string
  tr_tool_call_id :: string
  tr_status :: string

text \<open>\<open>MessageItem\<close> and \<open>RefMessage\<close>; \<open>TextItem\<close> has the single field \<open>Text\<close>.\<close>

datatype message_item =
    MessageItem
      (mi_type: int) (mi_create_time_ms: int) (mi_update_time_ms: int)
      (mi_is_completed: "bool option") (mi_msg_id: string)
      (mi_text: "string option") (mi_image: "image_item option") (mi_voice: "voice_item option")
      (mi_file: "file_item option") (mi_video: "video_item option")
      (mi_tool_start: "tool_call_start_item option") (mi_tool_result: "tool_call_result_item option")
      (mi_ref: "ref_message option")
and ref_message = RefMessage (rm_title: string) (rm_item: "message_item option")

record wire_message =
  wm_seq :: int
  wm_message_id :: int
  wm_from_user_id :: string
  wm_to_user_id :: string
  wm_client_id :: string
  wm_create_time_ms :: int
  wm_update_time_ms :: int
  wm_delete_time_ms :: int
  wm_session_id :: string
  wm_group_id :: string
  wm_message_type :: message_type
  wm_message_state :: int
  wm_context_token :: string
  wm_run_id :: string
  wm_item_list :: "message_item list"

subsection \<open>Parsed messages\<close>

datatype content_type =
    ContentText | ContentImage | ContentVoice | ContentFile | ContentVideo
  | ContentToolCallStart | ContentToolCallResult

record image_content =
  ic_media :: "cdn_media option"
  ic_thumb_media :: "cdn_media option"
  ic_aes_key :: string
  ic_url :: string
  ic_width :: int
  ic_height :: int

record voice_content =
  vc_media :: "cdn_media option"
  vc_text :: string
  vc_duration_ms :: int
  vc_encode_type :: int

record file_content =
  fc_media :: "cdn_media option"
  fc_file_name :: string
  fc_md5 :: string
  fc_size :: int

record video_content =
  dc_media :: "cdn_media option"
  dc_thumb_media :: "cdn_media option"
  dc_duration_ms :: int

text \<open>The type of a quoted message is the empty one, here \<open>None\<close>, when the reference has no item.\<close>

record quoted_message =
  qm_title :: string
  qm_text :: string
  qm_type :: "content_type option"

record incoming_message =
  in_user_id :: string
  in_text :: string
  in_type :: content_type
  in_timestamp_ms :: int
  in_images :: "image_content list"
  in_voices :: "voice_content list"
  in_files :: "file_content list"
  in_videos :: "video_content list"
  in_quoted :: "quoted_message option"
  in_session_id :: string
  in_group_id :: string
  in_run_id :: string
  in_raw :: wire_message
  in_context_token :: string
  in_session_generation :: "64 word"
  in_session_bound :: bool

subsection \<open>\<open>strconv.ParseInt(s, 10, 64)\<close> with the error dropped\<close>

text \<open>A syntax error gives 0, a number out of range the nearest \<open>int64\<close>.\<close>

definition clamp_int64 :: "int \<Rightarrow> int" where
  "clamp_int64 i = max (- (2 ^ 63)) (min (2 ^ 63 - 1) i)"

definition parse_int64 :: "string \<Rightarrow> int" where
  "parse_int64 s =
     (let neg = (case s of c # _ \<Rightarrow> c = CHR ''-'' | [] \<Rightarrow> False);
          digits = (case s of c # r \<Rightarrow> if c = CHR ''-'' \<or> c = CHR ''+'' then r else s | [] \<Rightarrow> [])
      in if digits = [] \<or> \<not> list_all is_digit digits then 0
         else clamp_int64 ((if neg then - 1 else 1) * int (dec_value digits)))"

lemma parse_int64_bounds: "in_int64 (parse_int64 s)"
  by (simp add: parse_int64_def Let_def clamp_int64_def in_int64_def min_def max_def)

lemma list_all_dec_nat: "list_all is_digit (dec_nat n)"
  by (auto simp: list_all_iff dec_nat_digits)

lemma dec_nat_head: "dec_nat n = c # r \<Longrightarrow> c \<noteq> CHR ''-'' \<and> c \<noteq> CHR ''+''"
  using dec_nat_digits [of c n] by (auto simp: is_digit_def)

lemma parse_int64_dec_int: "in_int64 i \<Longrightarrow> parse_int64 (dec_int i) = i"
proof (cases "i < 0")
  case True
  assume "in_int64 i"
  with True show ?thesis
    by (simp add: parse_int64_def dec_int_def Let_def list_all_dec_nat clamp_int64_def in_int64_def)
next
  case False
  assume i: "in_int64 i"
  obtain c r where cr: "dec_nat (nat i) = c # r" by (cases "dec_nat (nat i)") auto
  from cr list_all_dec_nat [of "nat i"] have all: "is_digit c \<and> list_all is_digit r" by simp
  have val: "dec_value (c # r) = nat i" using dec_value_dec_nat [of "nat i"] cr by simp
  from False i cr all val dec_nat_head [OF cr] show ?thesis
    by (simp add: parse_int64_def dec_int_def Let_def clamp_int64_def in_int64_def)
qed

subsection \<open>Parsing a message\<close>

fun detect_type :: "message_item list \<Rightarrow> content_type" where
  "detect_type [] = ContentText"
| "detect_type (item # items) =
     (if mi_type item = item_image then ContentImage
      else if mi_type item = item_voice then ContentVoice
      else if mi_type item = item_file then ContentFile
      else if mi_type item = item_video then ContentVideo
      else if mi_type item = item_tool_call_start then ContentToolCallStart
      else if mi_type item = item_tool_call_result then ContentToolCallResult
      else detect_type items)"

definition text_part :: "message_item \<Rightarrow> string option" where
  "text_part item =
     (if mi_type item = item_text then mi_text item
      else if mi_type item = item_image then
        (case mi_image item of Some i \<Rightarrow> if im_url i \<noteq> [] then Some (im_url i) else Some ''[image]''
         | None \<Rightarrow> Some ''[image]'')
      else if mi_type item = item_voice then
        (case mi_voice item of Some v \<Rightarrow> if vo_text v \<noteq> [] then Some (vo_text v) else Some ''[voice]''
         | None \<Rightarrow> Some ''[voice]'')
      else if mi_type item = item_file then
        (case mi_file item of Some f \<Rightarrow> if fi_file_name f \<noteq> [] then Some (fi_file_name f) else Some ''[file]''
         | None \<Rightarrow> Some ''[file]'')
      else if mi_type item = item_video then Some ''[video]''
      else None)"

definition extract_text :: "message_item list \<Rightarrow> string" where
  "extract_text items = strings_join (List.map_filter text_part items) [newline]"

definition quoted_of :: "ref_message \<Rightarrow> quoted_message" where
  "quoted_of r =
     (case rm_item r of
        None \<Rightarrow> \<lparr>qm_title = rm_title r, qm_text = [], qm_type = None\<rparr>
      | Some item \<Rightarrow> \<lparr>qm_title = rm_title r,
          qm_text = (case mi_text item of Some t \<Rightarrow> t | None \<Rightarrow> []), qm_type = Some (detect_type [item])\<rparr>)"

text \<open>One turn of the loop over the items; the last quoted message wins.\<close>

definition add_item :: "message_item \<Rightarrow> incoming_message \<Rightarrow> incoming_message" where
  "add_item item msg =
    (let msg = (case mi_image item of None \<Rightarrow> msg
         | Some i \<Rightarrow> msg\<lparr>in_images := in_images msg @ [\<lparr>ic_media = im_media i, ic_thumb_media = im_thumb_media i,
             ic_aes_key = im_aes_key i, ic_url = im_url i, ic_width = im_thumb_width i,
             ic_height = im_thumb_height i\<rparr>]\<rparr>);
         msg = (case mi_voice item of None \<Rightarrow> msg
         | Some v \<Rightarrow> msg\<lparr>in_voices := in_voices msg @ [\<lparr>vc_media = vo_media v, vc_text = vo_text v,
             vc_duration_ms = vo_playtime v, vc_encode_type = vo_encode_type v\<rparr>]\<rparr>);
         msg = (case mi_file item of None \<Rightarrow> msg
         | Some f \<Rightarrow> msg\<lparr>in_files := in_files msg @ [\<lparr>fc_media = fi_media f, fc_file_name = fi_file_name f,
             fc_md5 = fi_md5 f, fc_size = parse_int64 (fi_len f)\<rparr>]\<rparr>);
         msg = (case mi_video item of None \<Rightarrow> msg
         | Some d \<Rightarrow> msg\<lparr>in_videos := in_videos msg @ [\<lparr>dc_media = vi_media d, dc_thumb_media = vi_thumb_media d,
             dc_duration_ms = vi_play_length d\<rparr>]\<rparr>)
     in case mi_ref item of None \<Rightarrow> msg | Some r \<Rightarrow> msg\<lparr>in_quoted := Some (quoted_of r)\<rparr>)"

definition parse_message :: "wire_message \<Rightarrow> incoming_message option" where
  "parse_message wire =
     (if wm_message_type wire \<noteq> message_type_user then None
      else Some (fold add_item (wm_item_list wire)
        \<lparr>in_user_id = wm_from_user_id wire, in_text = extract_text (wm_item_list wire),
         in_type = detect_type (wm_item_list wire), in_timestamp_ms = wm_create_time_ms wire,
         in_images = [], in_voices = [], in_files = [], in_videos = [], in_quoted = None,
         in_session_id = wm_session_id wire, in_group_id = wm_group_id wire, in_run_id = wm_run_id wire,
         in_raw = wire, in_context_token = wm_context_token wire,
         in_session_generation = 0, in_session_bound = False\<rparr>))"

text \<open>
  The reference reading of a message: the parts of each kind, in the order of the items.
\<close>

lemma add_items_parts:
  "in_images (fold add_item items m) = in_images m @
     map (\<lambda>i. \<lparr>ic_media = im_media i, ic_thumb_media = im_thumb_media i, ic_aes_key = im_aes_key i,
       ic_url = im_url i, ic_width = im_thumb_width i, ic_height = im_thumb_height i\<rparr>)
     (List.map_filter mi_image items)"
  "map fc_size (in_files (fold add_item items m)) = map fc_size (in_files m) @
     map (\<lambda>f. parse_int64 (fi_len f)) (List.map_filter mi_file items)"
  "length (in_voices (fold add_item items m)) = length (in_voices m) + length (List.map_filter mi_voice items)"
  "length (in_videos (fold add_item items m)) = length (in_videos m) + length (List.map_filter mi_video items)"
  "in_raw (fold add_item items m) = in_raw m" "in_user_id (fold add_item items m) = in_user_id m"
  "in_context_token (fold add_item items m) = in_context_token m"
  "in_session_bound (fold add_item items m) = in_session_bound m"
  "in_text (fold add_item items m) = in_text m" "in_type (fold add_item items m) = in_type m"
  by (induction items arbitrary: m)
    (auto simp: add_item_def Let_def List.map_filter_simps split: option.splits)

subsection \<open>Peers and replay keys\<close>

definition peer_user_id :: "wire_message \<Rightarrow> string" where
  "peer_user_id wire =
     (if wm_message_type wire = message_type_bot then wm_to_user_id wire
      else if wm_message_type wire = message_type_user then wm_from_user_id wire
      else [])"

definition fallback_conversation_key :: string where
  "fallback_conversation_key = CHR 0x00 # ''fallback''"

definition conversation_key :: "wire_message \<Rightarrow> string" where
  "conversation_key wire =
     (if peer_user_id wire \<noteq> [] then ''user:'' @ peer_user_id wire else fallback_conversation_key)"

definition peer_prefix :: "string \<Rightarrow> string" where
  "peer_prefix peer = ''peer:'' @ dec_nat (length peer) @ '':'' @ peer @ '':''"

definition replay_keys :: "wire_message \<Rightarrow> string list" where
  "replay_keys wire =
     (let peer = peer_user_id wire in
      if peer = [] then []
      else (if wm_message_id wire \<noteq> 0 then [peer_prefix peer @ ''message:'' @ dec_int (wm_message_id wire)] else []) @
           (if wm_client_id wire \<noteq> [] then [peer_prefix peer @ ''client:'' @ wm_client_id wire] else []) @
           (if wm_seq wire \<noteq> 0 then [peer_prefix peer @ ''seq:'' @ dec_int (wm_seq wire)] else []))"

text \<open>The identities of a message: its peer and what names it, strongest first.\<close>

datatype identity = ByMessage int | ByClient string | BySeq int

definition identities :: "wire_message \<Rightarrow> identity list" where
  "identities wire =
     (if wm_message_id wire \<noteq> 0 then [ByMessage (wm_message_id wire)] else []) @
     (if wm_client_id wire \<noteq> [] then [ByClient (wm_client_id wire)] else []) @
     (if wm_seq wire \<noteq> 0 then [BySeq (wm_seq wire)] else [])"

fun identity_key :: "string \<Rightarrow> identity \<Rightarrow> string" where
  "identity_key peer (ByMessage i) = peer_prefix peer @ ''message:'' @ dec_int i"
| "identity_key peer (ByClient c) = peer_prefix peer @ ''client:'' @ c"
| "identity_key peer (BySeq i) = peer_prefix peer @ ''seq:'' @ dec_int i"

lemma replay_keys_identities:
  "replay_keys wire = (if peer_user_id wire = [] then [] else map (identity_key (peer_user_id wire)) (identities wire))"
  by (simp add: replay_keys_def identities_def Let_def)

lemma peer_prefix_inject:
  "peer_prefix p @ r = peer_prefix q @ s \<Longrightarrow> p = q \<and> r = s"
proof -
  assume eq: "peer_prefix p @ r = peer_prefix q @ s"
  then have "dec_nat (length p) @ CHR '':'' # (p @ '':'' @ r) = dec_nat (length q) @ CHR '':'' # (q @ '':'' @ s)"
    by (simp add: peer_prefix_def)
  from dec_nat_sep_inject [OF not_is_digit(1) this]
  have "length p = length q" "p @ '':'' @ r = q @ '':'' @ s" by simp_all
  then show "p = q \<and> r = s" by (simp add: append_eq_append_conv)
qed

lemma identity_key_inject:
  "identity_key p i = identity_key q j \<longleftrightarrow> p = q \<and> i = j"
  by (cases i; cases j) (auto dest!: peer_prefix_inject)

lemma identity_key_not_Nil [simp]: "identity_key p i \<noteq> []"
  by (cases i) (simp_all add: peer_prefix_def)

text \<open>C23: replay keys do not collide.  Two messages share a replay key exactly when they have
  the same, non-empty, peer and share an identity of the same kind, whatever bytes the peer
  and client identifiers contain.\<close>

theorem replay_keys_collide_iff:
  "set (replay_keys v) \<inter> set (replay_keys w) \<noteq> {} \<longleftrightarrow>
   peer_user_id v \<noteq> [] \<and> peer_user_id v = peer_user_id w \<and> set (identities v) \<inter> set (identities w) \<noteq> {}"
  by (auto simp: replay_keys_identities identity_key_inject)

lemma conversation_key_eq:
  "conversation_key v = conversation_key w \<longleftrightarrow> peer_user_id v = peer_user_id w"
  by (auto simp: conversation_key_def fallback_conversation_key_def)

text \<open>The size of a file attachment is read exactly.  A parsed message lists one file per
  file item, in order; a length field that is the decimal form of a 64-bit integer is read as
  that integer, and whatever the field holds the size fits 64 bits.\<close>

theorem file_sizes_exact:
  assumes "parse_message wire = Some msg"
  shows "map fc_size (in_files msg) = map (\<lambda>f. parse_int64 (fi_len f)) (List.map_filter mi_file (wm_item_list wire)) \<and>
    (\<forall>f\<in>set (in_files msg). in_int64 (fc_size f)) \<and>
    (\<forall>i. in_int64 i \<longrightarrow> parse_int64 (dec_int i) = i)"
proof -
  have "map fc_size (in_files msg) = map (\<lambda>f. parse_int64 (fi_len f)) (List.map_filter mi_file (wm_item_list wire))"
    using assms by (auto simp: parse_message_def add_items_parts split: if_splits)
  moreover from this have "fc_size ` set (in_files msg) \<subseteq> range parse_int64"
    by (metis (no_types, lifting) image_set list.set_map image_mono image_image subset_UNIV image_subsetI rangeI)
  ultimately show ?thesis
    using parse_int64_bounds parse_int64_dec_int by fastforce
qed

definition sample_file_message :: wire_message where
  "sample_file_message = \<lparr>wm_seq = 0, wm_message_id = 7, wm_from_user_id = ''u'', wm_to_user_id = [],
     wm_client_id = ''c'', wm_create_time_ms = 0, wm_update_time_ms = 0, wm_delete_time_ms = 0,
     wm_session_id = [], wm_group_id = [], wm_message_type = message_type_user, wm_message_state = 0,
     wm_context_token = ''t'', wm_run_id = [],
     wm_item_list = [MessageItem item_file 0 0 None [] None None None
       (Some \<lparr>fi_media = None, fi_file_name = ''a.txt'', fi_md5 = [], fi_len = ''1234''\<rparr>) None None None None]\<rparr>"

theorem file_sizes_exact_witness:
  "\<exists>msg. parse_message sample_file_message = Some msg \<and> map fc_size (in_files msg) = [1234]"
proof -
  obtain msg where msg: "parse_message sample_file_message = Some msg"
    by (simp add: parse_message_def sample_file_message_def)
  from file_sizes_exact [OF msg] have "map fc_size (in_files msg) = [parse_int64 ''1234'']"
    by (simp add: sample_file_message_def List.map_filter_simps)
  with msg show ?thesis
    by (simp add: parse_int64_def Let_def is_digit_def dec_value_def clamp_int64_def)
qed

end
