(* ===== verification/Delivery.thy ===== *)
theory Delivery
  imports Handler SessionFrame
begin

section \<open>Delivering one message\<close>

text \<open>
  Models \<open>processWireMessage\<close> and \<open>processUpdateBatch\<close> of \<open>run.go\<close> and
  \<open>rememberContextForSession\<close> of \<open>message.go\<close>.  The state is the bot, the files and whatever
  state the user's code has; hooks, middleware and the handler are functions of it, so what
  other goroutines do while they run is part of what they do.  The clock is read twice, for the
  look-up and for the commit; both readings are arguments.  The lemmas show that a delivered
  message is not delivered again, that a failed one is, and that both survive a restart.
\<close>

subsection \<open>State and operations\<close>

record 'u delivery =
  dv_bot :: bot
  dv_world :: world
  dv_user :: 'u

type_synonym 'u receive_hook = "(incoming_message \<times> 'u delivery) hook"

definition remember_context_for_session :: "os_env \<Rightarrow> 64 word \<Rightarrow> wire_message \<Rightarrow> 'u delivery \<Rightarrow>
    goerr option \<times> 'u delivery" where
  "remember_context_for_session E generation wire s =
     (let userID = peer_user_id wire in
      if userID \<noteq> [] \<and> wm_context_token wire \<noteq> []
      then (case persist_context_token E generation userID (wm_context_token wire) (dv_bot s) (dv_world s) of
              (r, b, w) \<Rightarrow> (map_option (\<lambda>e. Wrapf ''persist context token: '' e []) r,
                s\<lparr>dv_bot := b, dv_world := w\<rparr>))
      else (None, s))"

definition remember_context :: "os_env \<Rightarrow> wire_message \<Rightarrow> 'u delivery \<Rightarrow> goerr option \<times> 'u delivery" where
  "remember_context E wire s = remember_context_for_session E (b_generation (dv_bot s)) wire s"

text \<open>The part of \<open>processWireMessage\<close> that runs user code, for a message of a user.\<close>

definition receive_message :: "'u receive_hook list \<Rightarrow> 'u delivery handler \<Rightarrow> 64 word \<Rightarrow>
    incoming_message \<Rightarrow> 'u delivery \<Rightarrow> goerr option \<times> 'u delivery" where
  "receive_message hooks handler generation incoming s =
     (case run_hooks hooks (incoming\<lparr>in_session_generation := generation, in_session_bound := True\<rparr>, s) of
        (Some e, _, s) \<Rightarrow> (Some (Wrapf ''AfterReceive hook failed: '' e []), s)
      | (None, incoming, s) \<Rightarrow>
          (case invoke_handler handler incoming s of
             (result, s) \<Rightarrow>
               (case validate_message_result result of
                  Some e \<Rightarrow> (Some (Wrapf ''handle message: '' e []), s)
                | None \<Rightarrow> (None, s))))"

definition commit_identities :: "os_env \<Rightarrow> int \<Rightarrow> string list \<Rightarrow> 'u delivery \<Rightarrow> goerr option \<times> 'u delivery" where
  "commit_identities E now keys s =
     (if keys = [] then (None, s)
      else (case commit_all E now keys (b_replay_store (dv_bot s)) (dv_world s) of
              (r, rs, w) \<Rightarrow> (map_option (\<lambda>e. Wrapf (''commit replay identities ['' @ strings_join keys '' '' @ '']: '') e []) r,
                s\<lparr>dv_bot := (dv_bot s)\<lparr>b_replay_store := rs\<rparr>, dv_world := w\<rparr>)))"

definition process_wire_message :: "os_env \<Rightarrow> int \<Rightarrow> int \<Rightarrow> 'u receive_hook list \<Rightarrow> 'u delivery handler \<Rightarrow>
    64 word \<Rightarrow> wire_message \<Rightarrow> 'u delivery \<Rightarrow> goerr option \<times> 'u delivery" where
  "process_wire_message E now commitTime hooks handler generation wire s =
     (case validate_delivery_session generation (dv_bot s) of
        Some e \<Rightarrow> (Some e, s)
      | None \<Rightarrow>
         (let keys = replay_keys wire in
          if keys \<noteq> [] \<and> seen_any (b_replay_store (dv_bot s)) now [hd keys] then (None, s)
          else (case remember_context_for_session E generation wire s of
              (Some e, s) \<Rightarrow> (Some e, s)
            | (None, s) \<Rightarrow>
               (case (case parse_message wire of
                        None \<Rightarrow> (None, s)
                      | Some incoming \<Rightarrow> receive_message hooks handler generation incoming s) of
                  (Some e, s) \<Rightarrow> (Some e, s)
                | (None, s) \<Rightarrow> commit_identities E commitTime keys s))))"

text \<open>
  \<open>processUpdateBatch\<close> without cancellation: the decoded messages in order, each with its two
  clock readings, up to the first failure; a message that does not decode is a \<open>Inl\<close>.  Then the
  cursor.
\<close>

fun process_messages :: "os_env \<Rightarrow> 'u receive_hook list \<Rightarrow> 'u delivery handler \<Rightarrow> 64 word \<Rightarrow>
    (int \<times> int \<times> (goerr + wire_message)) list \<Rightarrow> 'u delivery \<Rightarrow> goerr option \<times> 'u delivery" where
  "process_messages E hooks handler generation [] s = (None, s)"
| "process_messages E hooks handler generation ((now, commitTime, Inl e) # ms) s = (Some e, s)"
| "process_messages E hooks handler generation ((now, commitTime, Inr wire) # ms) s =
     (case process_wire_message E now commitTime hooks handler generation wire s of
        (Some e, s) \<Rightarrow> (Some e, s)
      | (None, s) \<Rightarrow> process_messages E hooks handler generation ms s)"

definition commit_cursor :: "os_env \<Rightarrow> string \<Rightarrow> bot \<Rightarrow> world \<Rightarrow> goerr option \<times> bot \<times> world" where
  "commit_cursor E cursor b w =
     (if cursor \<noteq> [] \<and> cursor \<noteq> cursor_get (b_cursor_store b)
      then (case cursor_set E cursor (b_cursor_store b) w of
              (r, cu, w) \<Rightarrow> (map_option (\<lambda>e. Wrapf ''commit cursor: '' e []) r, b\<lparr>b_cursor_store := cu\<rparr>, w))
      else (None, b, w))"

definition process_update_batch :: "os_env \<Rightarrow> 'u receive_hook list \<Rightarrow> 'u delivery handler \<Rightarrow> 64 word \<Rightarrow>
    (int \<times> int \<times> (goerr + wire_message)) list \<Rightarrow> string \<Rightarrow> 'u delivery \<Rightarrow> goerr option \<times> 'u delivery" where
  "process_update_batch E hooks handler generation messages cursor s =
     (case process_messages E hooks handler generation messages s of
        (Some e, s) \<Rightarrow> (Some e, s)
      | (None, s) \<Rightarrow> (case commit_cursor E cursor (dv_bot s) (dv_world s) of
          (r, b, w) \<Rightarrow> (r, s\<lparr>dv_bot := b, dv_world := w\<rparr>)))"

subsection \<open>What user code may not do\<close>

text \<open>
  The replay store is not part of the public interface: user code reaches neither the object
  nor, if it behaves, its file.  \<open>replay_view\<close> is what must not change: the store and the
  contents of its file.
\<close>

definition replay_view :: "os_env \<Rightarrow> 'u delivery \<Rightarrow> replay_store \<times> content option" where
  "replay_view E s = (b_replay_store (dv_bot s),
     file_at (dv_world s) (resolve E (rp_path (b_replay_store (dv_bot s)))))"

definition spares_replay :: "os_env \<Rightarrow> 'u receive_hook list \<Rightarrow> 'u delivery handler \<Rightarrow> bool" where
  "spares_replay E hooks handler \<longleftrightarrow>
     (\<forall>h m s r m' s'. Some h \<in> set hooks \<longrightarrow> h (m, s) = (r, m', s') \<longrightarrow> replay_view E s' = replay_view E s) \<and>
     (\<forall>m s r s'. handler m s = (r, s') \<longrightarrow> replay_view E s' = replay_view E s)"

lemma replay_view_store: "replay_view E s' = replay_view E s \<Longrightarrow> b_replay_store (dv_bot s') = b_replay_store (dv_bot s)"
  by (simp add: replay_view_def)

lemma receive_message_view:
  assumes "spares_replay E hooks handler"
    and "receive_message hooks handler generation incoming s = (r, s')"
  shows "replay_view E s' = replay_view E s"
proof -
  let ?i = "incoming\<lparr>in_session_generation := generation, in_session_bound := True\<rparr>"
  obtain x m1 s1 where run: "run_hooks hooks (?i, s) = (x, m1, s1)" by (metis prod_cases3)
  have "replay_view E (snd (m1, s1)) = replay_view E s"
  proof (rule run_hooks_keeps [OF _ run, of "\<lambda>p. replay_view E (snd p) = replay_view E s"])
    fix h p r p'
    assume "Some h \<in> set hooks" "h p = (r, p')" "replay_view E (snd p) = replay_view E s"
    with assms(1) show "replay_view E (snd p') = replay_view E s"
      unfolding spares_replay_def by (metis prod.collapse)
  qed simp
  moreover have "replay_view E s2 = replay_view E s1" if "invoke_handler handler m1 s1 = (y, s2)" for y s2
    using that assms(1) unfolding spares_replay_def invoke_handler_def
    by (auto split: prod.splits sum.splits)
  ultimately show ?thesis
    using assms(2) run unfolding receive_message_def
    by (auto split: prod.splits option.splits)
qed

text \<open>The context tokens and the replay identities are in different files; the validation of the
  state paths guarantees it.\<close>

definition separate_files :: "os_env \<Rightarrow> bot \<Rightarrow> bool" where
  "separate_files E b \<longleftrightarrow> resolve E (cs_path (b_context_tokens b)) \<noteq> resolve E (rp_path (b_replay_store b))"

lemma validated_separate:
  assumes "env_wf E" and "validate_current_state_paths E b = None"
  shows "separate_files E b"
proof -
  have "key_of E (cs_path (b_context_tokens b)) \<noteq> key_of E (rp_path (b_replay_store b))"
    using validate_state_paths_None [OF assms(1) assms(2) [unfolded validate_current_state_paths_def]] by auto
  then show ?thesis
    using resolve_keyed [OF assms(1), of "cs_path (b_context_tokens b)" "{key_of E (rp_path (b_replay_store b))}"]
      resolve_keyed [OF assms(1), of "rp_path (b_replay_store b)" "{key_of E (rp_path (b_replay_store b))}"]
    by (auto simp: separate_files_def)
qed

subsection \<open>The effect on the replay store\<close>

lemma remember_replay:
  assumes "remember_context_for_session E generation wire s = (r, s')"
  shows "b_replay_store (dv_bot s') = b_replay_store (dv_bot s)"
    and "separate_files E (dv_bot s) \<Longrightarrow> replay_view E s' = replay_view E s"
proof -
  let ?ctx = "b_context_tokens (dv_bot s)"
  have "s' = s \<or> (\<exists>x ctx w. context_set E (peer_user_id wire) (wm_context_token wire) ?ctx (dv_world s) = (x, ctx, w) \<and>
      s' = s\<lparr>dv_bot := (dv_bot s)\<lparr>b_context_tokens := ctx\<rparr>, dv_world := w\<rparr>)"
    using assms by (auto simp: remember_context_for_session_def persist_context_token_def Let_def
        split: if_splits prod.splits)
  then have "b_replay_store (dv_bot s') = b_replay_store (dv_bot s) \<and>
    (separate_files E (dv_bot s) \<longrightarrow> replay_view E s' = replay_view E s)"
  proof (elim disjE exE conjE)
    fix x ctx w
    assume set: "context_set E (peer_user_id wire) (wm_context_token wire) ?ctx (dv_world s) = (x, ctx, w)"
      and s': "s' = s\<lparr>dv_bot := (dv_bot s)\<lparr>b_context_tokens := ctx\<rparr>, dv_world := w\<rparr>"
    have "file_at w q = file_at (dv_world s) q" if "q \<noteq> resolve E (cs_path ?ctx)" for q
      using that set write_json_atomic_other
      by (auto simp: context_set_def context_write_def write_through_def Let_def
          split: if_splits prod.splits option.splits)
    then show ?thesis
      by (auto simp: s' replay_view_def separate_files_def)
  qed simp
  then show "b_replay_store (dv_bot s') = b_replay_store (dv_bot s)"
    and "separate_files E (dv_bot s) \<Longrightarrow> replay_view E s' = replay_view E s"
    by auto
qed

text \<open>\<open>receive_part\<close>: user code ran, or the message is none a user sent.\<close>

definition receive_part :: "'u receive_hook list \<Rightarrow> 'u delivery handler \<Rightarrow> 64 word \<Rightarrow> wire_message \<Rightarrow>
    'u delivery \<Rightarrow> goerr option \<times> 'u delivery" where
  "receive_part hooks handler generation wire s =
     (case parse_message wire of None \<Rightarrow> (None, s)
      | Some incoming \<Rightarrow> receive_message hooks handler generation incoming s)"

lemma receive_part_view:
  "spares_replay E hooks handler \<Longrightarrow> receive_part hooks handler generation wire s = (r, s') \<Longrightarrow>
   replay_view E s' = replay_view E s"
  by (auto simp: receive_part_def receive_message_view split: option.splits)

lemma process_cases:
  assumes "process_wire_message E now commitTime hooks handler generation wire s = (r, s')"
  obtains (session) e where "validate_delivery_session generation (dv_bot s) = Some e" "r = Some e" "s' = s"
  | (duplicate) "validate_delivery_session generation (dv_bot s) = None" "replay_keys wire \<noteq> []"
      "seen_any (b_replay_store (dv_bot s)) now [hd (replay_keys wire)]" "r = None" "s' = s"
  | (remember) e where "validate_delivery_session generation (dv_bot s) = None"
      "replay_keys wire \<noteq> [] \<Longrightarrow> \<not> seen_any (b_replay_store (dv_bot s)) now [hd (replay_keys wire)]"
      "remember_context_for_session E generation wire s = (Some e, s')" "r = Some e"
  | (receive) e s1 where "validate_delivery_session generation (dv_bot s) = None"
      "replay_keys wire \<noteq> [] \<Longrightarrow> \<not> seen_any (b_replay_store (dv_bot s)) now [hd (replay_keys wire)]"
      "remember_context_for_session E generation wire s = (None, s1)"
      "receive_part hooks handler generation wire s1 = (Some e, s')" "r = Some e"
  | (commit) s1 s2 where "validate_delivery_session generation (dv_bot s) = None"
      "replay_keys wire \<noteq> [] \<Longrightarrow> \<not> seen_any (b_replay_store (dv_bot s)) now [hd (replay_keys wire)]"
      "remember_context_for_session E generation wire s = (None, s1)"
      "receive_part hooks handler generation wire s1 = (None, s2)"
      "commit_identities E commitTime (replay_keys wire) s2 = (r, s')"
  using assms
  unfolding process_wire_message_def receive_part_def [symmetric] Let_def
  by (auto split: option.splits prod.splits if_splits)

lemma commit_identities_cases:
  assumes "commit_identities E now keys s = (r, s')"
  obtains (none) "keys = []" "r = None" "s' = s"
  | (run) x rs w where "keys \<noteq> []" "commit_all E now keys (b_replay_store (dv_bot s)) (dv_world s) = (x, rs, w)"
      "x = None \<longleftrightarrow> r = None" "b_replay_store (dv_bot s') = rs" "dv_world s' = w"
  using assms by (auto simp: commit_identities_def split: if_splits prod.splits)

lemma commit_all_view:
  assumes "commit_all E now keys rs w = (Some e, rs', w')"
  shows "rs' = rs \<and> file_at w' (resolve E (rp_path rs)) = file_at w (resolve E (rp_path rs))"
  using assms write_through_spec(1,3)
  by (fastforce simp: commit_all_def Let_def split: if_splits)

lemma process_failed_view:
  assumes "spares_replay E hooks handler" and "separate_files E (dv_bot s)"
    and "process_wire_message E now commitTime hooks handler generation wire s = (Some e, s')"
  shows "replay_view E s' = replay_view E s"
  using assms(3)
proof (cases rule: process_cases)
  case (commit s1 s2)
  from commit(5) have "replay_view E s' = replay_view E s2"
  proof (cases rule: commit_identities_cases)
    case (run x rs w)
    from run(3) obtain e' where "x = Some e'" by (cases x) auto
    with run(2) commit_all_view have "rs = b_replay_store (dv_bot s2) \<and>
      file_at w (resolve E (rp_path (b_replay_store (dv_bot s2)))) =
      file_at (dv_world s2) (resolve E (rp_path (b_replay_store (dv_bot s2))))"
      by blast
    with run(4,5) show ?thesis by (auto simp: replay_view_def)
  qed simp
  then show ?thesis
    using receive_part_view [OF assms(1) commit(4)] remember_replay(2) [OF commit(3) assms(2)] by simp
qed (use receive_part_view [OF assms(1)] remember_replay(2) [OF _ assms(2)] in auto)

text \<open>A message is delivered when it is processed without error and was not suppressed.\<close>

lemma process_delivered:
  fixes s :: "'u delivery"
  assumes "spares_replay E hooks handler"
    and "process_wire_message E now commitTime hooks handler generation wire s = (None, s')"
    and "k \<in> set (replay_keys wire)"
    and "\<not> seen_any (b_replay_store (dv_bot s)) now [hd (replay_keys wire)]"
  obtains s2 :: "'u delivery" where
    "commit_all E commitTime (replay_keys wire) (b_replay_store (dv_bot s)) (dv_world s2) =
      (None, b_replay_store (dv_bot s'), dv_world s')"
    "separate_files E (dv_bot s) \<Longrightarrow> replay_view E s2 = replay_view E s"
  using assms(2)
proof (cases rule: process_cases)
  case (commit s1 s2)
  have v1: "b_replay_store (dv_bot s2) = b_replay_store (dv_bot s)"
    "separate_files E (dv_bot s) \<Longrightarrow> replay_view E s2 = replay_view E s"
    using receive_part_view [OF assms(1) commit(4)] remember_replay [OF commit(3)] replay_view_store
    by metis+
  from commit(5) assms(3)
  have "commit_all E commitTime (replay_keys wire) (b_replay_store (dv_bot s)) (dv_world s2) =
      (None, b_replay_store (dv_bot s'), dv_world s')"
    by (cases rule: commit_identities_cases) (auto simp: v1)
  from that [OF this v1(2)] show thesis .
qed (use assms(4) in auto)

lemma replay_key_not_Nil: "k \<in> set (replay_keys wire) \<Longrightarrow> k \<noteq> []"
  by (auto simp: replay_keys_identities identity_key_not_Nil [THEN not_sym] split: if_splits)

lemma replay_load_ttl: "replay_load E now t w = (r, t', w') \<Longrightarrow> rp_ttl t' = rp_ttl t"
  by (auto simp: replay_load_def split: prod.splits read_result.splits sum.splits)

text \<open>Any delivery, failed or not, only adds to what is recognised.\<close>

definition recognised :: "replay_store \<Rightarrow> int \<Rightarrow> string \<Rightarrow> bool" where
  "recognised rs later k \<longleftrightarrow> alist_wf (rp_seen_at rs) \<and> seen_any rs later [k]"

lemma commit_all_wf: "commit_all E now keys rs w = (r, rs', w') \<Longrightarrow> alist_wf (rp_seen_at rs) \<Longrightarrow> alist_wf (rp_seen_at rs')"
  by (auto simp: commit_all_def Let_def split: if_splits dest!: write_through_spec(1))

lemma seen_any_not_Nil: "seen_any rs t [k] \<Longrightarrow> k \<noteq> []"
  by (simp add: seen_any_def)

lemma commit_all_recognised:
  assumes "commit_all E now keys rs w = (r, rs', w')" and "recognised rs later k"
    and "now \<le> later" and "replay_cutoff later (rp_ttl rs) \<le> unix_milli now"
  shows "recognised rs' later k \<and> rp_ttl rs' = rp_ttl rs"
proof (cases r)
  case None
  have "k \<noteq> []" using assms(2) by (auto simp: recognised_def dest: seen_any_not_Nil)
  then have "seen_any rs' later [k]"
    using commit_then_seen_ex [OF _ assms(1) [unfolded None] _ assms(3), of k] assms(2,4)
    by (auto simp: recognised_def dest: seen_any_not_Nil split: if_splits)
  then show ?thesis
    using assms(1,2) None commit_all_ok(1) commit_all_wf unfolding recognised_def by metis
next
  case (Some e)
  then show ?thesis using assms(1,2) commit_all_err by metis
qed

lemma process_recognised:
  assumes "spares_replay E hooks handler"
    and "process_wire_message E now commitTime hooks handler generation wire s = (r, s')"
    and "recognised (b_replay_store (dv_bot s)) later k"
    and "commitTime \<le> later" and "replay_cutoff later (rp_ttl (b_replay_store (dv_bot s))) \<le> unix_milli commitTime"
  shows "recognised (b_replay_store (dv_bot s')) later k \<and>
    rp_ttl (b_replay_store (dv_bot s')) = rp_ttl (b_replay_store (dv_bot s))"
  using assms(2)
proof (cases rule: process_cases)
  case (remember e)
  then show ?thesis using remember_replay(1) [OF remember(3)] assms(3) by simp
next
  case (receive e s1)
  then show ?thesis
    using remember_replay(1) [OF receive(3)] replay_view_store [OF receive_part_view [OF assms(1) receive(4)]] assms(3)
    by simp
next
  case (commit s1 s2)
  have v: "b_replay_store (dv_bot s2) = b_replay_store (dv_bot s)"
    using replay_view_store [OF receive_part_view [OF assms(1) commit(4)]] remember_replay(1) [OF commit(3)]
    by simp
  from commit(5) show ?thesis
  proof (cases rule: commit_identities_cases)
    case (run x rs w)
    show ?thesis
      using commit_all_recognised [OF run(2)] assms(3-5) run(4) by (simp add: v)
  qed (simp add: v assms(3))
qed (use assms(3) in auto)

subsection \<open>No message is delivered twice\<close>

text \<open>Deliveries in any order, each with its own handler; a failed one does not stop the rest.\<close>

fun deliver_all :: "os_env \<Rightarrow> (int \<times> int \<times> 'u receive_hook list \<times> 'u delivery handler \<times> 64 word \<times> wire_message) list \<Rightarrow>
    'u delivery \<Rightarrow> 'u delivery" where
  "deliver_all E [] s = s"
| "deliver_all E ((now, commitTime, hooks, handler, generation, wire) # ds) s =
     deliver_all E ds (snd (process_wire_message E now commitTime hooks handler generation wire s))"

lemma deliver_all_recognised:
  assumes "recognised (b_replay_store (dv_bot s)) later k"
    and "\<forall>(now, commitTime, hooks, handler, generation, wire)\<in>set ds. spares_replay E hooks handler \<and>
      commitTime \<le> later \<and> replay_cutoff later (rp_ttl (b_replay_store (dv_bot s))) \<le> unix_milli commitTime"
  shows "recognised (b_replay_store (dv_bot (deliver_all E ds s))) later k"
  using assms
proof (induction ds arbitrary: s)
  case (Cons d ds)
  obtain now commitTime hooks handler generation wire
    where d: "d = (now, commitTime, hooks, handler, generation, wire)" by (metis prod_cases6)
  obtain r s1 where run: "process_wire_message E now commitTime hooks handler generation wire s = (r, s1)" by fastforce
  from Cons.prems(2) d have ok: "spares_replay E hooks handler" "commitTime \<le> later"
    "replay_cutoff later (rp_ttl (b_replay_store (dv_bot s))) \<le> unix_milli commitTime" by auto
  note step = process_recognised [OF ok(1) run Cons.prems(1) ok(2,3)]
  have "recognised (b_replay_store (dv_bot (deliver_all E ds s1))) later k"
    by (rule Cons.IH) (use step Cons.prems(2) in auto)
  then show ?case by (simp add: d run)
qed simp

lemma process_suppressed:
  assumes "replay_keys wire \<noteq> []" and "seen_any (b_replay_store (dv_bot s)) now [hd (replay_keys wire)]"
  shows "process_wire_message E now commitTime hooks handler generation wire s =
    (validate_delivery_session generation (dv_bot s), s)"
  using assms by (simp add: process_wire_message_def split: option.split)

text \<open>C11: a delivered message is not delivered again.  Once a message was handled and committed,
  then for as long as the replay window lasts, after any further deliveries, failed or not,
  of any messages to any handlers, a message whose strongest identity is one of the committed
  ones reaches no hook and no handler and changes nothing; the only possible outcome beside
  being skipped is the error of a session that ended.\<close>

theorem delivered_not_repeated:
  assumes "alist_wf (rp_seen_at (b_replay_store (dv_bot s)))" and "spares_replay E hooks handler"
    and "process_wire_message E now commitTime hooks handler generation wire s = (None, s')"
    and "\<not> seen_any (b_replay_store (dv_bot s)) now [hd (replay_keys wire)]"
    and "commitTime \<le> later" and "replay_cutoff later (rp_ttl (b_replay_store (dv_bot s))) \<le> unix_milli commitTime"
    and "\<forall>(n, c, hs, h, g, v)\<in>set between. spares_replay E hs h \<and> commitTime \<le> c \<and> c \<le> later"
    and "replay_keys again \<noteq> []" and "hd (replay_keys again) \<in> set (replay_keys wire)"
  shows "process_wire_message E later commitTime' hooks' handler' generation' again (deliver_all E between s') =
    (validate_delivery_session generation' (dv_bot (deliver_all E between s')), deliver_all E between s')"
proof (rule process_suppressed [OF assms(8)])
  let ?k = "hd (replay_keys again)"
  obtain w2 where run: "commit_all E commitTime (replay_keys wire) (b_replay_store (dv_bot s)) w2 =
      (None, b_replay_store (dv_bot s'), dv_world s')"
    by (rule process_delivered [OF assms(2,3) assms(9) assms(4)])
  have k: "?k \<noteq> []" using assms(9) by (rule replay_key_not_Nil)
  have "seen_any (b_replay_store (dv_bot s')) later [?k]"
    using commit_then_seen_ex [OF assms(1) run k assms(5)] assms(6,9) by simp
  with commit_all_wf [OF run assms(1)] have "recognised (b_replay_store (dv_bot s')) later ?k"
    by (simp add: recognised_def)
  moreover have "replay_cutoff later (rp_ttl (b_replay_store (dv_bot s'))) \<le> unix_milli c" if "commitTime \<le> c" for c
    using unix_milli_mono [OF that] assms(6) commit_all_ok(1) [OF run] by simp
  with assms(7) have "\<forall>(n, c, hs, h, g, v)\<in>set between. spares_replay E hs h \<and>
      c \<le> later \<and> replay_cutoff later (rp_ttl (b_replay_store (dv_bot s'))) \<le> unix_milli c"
    by (simp add: case_prod_beta)
  ultimately have "recognised (b_replay_store (dv_bot (deliver_all E between s'))) later ?k"
    by (rule deliver_all_recognised)
  then show "seen_any (b_replay_store (dv_bot (deliver_all E between s'))) later [?k]"
    by (simp add: recognised_def)
qed

text \<open>C12: a message that was not delivered will be.  When processing a message fails, whatever
  the reason, the replay store and its file are as before, so neither the running bot nor a
  restarted one takes the next copy of the message for a duplicate.\<close>

theorem failed_delivery_retried:
  assumes "alist_wf (rp_seen_at (b_replay_store (dv_bot s)))"
    and "spares_replay E hooks handler" and "separate_files E (dv_bot s)"
    and "process_wire_message E now commitTime hooks handler generation wire s = (Some e, s')"
    and "now \<le> later"
  shows "replay_view E s' = replay_view E s \<and>
    (validate_delivery_session generation (dv_bot s) = None \<and> replay_keys wire \<noteq> [] \<longrightarrow>
      \<not> seen_any (b_replay_store (dv_bot s')) later [hd (replay_keys wire)])"
proof (intro conjI impI)
  show view: "replay_view E s' = replay_view E s"
    by (rule process_failed_view [OF assms(2-4)])
  assume ok: "validate_delivery_session generation (dv_bot s) = None \<and> replay_keys wire \<noteq> []"
  from assms(4) have "\<not> seen_any (b_replay_store (dv_bot s)) now [hd (replay_keys wire)]"
    by (cases rule: process_cases) (use ok in auto)
  then show "\<not> seen_any (b_replay_store (dv_bot s')) later [hd (replay_keys wire)]"
    unfolding replay_view_store [OF view]
    using replay_cutoff_mono [OF assms(5), of "rp_ttl (b_replay_store (dv_bot s))"]
    by (auto simp: seen_any_def split: option.splits)
qed

text \<open>C13: a delivery survives a restart.  After a message was handled and committed, a replay
  store loaded from the file it left, at any time within the window and by any process,
  makes a bot skip the message.\<close>

theorem delivery_survives_restart:
  fixes s :: "'u delivery"
  assumes "valid_replay (rp_seen_at (b_replay_store (dv_bot s)))"
    and "read_replay (snd (replay_view E s)) = Some (rp_seen_at (b_replay_store (dv_bot s)))"
    and "spares_replay E hooks handler" and "separate_files E (dv_bot s)"
    and "process_wire_message E now commitTime hooks handler generation wire s = (None, s')"
    and "\<not> seen_any (b_replay_store (dv_bot s)) now [hd (replay_keys wire)]"
    and "\<forall>k\<in>set (replay_keys wire). valid_utf8 k" and "in_int64 (unix_milli commitTime)"
    and "rp_path t = rp_path (b_replay_store (dv_bot s))" and "rp_ttl t = rp_ttl (b_replay_store (dv_bot s))"
    and "file_at w (resolve E (rp_path t)) = snd (replay_view E s')"
    and "replay_load E restart t w = (None, b_replay_store (dv_bot u), w')"
    and "restart \<le> later" and "commitTime \<le> later"
    and "replay_cutoff later (rp_ttl t) \<le> unix_milli commitTime" and "replay_keys wire \<noteq> []"
  shows "process_wire_message E later commitTime' hooks' handler' generation' wire u =
    (validate_delivery_session generation' (dv_bot u), u)"
proof (rule process_suppressed [OF assms(16)])
  let ?rs = "b_replay_store (dv_bot s)" and ?rs' = "b_replay_store (dv_bot s')"
  let ?k = "hd (replay_keys wire)"
  have mem: "?k \<in> set (replay_keys wire)" using assms(16) by simp
  obtain s2 :: "'u delivery" where run: "commit_all E commitTime (replay_keys wire) ?rs (dv_world s2) = (None, ?rs', dv_world s')"
    and view: "snd (replay_view E s2) = snd (replay_view E s)" "b_replay_store (dv_bot s2) = ?rs"
    by (rule process_delivered [OF assms(3,5) mem assms(6)])
      (use assms(4) in \<open>auto simp: replay_view_def\<close>)
  have disk2: "read_replay (file_at (dv_world s2) (resolve E (rp_path ?rs))) = Some (rp_seen_at ?rs)"
    using assms(2) view by (simp add: replay_view_def)
  have exec: "replay_exec E (replay_keys wire, commitTime) ?rs (dv_world s2) = (None, ?rs', dv_world s')"
    using run by simp
  have op: "valid_replay_op (replay_keys wire, commitTime)"
    using assms(7,8) by (simp add: valid_replay_op_def)
  have disk: "read_replay (file_at (dv_world s') (resolve E (rp_path ?rs))) = Some (rp_seen_at ?rs')"
    using replay_exec_disk [OF exec assms(1) op disk2] by simp
  have "read_replay (file_at w (resolve E (rp_path t))) = Some (rp_seen_at ?rs')"
    using disk assms(9,11) commit_all_ok(2) [OF run] by (simp add: replay_view_def)
  from replay_loadD [OF assms(12) this]
  have seen: "rp_seen_at (b_replay_store (dv_bot u)) = prune_replay (rp_seen_at ?rs') restart (rp_ttl t)" .
  have ttl: "rp_ttl (b_replay_store (dv_bot u)) = rp_ttl t"
    by (rule replay_load_ttl [OF assms(12)])
  have wf: "alist_wf (rp_seen_at ?rs)" using assms(1) by (simp add: valid_replay_def)
  have k: "?k \<noteq> []" using mem by (rule replay_key_not_Nil)
  have ttl': "rp_ttl ?rs' = rp_ttl t" using commit_all_ok(1) [OF run] assms(10) by simp
  have "seen_any ?rs' later [?k]"
    using commit_then_seen_ex [OF wf run k assms(14)] mem assms(10,15) by simp
  then obtain at where at: "map_of (rp_seen_at ?rs') ?k = Some at" "replay_cutoff later (rp_ttl t) \<le> at"
    by (auto simp: seen_any_def ttl' split: option.splits)
  have "replay_cutoff restart (rp_ttl t) \<le> replay_cutoff later (rp_ttl t)"
    using assms(13) by (rule replay_cutoff_mono)
  with at have "map_of (rp_seen_at (b_replay_store (dv_bot u))) ?k = Some at"
    by (simp add: seen map_of_prune [OF commit_all_wf [OF run wf]])
  with at k show "seen_any (b_replay_store (dv_bot u)) later [?k]"
    by (simp add: seen_any_def ttl)
qed

subsection \<open>A sample delivery\<close>

text \<open>A handler that counts its calls, and one that asks for a retry.\<close>

definition counting_handler :: "nat delivery handler" where
  "counting_handler msg s = (Inr ack_message, s\<lparr>dv_user := Suc (dv_user s)\<rparr>)"

definition failing_handler :: "nat delivery handler" where
  "failing_handler msg s = (Inr (retry_message None), s\<lparr>dv_user := Suc (dv_user s)\<rparr>)"

definition sample_delivery :: "nat delivery" where
  "sample_delivery = \<lparr>dv_bot = sample_bot, dv_world = quiet_world, dv_user = 0\<rparr>"

lemma sample_spares: "spares_replay E [] counting_handler" "spares_replay E [] failing_handler"
  by (auto simp: spares_replay_def counting_handler_def failing_handler_def replay_view_def)

abbreviation "sample_process handler s \<equiv>
  process_wire_message sample_hash_env 5000000 6000000 [] handler 0 sample_file_message s"

lemma sample_process:
  "fst (sample_process counting_handler sample_delivery) = None"
  "dv_user (snd (sample_process counting_handler sample_delivery)) = 1"
  "validate_delivery_session 0 (dv_bot (snd (sample_process counting_handler sample_delivery))) = None"
  "fst (sample_process failing_handler sample_delivery) \<noteq> None"
  "dv_user (snd (sample_process failing_handler sample_delivery)) = 1"
  by code_simp+

lemma sample_replay:
  "rp_seen_at (b_replay_store (dv_bot sample_delivery)) = []"
  "rp_ttl (b_replay_store (dv_bot sample_delivery)) = default_replay_ttl"
  "rp_path (b_replay_store (dv_bot sample_delivery)) = ''/r''"
  "replay_keys sample_file_message = [''peer:1:u:message:7'', ''peer:1:u:client:c'']"
  "separate_files sample_hash_env (dv_bot sample_delivery)"
  by code_simp+

theorem delivered_not_repeated_witness:
  "\<exists>s'. sample_process counting_handler sample_delivery = (None, s') \<and> dv_user s' = 1 \<and>
    process_wire_message sample_hash_env 7000000 8000000 [] counting_handler 0 sample_file_message s' = (None, s')"
proof -
  obtain s' where run: "sample_process counting_handler sample_delivery = (None, s')"
    using sample_process(1) by (metis prod.collapse)
  note sample = sample_replay(1,2,4)
  from delivered_not_repeated [OF _ sample_spares(1) run, of 7000000 "[]" sample_file_message 8000000 "[]" counting_handler 0]
  have "process_wire_message sample_hash_env 7000000 8000000 [] counting_handler 0 sample_file_message s' =
      (validate_delivery_session 0 (dv_bot s'), s')"
    by (simp add: sample seen_any_def replay_cutoff_def unix_milli_def default_replay_ttl_def)
  with run sample_process(2,3) show ?thesis by simp
qed

theorem failed_delivery_retried_witness:
  "\<exists>e s'. sample_process failing_handler sample_delivery = (Some e, s') \<and> dv_user s' = 1 \<and>
    \<not> seen_any (b_replay_store (dv_bot s')) 9000000 [hd (replay_keys sample_file_message)]"
proof -
  obtain e s' where run: "sample_process failing_handler sample_delivery = (Some e, s')"
    using sample_process(4) by (metis not_None_eq prod.collapse)
  have "validate_delivery_session 0 (dv_bot sample_delivery) = None" by code_simp
  with failed_delivery_retried [OF _ sample_spares(2) sample_replay(5) run, of 9000000] run sample_process(5)
  show ?thesis by (simp add: sample_replay(1,4))
qed

theorem delivery_survives_restart_witness:
  "\<exists>s' rs w'. sample_process counting_handler sample_delivery = (None, s') \<and>
    replay_load sample_hash_env 7000000 (b_replay_store sample_bot) (dv_world s') = (None, rs, w') \<and>
    process_wire_message sample_hash_env 8000000 8000000 [] counting_handler 0 sample_file_message
      (sample_delivery\<lparr>dv_bot := sample_bot\<lparr>b_replay_store := rs\<rparr>\<rparr>) =
      (None, sample_delivery\<lparr>dv_bot := sample_bot\<lparr>b_replay_store := rs\<rparr>\<rparr>)"
proof -
  let ?s = sample_delivery and ?t = "b_replay_store sample_bot"
  obtain s' where run: "sample_process counting_handler ?s = (None, s')"
    using sample_process(1) by (metis prod.collapse)
  have "fst (replay_load sample_hash_env 7000000 ?t (dv_world (snd (sample_process counting_handler ?s)))) = None"
    by code_simp
  then obtain rs w' where load: "replay_load sample_hash_env 7000000 ?t (dv_world s') = (None, rs, w')"
    using run by (metis fst_conv prod_cases3 snd_conv)
  let ?u = "?s\<lparr>dv_bot := sample_bot\<lparr>b_replay_store := rs\<rparr>\<rparr>"
  have t: "?t = b_replay_store (dv_bot ?s)" by (simp add: sample_delivery_def)
  have "rp_path (b_replay_store (dv_bot (snd (sample_process counting_handler ?s)))) = ''/r''"
    by code_simp
  then have path: "rp_path (b_replay_store (dv_bot s')) = ''/r''" using run by simp
  have start: "read_replay (snd (replay_view sample_hash_env ?s)) = Some (rp_seen_at (b_replay_store (dv_bot ?s)))"
    by code_simp
  have "process_wire_message sample_hash_env 8000000 8000000 [] counting_handler 0 sample_file_message ?u =
      (validate_delivery_session 0 (dv_bot ?u), ?u)"
  proof (rule delivery_survives_restart [OF _ start sample_spares(1) sample_replay(5) run])
    show "replay_load sample_hash_env 7000000 ?t (dv_world s') = (None, b_replay_store (dv_bot ?u), w')"
      using load by simp
    show "file_at (dv_world s') (resolve sample_hash_env (rp_path ?t)) = snd (replay_view sample_hash_env s')"
      using path by (simp add: replay_view_def t sample_replay)
  qed (simp_all add: t sample_replay valid_replay_def seen_any_def in_int64_def unix_milli_def replay_cutoff_def
      default_replay_ttl_def valid_utf8_ascii is_ascii_def)
  moreover have "b_initialized sample_bot = False" by code_simp
  ultimately have "process_wire_message sample_hash_env 8000000 8000000 [] counting_handler 0 sample_file_message ?u =
      (None, ?u)"
    by (simp add: validate_delivery_session_def)
  with run load show ?thesis by blast
qed

end
