(* ===== verification/Dispatcher.thy ===== *)
theory Dispatcher
  imports Delivery
begin

section \<open>The keyed dispatcher: state and steps\<close>

text \<open>
  Models \<open>dispatcher.go\<close> and the loop \<open>processUpdateBatches\<close> of \<open>run.go\<close> as a transition
  system.  A goroutine of \<open>runMessage\<close> is a task with a program counter, its phase; the
  goroutine that submits batches has one too.  A step is one critical section or one channel
  operation, so every interleaving of the goroutines is a run.  A channel used as a semaphore
  is the number of its elements; a channel \<open>done\<close> that is only ever closed is the index of its
  task, closed from phase \<open>Unlinking\<close> on.  Batch ids are natural numbers.  What
  \<open>processWireMessage\<close> does to the rest of the program is left open: it returns any result, and
  other goroutines change the bot and the files at any moment, save for the cursor store, which
  only the dispatcher writes.
\<close>

subsection \<open>State\<close>

record update_batch =
  ub_messages :: "(goerr + wire_message) list"
  ub_cursor :: string
  ub_generation :: "64 word"

record batch_state =
  bs_remaining :: nat
  bs_cursor :: string
  bs_failed :: bool

datatype phase = Waiting | Checking | Acquiring | Acquired | Running | Ran "goerr option"
  | Completing "goerr option" bool | Closing | Unlinking | Releasing | Finished

text \<open>\<open>tk_result\<close> only records what the processing of the message returned, once it has.\<close>

record task =
  tk_batch :: nat
  tk_generation :: "64 word"
  tk_wire :: wire_message
  tk_previous :: "nat option"
  tk_phase :: phase
  tk_result :: "goerr option option"

abbreviation tk_key :: "task \<Rightarrow> string" where
  "tk_key t \<equiv> conversation_key (tk_wire t)"

datatype submitter = Idle | WantSlot update_batch | HaveSlot update_batch
  | Sending nat "64 word" "(goerr + wire_message) list"
  | WantPending nat "64 word" wire_message "(goerr + wire_message) list"
  | Spawning nat "64 word" wire_message "(goerr + wire_message) list"
  | Unscheduling nat nat | Stopped | Draining | Returned "goerr option"

text \<open>\<open>d_submitted\<close> only records the batches registered so far.\<close>

record dispatcher =
  d_cap :: nat
  d_cancelled :: bool
  d_active :: nat
  d_pending :: nat
  d_slots :: nat
  d_tails :: "string \<rightharpoonup> nat"
  d_batches :: "(nat \<times> batch_state) list"
  d_next_batch :: nat
  d_next_commit :: nat
  d_first_error :: "goerr option"
  d_failure_closed :: bool
  d_tasks :: "task list"
  d_submit :: submitter
  d_bot :: bot
  d_world :: world
  d_submitted :: "update_batch list"

definition default_max_concurrent_handlers :: nat where "default_max_concurrent_handlers = 4"
definition maximum_concurrent_handlers :: nat where "maximum_concurrent_handlers = 256"
definition update_queue_capacity :: nat where "update_queue_capacity = 16"

definition handler_cap :: "int \<Rightarrow> nat" where
  "handler_cap maxConcurrent =
     (let m = (if maxConcurrent \<le> 0 then int default_max_concurrent_handlers else maxConcurrent)
      in nat (if m > int maximum_concurrent_handlers then int maximum_concurrent_handlers else m))"

lemma handler_cap_bounds: "1 \<le> handler_cap n \<and> handler_cap n \<le> 256"
  by (auto simp: handler_cap_def default_max_concurrent_handlers_def maximum_concurrent_handlers_def Let_def)

definition new_keyed_dispatcher :: "bool \<Rightarrow> int \<Rightarrow> bot \<Rightarrow> world \<Rightarrow> dispatcher" where
  "new_keyed_dispatcher parentCancelled maxConcurrent b w =
     \<lparr>d_cap = handler_cap maxConcurrent, d_cancelled = parentCancelled, d_active = 0, d_pending = 0,
      d_slots = 0, d_tails = Map.empty, d_batches = [], d_next_batch = 0, d_next_commit = 0,
      d_first_error = None, d_failure_closed = False, d_tasks = [], d_submit = Idle, d_bot = b, d_world = w,
      d_submitted = []\<rparr>"

definition context_canceled :: goerr where "context_canceled = Msg ''context canceled''"

subsection \<open>Critical sections\<close>

definition record_failure_locked :: "goerr \<Rightarrow> dispatcher \<Rightarrow> dispatcher" where
  "record_failure_locked e d =
     (if d_first_error d \<noteq> None then d
      else d\<lparr>d_first_error := Some e, d_failure_closed := True, d_cancelled := True\<rparr>)"

lemma length_delete_less: "map_of xs k = Some v \<Longrightarrow> length (AList.delete k xs) < length xs"
  by (induction xs) (auto simp: AList.delete_eq less_Suc_eq_le split: if_splits)

text \<open>\<open>advanceCursorLocked\<close>; every turn of its loop removes a batch.\<close>

function advance_cursor_locked :: "os_env \<Rightarrow> dispatcher \<Rightarrow> dispatcher" where
  "advance_cursor_locked E d =
     (case map_of (d_batches d) (d_next_commit d) of
        None \<Rightarrow> d
      | Some st \<Rightarrow>
         (if bs_remaining st \<noteq> 0 \<or> bs_failed st then d
          else (case commit_cursor E (bs_cursor st) (d_bot d) (d_world d) of
              (Some e, b, w) \<Rightarrow>
                record_failure_locked e (d\<lparr>d_bot := b, d_world := w,
                  d_batches := AList.update (d_next_commit d) (st\<lparr>bs_failed := True\<rparr>) (d_batches d)\<rparr>)
            | (None, b, w) \<Rightarrow>
                advance_cursor_locked E (d\<lparr>d_bot := b, d_world := w,
                  d_batches := AList.delete (d_next_commit d) (d_batches d),
                  d_next_commit := Suc (d_next_commit d), d_slots := d_slots d - 1\<rparr>))))"
  by pat_completeness auto
termination
  by (relation "measure (\<lambda>(E, d). length (d_batches d))") (auto intro: length_delete_less)

declare advance_cursor_locked.simps [simp del]

definition complete :: "os_env \<Rightarrow> nat \<Rightarrow> goerr option \<Rightarrow> bool \<Rightarrow> dispatcher \<Rightarrow> dispatcher" where
  "complete E batchID err executed d =
     (case map_of (d_batches d) batchID of
        None \<Rightarrow> d
      | Some st \<Rightarrow>
         (if bs_remaining st = 0 then d
          else (let st = st\<lparr>bs_remaining := bs_remaining st - 1, bs_failed := bs_failed st \<or> err \<noteq> None\<rparr>;
                    d = d\<lparr>d_batches := AList.update batchID st (d_batches d)\<rparr>;
                    d = (case err of Some e \<Rightarrow> if executed then record_failure_locked e d else d | None \<Rightarrow> d)
                in if bs_remaining st = 0 \<and> \<not> bs_failed st then advance_cursor_locked E d else d)))"

definition cancel_unscheduled :: "nat \<Rightarrow> nat \<Rightarrow> dispatcher \<Rightarrow> dispatcher" where
  "cancel_unscheduled batchID count d =
     (if count = 0 then d
      else (case map_of (d_batches d) batchID of
        None \<Rightarrow> d
      | Some st \<Rightarrow>
         (let count = (if count > bs_remaining st then bs_remaining st else count)
          in d\<lparr>d_batches := AList.update batchID
               (st\<lparr>bs_failed := True, bs_remaining := bs_remaining st - count\<rparr>) (d_batches d)\<rparr>)))"

definition register_batch :: "os_env \<Rightarrow> update_batch \<Rightarrow> dispatcher \<Rightarrow> dispatcher" where
  "register_batch E batch d =
     (let batchID = d_next_batch d;
          d = d\<lparr>d_next_batch := Suc batchID, d_submitted := d_submitted d @ [batch],
                d_batches := AList.update batchID
                  \<lparr>bs_remaining = length (ub_messages batch), bs_cursor = ub_cursor batch, bs_failed = False\<rparr>
                  (d_batches d),
                d_submit := Sending batchID (ub_generation batch) (ub_messages batch)\<rparr>
      in if ub_messages batch = [] then advance_cursor_locked E d else d)"

definition spawn_task :: "nat \<Rightarrow> 64 word \<Rightarrow> wire_message \<Rightarrow> dispatcher \<Rightarrow> dispatcher" where
  "spawn_task batchID generation wire d =
     (let key = conversation_key wire
      in d\<lparr>d_tails := (d_tails d)(key \<mapsto> length (d_tasks d)),
           d_tasks := d_tasks d @ [\<lparr>tk_batch = batchID, tk_generation = generation, tk_wire = wire,
             tk_previous = d_tails d key, tk_phase = Waiting, tk_result = None\<rparr>]\<rparr>)"

subsection \<open>Steps\<close>

abbreviation task_at :: "dispatcher \<Rightarrow> nat \<Rightarrow> phase \<Rightarrow> bool" where
  "task_at d i p \<equiv> i < length (d_tasks d) \<and> tk_phase (d_tasks d ! i) = p"

definition set_phase :: "nat \<Rightarrow> phase \<Rightarrow> dispatcher \<Rightarrow> dispatcher" where
  "set_phase i p d = d\<lparr>d_tasks := (d_tasks d)[i := (d_tasks d ! i)\<lparr>tk_phase := p\<rparr>]\<rparr>"

definition set_ran :: "nat \<Rightarrow> goerr option \<Rightarrow> dispatcher \<Rightarrow> dispatcher" where
  "set_ran i r d = d\<lparr>d_tasks := (d_tasks d)[i := (d_tasks d ! i)\<lparr>tk_phase := Ran r, tk_result := Some r\<rparr>]\<rparr>"

fun closed_phase :: "phase \<Rightarrow> bool" where
  "closed_phase Unlinking = True"
| "closed_phase Releasing = True"
| "closed_phase Finished = True"
| "closed_phase _ = False"

definition done_closed :: "dispatcher \<Rightarrow> nat \<Rightarrow> bool" where
  "done_closed d i \<longleftrightarrow> closed_phase (tk_phase (d_tasks d ! i))"

definition unlink_tail :: "nat \<Rightarrow> dispatcher \<Rightarrow> dispatcher" where
  "unlink_tail i d =
     (let key = tk_key (d_tasks d ! i)
      in if d_tails d key = Some i then d\<lparr>d_tails := (d_tails d)(key := None)\<rparr> else d)"

text \<open>The steps of \<open>runMessage\<close>, for the goroutine of task \<open>i\<close>.\<close>

inductive task_step :: "os_env \<Rightarrow> nat \<Rightarrow> dispatcher \<Rightarrow> dispatcher \<Rightarrow> bool" for E i where
  previous_done: "task_at d i Waiting \<Longrightarrow>
    (case tk_previous (d_tasks d ! i) of None \<Rightarrow> True | Some p \<Rightarrow> done_closed d p) \<Longrightarrow>
    task_step E i d (set_phase i Checking d)"
| wait_cancelled: "task_at d i Waiting \<Longrightarrow> tk_previous (d_tasks d ! i) \<noteq> None \<Longrightarrow> d_cancelled d \<Longrightarrow>
    task_step E i d (set_phase i (Completing (Some context_canceled) False) d)"
| check_cancelled: "task_at d i Checking \<Longrightarrow> d_cancelled d \<Longrightarrow>
    task_step E i d (set_phase i (Completing (Some context_canceled) False) d)"
| check_ok: "task_at d i Checking \<Longrightarrow> \<not> d_cancelled d \<Longrightarrow>
    task_step E i d (set_phase i Acquiring d)"
| acquire: "task_at d i Acquiring \<Longrightarrow> d_active d < d_cap d \<Longrightarrow>
    task_step E i d (set_phase i Acquired (d\<lparr>d_active := Suc (d_active d)\<rparr>))"
| acquire_cancelled: "task_at d i Acquiring \<Longrightarrow> d_cancelled d \<Longrightarrow>
    task_step E i d (set_phase i (Completing (Some context_canceled) False) d)"
| acquired_cancelled: "task_at d i Acquired \<Longrightarrow> d_cancelled d \<Longrightarrow>
    task_step E i d (set_phase i (Completing (Some context_canceled) False) (d\<lparr>d_active := d_active d - 1\<rparr>))"
| start: "task_at d i Acquired \<Longrightarrow> \<not> d_cancelled d \<Longrightarrow>
    task_step E i d (set_phase i Running d)"
| returns: "task_at d i Running \<Longrightarrow>
    task_step E i d (set_ran i r d)"
| release: "task_at d i (Ran r) \<Longrightarrow>
    task_step E i d (set_phase i (Completing r True) (d\<lparr>d_active := d_active d - 1\<rparr>))"
| completes: "task_at d i (Completing r executed) \<Longrightarrow>
    task_step E i d (set_phase i Closing (complete E (tk_batch (d_tasks d ! i)) r executed d))"
| close_done: "task_at d i Closing \<Longrightarrow>
    task_step E i d (set_phase i Unlinking d)"
| unlink: "task_at d i Unlinking \<Longrightarrow>
    task_step E i d (set_phase i Releasing (unlink_tail i d))"
| release_pending: "task_at d i Releasing \<Longrightarrow>
    task_step E i d (set_phase i Finished (d\<lparr>d_pending := d_pending d - 1\<rparr>))"

text \<open>The steps of \<open>submit\<close>, \<open>submitMessage\<close> and \<open>processUpdateBatches\<close>.\<close>

inductive submit_step :: "os_env \<Rightarrow> dispatcher \<Rightarrow> dispatcher \<Rightarrow> bool" for E where
  begin_submit: "d_submit d = Idle \<Longrightarrow> \<not> d_cancelled d \<Longrightarrow> valid_utf8 (ub_cursor batch) \<Longrightarrow>
    submit_step E d (d\<lparr>d_submit := WantSlot batch\<rparr>)"
| stop_idle: "d_submit d = Idle \<Longrightarrow> d_cancelled d \<or> d_failure_closed d \<Longrightarrow>
    submit_step E d (d\<lparr>d_submit := Stopped\<rparr>)"
| input_closed: "d_submit d = Idle \<Longrightarrow>
    submit_step E d (d\<lparr>d_submit := Draining\<rparr>)"
| take_slot: "d_submit d = WantSlot batch \<Longrightarrow> d_slots d < update_queue_capacity \<Longrightarrow>
    submit_step E d (d\<lparr>d_slots := Suc (d_slots d), d_submit := HaveSlot batch\<rparr>)"
| slot_cancelled: "d_submit d = WantSlot batch \<Longrightarrow> d_cancelled d \<Longrightarrow>
    submit_step E d (d\<lparr>d_submit := Stopped\<rparr>)"
| give_slot_back: "d_submit d = HaveSlot batch \<Longrightarrow> d_cancelled d \<Longrightarrow>
    submit_step E d (d\<lparr>d_slots := d_slots d - 1, d_submit := Stopped\<rparr>)"
| register: "d_submit d = HaveSlot batch \<Longrightarrow> \<not> d_cancelled d \<Longrightarrow>
    submit_step E d (register_batch E batch d)"
| send_cancelled: "d_submit d = Sending bid g (m # ms) \<Longrightarrow> d_cancelled d \<Longrightarrow>
    submit_step E d (d\<lparr>d_submit := Unscheduling bid (Suc (length ms))\<rparr>)"
| undecodable: "d_submit d = Sending bid g (Inl e # ms) \<Longrightarrow> \<not> d_cancelled d \<Longrightarrow>
    submit_step E d ((complete E bid (Some e) True d)\<lparr>d_submit := Unscheduling bid (length ms)\<rparr>)"
| decoded: "d_submit d = Sending bid g (Inr wire # ms) \<Longrightarrow> \<not> d_cancelled d \<Longrightarrow>
    submit_step E d (d\<lparr>d_submit := WantPending bid g wire ms\<rparr>)"
| take_pending: "d_submit d = WantPending bid g wire ms \<Longrightarrow> d_pending d < d_cap d * update_queue_capacity \<Longrightarrow>
    submit_step E d (d\<lparr>d_pending := Suc (d_pending d), d_submit := Spawning bid g wire ms\<rparr>)"
| pending_cancelled: "d_submit d = WantPending bid g wire ms \<Longrightarrow> d_cancelled d \<Longrightarrow>
    submit_step E d (d\<lparr>d_submit := Unscheduling bid (Suc (length ms))\<rparr>)"
| spawn: "d_submit d = Spawning bid g wire ms \<Longrightarrow>
    submit_step E d ((spawn_task bid g wire d)\<lparr>d_submit := Sending bid g ms\<rparr>)"
| unschedule: "d_submit d = Unscheduling bid n \<Longrightarrow>
    submit_step E d ((cancel_unscheduled bid n d)\<lparr>d_submit := Stopped\<rparr>)"
| submitted: "d_submit d = Sending bid g [] \<Longrightarrow>
    submit_step E d (d\<lparr>d_submit := Idle\<rparr>)"
| wait_stopped: "d_submit d = Stopped \<Longrightarrow>
    submit_step E d (d\<lparr>d_cancelled := True, d_submit := Draining\<rparr>)"
| drained: "d_submit d = Draining \<Longrightarrow> \<forall>t\<in>set (d_tasks d). tk_phase t = Finished \<Longrightarrow>
    submit_step E d (d\<lparr>d_submit := Returned (d_first_error d)\<rparr>)"

text \<open>Everything else: the parent context is cancelled, or the rest of the program acts.\<close>

definition cursor_view :: "os_env \<Rightarrow> bot \<Rightarrow> world \<Rightarrow> cursor_store \<times> content option" where
  "cursor_view E b w = (b_cursor_store b, file_at w (resolve E (cu_path (b_cursor_store b))))"

inductive other_step :: "os_env \<Rightarrow> dispatcher \<Rightarrow> dispatcher \<Rightarrow> bool" for E where
  cancelled: "other_step E d (d\<lparr>d_cancelled := True\<rparr>)"
| interference: "cursor_view E b w = cursor_view E (d_bot d) (d_world d) \<Longrightarrow>
    other_step E d (d\<lparr>d_bot := b, d_world := w\<rparr>)"

inductive dispatch_step :: "os_env \<Rightarrow> dispatcher \<Rightarrow> dispatcher \<Rightarrow> bool" for E where
  task: "task_step E i d d' \<Longrightarrow> dispatch_step E d d'"
| submit: "submit_step E d d' \<Longrightarrow> dispatch_step E d d'"
| other: "other_step E d d' \<Longrightarrow> dispatch_step E d d'"

definition dispatch_run :: "os_env \<Rightarrow> dispatcher \<Rightarrow> dispatcher \<Rightarrow> bool" where
  "dispatch_run E = (dispatch_step E)\<^sup>*\<^sup>*"

end
