(* ===== verification/DispatchInv.thy ===== *)
theory DispatchInv
  imports Dispatcher
begin

section \<open>The keyed dispatcher: invariants\<close>

text \<open>
  The invariants of the transition system of theory \<open>Dispatcher\<close>: the books of the batches, the
  semaphores, the outcome of the tasks, the order of a conversation and the cursor.  Each is an
  interpretation of \<open>transition_invariant\<close>.
\<close>

inductive_cases task_stepE: "task_step E i d d'"
inductive_cases submit_stepE: "submit_step E d d'"
inductive_cases other_stepE: "other_step E d d'"

lemma dispatch_step_cases [consumes 1, case_names task submit other]:
  assumes "dispatch_step E d d'"
    and "\<And>i. task_step E i d d' \<Longrightarrow> P" and "submit_step E d d' \<Longrightarrow> P" and "other_step E d d' \<Longrightarrow> P"
  shows P
  using assms by (auto elim: dispatch_step.cases)

subsection \<open>Frames of the critical sections\<close>

text \<open>The turns of the loop of \<open>advanceCursorLocked\<close>: what one turn preserves, the loop does.\<close>

definition advance_commit :: "bot \<Rightarrow> world \<Rightarrow> dispatcher \<Rightarrow> dispatcher" where
  "advance_commit b w d = d\<lparr>d_bot := b, d_world := w,
     d_batches := AList.delete (d_next_commit d) (d_batches d),
     d_next_commit := Suc (d_next_commit d), d_slots := d_slots d - 1\<rparr>"

definition advance_fail :: "goerr \<Rightarrow> batch_state \<Rightarrow> bot \<Rightarrow> world \<Rightarrow> dispatcher \<Rightarrow> dispatcher" where
  "advance_fail e st b w d = record_failure_locked e (d\<lparr>d_bot := b, d_world := w,
     d_batches := AList.update (d_next_commit d) (st\<lparr>bs_failed := True\<rparr>) (d_batches d)\<rparr>)"

lemma advance_unfold:
  "advance_cursor_locked E d =
     (case map_of (d_batches d) (d_next_commit d) of
        None \<Rightarrow> d
      | Some st \<Rightarrow>
         (if bs_remaining st \<noteq> 0 \<or> bs_failed st then d
          else (case commit_cursor E (bs_cursor st) (d_bot d) (d_world d) of
              (Some e, b, w) \<Rightarrow> advance_fail e st b w d
            | (None, b, w) \<Rightarrow> advance_cursor_locked E (advance_commit b w d))))"
  by (subst advance_cursor_locked.simps)
    (auto simp: advance_fail_def advance_commit_def split: option.split prod.split)

lemma advance_preserves:
  assumes "P d"
    and commit: "\<And>d st b w. P d \<Longrightarrow> map_of (d_batches d) (d_next_commit d) = Some st \<Longrightarrow> bs_remaining st = 0 \<Longrightarrow>
      \<not> bs_failed st \<Longrightarrow> commit_cursor E (bs_cursor st) (d_bot d) (d_world d) = (None, b, w) \<Longrightarrow>
      P (advance_commit b w d)"
    and fail: "\<And>d st b w e. P d \<Longrightarrow> map_of (d_batches d) (d_next_commit d) = Some st \<Longrightarrow> bs_remaining st = 0 \<Longrightarrow>
      \<not> bs_failed st \<Longrightarrow> commit_cursor E (bs_cursor st) (d_bot d) (d_world d) = (Some e, b, w) \<Longrightarrow>
      P (advance_fail e st b w d)"
  shows "P (advance_cursor_locked E d)"
  using assms(1)
proof (induction "length (d_batches d)" arbitrary: d rule: less_induct)
  case less
  show ?case
  proof (cases "map_of (d_batches d) (d_next_commit d)")
    case None
    then show ?thesis using less.prems by (subst advance_unfold) simp
  next
    case (Some st)
    obtain r b w where c: "commit_cursor E (bs_cursor st) (d_bot d) (d_world d) = (r, b, w)" by (metis prod_cases3)
    have "P (advance_cursor_locked E (advance_commit b w d))" if "bs_remaining st = 0" "\<not> bs_failed st" "r = None"
      using less.prems less.hyps commit [OF less.prems Some that(1,2)] c that(3) length_delete_less [OF Some]
      by (simp add: advance_commit_def)
    then show ?thesis
      using less.prems Some c fail [OF less.prems Some]
      by (subst advance_unfold) (auto split: option.split)
  qed
qed

lemma record_failure_frame [simp]:
  "d_tasks (record_failure_locked e d) = d_tasks d" "d_submit (record_failure_locked e d) = d_submit d"
  "d_cap (record_failure_locked e d) = d_cap d" "d_active (record_failure_locked e d) = d_active d"
  "d_pending (record_failure_locked e d) = d_pending d" "d_tails (record_failure_locked e d) = d_tails d"
  "d_batches (record_failure_locked e d) = d_batches d" "d_slots (record_failure_locked e d) = d_slots d"
  "d_next_batch (record_failure_locked e d) = d_next_batch d"
  "d_next_commit (record_failure_locked e d) = d_next_commit d"
  "d_submitted (record_failure_locked e d) = d_submitted d" "d_bot (record_failure_locked e d) = d_bot d"
  "d_world (record_failure_locked e d) = d_world d"
  by (simp_all add: record_failure_locked_def)

text \<open>No critical section of the books reads or writes the tasks, the submitter's counter or the
  semaphores of the handlers.\<close>

lemma record_failure_commute:
  "record_failure_locked e (d\<lparr>d_tasks := ts\<rparr>) = (record_failure_locked e d)\<lparr>d_tasks := ts\<rparr>"
  "record_failure_locked e (d\<lparr>d_submit := s\<rparr>) = (record_failure_locked e d)\<lparr>d_submit := s\<rparr>"
  by (simp_all add: record_failure_locked_def)

lemma advance_step_commute:
  "advance_commit b w (d\<lparr>d_tasks := ts\<rparr>) = (advance_commit b w d)\<lparr>d_tasks := ts\<rparr>"
  "advance_commit b w (d\<lparr>d_submit := s\<rparr>) = (advance_commit b w d)\<lparr>d_submit := s\<rparr>"
  "advance_fail e st b w (d\<lparr>d_tasks := ts\<rparr>) = (advance_fail e st b w d)\<lparr>d_tasks := ts\<rparr>"
  "advance_fail e st b w (d\<lparr>d_submit := s\<rparr>) = (advance_fail e st b w d)\<lparr>d_submit := s\<rparr>"
  by (simp_all add: advance_commit_def advance_fail_def record_failure_locked_def)

lemma advance_commute:
  "advance_cursor_locked E (d\<lparr>d_tasks := ts\<rparr>) = (advance_cursor_locked E d)\<lparr>d_tasks := ts\<rparr>"
  "advance_cursor_locked E (d\<lparr>d_submit := s\<rparr>) = (advance_cursor_locked E d)\<lparr>d_submit := s\<rparr>"
proof (induction "length (d_batches d)" arbitrary: d rule: less_induct)
  case less
  have dec: "length (d_batches (advance_commit b w d)) < length (d_batches d)"
    if "map_of (d_batches d) (d_next_commit d) = Some st" for st b w
    using length_delete_less [OF that] by (simp add: advance_commit_def)
  {
    case 1
    show ?case
      by (subst (1 2) advance_unfold)
        (use less(1) [OF dec] in \<open>auto simp: advance_step_commute split: option.split prod.split\<close>)
  next
    case 2
    show ?case
      by (subst (1 2) advance_unfold)
        (use less(2) [OF dec] in \<open>auto simp: advance_step_commute split: option.split prod.split\<close>)
  }
qed

lemma complete_commute:
  "complete E bid r x (d\<lparr>d_tasks := ts\<rparr>) = (complete E bid r x d)\<lparr>d_tasks := ts\<rparr>"
  "complete E bid r x (d\<lparr>d_submit := s\<rparr>) = (complete E bid r x d)\<lparr>d_submit := s\<rparr>"
proof -
  have upd: "e\<lparr>d_tasks := ts, d_batches := bs\<rparr> = e\<lparr>d_batches := bs\<rparr>\<lparr>d_tasks := ts\<rparr>"
    "e\<lparr>d_submit := s, d_batches := bs\<rparr> = e\<lparr>d_batches := bs\<rparr>\<lparr>d_submit := s\<rparr>" for e :: dispatcher and bs
    by simp_all
  show "complete E bid r x (d\<lparr>d_tasks := ts\<rparr>) = (complete E bid r x d)\<lparr>d_tasks := ts\<rparr>"
    by (simp add: complete_def Let_def upd record_failure_commute advance_commute split: option.split)
  show "complete E bid r x (d\<lparr>d_submit := s\<rparr>) = (complete E bid r x d)\<lparr>d_submit := s\<rparr>"
    by (simp add: complete_def Let_def upd record_failure_commute advance_commute split: option.split)
qed

lemma advance_frame [simp]:
  "d_tasks (advance_cursor_locked E d) = d_tasks d" "d_submit (advance_cursor_locked E d) = d_submit d"
  "d_cap (advance_cursor_locked E d) = d_cap d" "d_active (advance_cursor_locked E d) = d_active d"
  "d_pending (advance_cursor_locked E d) = d_pending d" "d_tails (advance_cursor_locked E d) = d_tails d"
  "d_next_batch (advance_cursor_locked E d) = d_next_batch d"
  "d_submitted (advance_cursor_locked E d) = d_submitted d"
  by (rule advance_preserves; simp add: advance_commit_def advance_fail_def)+

text \<open>\<open>complete\<close> before the cursor: the books and the failure.\<close>

definition complete_mark :: "nat \<Rightarrow> batch_state \<Rightarrow> goerr option \<Rightarrow> bool \<Rightarrow> dispatcher \<Rightarrow> dispatcher" where
  "complete_mark bid st err executed d =
     (let d = d\<lparr>d_batches := AList.update bid
            (st\<lparr>bs_remaining := bs_remaining st - 1, bs_failed := bs_failed st \<or> err \<noteq> None\<rparr>) (d_batches d)\<rparr>
      in case err of Some e \<Rightarrow> if executed then record_failure_locked e d else d | None \<Rightarrow> d)"

lemma complete_mark_frame [simp]:
  "d_tasks (complete_mark bid st r x d) = d_tasks d" "d_submit (complete_mark bid st r x d) = d_submit d"
  "d_cap (complete_mark bid st r x d) = d_cap d" "d_active (complete_mark bid st r x d) = d_active d"
  "d_pending (complete_mark bid st r x d) = d_pending d" "d_tails (complete_mark bid st r x d) = d_tails d"
  "d_next_batch (complete_mark bid st r x d) = d_next_batch d"
  "d_next_commit (complete_mark bid st r x d) = d_next_commit d"
  "d_submitted (complete_mark bid st r x d) = d_submitted d" "d_slots (complete_mark bid st r x d) = d_slots d"
  "d_bot (complete_mark bid st r x d) = d_bot d" "d_world (complete_mark bid st r x d) = d_world d"
  "d_batches (complete_mark bid st r x d) = AList.update bid
     (st\<lparr>bs_remaining := bs_remaining st - 1, bs_failed := bs_failed st \<or> r \<noteq> None\<rparr>) (d_batches d)"
  by (simp_all add: complete_mark_def Let_def split: option.split)

lemma complete_some:
  assumes "map_of (d_batches d) bid = Some st" and "bs_remaining st \<noteq> 0"
  shows "complete E bid r x d = complete_mark bid st r x d \<or>
    complete E bid r x d = advance_cursor_locked E (complete_mark bid st r x d)"
  using assms by (auto simp: complete_def complete_mark_def Let_def split: option.split)

lemma complete_frame [simp]:
  "d_tasks (complete E bid r x d) = d_tasks d" "d_submit (complete E bid r x d) = d_submit d"
  "d_cap (complete E bid r x d) = d_cap d" "d_active (complete E bid r x d) = d_active d"
  "d_pending (complete E bid r x d) = d_pending d" "d_tails (complete E bid r x d) = d_tails d"
  "d_next_batch (complete E bid r x d) = d_next_batch d"
  "d_submitted (complete E bid r x d) = d_submitted d"
  by (auto simp: complete_def Let_def split: option.split)

lemma cancel_unscheduled_frame [simp]:
  "d_tasks (cancel_unscheduled bid n d) = d_tasks d" "d_submit (cancel_unscheduled bid n d) = d_submit d"
  "d_cap (cancel_unscheduled bid n d) = d_cap d" "d_active (cancel_unscheduled bid n d) = d_active d"
  "d_pending (cancel_unscheduled bid n d) = d_pending d" "d_tails (cancel_unscheduled bid n d) = d_tails d"
  "d_next_batch (cancel_unscheduled bid n d) = d_next_batch d"
  "d_next_commit (cancel_unscheduled bid n d) = d_next_commit d"
  "d_submitted (cancel_unscheduled bid n d) = d_submitted d" "d_slots (cancel_unscheduled bid n d) = d_slots d"
  "d_bot (cancel_unscheduled bid n d) = d_bot d" "d_world (cancel_unscheduled bid n d) = d_world d"
  "d_cancelled (cancel_unscheduled bid n d) = d_cancelled d"
  "d_first_error (cancel_unscheduled bid n d) = d_first_error d"
  "d_failure_closed (cancel_unscheduled bid n d) = d_failure_closed d"
  by (simp_all add: cancel_unscheduled_def Let_def split: option.split)

lemma set_phase_frame [simp]:
  "d_tasks (set_phase i p d) = (d_tasks d)[i := (d_tasks d ! i)\<lparr>tk_phase := p\<rparr>]"
  "d_submit (set_phase i p d) = d_submit d" "d_cap (set_phase i p d) = d_cap d"
  "d_active (set_phase i p d) = d_active d" "d_pending (set_phase i p d) = d_pending d"
  "d_tails (set_phase i p d) = d_tails d" "d_next_batch (set_phase i p d) = d_next_batch d"
  "d_next_commit (set_phase i p d) = d_next_commit d" "d_submitted (set_phase i p d) = d_submitted d"
  "d_slots (set_phase i p d) = d_slots d" "d_bot (set_phase i p d) = d_bot d"
  "d_world (set_phase i p d) = d_world d" "d_cancelled (set_phase i p d) = d_cancelled d"
  "d_first_error (set_phase i p d) = d_first_error d" "d_failure_closed (set_phase i p d) = d_failure_closed d"
  "d_batches (set_phase i p d) = d_batches d"
  by (simp_all add: set_phase_def)

lemma set_ran_frame [simp]:
  "d_tasks (set_ran i r d) = (d_tasks d)[i := (d_tasks d ! i)\<lparr>tk_phase := Ran r, tk_result := Some r\<rparr>]"
  "d_submit (set_ran i r d) = d_submit d" "d_cap (set_ran i r d) = d_cap d"
  "d_active (set_ran i r d) = d_active d" "d_pending (set_ran i r d) = d_pending d"
  "d_tails (set_ran i r d) = d_tails d" "d_next_batch (set_ran i r d) = d_next_batch d"
  "d_next_commit (set_ran i r d) = d_next_commit d" "d_submitted (set_ran i r d) = d_submitted d"
  "d_slots (set_ran i r d) = d_slots d" "d_bot (set_ran i r d) = d_bot d"
  "d_world (set_ran i r d) = d_world d" "d_cancelled (set_ran i r d) = d_cancelled d"
  "d_first_error (set_ran i r d) = d_first_error d" "d_failure_closed (set_ran i r d) = d_failure_closed d"
  "d_batches (set_ran i r d) = d_batches d"
  by (simp_all add: set_ran_def)

lemma unlink_frame [simp]:
  "d_tasks (unlink_tail i d) = d_tasks d" "d_submit (unlink_tail i d) = d_submit d"
  "d_cap (unlink_tail i d) = d_cap d" "d_active (unlink_tail i d) = d_active d"
  "d_pending (unlink_tail i d) = d_pending d" "d_next_batch (unlink_tail i d) = d_next_batch d"
  "d_next_commit (unlink_tail i d) = d_next_commit d" "d_submitted (unlink_tail i d) = d_submitted d"
  "d_slots (unlink_tail i d) = d_slots d" "d_bot (unlink_tail i d) = d_bot d"
  "d_world (unlink_tail i d) = d_world d" "d_cancelled (unlink_tail i d) = d_cancelled d"
  "d_first_error (unlink_tail i d) = d_first_error d" "d_failure_closed (unlink_tail i d) = d_failure_closed d"
  "d_batches (unlink_tail i d) = d_batches d"
  "d_tails (unlink_tail i d) = (if d_tails d (tk_key (d_tasks d ! i)) = Some i
     then (d_tails d)(tk_key (d_tasks d ! i) := None) else d_tails d)"
  by (simp_all add: unlink_tail_def Let_def)

subsection \<open>Phases and results\<close>

text \<open>What a phase says of the result recorded so far.\<close>

fun result_fits :: "phase \<Rightarrow> goerr option option \<Rightarrow> bool" where
  "result_fits (Ran r) res = (res = Some r)"
| "result_fits (Completing r True) res = (res = Some r)"
| "result_fits (Completing r False) res = (res = None \<and> r \<noteq> None)"
| "result_fits Closing res = True"
| "result_fits Unlinking res = True"
| "result_fits Releasing res = True"
| "result_fits Finished res = True"
| "result_fits _ res = (res = None)"

definition results_fit :: "dispatcher \<Rightarrow> bool" where
  "results_fit d \<longleftrightarrow> (\<forall>t\<in>set (d_tasks d). result_fits (tk_phase t) (tk_result t))"

lemma results_fit_nth: "results_fit d \<Longrightarrow> task_at d i p \<Longrightarrow> result_fits p (tk_result (d_tasks d ! i))"
  by (auto simp: results_fit_def)

lemma results_fit_set_phase:
  "results_fit d \<Longrightarrow> d_tasks d' = d_tasks d \<Longrightarrow> result_fits p (tk_result (d_tasks d ! i)) \<Longrightarrow> results_fit (set_phase i p d')"
  unfolding results_fit_def set_phase_frame by (rule ball_set_update) simp_all

lemma results_fit_set_ran: "results_fit d \<Longrightarrow> results_fit (set_ran i r d)"
  unfolding results_fit_def set_ran_frame by (rule ball_set_update) simp_all

lemma results_fit_step: "dispatch_step E d d' \<Longrightarrow> results_fit d \<Longrightarrow> results_fit d'"
proof (induction rule: dispatch_step_cases)
  case (task i)
  note fit = results_fit_nth [OF task(2)]
  from task(1) show ?case
    by (cases rule: task_step.cases)
      (auto intro!: results_fit_set_phase [OF task(2)] results_fit_set_ran [OF task(2)] dest!: fit)
next
  case submit
  then show ?case
    by (cases rule: submit_step.cases) (auto simp: results_fit_def register_batch_def spawn_task_def Let_def)
next
  case other
  then show ?case by (cases rule: other_step.cases) (auto simp: results_fit_def)
qed

subsection \<open>The books of the batches\<close>

text \<open>A task is in progress until it has been accounted for by \<open>complete\<close>; a message is unsent
  while the submitter still has it.\<close>

fun in_progress :: "phase \<Rightarrow> bool" where
  "in_progress Closing = False"
| "in_progress Unlinking = False"
| "in_progress Releasing = False"
| "in_progress Finished = False"
| "in_progress _ = True"

fun unsent :: "submitter \<Rightarrow> nat \<Rightarrow> nat" where
  "unsent (Sending b g ms) bid = (if bid = b then length ms else 0)"
| "unsent (WantPending b g wire ms) bid = (if bid = b then Suc (length ms) else 0)"
| "unsent (Spawning b g wire ms) bid = (if bid = b then Suc (length ms) else 0)"
| "unsent (Unscheduling b n) bid = (if bid = b then n else 0)"
| "unsent _ bid = 0"

definition progress_in :: "task list \<Rightarrow> nat \<Rightarrow> nat" where
  "progress_in ts bid = length (filter (\<lambda>t. tk_batch t = bid \<and> in_progress (tk_phase t)) ts)"

definition spawned_in :: "task list \<Rightarrow> nat \<Rightarrow> nat" where
  "spawned_in ts bid = length (filter (\<lambda>t. tk_batch t = bid) ts)"

definition all_succeeded :: "task list \<Rightarrow> nat \<Rightarrow> bool" where
  "all_succeeded ts bid \<longleftrightarrow>
     (\<forall>t\<in>set ts. tk_batch t = bid \<longrightarrow> \<not> in_progress (tk_phase t) \<longrightarrow> tk_result t = Some None)"

text \<open>What the entry of a batch says.\<close>

definition entry_right :: "dispatcher \<Rightarrow> nat \<Rightarrow> batch_state \<Rightarrow> bool" where
  "entry_right d bid st \<longleftrightarrow>
     bs_remaining st = progress_in (d_tasks d) bid + unsent (d_submit d) bid \<and>
     bs_cursor st = ub_cursor (d_submitted d ! bid) \<and>
     (bs_failed st \<or> all_succeeded (d_tasks d) bid \<and>
        spawned_in (d_tasks d) bid + unsent (d_submit d) bid = length (ub_messages (d_submitted d ! bid)))"

text \<open>A batch that is committed: all its messages were handled.\<close>

definition handled :: "dispatcher \<Rightarrow> nat \<Rightarrow> bool" where
  "handled d bid \<longleftrightarrow> progress_in (d_tasks d) bid = 0 \<and> unsent (d_submit d) bid = 0 \<and>
     all_succeeded (d_tasks d) bid \<and>
     spawned_in (d_tasks d) bid = length (ub_messages (d_submitted d ! bid))"

definition books :: "dispatcher \<Rightarrow> bool" where
  "books d \<longleftrightarrow>
     distinct (map fst (d_batches d)) \<and> fst ` set (d_batches d) = {d_next_commit d..<d_next_batch d} \<and>
     d_next_commit d \<le> d_next_batch d \<and> length (d_submitted d) = d_next_batch d \<and>
     (\<forall>t\<in>set (d_tasks d). tk_batch t < d_next_batch d) \<and>
     (\<forall>bid. 0 < unsent (d_submit d) bid \<longrightarrow> bid < d_next_batch d) \<and>
     (\<forall>bid st. map_of (d_batches d) bid = Some st \<longrightarrow> entry_right d bid st) \<and>
     (\<forall>bid<d_next_commit d. handled d bid)"

lemma booksD:
  assumes "books d"
  shows "distinct (map fst (d_batches d))" and "fst ` set (d_batches d) = {d_next_commit d..<d_next_batch d}"
    and "d_next_commit d \<le> d_next_batch d" and "length (d_submitted d) = d_next_batch d"
    and "t \<in> set (d_tasks d) \<Longrightarrow> tk_batch t < d_next_batch d"
    and "0 < unsent (d_submit d) bid \<Longrightarrow> bid < d_next_batch d"
    and "map_of (d_batches d) bid = Some st \<Longrightarrow> entry_right d bid st"
    and "bid < d_next_commit d \<Longrightarrow> handled d bid"
  using assms unfolding books_def by auto

text \<open>A batch with a message in progress or unsent has an entry.\<close>

lemma books_entry:
  assumes "books d" and "0 < progress_in (d_tasks d) bid + unsent (d_submit d) bid"
  obtains st where "map_of (d_batches d) bid = Some st" and "entry_right d bid st" and "bs_remaining st \<noteq> 0"
proof -
  have "bid < d_next_batch d"
  proof (cases "0 < unsent (d_submit d) bid")
    case False
    with assms(2) obtain t where "t \<in> set (d_tasks d)" "tk_batch t = bid"
      by (auto simp: progress_in_def filter_empty_conv)
    then show ?thesis using booksD(5) [OF assms(1)] by blast
  qed (use booksD(6) [OF assms(1)] in blast)
  moreover have "\<not> bid < d_next_commit d"
    using booksD(8) [OF assms(1)] assms(2) by (fastforce simp: handled_def)
  ultimately have "bid \<in> fst ` set (d_batches d)"
    using booksD(2) [OF assms(1)] by simp
  then obtain st where st: "map_of (d_batches d) bid = Some st"
    by (metis (no_types, opaque_lifting) map_of_eq_None_iff not_None_eq)
  with booksD(7) [OF assms(1)] have "entry_right d bid st" by blast
  with st assms(2) show thesis by (intro that [of st]) (auto simp: entry_right_def)
qed

lemma progress_task: "i < length ts \<Longrightarrow> in_progress (tk_phase (ts ! i)) \<Longrightarrow> 0 < progress_in ts (tk_batch (ts ! i))"
  by (simp add: progress_in_def length_filter_pos [unfolded length_greater_0_conv])

text \<open>Steps of a task that leave the books alone.\<close>

lemma task_update_counts:
  assumes "i < length ts" and "tk_batch t = tk_batch (ts ! i)"
    and "in_progress (tk_phase t) = in_progress (tk_phase (ts ! i))"
    and "\<not> in_progress (tk_phase t) \<Longrightarrow> tk_result t = tk_result (ts ! i)"
  shows "progress_in (ts[i := t]) bid = progress_in ts bid"
    and "spawned_in (ts[i := t]) bid = spawned_in ts bid"
    and "all_succeeded ts bid \<Longrightarrow> all_succeeded (ts[i := t]) bid"
proof -
  show "progress_in (ts[i := t]) bid = progress_in ts bid"
    unfolding progress_in_def by (rule length_filter_update_same) (use assms in auto)
  show "spawned_in (ts[i := t]) bid = spawned_in ts bid"
    unfolding spawned_in_def by (rule length_filter_update_same) (use assms in auto)
  assume ok: "all_succeeded ts bid"
  show "all_succeeded (ts[i := t]) bid"
    unfolding all_succeeded_def
    by (rule ball_set_update [OF ok [unfolded all_succeeded_def]])
      (use ok assms nth_mem [OF assms(1)] in \<open>auto simp: all_succeeded_def\<close>)
qed

lemma entry_right_tasks:
  assumes "entry_right d bid st" and "progress_in (d_tasks d') bid = progress_in (d_tasks d) bid"
    and "spawned_in (d_tasks d') bid = spawned_in (d_tasks d) bid"
    and "all_succeeded (d_tasks d) bid \<Longrightarrow> all_succeeded (d_tasks d') bid"
    and "unsent (d_submit d') bid = unsent (d_submit d) bid" and "d_submitted d' = d_submitted d"
  shows "entry_right d' bid st"
  using assms by (auto simp: entry_right_def)

lemma handled_tasks:
  assumes "handled d bid" and "progress_in (d_tasks d') bid = progress_in (d_tasks d) bid"
    and "spawned_in (d_tasks d') bid = spawned_in (d_tasks d) bid"
    and "all_succeeded (d_tasks d) bid \<Longrightarrow> all_succeeded (d_tasks d') bid"
    and "unsent (d_submit d') bid = unsent (d_submit d) bid" and "d_submitted d' = d_submitted d"
  shows "handled d' bid"
  using assms by (auto simp: handled_def)

lemma books_cong:
  assumes "books d" and "d_tasks d' = d_tasks d" and "d_batches d' = d_batches d"
    and "d_next_batch d' = d_next_batch d" and "d_next_commit d' = d_next_commit d"
    and "d_submitted d' = d_submitted d" and "\<And>bid. unsent (d_submit d') bid = unsent (d_submit d) bid"
  shows "books d'"
  using assms unfolding books_def entry_right_def handled_def by simp

lemma books_task:
  assumes "books d" and "i < length (d_tasks d)" and "d_tasks d' = (d_tasks d)[i := t]"
    and "tk_batch t = tk_batch (d_tasks d ! i)"
    and "in_progress (tk_phase t) = in_progress (tk_phase (d_tasks d ! i))"
    and "\<not> in_progress (tk_phase t) \<Longrightarrow> tk_result t = tk_result (d_tasks d ! i)"
    and "d_batches d' = d_batches d" "d_submit d' = d_submit d" "d_next_batch d' = d_next_batch d"
    "d_next_commit d' = d_next_commit d" "d_submitted d' = d_submitted d"
  shows "books d'"
proof -
  note same = task_update_counts [OF assms(2,4,5,6)]
  have "\<forall>t'\<in>set (d_tasks d'). tk_batch t' < d_next_batch d"
    unfolding assms(3) by (rule ball_set_update) (use booksD(5) [OF assms(1)] assms(2,4) in auto)
  moreover have "entry_right d' bid st" if "map_of (d_batches d) bid = Some st" for bid st
    by (rule entry_right_tasks [OF booksD(7) [OF assms(1) that]]) (simp_all add: assms(3,8,11) same)
  moreover have "handled d' bid" if "bid < d_next_commit d" for bid
    by (rule handled_tasks [OF booksD(8) [OF assms(1) that]]) (simp_all add: assms(3,8,11) same)
  ultimately show ?thesis
    using assms(1) unfolding books_def by (simp add: assms(7-11))
qed

text \<open>Accounting for one message of a batch, a task's or one that does not decode.\<close>

lemma books_mark:
  assumes "books d" and "map_of (d_batches d) bid = Some st" and "bs_remaining st \<noteq> 0"
    and same: "d_batches d' = d_batches d" "d_next_batch d' = d_next_batch d"
      "d_next_commit d' = d_next_commit d" "d_submitted d' = d_submitted d"
    and tasks: "\<forall>t\<in>set (d_tasks d'). tk_batch t < d_next_batch d"
    and unsent: "\<And>b. 0 < unsent (d_submit d') b \<Longrightarrow> b < d_next_batch d"
    and others: "\<And>b. b \<noteq> bid \<Longrightarrow> progress_in (d_tasks d') b = progress_in (d_tasks d) b"
      "\<And>b. b \<noteq> bid \<Longrightarrow> spawned_in (d_tasks d') b = spawned_in (d_tasks d) b"
      "\<And>b. b \<noteq> bid \<Longrightarrow> unsent (d_submit d') b = unsent (d_submit d) b"
      "\<And>b. b \<noteq> bid \<Longrightarrow> all_succeeded (d_tasks d) b \<Longrightarrow> all_succeeded (d_tasks d') b"
    and one: "Suc (progress_in (d_tasks d') bid + unsent (d_submit d') bid) =
      progress_in (d_tasks d) bid + unsent (d_submit d) bid"
    and ok: "r = None \<Longrightarrow> all_succeeded (d_tasks d) bid \<Longrightarrow> all_succeeded (d_tasks d') bid"
      "r = None \<Longrightarrow> spawned_in (d_tasks d') bid + unsent (d_submit d') bid =
        spawned_in (d_tasks d) bid + unsent (d_submit d) bid"
  shows "books (complete_mark bid st r x d')"
proof -
  let ?st = "st\<lparr>bs_remaining := bs_remaining st - 1, bs_failed := bs_failed st \<or> r \<noteq> None\<rparr>"
  let ?d = "complete_mark bid st r x d'"
  have "\<not> bid < d_next_commit d"
    using booksD(8) [OF assms(1), of bid] one by (auto simp: handled_def)
  moreover have "bid \<in> fst ` set (d_batches d)"
    using assms(2) by (metis map_of_eq_None_iff not_None_eq)
  ultimately have dom: "fst ` set (AList.update bid ?st (d_batches d)) = fst ` set (d_batches d)"
    by (auto simp: dom_update)
  have entry: "entry_right d bid st" by (rule booksD(7) [OF assms(1,2)])
  have "entry_right ?d b s" if "map_of (AList.update bid ?st (d_batches d)) b = Some s" for b s
  proof (cases "b = bid")
    case True
    with that have "s = ?st" by (simp add: update_conv')
    with entry True show ?thesis
      using one ok by (cases r) (auto simp: entry_right_def same)
  next
    case False
    with that have "map_of (d_batches d) b = Some s" by (simp add: update_conv')
    from entry_right_tasks [OF booksD(7) [OF assms(1) this]] others [OF False] show ?thesis
      by (simp add: same)
  qed
  moreover have "handled ?d b" if "b < d_next_commit d" for b
  proof -
    have "b \<noteq> bid" using that \<open>\<not> bid < d_next_commit d\<close> by auto
    from handled_tasks [OF booksD(8) [OF assms(1) that]] others [OF this] show ?thesis by (simp add: same)
  qed
  ultimately show ?thesis
    using assms(1) tasks unsent dom unfolding books_def
    by (simp add: same distinct_update)
qed

text \<open>One turn of \<open>advanceCursorLocked\<close>.\<close>

lemma books_advance_commit:
  assumes d: "books d" "map_of (d_batches d) (d_next_commit d) = Some st" "bs_remaining st = 0" "\<not> bs_failed st"
  shows "books (advance_commit b w d)"
proof -
  have entry: "entry_right d (d_next_commit d) st" by (rule booksD(7) [OF d(1,2)])
  have "d_next_commit d \<in> fst ` set (d_batches d)"
    using d(2) by (metis map_of_eq_None_iff not_None_eq)
  then have less: "d_next_commit d < d_next_batch d" using booksD(2) [OF d(1)] by simp
  have keys: "fst ` set (AList.delete (d_next_commit d) (d_batches d)) = {Suc (d_next_commit d)..<d_next_batch d}"
  proof -
    have "fst ` set (AList.delete (d_next_commit d) (d_batches d)) = fst ` set (d_batches d) - {d_next_commit d}"
      by (metis AList.delete_keys list.set_map set_removeAll)
    with booksD(2) [OF d(1)] show ?thesis by auto
  qed
  have "handled d b" if "b < Suc (d_next_commit d)" for b
    using booksD(8) [OF d(1), of b] entry d(3,4) that
    by (auto simp: less_Suc_eq handled_def entry_right_def)
  moreover have "entry_right d b s" if "map_of (AList.delete (d_next_commit d) (d_batches d)) b = Some s" for b s
    using that booksD(7) [OF d(1)] by (auto simp: delete_conv' split: if_splits)
  ultimately show ?thesis
    using d(1) less keys unfolding books_def
    by (auto simp: advance_commit_def distinct_delete entry_right_def handled_def)
qed

lemma books_advance_fail:
  assumes d: "books d" "map_of (d_batches d) (d_next_commit d) = Some st" "bs_remaining st = 0" "\<not> bs_failed st"
  shows "books (advance_fail e st b w d)"
proof -
  have entry: "entry_right d (d_next_commit d) st" by (rule booksD(7) [OF d(1,2)])
  have "d_next_commit d \<in> fst ` set (d_batches d)"
    using d(2) by (metis map_of_eq_None_iff not_None_eq)
  then have dom: "fst ` set (AList.update (d_next_commit d) (st\<lparr>bs_failed := True\<rparr>) (d_batches d)) = fst ` set (d_batches d)"
    by (auto simp: dom_update)
  have "entry_right d b s" if "map_of (AList.update (d_next_commit d) (st\<lparr>bs_failed := True\<rparr>) (d_batches d)) b = Some s" for b s
    using that booksD(7) [OF d(1)] entry by (auto simp: update_conv' entry_right_def split: if_splits)
  then show ?thesis
    using d(1) dom unfolding books_def
    by (simp add: advance_fail_def distinct_update entry_right_def handled_def)
qed

lemma books_advance: "books d \<Longrightarrow> books (advance_cursor_locked E d)"
  by (rule advance_preserves [of books]) (auto intro: books_advance_commit books_advance_fail)

text \<open>What a turn preserves while the books are right, the loop preserves.\<close>

lemma advance_preserves_books:
  assumes "books d" and "Q d"
    and "\<And>d st b w. books d \<Longrightarrow> Q d \<Longrightarrow> map_of (d_batches d) (d_next_commit d) = Some st \<Longrightarrow>
      bs_remaining st = 0 \<Longrightarrow> \<not> bs_failed st \<Longrightarrow>
      commit_cursor E (bs_cursor st) (d_bot d) (d_world d) = (None, b, w) \<Longrightarrow> Q (advance_commit b w d)"
    and "\<And>d st b w e. books d \<Longrightarrow> Q d \<Longrightarrow> map_of (d_batches d) (d_next_commit d) = Some st \<Longrightarrow>
      bs_remaining st = 0 \<Longrightarrow> \<not> bs_failed st \<Longrightarrow>
      commit_cursor E (bs_cursor st) (d_bot d) (d_world d) = (Some e, b, w) \<Longrightarrow> Q (advance_fail e st b w d)"
  shows "Q (advance_cursor_locked E d)"
proof -
  have "books (advance_cursor_locked E d) \<and> Q (advance_cursor_locked E d)"
    by (rule advance_preserves [of "\<lambda>d. books d \<and> Q d"])
      (use assms in \<open>auto intro: books_advance_commit books_advance_fail\<close>)
  then show ?thesis ..
qed

lemma books_complete:
  assumes "map_of (d_batches d) bid = Some st" "bs_remaining st \<noteq> 0" "books (complete_mark bid st r x d)"
  shows "books (complete E bid r x d)"
  using complete_some [OF assms(1,2)] assms(3) books_advance by metis

text \<open>The task that \<open>complete\<close> accounts for.\<close>

lemma completing_counts:
  assumes "i < length ts" and "tk_phase (ts ! i) = Completing r x" and "t = (ts ! i)\<lparr>tk_phase := Closing\<rparr>"
  shows "Suc (progress_in (ts[i := t]) (tk_batch (ts ! i))) = progress_in ts (tk_batch (ts ! i))"
    and "b \<noteq> tk_batch (ts ! i) \<Longrightarrow> progress_in (ts[i := t]) b = progress_in ts b"
    and "spawned_in (ts[i := t]) b = spawned_in ts b"
    and "b \<noteq> tk_batch (ts ! i) \<or> tk_result (ts ! i) = Some None \<Longrightarrow> all_succeeded ts b \<Longrightarrow> all_succeeded (ts[i := t]) b"
proof -
  show "Suc (progress_in (ts[i := t]) (tk_batch (ts ! i))) = progress_in ts (tk_batch (ts ! i))"
    using length_filter_update [OF assms(1), of "\<lambda>u. tk_batch u = tk_batch (ts ! i) \<and> in_progress (tk_phase u)" t] assms
    by (simp add: progress_in_def)
  show "progress_in (ts[i := t]) b = progress_in ts b" if "b \<noteq> tk_batch (ts ! i)"
    unfolding progress_in_def by (rule length_filter_update_same) (use assms that in auto)
  show "spawned_in (ts[i := t]) b = spawned_in ts b"
    unfolding spawned_in_def by (rule length_filter_update_same) (use assms in auto)
  show "all_succeeded (ts[i := t]) b" if "b \<noteq> tk_batch (ts ! i) \<or> tk_result (ts ! i) = Some None" "all_succeeded ts b"
    unfolding all_succeeded_def
    by (rule ball_set_update [OF that(2) [unfolded all_succeeded_def]]) (use assms that in auto)
qed

lemma books_mark_task:
  assumes "books d" and "task_at d i (Completing r x)" and "results_fit d"
  obtains st where "map_of (d_batches d) (tk_batch (d_tasks d ! i)) = Some st" and "bs_remaining st \<noteq> 0"
    and "entry_right d (tk_batch (d_tasks d ! i)) st"
    and "books (complete_mark (tk_batch (d_tasks d ! i)) st r x (set_phase i Closing d))"
proof -
  let ?bid = "tk_batch (d_tasks d ! i)" and ?d = "set_phase i Closing d"
  have i: "i < length (d_tasks d)" and ph: "tk_phase (d_tasks d ! i) = Completing r x" using assms(2) by auto
  note counts = completing_counts [OF i ph refl]
  have "0 < progress_in (d_tasks d) ?bid + unsent (d_submit d) ?bid"
    using progress_task [OF i] ph by simp
  from books_entry [OF assms(1) this] obtain st where st: "map_of (d_batches d) ?bid = Some st" "bs_remaining st \<noteq> 0"
    and entry: "entry_right d ?bid st" by blast
  have "books (complete_mark ?bid st r x ?d)"
  proof (rule books_mark [OF assms(1) st])
    show "\<forall>t\<in>set (d_tasks ?d). tk_batch t < d_next_batch d"
      unfolding set_phase_frame by (rule ball_set_update) (use booksD(5) [OF assms(1)] i in auto)
    show "b < d_next_batch d" if "0 < unsent (d_submit ?d) b" for b
      using that booksD(6) [OF assms(1)] by simp
    show "all_succeeded (d_tasks ?d) ?bid" if "r = None" "all_succeeded (d_tasks d) ?bid"
      using that counts(4) results_fit_nth [OF assms(3,2)] by (cases x) auto
  qed (use counts in auto)
  with st entry show thesis by (intro that)
qed

lemma books_mark_undecodable:
  assumes "books d" and "d_submit d = Sending bid g (m # ms)"
  obtains st where "map_of (d_batches d) bid = Some st" and "bs_remaining st \<noteq> 0" and "entry_right d bid st"
    and "books (complete_mark bid st (Some e) True (d\<lparr>d_submit := Unscheduling bid (length ms)\<rparr>))"
proof -
  have "0 < progress_in (d_tasks d) bid + unsent (d_submit d) bid" by (simp add: assms(2))
  from books_entry [OF assms(1) this] obtain st where st: "map_of (d_batches d) bid = Some st" "bs_remaining st \<noteq> 0"
    and entry: "entry_right d bid st" by blast
  have "books (complete_mark bid st (Some e) True (d\<lparr>d_submit := Unscheduling bid (length ms)\<rparr>))"
    by (rule books_mark [OF assms(1) st])
      (use booksD(5,6) [OF assms(1)] in \<open>auto simp: assms(2) split: if_splits\<close>)
  with st entry show thesis by (intro that)
qed

text \<open>What marking a message establishes and the cursor preserves holds after \<open>complete\<close>.\<close>

lemma completes_preserves:
  assumes "books d" and "task_at d i (Completing r x)" and "results_fit d"
    and "\<And>st. map_of (d_batches d) (tk_batch (d_tasks d ! i)) = Some st \<Longrightarrow>
      entry_right d (tk_batch (d_tasks d ! i)) st \<Longrightarrow>
      Q (complete_mark (tk_batch (d_tasks d ! i)) st r x (set_phase i Closing d))"
    and "\<And>d. books d \<Longrightarrow> Q d \<Longrightarrow> Q (advance_cursor_locked E d)"
  shows "Q (set_phase i Closing (complete E (tk_batch (d_tasks d ! i)) r x d))"
proof -
  let ?bid = "tk_batch (d_tasks d ! i)" and ?d = "set_phase i Closing d"
  obtain st where st: "map_of (d_batches ?d) ?bid = Some st" "bs_remaining st \<noteq> 0"
    and "entry_right d ?bid st" "books (complete_mark ?bid st r x ?d)"
    using books_mark_task [OF assms(1-3)] by (metis set_phase_frame(16))
  with assms(4,5) have "Q (complete E ?bid r x ?d)"
    using complete_some [OF st, of E r x] by (metis set_phase_frame(16))
  then show ?thesis by (simp add: set_phase_def complete_commute)
qed

lemma undecodable_preserves:
  assumes "books d" and "d_submit d = Sending bid g (m # ms)"
    and "\<And>st. map_of (d_batches d) bid = Some st \<Longrightarrow> entry_right d bid st \<Longrightarrow>
      Q (complete_mark bid st (Some e) True (d\<lparr>d_submit := Unscheduling bid (length ms)\<rparr>))"
    and "\<And>d. books d \<Longrightarrow> Q d \<Longrightarrow> Q (advance_cursor_locked E d)"
  shows "Q ((complete E bid (Some e) True d)\<lparr>d_submit := Unscheduling bid (length ms)\<rparr>)"
proof -
  let ?d = "d\<lparr>d_submit := Unscheduling bid (length ms)\<rparr>"
  obtain st where st: "map_of (d_batches d) bid = Some st" "bs_remaining st \<noteq> 0"
    and "entry_right d bid st" "books (complete_mark bid st (Some e) True ?d)"
    using books_mark_undecodable [OF assms(1,2)] by blast
  with assms(3,4) have "Q (complete E bid (Some e) True ?d)"
    using complete_some [of ?d bid st E "Some e" True] by auto
  then show ?thesis by (simp add: complete_commute)
qed

lemma books_completes:
  assumes "books d" and "task_at d i (Completing r x)" and "results_fit d"
  shows "books (set_phase i Closing (complete E (tk_batch (d_tasks d ! i)) r x d))"
proof (rule completes_preserves [of d i r x books, OF assms])
  fix st
  assume "map_of (d_batches d) (tk_batch (d_tasks d ! i)) = Some st"
  with books_mark_task [OF assms] show "books (complete_mark (tk_batch (d_tasks d ! i)) st r x (set_phase i Closing d))"
    by fastforce
qed (rule books_advance)

lemma books_undecodable:
  assumes "books d" and "d_submit d = Sending bid g (m # ms)"
  shows "books ((complete E bid (Some e) True d)\<lparr>d_submit := Unscheduling bid (length ms)\<rparr>)"
proof (rule undecodable_preserves [of d bid g m ms books, OF assms])
  fix st
  assume st: "map_of (d_batches d) bid = Some st"
  obtain st' where "map_of (d_batches d) bid = Some st'"
    "books (complete_mark bid st' (Some e) True (d\<lparr>d_submit := Unscheduling bid (length ms)\<rparr>))"
    by (rule books_mark_undecodable [OF assms])
  with st show "books (complete_mark bid st (Some e) True (d\<lparr>d_submit := Unscheduling bid (length ms)\<rparr>))"
    by simp
qed (rule books_advance)

lemma books_unschedule:
  assumes "books d" and "d_submit d = Unscheduling bid n"
  shows "books ((cancel_unscheduled bid n d)\<lparr>d_submit := Stopped\<rparr>)"
proof (cases "n = 0")
  case True
  then show ?thesis
    by (intro books_cong [OF assms(1)]) (simp_all add: cancel_unscheduled_def assms(2))
next
  case False
  then have "0 < progress_in (d_tasks d) bid + unsent (d_submit d) bid" by (simp add: assms(2))
  from books_entry [OF assms(1) this] obtain st where st: "map_of (d_batches d) bid = Some st"
    and entry: "entry_right d bid st" by blast
  let ?st = "st\<lparr>bs_failed := True, bs_remaining := bs_remaining st - n\<rparr>"
  have n: "n \<le> bs_remaining st" using entry assms(2) by (simp add: entry_right_def)
  have nc: "\<not> bid < d_next_commit d"
    using booksD(8) [OF assms(1), of bid] assms(2) False by (auto simp: handled_def)
  have "bid \<in> fst ` set (d_batches d)" using st by (metis map_of_eq_None_iff not_None_eq)
  then have dom: "fst ` set (AList.update bid ?st (d_batches d)) = fst ` set (d_batches d)"
    by (auto simp: dom_update)
  have eq: "(cancel_unscheduled bid n d)\<lparr>d_submit := Stopped\<rparr> =
      d\<lparr>d_batches := AList.update bid ?st (d_batches d), d_submit := Stopped\<rparr>"
    using False st n by (simp add: cancel_unscheduled_def Let_def)
  have "entry_right (d\<lparr>d_batches := AList.update bid ?st (d_batches d), d_submit := Stopped\<rparr>) b s"
    if "map_of (AList.update bid ?st (d_batches d)) b = Some s" for b s
    using that booksD(7) [OF assms(1), of b s] entry assms(2)
    by (auto simp: update_conv' entry_right_def split: if_splits)
  moreover have "handled (d\<lparr>d_batches := AList.update bid ?st (d_batches d), d_submit := Stopped\<rparr>) b"
    if "b < d_next_commit d" for b
    using booksD(8) [OF assms(1) that] by (auto simp: handled_def)
  ultimately show ?thesis
    using assms(1) dom unfolding eq books_def by (simp add: distinct_update)
qed

definition registered :: "update_batch \<Rightarrow> dispatcher \<Rightarrow> dispatcher" where
  "registered batch d = d\<lparr>d_next_batch := Suc (d_next_batch d), d_submitted := d_submitted d @ [batch],
     d_batches := AList.update (d_next_batch d)
       \<lparr>bs_remaining = length (ub_messages batch), bs_cursor = ub_cursor batch, bs_failed = False\<rparr> (d_batches d),
     d_submit := Sending (d_next_batch d) (ub_generation batch) (ub_messages batch)\<rparr>"

lemma register_batch_registered:
  "register_batch E batch d = registered batch d \<or>
   register_batch E batch d = advance_cursor_locked E (registered batch d)"
  by (simp add: register_batch_def registered_def Let_def)

lemma books_registered:
  assumes "books d" and "d_submit d = HaveSlot batch"
  shows "books (registered batch d)"
proof -
  let ?n = "d_next_batch d"
  let ?st = "\<lparr>bs_remaining = length (ub_messages batch), bs_cursor = ub_cursor batch, bs_failed = False\<rparr>"
  let ?d = "d\<lparr>d_next_batch := Suc ?n, d_submitted := d_submitted d @ [batch],
    d_batches := AList.update ?n ?st (d_batches d),
    d_submit := Sending ?n (ub_generation batch) (ub_messages batch)\<rparr>"
  have len: "length (d_submitted d) = ?n" by (rule booksD(4) [OF assms(1)])
  have none: "tk_batch t \<noteq> ?n" if "t \<in> set (d_tasks d)" for t
    using booksD(5) [OF assms(1) that] by simp
  have fresh: "progress_in (d_tasks d) ?n = 0" "spawned_in (d_tasks d) ?n = 0" "all_succeeded (d_tasks d) ?n"
    using none
    by (auto simp: progress_in_def spawned_in_def all_succeeded_def filter_empty_conv)
  have "entry_right ?d b s" if "map_of (AList.update ?n ?st (d_batches d)) b = Some s" for b s
  proof (cases "b = ?n")
    case True
    with that fresh len show ?thesis by (auto simp: update_conv' entry_right_def nth_append)
  next
    case False
    with that have s: "map_of (d_batches d) b = Some s" by (simp add: update_conv')
    then have "b \<in> fst ` set (d_batches d)" by (metis map_of_eq_None_iff not_None_eq)
    then have "b < ?n" using booksD(2) [OF assms(1)] by simp
    then show ?thesis
      using booksD(7) [OF assms(1) s] assms(2) len by (auto simp: entry_right_def nth_append)
  qed
  moreover have "handled ?d b" if "b < d_next_commit d" for b
    using booksD(8) [OF assms(1) that] booksD(3) [OF assms(1)] that len by (auto simp: handled_def nth_append)
  moreover have "fst ` set (AList.update ?n ?st (d_batches d)) = {d_next_commit d..<Suc ?n}"
    using booksD(2,3) [OF assms(1)] by (auto simp: dom_update)
  ultimately show ?thesis
    using assms(1) unfolding registered_def books_def by (auto simp: distinct_update less_Suc_eq)
qed

lemma register_preserves:
  assumes "books d" and "d_submit d = HaveSlot batch" and "Q (registered batch d)"
    and "\<And>d. books d \<Longrightarrow> Q d \<Longrightarrow> Q (advance_cursor_locked E d)"
  shows "Q (register_batch E batch d)"
  using register_batch_registered [of E batch d] books_registered [OF assms(1,2)] assms(3,4) by metis

lemma books_register:
  assumes "books d" and "d_submit d = HaveSlot batch"
  shows "books (register_batch E batch d)"
  by (rule register_preserves [of d batch books, OF assms books_registered [OF assms]]) (rule books_advance)

lemma books_spawn:
  assumes "books d" and "d_submit d = Spawning bid g wire ms"
  shows "books ((spawn_task bid g wire d)\<lparr>d_submit := Sending bid g ms\<rparr>)"
proof -
  let ?d = "(spawn_task bid g wire d)\<lparr>d_submit := Sending bid g ms\<rparr>"
  have counts: "progress_in (d_tasks ?d) b + unsent (d_submit ?d) b = progress_in (d_tasks d) b + unsent (d_submit d) b"
    "spawned_in (d_tasks ?d) b + unsent (d_submit ?d) b = spawned_in (d_tasks d) b + unsent (d_submit d) b"
    "all_succeeded (d_tasks ?d) b = all_succeeded (d_tasks d) b" for b
    by (auto simp: spawn_task_def Let_def progress_in_def spawned_in_def all_succeeded_def assms(2))
  have "bid < d_next_batch d" using booksD(6) [OF assms(1), of bid] assms(2) by simp
  moreover have "handled ?d b" if "b < d_next_commit d" for b
  proof -
    have "b \<noteq> bid" using booksD(8) [OF assms(1) that] by (auto simp: handled_def assms(2))
    then show ?thesis
      using booksD(8) [OF assms(1) that] counts [of b]
      by (auto simp: handled_def assms(2) spawn_task_def Let_def)
  qed
  moreover have "entry_right ?d b s" if "map_of (d_batches d) b = Some s" for b s
    using booksD(7) [OF assms(1) that] counts [of b]
    by (simp add: entry_right_def) (simp add: spawn_task_def Let_def)
  ultimately show ?thesis
    using assms(1) unfolding books_def by (auto simp: spawn_task_def Let_def split: if_splits)
qed

lemma books_step:
  assumes "dispatch_step E d d'" and "results_fit d" and "books d"
  shows "books d'"
  using assms(1)
proof (cases rule: dispatch_step_cases)
  case (task i)
  then show ?thesis
  proof (cases rule: task_step.cases)
    case (completes r executed)
    then show ?thesis using books_completes [OF assms(3) completes(2) assms(2)] by simp
  qed (auto intro!: books_task [OF assms(3)])
next
  case submit
  then show ?thesis
  proof (cases rule: submit_step.cases)
    case (undecodable bid g e ms)
    then show ?thesis using books_undecodable [OF assms(3)] by simp
  next
    case (unschedule bid n)
    then show ?thesis using books_unschedule [OF assms(3)] by simp
  next
    case (register batch)
    then show ?thesis using books_register [OF assms(3)] by simp
  next
    case (spawn bid g wire ms)
    then show ?thesis using books_spawn [OF assms(3)] by simp
  qed (auto intro!: books_cong [OF assms(3)])
next
  case other
  then show ?thesis by (cases rule: other_step.cases) (auto intro!: books_cong [OF assms(3)])
qed

subsection \<open>The semaphores\<close>

fun holds_active :: "phase \<Rightarrow> bool" where
  "holds_active Acquired = True"
| "holds_active Running = True"
| "holds_active (Ran r) = True"
| "holds_active _ = False"

fun spawning :: "submitter \<Rightarrow> nat" where
  "spawning (Spawning b g wire ms) = 1"
| "spawning _ = 0"

fun slot_held :: "submitter \<Rightarrow> nat" where
  "slot_held (HaveSlot batch) = 1"
| "slot_held _ = 0"

definition active_in :: "task list \<Rightarrow> nat" where
  "active_in ts = length (filter (\<lambda>t. holds_active (tk_phase t)) ts)"

definition live_in :: "task list \<Rightarrow> nat" where
  "live_in ts = length (filter (\<lambda>t. tk_phase t \<noteq> Finished) ts)"

definition capacity :: "dispatcher \<Rightarrow> bool" where
  "capacity d \<longleftrightarrow> 1 \<le> d_cap d \<and>
     d_active d = active_in (d_tasks d) \<and> d_active d \<le> d_cap d \<and>
     d_pending d = live_in (d_tasks d) + spawning (d_submit d) \<and>
     d_pending d \<le> d_cap d * update_queue_capacity \<and>
     d_slots d = length (d_batches d) + slot_held (d_submit d) \<and> d_slots d \<le> update_queue_capacity"

lemma length_delete_distinct:
  "distinct (map fst xs) \<Longrightarrow> map_of xs k = Some v \<Longrightarrow> Suc (length (AList.delete k xs)) = length xs"
proof (induction xs)
  case (Cons x xs)
  have "AList.delete k xs = xs" if "k \<notin> fst ` set xs"
    using that by simp
  with Cons show ?case by (cases x) (auto split: if_splits)
qed simp

lemma length_update_present: "map_of xs k = Some v \<Longrightarrow> length (AList.update k w xs) = length xs"
  by (induction xs) (auto split: if_splits)

lemma length_update_absent: "map_of xs k = None \<Longrightarrow> length (AList.update k w xs) = Suc (length xs)"
  by (induction xs) (auto split: if_splits)

lemma capacity_advance: "books d \<Longrightarrow> capacity d \<Longrightarrow> capacity (advance_cursor_locked E d)"
proof (rule advance_preserves_books)
  fix d st b w
  assume d: "books d" "capacity d" "map_of (d_batches d) (d_next_commit d) = Some st"
  have "Suc (length (AList.delete (d_next_commit d) (d_batches d))) = length (d_batches d)"
    by (rule length_delete_distinct [OF booksD(1) [OF d(1)] d(3)])
  then show "capacity (advance_commit b w d)"
    using d(2) unfolding capacity_def by (auto simp: advance_commit_def)
next
  fix d st b w e
  assume d: "books d" "capacity d" "map_of (d_batches d) (d_next_commit d) = Some st"
  then show "capacity (advance_fail e st b w d)"
    unfolding capacity_def by (simp add: advance_fail_def length_update_present)
qed

lemma capacity_mark:
  assumes "capacity d" and "map_of (d_batches d) bid = Some st"
  shows "capacity (complete_mark bid st r x d)"
  using assms unfolding capacity_def by (simp add: length_update_present)

lemma capacity_cong:
  assumes "capacity d" and "d_tasks d' = d_tasks d" and "d_cap d' = d_cap d" and "d_active d' = d_active d"
    and "d_pending d' = d_pending d" and "d_slots d' = d_slots d" and "length (d_batches d') = length (d_batches d)"
    and "spawning (d_submit d') = spawning (d_submit d)" and "slot_held (d_submit d') = slot_held (d_submit d)"
  shows "capacity d'"
  using assms unfolding capacity_def by simp

lemma capacity_task:
  assumes "capacity d" and "i < length (d_tasks d)" and "d_tasks d' = (d_tasks d)[i := t]"
    and "d_cap d' = d_cap d" and "d_slots d' = d_slots d" and "d_submit d' = d_submit d"
    and "d_batches d' = d_batches d"
    and active: "d_active d' + of_bool (holds_active (tk_phase (d_tasks d ! i))) =
      d_active d + of_bool (holds_active (tk_phase t))" and "d_active d' \<le> d_cap d"
    and pending: "d_pending d' + of_bool (tk_phase (d_tasks d ! i) \<noteq> Finished) =
      d_pending d + of_bool (tk_phase t \<noteq> Finished)" and "d_pending d' \<le> d_pending d"
  shows "capacity d'"
proof -
  have "active_in (d_tasks d') + of_bool (holds_active (tk_phase (d_tasks d ! i))) =
      active_in (d_tasks d) + of_bool (holds_active (tk_phase t))"
    unfolding active_in_def assms(3) by (rule length_filter_update [OF assms(2)])
  moreover have "live_in (d_tasks d') + of_bool (tk_phase (d_tasks d ! i) \<noteq> Finished) =
      live_in (d_tasks d) + of_bool (tk_phase t \<noteq> Finished)"
    unfolding live_in_def assms(3) by (rule length_filter_update [OF assms(2)])
  ultimately show ?thesis
    using assms(1,9,11) active pending unfolding capacity_def by (simp add: assms(4-7))
qed

text \<open>A task that holds a place keeps the counters positive.\<close>

lemma capacity_pos:
  assumes "capacity d" and "i < length (d_tasks d)"
  shows "holds_active (tk_phase (d_tasks d ! i)) \<Longrightarrow> 0 < d_active d"
    and "tk_phase (d_tasks d ! i) \<noteq> Finished \<Longrightarrow> 0 < d_pending d"
  using assms length_filter_pos [OF assms(2), of "\<lambda>t. holds_active (tk_phase t)"]
    length_filter_pos [OF assms(2), of "\<lambda>t. tk_phase t \<noteq> Finished"]
  unfolding capacity_def active_in_def live_in_def by auto

lemma capacity_step:
  assumes "dispatch_step E d d'" and "results_fit d" and "books d" and "capacity d"
  shows "capacity d'"
  using assms(1)
proof (cases rule: dispatch_step_cases)
  case (task i)
  have bound: "d_active d \<le> d_cap d" using assms(4) by (simp add: capacity_def)
  from task show ?thesis
  proof (cases rule: task_step.cases)
    case (completes r executed)
    have "capacity (set_phase i Closing d)"
      by (rule capacity_task [OF assms(4), of i _ "(d_tasks d ! i)\<lparr>tk_phase := Closing\<rparr>"])
        (use completes(2) bound in auto)
    then have "capacity (set_phase i Closing (complete E (tk_batch (d_tasks d ! i)) r executed d))"
      by (intro completes_preserves [of d i r executed capacity, OF assms(3) completes(2) assms(2)]
          capacity_advance capacity_mark) simp_all
    then show ?thesis by (simp add: completes(1))
  next
    case acquired_cancelled
    then show ?thesis
      using capacity_pos(1) [OF assms(4), of i] bound by (auto intro!: capacity_task [OF assms(4)])
  next
    case (release r)
    then show ?thesis
      using capacity_pos(1) [OF assms(4), of i] bound by (auto intro!: capacity_task [OF assms(4)])
  next
    case release_pending
    then show ?thesis
      using capacity_pos(2) [OF assms(4), of i] bound by (auto intro!: capacity_task [OF assms(4)])
  qed (use bound in \<open>auto intro!: capacity_task [OF assms(4)]\<close>)
next
  case submit
  then show ?thesis
  proof (cases rule: submit_step.cases)
    case (undecodable bid g e ms)
    have "capacity (d\<lparr>d_submit := Unscheduling bid (length ms)\<rparr>)"
      by (rule capacity_cong [OF assms(4)]) (simp_all add: undecodable)
    then show ?thesis
      unfolding undecodable(1)
      by (intro undecodable_preserves [of d bid g "Inl e" ms capacity, OF assms(3) undecodable(2)]
          capacity_advance capacity_mark) simp_all
  next
    case (register batch)
    have "length (d_batches (registered batch d)) = Suc (length (d_batches d))"
      using booksD(2) [OF assms(3)] unfolding registered_def
      by (simp add: length_update_absent map_of_eq_None_iff)
    then have "capacity (registered batch d)"
      using assms(4) register(2) unfolding capacity_def by (simp add: registered_def)
    then show ?thesis
      unfolding register(1)
      by (intro register_preserves [of d batch capacity, OF assms(3) register(2)] capacity_advance)
  next
    case (spawn bid g wire ms)
    then show ?thesis
      using assms(4) unfolding capacity_def
      by (simp add: spawn_task_def Let_def active_in_def live_in_def)
  next
    case (unschedule bid n)
    have "length (d_batches (cancel_unscheduled bid n d)) = length (d_batches d)"
      by (simp add: cancel_unscheduled_def Let_def length_update_present split: option.split)
    then show ?thesis
      using assms(4) unschedule by (auto intro!: capacity_cong [OF assms(4)])
  next
    case (take_slot batch)
    then show ?thesis using assms(4) unfolding capacity_def by simp
  next
    case (give_slot_back batch)
    then show ?thesis using assms(4) unfolding capacity_def by simp
  next
    case (take_pending bid g wire ms)
    then show ?thesis using assms(4) unfolding capacity_def by simp
  qed (auto intro!: capacity_cong [OF assms(4)])
next
  case other
  then show ?thesis by (cases rule: other_step.cases) (auto intro!: capacity_cong [OF assms(4)])
qed

subsection \<open>Outcomes and cancellation\<close>

text \<open>What is known of a task that has been accounted for.\<close>

definition outcome_known :: "dispatcher \<Rightarrow> task \<Rightarrow> bool" where
  "outcome_known d t \<longleftrightarrow>
     (\<not> in_progress (tk_phase t) \<longrightarrow> tk_result t = Some None \<or>
        d_cancelled d \<and> (\<forall>e. tk_result t = Some (Some e) \<longrightarrow> d_first_error d \<noteq> None)) \<and>
     (\<forall>r. tk_phase t = Completing r False \<longrightarrow> d_cancelled d)"

definition outcomes :: "dispatcher \<Rightarrow> bool" where
  "outcomes d \<longleftrightarrow>
     (d_first_error d \<noteq> None \<longrightarrow> d_cancelled d) \<and> (d_failure_closed d \<longleftrightarrow> d_first_error d \<noteq> None) \<and>
     (\<forall>t\<in>set (d_tasks d). outcome_known d t) \<and>
     (\<forall>bid n. d_submit d = Unscheduling bid n \<longrightarrow> d_cancelled d)"

lemma outcomes_mono:
  assumes "outcomes d" and "d_tasks d' = d_tasks d"
    and "d_first_error d \<noteq> None \<Longrightarrow> d_first_error d' \<noteq> None"
    and "d_failure_closed d' \<longleftrightarrow> d_first_error d' \<noteq> None" and "d_cancelled d \<Longrightarrow> d_cancelled d'"
    and "d_first_error d' \<noteq> None \<Longrightarrow> d_cancelled d'"
    and "\<And>bid n. d_submit d' = Unscheduling bid n \<Longrightarrow> d_cancelled d'"
  shows "outcomes d'"
  using assms unfolding outcomes_def outcome_known_def by (auto 0 3)

lemma outcomesD:
  assumes "outcomes d"
  shows "d_first_error d \<noteq> None \<Longrightarrow> d_cancelled d" and "d_failure_closed d \<longleftrightarrow> d_first_error d \<noteq> None"
    and "i < length (d_tasks d) \<Longrightarrow> outcome_known d (d_tasks d ! i)"
    and "d_submit d = Unscheduling bid n \<Longrightarrow> d_cancelled d"
  using assms by (auto simp: outcomes_def)

lemma outcomes_record: "outcomes d \<Longrightarrow> outcomes (record_failure_locked e d)"
  by (rule outcomes_mono [of d]) (auto simp: record_failure_locked_def dest: outcomesD)

lemma outcomes_advance: "outcomes d \<Longrightarrow> outcomes (advance_cursor_locked E d)"
proof (rule advance_preserves [of outcomes])
  fix d :: dispatcher and st b w
  assume d: "outcomes d"
  then show "outcomes (advance_commit b w d)"
    by (rule outcomes_mono) (use d in \<open>auto simp: advance_commit_def outcomes_def\<close>)
next
  fix d :: dispatcher and st b w e
  assume d: "outcomes d"
  show "outcomes (advance_fail e st b w d)"
    unfolding advance_fail_def
    by (rule outcomes_record, rule outcomes_mono [OF d]) (use d in \<open>auto simp: outcomes_def\<close>)
qed

lemma outcomes_task:
  assumes "outcomes d" and "d_tasks d' = (d_tasks d)[i := t]" and "outcome_known d t"
    and "d_first_error d' = d_first_error d" and "d_failure_closed d' = d_failure_closed d"
    and "d_cancelled d' = d_cancelled d" and "d_submit d' = d_submit d"
  shows "outcomes d'"
proof -
  have "\<forall>u\<in>set ((d_tasks d)[i := t]). outcome_known d u"
    by (rule ball_set_update) (use assms(1,3) in \<open>auto simp: outcomes_def\<close>)
  then show ?thesis
    using assms(1) unfolding outcomes_def outcome_known_def by (simp add: assms(2,4-7))
qed

text \<open>The task that completes: its failure is recorded when it was executed.\<close>

lemma outcomes_mark_task:
  assumes "outcomes d" and "task_at d i (Completing r x)" and "results_fit d"
  shows "outcomes (complete_mark bid st r x (set_phase i Closing d))"
proof -
  let ?d = "set_phase i Closing d" and ?m = "complete_mark bid st r x (set_phase i Closing d)"
  have fit: "result_fits (Completing r x) (tk_result (d_tasks d ! i))"
    by (rule results_fit_nth [OF assms(3,2)])
  have m: "d_cancelled ?m = (d_cancelled d \<or> (x \<and> r \<noteq> None \<and> d_first_error d = None))"
    "d_first_error ?m \<noteq> None \<longleftrightarrow> d_first_error d \<noteq> None \<or> (x \<and> r \<noteq> None)"
    "d_failure_closed ?m = (d_failure_closed d \<or> (x \<and> r \<noteq> None \<and> d_first_error d = None))"
    by (auto simp: complete_mark_def Let_def record_failure_locked_def split: option.split)
  have known: "outcome_known d (d_tasks d ! i)" using outcomesD(3) assms(1,2) by blast
  have "outcome_known ?m ((d_tasks d ! i)\<lparr>tk_phase := Closing\<rparr>)"
    using fit known assms(1,2) unfolding outcome_known_def outcomes_def m
    by (cases x; cases r) (auto simp: m)
  moreover have "\<forall>t\<in>set (d_tasks d). outcome_known ?m t"
    using assms(1) m(1,2) unfolding outcomes_def outcome_known_def by auto
  ultimately have "\<forall>t\<in>set (d_tasks ?m). outcome_known ?m t"
    unfolding complete_mark_frame set_phase_frame by (intro ball_set_update)
  then show ?thesis
    using assms(1) m unfolding outcomes_def by auto
qed

lemma outcomes_step:
  assumes "dispatch_step E d d'" and "results_fit d" and "books d" and "outcomes d"
  shows "outcomes d'"
  using assms(1)
proof (cases rule: dispatch_step_cases)
  case (task i)
  note known = outcomesD(3) [OF assms(4), of i]
  note fit = results_fit_nth [OF assms(2), of i]
  from task show ?thesis
  proof (cases rule: task_step.cases)
    case (completes r executed)
    show ?thesis
      unfolding completes(1)
      by (intro completes_preserves [of d i r executed outcomes, OF assms(3) completes(2) assms(2)]
          outcomes_advance outcomes_mark_task assms completes)
  qed (use known fit in \<open>auto intro!: outcomes_task [OF assms(4)] simp: outcome_known_def\<close>)
next
  case submit
  then show ?thesis
  proof (cases rule: submit_step.cases)
    case (undecodable bid g e ms)
    have m: "outcomes (complete_mark bid st (Some e) True (d\<lparr>d_submit := Unscheduling bid (length ms)\<rparr>))" for st
      by (rule outcomes_mono [OF assms(4)])
        (use assms(4) in \<open>auto simp: complete_mark_def Let_def record_failure_locked_def outcomes_def\<close>)
    show ?thesis
      unfolding undecodable(1)
      by (intro undecodable_preserves [of d bid g "Inl e" ms outcomes, OF assms(3) undecodable(2)] outcomes_advance m)
  next
    case (register batch)
    have "outcomes (registered batch d)"
      by (rule outcomes_mono [OF assms(4)]) (use assms(4) in \<open>auto simp: registered_def outcomes_def\<close>)
    then show ?thesis
      unfolding register(1)
      by (intro register_preserves [of d batch outcomes, OF assms(3) register(2)] outcomes_advance)
  next
    case (spawn bid g wire ms)
    then show ?thesis
      using assms(4) by (auto simp: spawn_task_def Let_def outcomes_def outcome_known_def)
  qed (use outcomesD [OF assms(4)] in \<open>auto intro!: outcomes_mono [OF assms(4)]\<close>)
next
  case other
  then show ?thesis
    by (cases rule: other_step.cases) (use outcomesD [OF assms(4)] in \<open>auto intro!: outcomes_mono [OF assms(4)]\<close>)
qed

end
