(* ===== verification/DispatchOrder.thy ===== *)
theory DispatchOrder
  imports DispatchInv
begin

section \<open>The keyed dispatcher: order, cursor and progress\<close>

text \<open>
  The order in which the messages of a conversation are handled, the cursor, and that the
  dispatcher never gets stuck.  The last part states the properties of the dispatcher over
  its runs.
\<close>

subsection \<open>Order within a conversation\<close>

abbreviation task_key :: "dispatcher \<Rightarrow> nat \<Rightarrow> string" where
  "task_key d i \<equiv> tk_key (d_tasks d ! i)"

text \<open>Every earlier message of the conversation is done, or handled with success.\<close>

definition earlier_closed :: "dispatcher \<Rightarrow> nat \<Rightarrow> bool" where
  "earlier_closed d j \<longleftrightarrow> (\<forall>i<j. task_key d i = task_key d j \<longrightarrow> done_closed d i)"

definition earlier_succeeded :: "dispatcher \<Rightarrow> nat \<Rightarrow> bool" where
  "earlier_succeeded d j \<longleftrightarrow>
     (\<forall>i<j. task_key d i = task_key d j \<longrightarrow> done_closed d i \<and> tk_result (d_tasks d ! i) = Some None)"

definition started :: "task \<Rightarrow> bool" where
  "started t \<longleftrightarrow> tk_phase t = Running \<or> tk_result t \<noteq> None"

text \<open>The channel a task waits for is the one of the message before it.\<close>

definition previous_right :: "dispatcher \<Rightarrow> nat \<Rightarrow> bool" where
  "previous_right d j \<longleftrightarrow>
     (case tk_previous (d_tasks d ! j) of
        None \<Rightarrow> d_cancelled d \<or> earlier_closed d j
      | Some p \<Rightarrow> p < j \<and> task_key d p = task_key d j \<and> (\<forall>i. p < i \<and> i < j \<longrightarrow> task_key d i \<noteq> task_key d j))"

definition tail_right :: "dispatcher \<Rightarrow> string \<Rightarrow> bool" where
  "tail_right d k \<longleftrightarrow>
     (case d_tails d k of
        None \<Rightarrow> d_cancelled d \<or> (\<forall>i<length (d_tasks d). task_key d i = k \<longrightarrow> done_closed d i)
      | Some t \<Rightarrow> t < length (d_tasks d) \<and> task_key d t = k \<and> (\<forall>i<length (d_tasks d). t < i \<longrightarrow> task_key d i \<noteq> k))"

definition ordered :: "dispatcher \<Rightarrow> bool" where
  "ordered d \<longleftrightarrow> (\<forall>k. tail_right d k) \<and>
     (\<forall>j<length (d_tasks d). previous_right d j \<and>
        (tk_phase (d_tasks d ! j) = Waiting \<or> d_cancelled d \<or> earlier_closed d j) \<and>
        (started (d_tasks d ! j) \<longrightarrow> earlier_succeeded d j))"

lemma orderedD:
  assumes "ordered d"
  shows "tail_right d k" and "j < length (d_tasks d) \<Longrightarrow> previous_right d j"
    and "j < length (d_tasks d) \<Longrightarrow> tk_phase (d_tasks d ! j) \<noteq> Waiting \<Longrightarrow> \<not> d_cancelled d \<Longrightarrow> earlier_closed d j"
    and "j < length (d_tasks d) \<Longrightarrow> started (d_tasks d ! j) \<Longrightarrow> earlier_succeeded d j"
  using assms unfolding ordered_def by auto

text \<open>A step of a task that only moves it on.\<close>

lemma ordered_task:
  assumes "ordered d" and i: "i < length (d_tasks d)" and tasks: "d_tasks d' = (d_tasks d)[i := t]"
    and "tk_wire t = tk_wire (d_tasks d ! i)" and "tk_previous t = tk_previous (d_tasks d ! i)"
    and closed: "closed_phase (tk_phase (d_tasks d ! i)) \<Longrightarrow>
      closed_phase (tk_phase t) \<and> tk_result t = tk_result (d_tasks d ! i)"
    and moved: "tk_phase t \<noteq> Waiting \<Longrightarrow> tk_phase (d_tasks d ! i) = Waiting \<Longrightarrow> d_cancelled d \<or> earlier_closed d i"
    and start: "started t \<Longrightarrow> started (d_tasks d ! i) \<or> earlier_succeeded d i"
    and "d_tails d' = d_tails d" and "d_cancelled d \<Longrightarrow> d_cancelled d'"
  shows "ordered d'"
proof -
  have key: "task_key d' j = task_key d j" for j
    using assms(4) i by (cases "j = i") (simp_all add: tasks)
  have prev: "tk_previous (d_tasks d' ! j) = tk_previous (d_tasks d ! j)" for j
    using assms(5) i by (cases "j = i") (simp_all add: tasks)
  have len: "length (d_tasks d') = length (d_tasks d)" by (simp add: tasks)
  have mono: "done_closed d j \<Longrightarrow> done_closed d' j" for j
    using closed i by (cases "j = i") (simp_all add: tasks done_closed_def)
  have ec: "earlier_closed d j \<Longrightarrow> earlier_closed d' j" for j
    using mono by (auto simp: earlier_closed_def key)
  have es: "earlier_succeeded d j \<Longrightarrow> earlier_succeeded d' j" for j
  proof -
    assume j: "earlier_succeeded d j"
    have "done_closed d' k \<and> tk_result (d_tasks d' ! k) = Some None"
      if "k < j" "task_key d k = task_key d j" for k
    proof (cases "k = i")
      case True
      with j that closed i show ?thesis
        by (simp add: earlier_succeeded_def tasks done_closed_def)
    next
      case False
      with j that i show ?thesis by (simp add: earlier_succeeded_def tasks done_closed_def)
    qed
    then show "earlier_succeeded d' j" by (simp add: earlier_succeeded_def key)
  qed
  have "tail_right d' k" for k
    using orderedD(1) [OF assms(1), of k] mono assms(9,10)
    by (auto simp: tail_right_def key len split: option.splits)
  moreover have "previous_right d' j" if "j < length (d_tasks d)" for j
    using orderedD(2) [OF assms(1) that] ec assms(10)
    by (auto simp: previous_right_def key prev split: option.splits)
  moreover have "tk_phase (d_tasks d' ! j) = Waiting \<or> d_cancelled d' \<or> earlier_closed d' j" if "j < length (d_tasks d)" for j
  proof (cases "j = i")
    case True
    then show ?thesis
      using orderedD(3) [OF assms(1) i] moved ec assms(10) i by (auto simp: tasks)
  next
    case False
    then show ?thesis using orderedD(3) [OF assms(1) that] ec assms(10) by (auto simp: tasks)
  qed
  moreover have "started (d_tasks d' ! j) \<longrightarrow> earlier_succeeded d' j" if "j < length (d_tasks d)" for j
  proof (cases "j = i")
    case True
    then show ?thesis using orderedD(4) [OF assms(1) i] start es i by (auto simp: tasks)
  next
    case False
    then show ?thesis using orderedD(4) [OF assms(1) that] es by (auto simp: tasks)
  qed
  ultimately show ?thesis unfolding ordered_def by (auto simp: len)
qed

lemma ordered_cong:
  assumes "ordered d" and "d_tasks d' = d_tasks d" and "d_tails d' = d_tails d" and "d_cancelled d \<Longrightarrow> d_cancelled d'"
  shows "ordered d'"
proof -
  have "done_closed d' i = done_closed d i" for i by (simp add: done_closed_def assms(2))
  then have "earlier_closed d' j = earlier_closed d j" "earlier_succeeded d' j = earlier_succeeded d j" for j
    by (simp_all add: earlier_closed_def earlier_succeeded_def assms(2))
  moreover have "tail_right d k \<Longrightarrow> tail_right d' k" "previous_right d j \<Longrightarrow> previous_right d' j" for k j
    using assms(4) calculation \<open>\<And>i. done_closed d' i = done_closed d i\<close>
    by (auto simp: tail_right_def previous_right_def assms(2,3) split: option.splits)
  ultimately show ?thesis using assms(1,4) unfolding ordered_def by (auto simp: assms(2))
qed

lemma ordered_unlink:
  assumes "ordered d" and "task_at d i Unlinking"
  shows "ordered (unlink_tail i d)"
proof (cases "d_tails d (task_key d i) = Some i")
  case True
  have closed: "d_cancelled d \<or> (\<forall>j<length (d_tasks d). task_key d j = task_key d i \<longrightarrow> done_closed d j)"
  proof (cases "d_cancelled d")
    case False
    have "done_closed d j" if "j < length (d_tasks d)" "task_key d j = task_key d i" for j
    proof (rule linorder_cases [of j i])
      assume "j < i"
      then show ?thesis
        using orderedD(3) [OF assms(1), of i] assms(2) False that by (auto simp: earlier_closed_def)
    next
      assume "j = i"
      then show ?thesis using assms(2) by (simp add: done_closed_def)
    next
      assume "i < j"
      then show ?thesis
        using orderedD(1) [OF assms(1), of "task_key d i"] True that by (simp add: tail_right_def)
    qed
    then show ?thesis by blast
  qed simp
  have same: "done_closed (unlink_tail i d) j = done_closed d j" for j by (simp add: done_closed_def)
  then have ec: "earlier_closed (unlink_tail i d) j = earlier_closed d j"
    "earlier_succeeded (unlink_tail i d) j = earlier_succeeded d j" for j
    by (simp_all add: earlier_closed_def earlier_succeeded_def)
  have "previous_right (unlink_tail i d) j = previous_right d j" for j
    by (simp add: previous_right_def ec split: option.split)
  moreover have "tail_right (unlink_tail i d) k" for k
    using orderedD(1) [OF assms(1), of k] True closed same by (auto simp: tail_right_def split: option.splits)
  ultimately show ?thesis
    using assms(1) ec unfolding ordered_def by auto
qed (use assms(1) in \<open>simp add: unlink_tail_def Let_def\<close>)

text \<open>The critical sections of the books do not touch the order.\<close>

lemma advance_cancelled: "d_cancelled d \<Longrightarrow> d_cancelled (advance_cursor_locked E d)"
  by (rule advance_preserves [of d_cancelled])
    (auto simp: advance_commit_def advance_fail_def record_failure_locked_def)

lemma complete_cancelled: "d_cancelled d \<Longrightarrow> d_cancelled (complete E bid r x d)"
  by (auto simp: complete_def Let_def record_failure_locked_def advance_cancelled split: option.split)

lemma done_closed_not_cancelled:
  assumes "outcomes d" and "\<not> d_cancelled d" and "i < length (d_tasks d)" and "done_closed d i"
  shows "tk_result (d_tasks d ! i) = Some None"
proof -
  have "\<not> in_progress (tk_phase (d_tasks d ! i))"
    using assms(4) by (cases "tk_phase (d_tasks d ! i)") (simp_all add: done_closed_def)
  with outcomesD(3) [OF assms(1,3)] assms(2) show ?thesis by (simp add: outcome_known_def)
qed

lemma ordered_wait:
  assumes "ordered d" and "task_at d i Waiting"
    and "case tk_previous (d_tasks d ! i) of None \<Rightarrow> True | Some p \<Rightarrow> done_closed d p"
  shows "d_cancelled d \<or> earlier_closed d i"
proof (cases "tk_previous (d_tasks d ! i)")
  case None
  then show ?thesis using orderedD(2) [OF assms(1), of i] assms(2) by (simp add: previous_right_def)
next
  case (Some p)
  have p: "p < i" "task_key d p = task_key d i" "\<forall>j. p < j \<and> j < i \<longrightarrow> task_key d j \<noteq> task_key d i"
    using orderedD(2) [OF assms(1), of i] assms(2) Some by (auto simp: previous_right_def)
  have closed: "done_closed d p" using assms(3) Some by simp
  show ?thesis
  proof (cases "d_cancelled d")
    case False
    have "tk_phase (d_tasks d ! p) \<noteq> Waiting" using closed by (auto simp: done_closed_def)
    then have before: "earlier_closed d p"
      using orderedD(3) [OF assms(1), of p] p(1) assms(2) False by simp
    have "done_closed d j" if "j < i" "task_key d j = task_key d i" for j
      using before closed p that by (cases j p rule: linorder_cases) (auto simp: earlier_closed_def)
    then show ?thesis by (simp add: earlier_closed_def)
  qed simp
qed

lemma ordered_spawn:
  assumes "ordered d"
  shows "ordered (spawn_task bid g wire d)"
proof -
  let ?d = "spawn_task bid g wire d" and ?n = "length (d_tasks d)" and ?k = "conversation_key wire"
  have old: "d_tasks ?d ! j = d_tasks d ! j" if "j < ?n" for j
    using that by (simp add: spawn_task_def Let_def nth_append)
  have new: "d_tasks ?d ! ?n = \<lparr>tk_batch = bid, tk_generation = g, tk_wire = wire, tk_previous = d_tails d ?k,
      tk_phase = Waiting, tk_result = None\<rparr>"
    by (simp add: spawn_task_def Let_def)
  have len: "length (d_tasks ?d) = Suc ?n" by (simp add: spawn_task_def Let_def)
  have can: "d_cancelled ?d = d_cancelled d" and tails: "d_tails ?d = (d_tails d)(?k \<mapsto> ?n)"
    by (simp_all add: spawn_task_def Let_def)
  have dc: "done_closed ?d j = done_closed d j" if "j < ?n" for j
    using old [OF that] by (simp add: done_closed_def)
  have ec: "earlier_closed ?d j = earlier_closed d j" "earlier_succeeded ?d j = earlier_succeeded d j" if "j < ?n" for j
    using that old dc by (auto simp: earlier_closed_def earlier_succeeded_def)
  have tail: "tail_right ?d k" for k
  proof (cases "k = ?k")
    case True
    then show ?thesis by (simp add: tail_right_def tails len new)
  next
    case False
    have "task_key ?d j = k \<longleftrightarrow> j < ?n \<and> task_key d j = k" if "j < Suc ?n" for j
      using that False old new by (cases "j = ?n") (auto simp: less_Suc_eq)
    then show ?thesis
      using orderedD(1) [OF assms, of k] False dc old
      by (auto simp: tail_right_def tails len can less_Suc_eq split: option.splits)
  qed
  have prev: "previous_right ?d j" if "j < ?n" for j
    using orderedD(2) [OF assms that] that old ec by (auto simp: previous_right_def can split: option.splits)
  have "previous_right ?d ?n"
  proof (cases "d_tails d ?k")
    case None
    then have "d_cancelled d \<or> earlier_closed ?d ?n"
      using orderedD(1) [OF assms, of ?k] old dc by (auto simp: tail_right_def earlier_closed_def new)
    then show ?thesis by (simp add: previous_right_def new None can)
  next
    case (Some t)
    then show ?thesis
      using orderedD(1) [OF assms, of ?k] old by (auto simp: tail_right_def previous_right_def new)
  qed
  with tail prev show ?thesis
    using assms ec old unfolding ordered_def
    by (auto simp: len less_Suc_eq can new started_def)
qed

lemma ordered_step:
  assumes "dispatch_step E d d'" and "results_fit d" and "outcomes d" and "ordered d"
  shows "ordered d'"
  using assms(1)
proof (cases rule: dispatch_step_cases)
  case (task i)
  from task show ?thesis
  proof (cases rule: task_step.cases)
    case previous_done
    then show ?thesis
      using ordered_wait [OF assms(4), of i] by (auto intro!: ordered_task [OF assms(4)] simp: started_def)
  next
    case start
    have "earlier_closed d i"
      using orderedD(3) [OF assms(4), of i] start by simp
    then have "earlier_succeeded d i"
      using done_closed_not_cancelled [OF assms(3) start(3)] start(2)
      by (auto simp: earlier_succeeded_def earlier_closed_def)
    then show ?thesis
      using start by (auto intro!: ordered_task [OF assms(4)])
  next
    case (completes r executed)
    have "ordered (complete E (tk_batch (d_tasks d ! i)) r executed d)"
      by (rule ordered_cong [OF assms(4)]) (simp_all add: complete_cancelled)
    then show ?thesis
      unfolding completes(1) using completes(2)
      by (auto intro!: ordered_task [of "complete E (tk_batch (d_tasks d ! i)) r executed d" i] simp: started_def)
  next
    case unlink
    have "ordered (unlink_tail i d)" using ordered_unlink [OF assms(4) unlink(2)] .
    then show ?thesis
      unfolding unlink(1) using unlink(2)
      by (auto intro!: ordered_task [of "unlink_tail i d" i] simp: started_def simp del: unlink_frame(16))
  qed (auto intro!: ordered_task [OF assms(4)] simp: started_def)
next
  case submit
  then show ?thesis
  proof (cases rule: submit_step.cases)
    case (register batch)
    have "ordered (registered batch d)"
      by (rule ordered_cong [OF assms(4)]) (simp_all add: registered_def)
    moreover have "ordered (advance_cursor_locked E (registered batch d))"
      by (rule ordered_cong [OF assms(4)]) (simp_all add: registered_def advance_cancelled)
    ultimately show ?thesis using register_batch_registered register(1) by metis
  next
    case (spawn bid g wire ms)
    show ?thesis
      unfolding spawn(1) by (rule ordered_cong [OF ordered_spawn [OF assms(4)]]) simp_all
  qed (auto intro!: ordered_cong [OF assms(4)] simp: complete_cancelled)
next
  case other
  then show ?thesis by (cases rule: other_step.cases) (auto intro!: ordered_cong [OF assms(4)])
qed

subsection \<open>The cursor\<close>

text \<open>The cursor after some batches: that of the last one that has a cursor.\<close>

definition cursor_after :: "string \<Rightarrow> update_batch list \<Rightarrow> string" where
  "cursor_after c batches = fold (\<lambda>b c. if ub_cursor b = [] then c else ub_cursor b) batches c"

definition cursor_synced :: "os_env \<Rightarrow> bot \<Rightarrow> world \<Rightarrow> bool" where
  "cursor_synced E b w \<longleftrightarrow> valid_utf8 (cursor_get (b_cursor_store b)) \<and>
     read_cursor (snd (cursor_view E b w)) = Some (cursor_get (b_cursor_store b))"

lemma commit_cursor_spec:
  assumes "commit_cursor E c b w = (r, b', w')" and "cursor_synced E b w" and "valid_utf8 c"
  shows "cursor_synced E b' w'"
    and "cursor_get (b_cursor_store b') = (if r = None \<and> c \<noteq> [] then c else cursor_get (b_cursor_store b))"
proof -
  let ?cu = "b_cursor_store b"
  have "cursor_synced E b' w' \<and>
    cursor_get (b_cursor_store b') = (if r = None \<and> c \<noteq> [] then c else cursor_get (b_cursor_store b))"
  proof (cases "c \<noteq> [] \<and> c \<noteq> cursor_get ?cu")
    case True
    obtain x cu' w1 where set: "cursor_exec E (CuSet c) ?cu w = (x, cu', w1)" by (metis prod_cases3)
    with assms(1) True have res: "b' = b\<lparr>b_cursor_store := cu'\<rparr>" "w' = w1" "r = None \<longleftrightarrow> x = None"
      by (auto simp: commit_cursor_def)
    have "read_cursor (file_at w1 (resolve E (cu_path ?cu))) = Some (cu_buf cu')"
      using cursor_durable.exec_disk [OF set] assms(2,3)
      by (simp add: cursor_synced_def cursor_view_def cursor_get_def)
    moreover have "resolve E (cu_path cu') = resolve E (cu_path ?cu)"
      by (rule cursor_durable.exec_path [OF set])
    moreover have "cu_buf cu' = (if x = None then c else cu_buf ?cu)"
      using cursor_durable.exec_ok [of E "CuSet c" ?cu w cu' w1] cursor_durable.exec_err [of E "CuSet c" ?cu w _ cu' w1] set
      by (cases x) auto
    ultimately show ?thesis
      using assms(2,3) True by (auto simp: res cursor_synced_def cursor_view_def cursor_get_def)
  qed (use assms in \<open>auto simp: commit_cursor_def\<close>)
  then show "cursor_synced E b' w'"
    and "cursor_get (b_cursor_store b') = (if r = None \<and> c \<noteq> [] then c else cursor_get (b_cursor_store b))"
    by auto
qed

fun submit_valid :: "submitter \<Rightarrow> bool" where
  "submit_valid (WantSlot b) = valid_utf8 (ub_cursor b)"
| "submit_valid (HaveSlot b) = valid_utf8 (ub_cursor b)"
| "submit_valid _ = True"

text \<open>In memory and on disk the cursor is that of the batches committed so far.\<close>

definition cursor_right :: "os_env \<Rightarrow> string \<Rightarrow> dispatcher \<Rightarrow> bool" where
  "cursor_right E c d \<longleftrightarrow> cursor_synced E (d_bot d) (d_world d) \<and>
     cursor_get (b_cursor_store (d_bot d)) = cursor_after c (take (d_next_commit d) (d_submitted d)) \<and>
     (\<forall>b\<in>set (d_submitted d). valid_utf8 (ub_cursor b)) \<and> submit_valid (d_submit d)"

lemma cursor_right_cong:
  assumes "cursor_right E c d" and "cursor_view E (d_bot d') (d_world d') = cursor_view E (d_bot d) (d_world d)"
    and "d_next_commit d' = d_next_commit d" and "d_submitted d' = d_submitted d" and "submit_valid (d_submit d')"
  shows "cursor_right E c d'"
  using assms unfolding cursor_right_def cursor_synced_def cursor_view_def by auto

lemma cursor_right_advance: "books d \<Longrightarrow> cursor_right E c d \<Longrightarrow> cursor_right E c (advance_cursor_locked E d)"
proof (rule advance_preserves_books [of _ "cursor_right E c"])
  fix d st b w
  assume d: "books d" "cursor_right E c d" "map_of (d_batches d) (d_next_commit d) = Some st"
    "commit_cursor E (bs_cursor st) (d_bot d) (d_world d) = (None, b, w)"
  have "d_next_commit d \<in> fst ` set (d_batches d)" using d(3) by (metis map_of_eq_None_iff not_None_eq)
  then have less: "d_next_commit d < length (d_submitted d)" using booksD(2,4) [OF d(1)] by simp
  have cur: "bs_cursor st = ub_cursor (d_submitted d ! d_next_commit d)"
    using booksD(7) [OF d(1,3)] by (simp add: entry_right_def)
  have "valid_utf8 (bs_cursor st)" using d(2) less by (simp add: cur cursor_right_def)
  note spec = commit_cursor_spec [OF d(4) _ this]
  show "cursor_right E c (advance_commit b w d)"
    using d(2) spec less cur
    by (auto simp: cursor_right_def advance_commit_def take_Suc_conv_app_nth cursor_after_def)
next
  fix d st b w e
  assume d: "books d" "cursor_right E c d" "map_of (d_batches d) (d_next_commit d) = Some st"
    "commit_cursor E (bs_cursor st) (d_bot d) (d_world d) = (Some e, b, w)"
  have "d_next_commit d \<in> fst ` set (d_batches d)" using d(3) by (metis map_of_eq_None_iff not_None_eq)
  then have less: "d_next_commit d < length (d_submitted d)" using booksD(2,4) [OF d(1)] by simp
  have cur: "bs_cursor st = ub_cursor (d_submitted d ! d_next_commit d)"
    using booksD(7) [OF d(1,3)] by (simp add: entry_right_def)
  have "valid_utf8 (bs_cursor st)" using d(2) less by (simp add: cur cursor_right_def)
  note spec = commit_cursor_spec [OF d(4) _ this]
  show "cursor_right E c (advance_fail e st b w d)"
    using d(2) spec by (auto simp: cursor_right_def advance_fail_def)
qed

lemma cursor_right_step:
  assumes "dispatch_step E d d'" and "results_fit d" and "books d" and "cursor_right E c d"
  shows "cursor_right E c d'"
  using assms(1)
proof (cases rule: dispatch_step_cases)
  case (task i)
  then show ?thesis
  proof (cases rule: task_step.cases)
    case (completes r executed)
    have "cursor_right E c (complete_mark bid st r executed (set_phase i Closing d))" for bid st
      by (rule cursor_right_cong [OF assms(4)]) (use assms(4) in \<open>simp_all add: cursor_right_def\<close>)
    then show ?thesis
      unfolding completes(1)
      by (intro completes_preserves [of d i r executed "cursor_right E c", OF assms(3) completes(2) assms(2)]
          cursor_right_advance)
  qed (use assms(4) in \<open>auto intro!: cursor_right_cong [OF assms(4)] simp: cursor_right_def [of E c d]\<close>)
next
  case submit
  have valid: "submit_valid (d_submit d)" using assms(4) by (simp add: cursor_right_def)
  from submit show ?thesis
  proof (cases rule: submit_step.cases)
    case (undecodable bid g e ms)
    have "cursor_right E c (complete_mark bid st (Some e) True (d\<lparr>d_submit := Unscheduling bid (length ms)\<rparr>))" for st
      by (rule cursor_right_cong [OF assms(4)]) simp_all
    then show ?thesis
      unfolding undecodable(1)
      by (intro undecodable_preserves [of d bid g "Inl e" ms "cursor_right E c", OF assms(3) undecodable(2)]
          cursor_right_advance)
  next
    case (register batch)
    have "cursor_right E c (registered batch d)"
      using assms(4) valid register(2) booksD(3,4) [OF assms(3)] by (auto simp: cursor_right_def registered_def)
    then show ?thesis
      unfolding register(1)
      by (intro register_preserves [of d batch "cursor_right E c", OF assms(3) register(2)] cursor_right_advance)
  qed (use valid in \<open>auto intro!: cursor_right_cong [OF assms(4)] simp: spawn_task_def Let_def\<close>)
next
  case other
  then show ?thesis
    using assms(4)
    by (cases rule: other_step.cases) (auto intro!: cursor_right_cong [OF assms(4)] simp: cursor_right_def [of E c d])
qed

subsection \<open>The queue of batches moves\<close>

text \<open>As long as nothing is cancelled no batch is marked as failed and the oldest one waits for a
  message; and a dispatcher that returned has drained.\<close>

definition flowing :: "dispatcher \<Rightarrow> bool" where
  "flowing d \<longleftrightarrow> d_cancelled d \<or>
     (\<forall>bid st. map_of (d_batches d) bid = Some st \<longrightarrow>
        \<not> bs_failed st \<and> (bid = d_next_commit d \<longrightarrow> bs_remaining st \<noteq> 0))"

definition not_failed :: "dispatcher \<Rightarrow> bool" where
  "not_failed d \<longleftrightarrow> d_cancelled d \<or> (\<forall>bid st. map_of (d_batches d) bid = Some st \<longrightarrow> \<not> bs_failed st)"

lemma flowing_not_failed: "flowing d \<Longrightarrow> not_failed d"
  by (auto simp: flowing_def not_failed_def)

lemma advance_flowing: "outcomes d \<Longrightarrow> not_failed d \<Longrightarrow> flowing (advance_cursor_locked E d)"
proof (induction "length (d_batches d)" arbitrary: d rule: less_induct)
  case less
  show ?case
  proof (cases "d_cancelled d")
    case True
    then show ?thesis by (simp add: flowing_def advance_cancelled)
  next
    case False
    show ?thesis
    proof (cases "map_of (d_batches d) (d_next_commit d)")
      case None
      then show ?thesis
        using less.prems False by (subst advance_unfold) (auto simp: flowing_def not_failed_def)
    next
      case (Some st)
      obtain r b w where c: "commit_cursor E (bs_cursor st) (d_bot d) (d_world d) = (r, b, w)" by (metis prod_cases3)
      have "flowing (advance_fail e st b w d)" for e
        using outcomesD(1) [OF less.prems(1)] False
        by (auto simp: flowing_def advance_fail_def record_failure_locked_def)
      moreover have "flowing (advance_cursor_locked E (advance_commit b w d))"
      proof (rule less.hyps)
        show "length (d_batches (advance_commit b w d)) < length (d_batches d)"
          using length_delete_less [OF Some] by (simp add: advance_commit_def)
        show "outcomes (advance_commit b w d)"
          by (rule outcomes_mono [OF less.prems(1)])
            (use outcomesD [OF less.prems(1)] in \<open>auto simp: advance_commit_def\<close>)
        show "not_failed (advance_commit b w d)"
          using less.prems(2) by (auto simp: not_failed_def advance_commit_def delete_conv' split: if_splits)
      qed
      moreover have "flowing d" if "bs_remaining st \<noteq> 0 \<or> bs_failed st"
        using that less.prems False Some by (auto simp: flowing_def not_failed_def)
      ultimately show ?thesis
        using c Some by (subst advance_unfold) (auto split: option.split)
    qed
  qed
qed

lemma flowing_cong:
  assumes "flowing d" and "d_batches d' = d_batches d" and "d_next_commit d' = d_next_commit d"
    and "d_cancelled d \<Longrightarrow> d_cancelled d'"
  shows "flowing d'"
  using assms unfolding flowing_def by auto

text \<open>\<open>complete\<close> marks a batch as failed only when it cancels or cancellation went before.\<close>

lemma complete_flowing:
  assumes "flowing d" and "map_of (d_batches d) bid = Some st"
    and "r \<noteq> None \<Longrightarrow> x \<or> d_cancelled d" and "outcomes (complete_mark bid st r x d)"
    and "bs_remaining st \<noteq> 0"
  shows "flowing (complete E bid r x d)"
proof (cases "d_cancelled d")
  case True
  then show ?thesis by (simp add: flowing_def complete_cancelled)
next
  case False
  let ?m = "complete_mark bid st r x d"
  have cancels: "d_cancelled ?m" if "r \<noteq> None"
    using that assms(3,4) False outcomesD(1) [OF assms(4)]
    by (auto simp: complete_mark_def Let_def record_failure_locked_def split: option.splits if_splits)
  then have nf: "not_failed ?m"
    using assms(1,2) False by (auto simp: not_failed_def flowing_def update_conv' split: if_splits)
  show ?thesis
  proof (cases "bs_remaining st = 1 \<and> r = None")
    case True
    then have "complete E bid r x d = advance_cursor_locked E ?m"
      using assms(1,2) False by (simp add: complete_def complete_mark_def Let_def flowing_def)
    with advance_flowing [OF assms(4) nf] show ?thesis by simp
  next
    case other: False
    then have "complete E bid r x d = ?m"
      using assms(2,5) by (auto simp: complete_def complete_mark_def Let_def split: option.split)
    then show ?thesis
      using other nf assms(1,2,5) False cancels
      by (auto simp: flowing_def not_failed_def update_conv' split: if_splits)
  qed
qed

lemma flowing_step:
  assumes "dispatch_step E d d'" and "results_fit d" and "books d" and "outcomes d" and "flowing d"
  shows "flowing d'"
  using assms(1)
proof (cases rule: dispatch_step_cases)
  case (task i)
  then show ?thesis
  proof (cases rule: task_step.cases)
    case (completes r executed)
    let ?bid = "tk_batch (d_tasks d ! i)"
    obtain st where st: "map_of (d_batches d) ?bid = Some st" "bs_remaining st \<noteq> 0"
      by (rule books_mark_task [OF assms(3) completes(2) assms(2)])
    have "flowing (complete E ?bid r executed (set_phase i Closing d))"
    proof (rule complete_flowing)
      show "flowing (set_phase i Closing d)" by (rule flowing_cong [OF assms(5)]) simp_all
      show "executed \<or> d_cancelled (set_phase i Closing d)" if "r \<noteq> None"
        using outcomesD(3) [OF assms(4), of i] completes(2)
        by (cases executed) (auto simp: outcome_known_def)
      show "outcomes (complete_mark ?bid st r executed (set_phase i Closing d))"
        by (rule outcomes_mark_task [OF assms(4) completes(2) assms(2)])
    qed (use st in simp_all)
    then show ?thesis by (simp add: completes(1) set_phase_def complete_commute)
  qed (auto intro!: flowing_cong [OF assms(5)])
next
  case submit
  then show ?thesis
  proof (cases rule: submit_step.cases)
    case (undecodable bid g e ms)
    let ?d = "d\<lparr>d_submit := Unscheduling bid (length ms)\<rparr>"
    obtain st where st: "map_of (d_batches d) bid = Some st" "bs_remaining st \<noteq> 0"
      by (rule books_mark_undecodable [OF assms(3) undecodable(2)])
    have "flowing (complete E bid (Some e) True ?d)"
    proof (rule complete_flowing)
      show "outcomes (complete_mark bid st (Some e) True ?d)"
        by (rule outcomes_mono [OF assms(4)])
          (use outcomesD [OF assms(4)] in \<open>auto simp: complete_mark_def Let_def record_failure_locked_def\<close>)
    qed (use st in \<open>auto intro!: flowing_cong [OF assms(5)]\<close>)
    then show ?thesis by (simp add: undecodable(1) complete_commute)
  next
    case (register batch)
    have dom: "d_next_batch d \<notin> fst ` set (d_batches d)" using booksD(2) [OF assms(3)] by simp
    have oc: "outcomes (registered batch d)"
      by (rule outcomes_mono [OF assms(4)]) (use outcomesD [OF assms(4)] in \<open>auto simp: registered_def\<close>)
    have nf: "not_failed (registered batch d)"
      using assms(5) by (auto simp: not_failed_def flowing_def registered_def update_conv' split: if_splits)
    have "flowing (registered batch d)" if "ub_messages batch \<noteq> []"
      using that assms(5) by (auto simp: flowing_def registered_def update_conv' split: if_splits)
    then show ?thesis
      using advance_flowing [OF oc nf, of E]
      by (cases "ub_messages batch = []") (simp_all add: register(1) register_batch_def registered_def Let_def)
  next
    case (unschedule bid n)
    then show ?thesis using outcomesD(4) [OF assms(4)] by (simp add: flowing_def)
  qed (auto intro!: flowing_cong [OF assms(5)] simp: spawn_task_def Let_def)
next
  case other
  then show ?thesis by (cases rule: other_step.cases) (auto intro!: flowing_cong [OF assms(5)])
qed

definition drained_right :: "dispatcher \<Rightarrow> bool" where
  "drained_right d \<longleftrightarrow> (\<forall>r. d_submit d = Returned r \<longrightarrow>
     r = d_first_error d \<and> (\<forall>t\<in>set (d_tasks d). tk_phase t = Finished))"

lemma drained_step:
  assumes "dispatch_step E d d'" and "drained_right d"
  shows "drained_right d'"
  using assms(1)
proof (cases rule: dispatch_step_cases)
  case (task i)
  show ?thesis
  proof (cases "\<exists>r. d_submit d = Returned r")
    case True
    with assms(2) have "\<forall>t\<in>set (d_tasks d). tk_phase t = Finished" by (auto simp: drained_right_def)
    with task show ?thesis by (auto elim!: task_step.cases dest!: nth_mem)
  next
    case False
    have "d_submit d' = d_submit d" using task by (cases rule: task_step.cases) simp_all
    with False show ?thesis by (simp add: drained_right_def)
  qed
next
  case submit
  then show ?thesis
    by (cases rule: submit_step.cases)
      (auto simp: drained_right_def register_batch_def spawn_task_def Let_def)
next
  case other
  then show ?thesis using assms(2) by (cases rule: other_step.cases) (auto simp: drained_right_def)
qed

subsection \<open>All invariants together\<close>

definition dispatcher_inv :: "os_env \<Rightarrow> string \<Rightarrow> dispatcher \<Rightarrow> bool" where
  "dispatcher_inv E c d \<longleftrightarrow> results_fit d \<and> books d \<and> capacity d \<and> outcomes d \<and> ordered d \<and>
     cursor_right E c d \<and> flowing d \<and> drained_right d"

interpretation dispatch: transition_invariant "dispatch_step E" "dispatcher_inv E c" for E c
proof
  fix d d'
  assume step: "dispatch_step E d d'" and inv: "dispatcher_inv E c d"
  then show "dispatcher_inv E c d'"
    unfolding dispatcher_inv_def
    using results_fit_step [OF step] books_step [OF step] capacity_step [OF step] outcomes_step [OF step]
      ordered_step [OF step] cursor_right_step [OF step] flowing_step [OF step] drained_step [OF step]
    by blast
qed

lemma new_dispatcher_inv:
  assumes "cursor_synced E b w"
  shows "dispatcher_inv E (cursor_get (b_cursor_store b)) (new_keyed_dispatcher cancelled n b w)"
  using assms handler_cap_bounds [of n]
  by (auto simp: dispatcher_inv_def new_keyed_dispatcher_def results_fit_def books_def capacity_def outcomes_def
      ordered_def cursor_right_def flowing_def drained_right_def tail_right_def cursor_after_def
      active_in_def live_in_def)

lemma dispatch_run_inv:
  assumes "dispatch_run E (new_keyed_dispatcher cancelled n b w) d" and "cursor_synced E b w"
  shows "dispatcher_inv E (cursor_get (b_cursor_store b)) d"
  using dispatch.reachable [OF assms(1) [unfolded dispatch_run_def] new_dispatcher_inv [OF assms(2)]] .

lemma cap_step: "dispatch_step E d d' \<Longrightarrow> d_cap d' = d_cap d"
  by (auto elim!: dispatch_step_cases task_step.cases submit_step.cases other_step.cases
      simp: register_batch_def spawn_task_def Let_def)

interpretation cap: transition_invariant "dispatch_step E" "\<lambda>d. d_cap d = n" for E n
  by unfold_locales (simp add: cap_step)

end
