(* ===== verification/DispatchProps.thy ===== *)
theory DispatchProps
  imports DispatchOrder
begin

section \<open>The keyed dispatcher: properties\<close>

text \<open>
  Progress, termination of a drain, and the properties of the dispatcher over all its runs,
  with a run of one batch through it as the witness.
\<close>

subsection \<open>Progress\<close>

text \<open>The oldest task that is not finished can step, or the task that has its place.\<close>

lemma some_task_steps:
  assumes "capacity d" and "ordered d" and "\<exists>t\<in>set (d_tasks d). tk_phase t \<noteq> Finished"
  shows "\<exists>i d'. task_step E i d d'"
proof -
  let ?live = "\<lambda>i. i < length (d_tasks d) \<and> tk_phase (d_tasks d ! i) \<noteq> Finished"
  from assms(3) obtain k where "?live k" by (metis in_set_conv_nth)
  define i where "i = (LEAST i. ?live i)"
  have i: "?live i" unfolding i_def using \<open>?live k\<close> by (rule LeastI)
  have least: "tk_phase (d_tasks d ! j) = Finished" if "j < i" for j
    using not_less_Least [of j ?live] that i unfolding i_def by (meson less_trans)
  have holder: "\<exists>j d'. task_step E j d d'" if "j < length (d_tasks d)" "holds_active (tk_phase (d_tasks d ! j))" for j
  proof (cases "tk_phase (d_tasks d ! j)")
    case Acquired
    with that(1) show ?thesis
      by (cases "d_cancelled d") (blast intro: task_step.acquired_cancelled task_step.start)+
  next
    case Running
    with that(1) show ?thesis by (blast intro: task_step.returns)
  next
    case (Ran r)
    with that(1) show ?thesis by (blast intro: task_step.release)
  qed (use that(2) in simp_all)
  show ?thesis
  proof (cases "tk_phase (d_tasks d ! i)")
    case Waiting
    have "case tk_previous (d_tasks d ! i) of None \<Rightarrow> True | Some p \<Rightarrow> done_closed d p"
      using orderedD(2) [OF assms(2), of i] i least
      by (auto simp: previous_right_def done_closed_def split: option.split)
    with i Waiting show ?thesis by (blast intro: task_step.previous_done)
  next
    case Checking
    with i show ?thesis
      by (cases "d_cancelled d") (blast intro: task_step.check_cancelled task_step.check_ok)+
  next
    case Acquiring
    show ?thesis
    proof (cases "d_active d < d_cap d")
      case True
      with i Acquiring show ?thesis by (blast intro: task_step.acquire)
    next
      case False
      with assms(1) have "0 < active_in (d_tasks d)" by (auto simp: capacity_def)
      then obtain t where "t \<in> set (d_tasks d)" "holds_active (tk_phase t)"
        by (auto simp: active_in_def filter_empty_conv)
      then show ?thesis using holder by (metis in_set_conv_nth)
    qed
  next
    case (Completing r x)
    with i show ?thesis by (blast intro: task_step.completes)
  next
    case Closing
    with i show ?thesis by (blast intro: task_step.close_done)
  next
    case Unlinking
    with i show ?thesis by (blast intro: task_step.unlink)
  next
    case Releasing
    with i show ?thesis by (blast intro: task_step.release_pending)
  qed (use i holder [of i] in simp_all)
qed

lemma full_queue_live:
  assumes "books d" and "capacity d" and "flowing d" and "\<not> d_cancelled d" and "d_batches d \<noteq> []"
    and "\<forall>bid. unsent (d_submit d) bid = 0"
  shows "\<exists>t\<in>set (d_tasks d). tk_phase t \<noteq> Finished"
proof -
  have "d_next_commit d < d_next_batch d"
  proof -
    obtain x where "x \<in> set (d_batches d)" using assms(5) by (cases "d_batches d") auto
    then have "fst x \<in> {d_next_commit d..<d_next_batch d}" using booksD(2) [OF assms(1)] by blast
    then show ?thesis by simp
  qed
  then have "d_next_commit d \<in> fst ` set (d_batches d)" using booksD(2) [OF assms(1)] by simp
  then obtain st where st: "map_of (d_batches d) (d_next_commit d) = Some st"
    by (metis (no_types, opaque_lifting) map_of_eq_None_iff not_None_eq)
  then have "bs_remaining st \<noteq> 0" using assms(3,4) by (auto simp: flowing_def)
  then have "0 < progress_in (d_tasks d) (d_next_commit d)"
    using booksD(7) [OF assms(1) st] assms(6) by (simp add: entry_right_def)
  then obtain t where "t \<in> set (d_tasks d)" "in_progress (tk_phase t)"
    by (auto simp: progress_in_def filter_empty_conv)
  then show ?thesis by (metis in_progress.simps(4))
qed

lemma never_stuck:
  assumes "dispatch_run E (new_keyed_dispatcher cancelled n b w) d" and "cursor_synced E b w"
    and "d_submit d \<noteq> Idle" and "\<forall>r. d_submit d \<noteq> Returned r"
  shows "\<exists>d'. submit_step E d d' \<or> (\<exists>i. task_step E i d d')"
proof -
  have I: "books d" "capacity d" "ordered d" "flowing d"
    using dispatch_run_inv [OF assms(1,2)] by (auto simp: dispatcher_inv_def)
  have live: "\<exists>d'. submit_step E d d' \<or> (\<exists>i. task_step E i d d')"
    if "\<exists>t\<in>set (d_tasks d). tk_phase t \<noteq> Finished"
    using some_task_steps [OF I(2,3) that] by blast
  show ?thesis
  proof (cases "d_submit d")
    case (WantSlot batch)
    show ?thesis
    proof (cases "d_cancelled d \<or> d_slots d < update_queue_capacity")
      case True
      with WantSlot show ?thesis by (blast intro: submit_step.slot_cancelled submit_step.take_slot)
    next
      case False
      then have "d_batches d \<noteq> []" using I(2) WantSlot by (auto simp: capacity_def update_queue_capacity_def)
      from full_queue_live [OF I(1,2,4) _ this] False WantSlot show ?thesis by (intro live) simp
    qed
  next
    case (HaveSlot batch)
    then show ?thesis
      by (cases "d_cancelled d") (blast intro: submit_step.give_slot_back submit_step.register)+
  next
    case (Sending bid g ms)
    show ?thesis
    proof (cases ms)
      case Nil
      with Sending show ?thesis by (blast intro: submit_step.submitted)
    next
      case (Cons m ms')
      with Sending show ?thesis
        by (cases "d_cancelled d"; cases m)
          (blast intro: submit_step.send_cancelled submit_step.undecodable submit_step.decoded)+
    qed
  next
    case (WantPending bid g wire ms)
    show ?thesis
    proof (cases "d_cancelled d \<or> d_pending d < d_cap d * update_queue_capacity")
      case True
      with WantPending show ?thesis by (blast intro: submit_step.pending_cancelled submit_step.take_pending)
    next
      case False
      then have "0 < live_in (d_tasks d)"
        using I(2) WantPending by (auto simp: capacity_def update_queue_capacity_def)
      then show ?thesis by (intro live) (auto simp: live_in_def filter_empty_conv)
    qed
  next
    case Draining
    then show ?thesis
      by (cases "\<forall>t\<in>set (d_tasks d). tk_phase t = Finished") (use live in \<open>blast intro: submit_step.drained\<close>)+
  qed (use assms(3,4) in \<open>blast intro: submit_step.spawn submit_step.unschedule submit_step.wait_stopped\<close>)+
qed

text \<open>C14: the dispatcher never gets stuck.  In every reachable state in which it has not returned
  and is not waiting for the next batch, a goroutine of it can take a step: no interleaving of
  conversations, full semaphores, cancellations and failures ends in a deadlock.\<close>

theorem dispatcher_never_stuck:
  assumes "dispatch_run E (new_keyed_dispatcher cancelled n b w) d" and "cursor_synced E b w"
    and "d_submit d \<noteq> Idle" and "\<forall>r. d_submit d \<noteq> Returned r"
  shows "\<exists>d'. submit_step E d d' \<or> (\<exists>i. task_step E i d d')"
  using assms by (rule never_stuck)

subsection \<open>Termination\<close>

text \<open>How far a task is from its end.\<close>

fun phase_rank :: "phase \<Rightarrow> nat" where
  "phase_rank Waiting = 10"
| "phase_rank Checking = 9"
| "phase_rank Acquiring = 8"
| "phase_rank Acquired = 7"
| "phase_rank Running = 6"
| "phase_rank (Ran r) = 5"
| "phase_rank (Completing r x) = 4"
| "phase_rank Closing = 3"
| "phase_rank Unlinking = 2"
| "phase_rank Releasing = 1"
| "phase_rank Finished = 0"

definition work_left :: "dispatcher \<Rightarrow> nat" where
  "work_left d = (\<Sum>t\<leftarrow>d_tasks d. phase_rank (tk_phase t))"

lemma task_step_live:
  "task_step E i d d' \<Longrightarrow> i < length (d_tasks d) \<and> tk_phase (d_tasks d ! i) \<noteq> Finished \<and> d_submit d' = d_submit d"
  by (auto elim!: task_step.cases)

text \<open>\<open>own_steps E d n d'\<close>: \<open>n\<close> steps of the dispatcher's goroutines, and any number of steps of
  the rest of the program between them.\<close>

inductive own_steps :: "os_env \<Rightarrow> dispatcher \<Rightarrow> nat \<Rightarrow> dispatcher \<Rightarrow> bool" for E d where
  none: "own_steps E d 0 d"
| own: "own_steps E d n d' \<Longrightarrow> submit_step E d' d'' \<or> (\<exists>i. task_step E i d' d'') \<Longrightarrow> own_steps E d (Suc n) d''"
| others: "own_steps E d n d' \<Longrightarrow> other_step E d' d'' \<Longrightarrow> own_steps E d n d''"

lemma own_steps_run: "own_steps E d n d' \<Longrightarrow> dispatch_run E e d \<Longrightarrow> dispatch_run E e d'"
  unfolding dispatch_run_def
  by (induction rule: own_steps.induct) (auto intro: rtranclp.rtrancl_into_rtrancl dispatch_step.intros)

lemma sum_list_update_less:
  fixes f :: "'a \<Rightarrow> nat"
  shows "i < length xs \<Longrightarrow> f y < f (xs ! i) \<Longrightarrow> (\<Sum>x\<leftarrow>xs[i := y]. f x) < (\<Sum>x\<leftarrow>xs. f x)"
  by (induction xs arbitrary: i) (auto split: nat.split)

lemma task_step_work: "task_step E i d d' \<Longrightarrow> work_left d' < work_left d"
  unfolding work_left_def
  by (cases rule: task_step.cases, assumption) (auto intro!: sum_list_update_less)

text \<open>C15: a dispatcher that drains returns.  Once the dispatcher waits for its tasks, its goroutines
  can take only as many steps as the tasks have phases left, plus one, whatever the rest of
  the program does meanwhile; and until it has returned a step is possible.\<close>

theorem drain_terminates:
  assumes "dispatch_run E (new_keyed_dispatcher cancelled k b w) d" and "cursor_synced E b w"
    and "d_submit d = Draining" and "own_steps E d n d'"
  shows "n \<le> Suc (work_left d) \<and>
    ((\<exists>r. d_submit d' = Returned r) \<or> (\<exists>d''. submit_step E d' d'' \<or> (\<exists>i. task_step E i d' d'')))"
proof
  have "(d_submit d' = Draining \<and> n + work_left d' \<le> work_left d) \<or>
      ((\<exists>r. d_submit d' = Returned r) \<and> (\<forall>t\<in>set (d_tasks d'). tk_phase t = Finished) \<and> n \<le> Suc (work_left d))"
    using assms(4)
  proof (induction rule: own_steps.induct)
    case none
    then show ?case using assms(3) by simp
  next
    case (own n d1 d2)
    have sub: "d_submit d2 = d_submit d1" "work_left d2 < work_left d1"
      "\<not> (\<forall>t\<in>set (d_tasks d1). tk_phase t = Finished)" if "task_step E i d1 d2" for i
      using task_step_work [OF that] task_step_live [OF that] nth_mem by blast+
    show ?case
    proof (cases "submit_step E d1 d2")
      case True
      then show ?thesis using own.IH by (cases rule: submit_step.cases) auto
    next
      case False
      with own.hyps(2) obtain i where "task_step E i d1 d2" by blast
      with sub own.IH show ?thesis by fastforce
    qed
  next
    case (others n d1 d2)
    from others.hyps(2) others.IH show ?case by (cases rule: other_step.cases) (auto simp: work_left_def)
  qed
  then show "n \<le> Suc (work_left d)"
    and "(\<exists>r. d_submit d' = Returned r) \<or> (\<exists>d''. submit_step E d' d'' \<or> (\<exists>i. task_step E i d' d''))"
    using never_stuck [OF own_steps_run [OF assms(4,1)] assms(2)] by auto
qed

subsection \<open>Safety\<close>

text \<open>C9: a conversation is handled in order, one message at a time, and not past a failure.  When
  the handler runs for a message, every message of the same conversation that arrived before
  it has been handled with success and its delivery is finished; so two handlers never run
  for one conversation, under any interleaving and any cancellation.\<close>

theorem conversation_in_order:
  assumes "dispatch_run E (new_keyed_dispatcher cancelled n b w) d" and "cursor_synced E b w"
    and "i < j" and "j < length (d_tasks d)"
    and "conversation_key (tk_wire (d_tasks d ! i)) = conversation_key (tk_wire (d_tasks d ! j))"
    and "tk_phase (d_tasks d ! j) = Running \<or> tk_result (d_tasks d ! j) \<noteq> None"
  shows "tk_result (d_tasks d ! i) = Some None \<and> tk_phase (d_tasks d ! i) \<in> {Unlinking, Releasing, Finished}"
proof -
  have "ordered d" using dispatch_run_inv [OF assms(1,2)] by (simp add: dispatcher_inv_def)
  from orderedD(4) [OF this assms(4)] assms(6) have "earlier_succeeded d j" by (simp add: started_def)
  with assms(3,5) have "done_closed d i" "tk_result (d_tasks d ! i) = Some None"
    by (auto simp: earlier_succeeded_def)
  then show ?thesis by (cases "tk_phase (d_tasks d ! i)") (simp_all add: done_closed_def)
qed

text \<open>C17: the dispatcher's resources are bounded.  At any moment at most \<open>MaxConcurrentHandlers\<close>
  handlers run (4 when it is not set, never more than 256), at most sixteen times as many
  messages are in flight, and at most sixteen batches are uncommitted.\<close>

theorem dispatcher_bounded:
  assumes "dispatch_run E (new_keyed_dispatcher cancelled n b w) d" and "cursor_synced E b w"
  shows "length (filter (\<lambda>t. tk_phase t = Running) (d_tasks d)) \<le> handler_cap n \<and>
    length (filter (\<lambda>t. tk_phase t \<noteq> Finished) (d_tasks d)) \<le> 16 * handler_cap n \<and>
    length (d_batches d) \<le> 16 \<and> 1 \<le> handler_cap n \<and> handler_cap n \<le> 256"
proof -
  have inv: "capacity d" using dispatch_run_inv [OF assms] by (simp add: dispatcher_inv_def)
  have cap: "d_cap d = handler_cap n"
    using cap.reachable [OF assms(1) [unfolded dispatch_run_def]] by (simp add: new_keyed_dispatcher_def)
  have "length (filter (\<lambda>t. tk_phase t = Running) ts) \<le> active_in ts" for ts
    unfolding active_in_def by (induction ts) auto
  with inv cap show ?thesis
    using handler_cap_bounds [of n] order_trans
    by (fastforce simp: capacity_def live_in_def update_queue_capacity_def)
qed

text \<open>C10: the cursor never runs ahead of the messages.  In every reachable state the cursor in
  memory and the cursor read from its file are both the one after the batches committed so far,
  neither more nor less; every message of these
  batches was decoded, handed to the handler and handled with success, and its delivery is
  accounted for, also when messages of later batches are finished already.\<close>

theorem cursor_never_ahead:
  assumes "dispatch_run E (new_keyed_dispatcher cancelled n b w) d" and "cursor_synced E b w"
  shows "cursor_get (b_cursor_store (d_bot d)) =
      cursor_after (cursor_get (b_cursor_store b)) (take (d_next_commit d) (d_submitted d)) \<and>
    read_cursor (snd (cursor_view E (d_bot d) (d_world d))) =
      Some (cursor_after (cursor_get (b_cursor_store b)) (take (d_next_commit d) (d_submitted d))) \<and>
    (\<forall>bid<d_next_commit d.
       length (filter (\<lambda>t. tk_batch t = bid) (d_tasks d)) = length (ub_messages (d_submitted d ! bid)) \<and>
       (\<forall>t\<in>set (d_tasks d). tk_batch t = bid \<longrightarrow> tk_result t = Some None \<and> \<not> in_progress (tk_phase t)))"
proof (intro conjI allI impI)
  have inv: "books d" "cursor_right E (cursor_get (b_cursor_store b)) d"
    using dispatch_run_inv [OF assms] by (auto simp: dispatcher_inv_def)
  then show "cursor_get (b_cursor_store (d_bot d)) =
      cursor_after (cursor_get (b_cursor_store b)) (take (d_next_commit d) (d_submitted d))"
    by (simp add: cursor_right_def)
  with inv(2) show "read_cursor (snd (cursor_view E (d_bot d) (d_world d))) =
      Some (cursor_after (cursor_get (b_cursor_store b)) (take (d_next_commit d) (d_submitted d)))"
    by (simp add: cursor_right_def cursor_synced_def)
  fix bid
  assume "bid < d_next_commit d"
  then have h: "handled d bid" by (rule booksD(8) [OF inv(1)])
  then show "length (filter (\<lambda>t. tk_batch t = bid) (d_tasks d)) = length (ub_messages (d_submitted d ! bid))"
    by (simp add: handled_def spawned_in_def)
  show "\<forall>t\<in>set (d_tasks d). tk_batch t = bid \<longrightarrow> tk_result t = Some None \<and> \<not> in_progress (tk_phase t)"
    using h by (auto simp: handled_def all_succeeded_def progress_in_def filter_empty_conv)
qed

text \<open>C16: what \<open>wait\<close> and \<open>drain\<close> return is the truth.  When the dispatcher returns, no delivery is
  in flight; if any handler failed an error is returned; and if none is returned and nothing
  was cancelled, every batch that was submitted has been committed.\<close>

theorem dispatcher_returns_truth:
  assumes "dispatch_run E (new_keyed_dispatcher cancelled n b w) d" and "cursor_synced E b w"
    and "d_submit d = Returned r"
  shows "(\<forall>t\<in>set (d_tasks d). tk_phase t = Finished) \<and>
    (r = None \<longrightarrow> (\<forall>t\<in>set (d_tasks d). tk_result t \<in> {None, Some None})) \<and>
    (\<not> d_cancelled d \<longrightarrow> r = None \<and> d_next_commit d = length (d_submitted d) \<and>
       (\<forall>t\<in>set (d_tasks d). tk_result t = Some None))"
proof -
  have I: "books d" "outcomes d" "flowing d" "drained_right d" "capacity d"
    using dispatch_run_inv [OF assms(1,2)] by (auto simp: dispatcher_inv_def)
  have fin: "\<forall>t\<in>set (d_tasks d). tk_phase t = Finished" and r: "r = d_first_error d"
    using I(4) assms(3) by (auto simp: drained_right_def)
  have known: "outcome_known d t" if "t \<in> set (d_tasks d)" for t
    using that I(2) by (simp add: outcomes_def)
  have "tk_result t \<in> {None, Some None}" if "r = None" "t \<in> set (d_tasks d)" for t
    using known [OF that(2)] fin that r by (cases "tk_result t") (auto simp: outcome_known_def)
  moreover have "r = None \<and> d_next_commit d = length (d_submitted d) \<and>
      (\<forall>t\<in>set (d_tasks d). tk_result t = Some None)" if "\<not> d_cancelled d"
  proof (intro conjI)
    show "r = None" using that r outcomesD(1) [OF I(2)] by blast
    show "\<forall>t\<in>set (d_tasks d). tk_result t = Some None"
      using known fin that by (auto simp: outcome_known_def)
    have "d_batches d = []"
      using full_queue_live [OF I(1,5,3) that] fin assms(3) by auto
    then have "{d_next_commit d..<d_next_batch d} = {}"
      using booksD(2) [OF I(1)] by simp
    then show "d_next_commit d = length (d_submitted d)"
      using booksD(3,4) [OF I(1)] by simp
  qed
  ultimately show ?thesis using fin by blast
qed

subsection \<open>A sample run\<close>

text \<open>A task that runs without interruption, from its wait to its end.\<close>

definition handle_task :: "os_env \<Rightarrow> nat \<Rightarrow> dispatcher \<Rightarrow> dispatcher" where
  "handle_task E i d0 =
     (let d1 = set_phase i Checking d0;
          d2 = set_phase i Acquiring d1;
          d3 = set_phase i Acquired (d2\<lparr>d_active := Suc (d_active d2)\<rparr>);
          d4 = set_phase i Running d3;
          d5 = set_ran i None d4;
          d6 = set_phase i (Completing None True) (d5\<lparr>d_active := d_active d5 - 1\<rparr>);
          d7 = set_phase i Closing (complete E (tk_batch (d_tasks d6 ! i)) None True d6);
          d8 = set_phase i Unlinking d7;
          d9 = set_phase i Releasing (unlink_tail i d8)
      in set_phase i Finished (d9\<lparr>d_pending := d_pending d9 - 1\<rparr>))"

lemma dispatch_run_step: "dispatch_run E d d1 \<Longrightarrow> dispatch_step E d1 d2 \<Longrightarrow> dispatch_run E d d2"
  unfolding dispatch_run_def by (rule rtranclp.rtrancl_into_rtrancl)

lemma handle_task_steps:
  assumes "task_at d i Waiting" and "\<not> d_cancelled d" and "d_active d < d_cap d"
    and "case tk_previous (d_tasks d ! i) of None \<Rightarrow> True | Some p \<Rightarrow> done_closed d p"
  shows "(task_step E i)\<^sup>*\<^sup>* d (handle_task E i d)"
proof -
  define d1 where "d1 = set_phase i Checking d"
  define d2 where "d2 = set_phase i Acquiring d1"
  define d3 where "d3 = set_phase i Acquired (d2\<lparr>d_active := Suc (d_active d2)\<rparr>)"
  define d4 where "d4 = set_phase i Running d3"
  define d5 where "d5 = set_ran i None d4"
  define d6 where "d6 = set_phase i (Completing None True) (d5\<lparr>d_active := d_active d5 - 1\<rparr>)"
  define d7 where "d7 = set_phase i Closing (complete E (tk_batch (d_tasks d6 ! i)) None True d6)"
  define d8 where "d8 = set_phase i Unlinking d7"
  define d9 where "d9 = set_phase i Releasing (unlink_tail i d8)"
  have steps: "task_step E i d d1" "task_step E i d1 d2" "task_step E i d2 d3" "task_step E i d3 d4" "task_step E i d4 d5"
    "task_step E i d5 d6" "task_step E i d6 d7" "task_step E i d7 d8" "task_step E i d8 d9"
    "task_step E i d9 (set_phase i Finished (d9\<lparr>d_pending := d_pending d9 - 1\<rparr>))"
    subgoal unfolding d1_def by (rule task_step.previous_done) (use assms in \<open>simp_all add: d1_def\<close>)
    subgoal unfolding d2_def by (rule task_step.check_ok) (use assms in \<open>simp_all add: d1_def\<close>)
    subgoal unfolding d3_def by (rule task_step.acquire) (use assms in \<open>simp_all add: d1_def d2_def\<close>)
    subgoal unfolding d4_def by (rule task_step.start) (use assms in \<open>simp_all add: d1_def d2_def d3_def\<close>)
    subgoal unfolding d5_def by (rule task_step.returns) (use assms in \<open>simp_all add: d1_def d2_def d3_def d4_def\<close>)
    subgoal unfolding d6_def by (rule task_step.release) (use assms in \<open>simp_all add: d1_def d2_def d3_def d4_def d5_def\<close>)
    subgoal unfolding d7_def by (rule task_step.completes) (use assms in \<open>simp_all add: d1_def d2_def d3_def d4_def d5_def d6_def\<close>)
    subgoal unfolding d8_def by (rule task_step.close_done) (use assms in \<open>simp_all add: d1_def d2_def d3_def d4_def d5_def d6_def d7_def\<close>)
    subgoal unfolding d9_def by (rule task_step.unlink) (use assms in \<open>simp_all add: d1_def d2_def d3_def d4_def d5_def d6_def d7_def d8_def\<close>)
    subgoal by (rule task_step.release_pending) (use assms in \<open>simp add: d1_def d2_def d3_def d4_def d5_def d6_def d7_def d8_def d9_def\<close>)
    done
  have "handle_task E i d = set_phase i Finished (d9\<lparr>d_pending := d_pending d9 - 1\<rparr>)"
    by (simp add: handle_task_def Let_def d1_def d2_def d3_def d4_def d5_def d6_def d7_def d8_def d9_def)
  then show ?thesis
    using steps(10) steps(1-9) [THEN r_into_rtranclp [where r = "task_step E i"]]
    by (auto intro: rtranclp.rtrancl_into_rtrancl elim!: rtranclp_trans)
qed

lemma handle_task_run:
  assumes "dispatch_run E s d" and "task_at d i Waiting" and "\<not> d_cancelled d" and "d_active d < d_cap d"
    and "case tk_previous (d_tasks d ! i) of None \<Rightarrow> True | Some p \<Rightarrow> done_closed d p"
  shows "dispatch_run E s (handle_task E i d)"
  using assms(1) mono_rtranclp [of "task_step E i" "dispatch_step E"] handle_task_steps [OF assms(2-5), of E]
  unfolding dispatch_run_def by (metis dispatch_step.task rtranclp_trans)

text \<open>One batch with two messages of a conversation, handled one after the other.\<close>

definition sample_batch :: update_batch where
  "sample_batch = \<lparr>ub_messages = [Inr sample_file_message, Inr sample_file_message], ub_cursor = ''k'', ub_generation = 0\<rparr>"

abbreviation "sample_d0 \<equiv> new_keyed_dispatcher False 0 sample_bot quiet_world"

definition "sample_d1 = sample_d0\<lparr>d_submit := WantSlot sample_batch\<rparr>"
definition "sample_d2 = sample_d1\<lparr>d_slots := Suc (d_slots sample_d1), d_submit := HaveSlot sample_batch\<rparr>"
definition "sample_d3 = register_batch sample_hash_env sample_batch sample_d2"
definition "sample_d4 = sample_d3\<lparr>d_submit := WantPending 0 0 sample_file_message [Inr sample_file_message]\<rparr>"
definition "sample_d5 = sample_d4\<lparr>d_pending := Suc (d_pending sample_d4), d_submit := Spawning 0 0 sample_file_message [Inr sample_file_message]\<rparr>"
definition "sample_d6 = (spawn_task 0 0 sample_file_message sample_d5)\<lparr>d_submit := Sending 0 0 [Inr sample_file_message]\<rparr>"
definition "sample_d7 = sample_d6\<lparr>d_submit := WantPending 0 0 sample_file_message []\<rparr>"
definition "sample_d8 = sample_d7\<lparr>d_pending := Suc (d_pending sample_d7), d_submit := Spawning 0 0 sample_file_message []\<rparr>"
definition "sample_d9 = (spawn_task 0 0 sample_file_message sample_d8)\<lparr>d_submit := Sending 0 0 []\<rparr>"
definition "sample_d10 = sample_d9\<lparr>d_submit := Idle\<rparr>"

definition "sample_e1 = handle_task sample_hash_env 0 sample_d10"
definition "sample_e2 = handle_task sample_hash_env 1 sample_e1"
definition "sample_e3 = sample_e2\<lparr>d_submit := Draining\<rparr>"
definition "sample_e4 = sample_e3\<lparr>d_submit := Returned (d_first_error sample_e3)\<rparr>"

abbreviation "sample_run_to \<equiv> dispatch_run sample_hash_env sample_d0"

lemma sample_submit_run: "sample_run_to sample_d10"
proof -
  have "sample_run_to sample_d0" by (simp add: dispatch_run_def)
  then have "sample_run_to sample_d1" unfolding sample_d1_def
    by (rule dispatch_run_step [OF _ dispatch_step.submit [OF submit_step.begin_submit]]) code_simp+
  then have "sample_run_to sample_d2" unfolding sample_d2_def
    by (rule dispatch_run_step [OF _ dispatch_step.submit [OF submit_step.take_slot]]) code_simp+
  then have "sample_run_to sample_d3" unfolding sample_d3_def
    by (rule dispatch_run_step [OF _ dispatch_step.submit [OF submit_step.register]]) code_simp+
  then have "sample_run_to sample_d4" unfolding sample_d4_def
    by (rule dispatch_run_step [OF _ dispatch_step.submit [OF submit_step.decoded]]) code_simp+
  then have "sample_run_to sample_d5" unfolding sample_d5_def
    by (rule dispatch_run_step [OF _ dispatch_step.submit [OF submit_step.take_pending]]) code_simp+
  then have "sample_run_to sample_d6" unfolding sample_d6_def
    by (rule dispatch_run_step [OF _ dispatch_step.submit [OF submit_step.spawn]]) code_simp+
  then have "sample_run_to sample_d7" unfolding sample_d7_def
    by (rule dispatch_run_step [OF _ dispatch_step.submit [OF submit_step.decoded]]) code_simp+
  then have "sample_run_to sample_d8" unfolding sample_d8_def
    by (rule dispatch_run_step [OF _ dispatch_step.submit [OF submit_step.take_pending]]) code_simp+
  then have "sample_run_to sample_d9" unfolding sample_d9_def
    by (rule dispatch_run_step [OF _ dispatch_step.submit [OF submit_step.spawn]]) code_simp+
  then have "sample_run_to sample_d10" unfolding sample_d10_def
    by (rule dispatch_run_step [OF _ dispatch_step.submit [OF submit_step.submitted]]) code_simp+
  then show ?thesis .
qed

lemma sample_handled_run: "sample_run_to sample_e1" "sample_run_to sample_e2"
proof -
  show e1: "sample_run_to sample_e1"
    unfolding sample_e1_def by (rule handle_task_run [OF sample_submit_run]) code_simp+
  show "sample_run_to sample_e2"
    unfolding sample_e2_def by (rule handle_task_run [OF e1]) code_simp+
qed

lemma sample_drained_run: "sample_run_to sample_e3" "sample_run_to sample_e4"
proof -
  show e3: "sample_run_to sample_e3"
    unfolding sample_e3_def
    by (rule dispatch_run_step [OF sample_handled_run(2) dispatch_step.submit [OF submit_step.input_closed]]) code_simp+
  show "sample_run_to sample_e4"
    unfolding sample_e4_def
    by (rule dispatch_run_step [OF e3 dispatch_step.submit [OF submit_step.drained]]) code_simp+
qed

lemma sample_cursor_synced: "cursor_synced sample_hash_env sample_bot quiet_world"
  by code_simp

lemma sample_values:
  "d_submit sample_e3 = Draining" "d_submit sample_e4 = Returned None" "\<not> d_cancelled sample_e4"
  "length (d_tasks sample_e2) = 2" "d_next_commit sample_e4 = 1" "d_submitted sample_e4 = [sample_batch]"
  "map tk_result (d_tasks sample_e2) = [Some None, Some None]" "d_tasks sample_e4 = d_tasks sample_e2"
  "conversation_key (tk_wire (d_tasks sample_e2 ! 0)) = conversation_key (tk_wire (d_tasks sample_e2 ! 1))"
  by code_simp+

theorem dispatcher_never_stuck_witness:
  "\<exists>d'. submit_step sample_hash_env sample_e3 d' \<or> (\<exists>i. task_step sample_hash_env i sample_e3 d')"
  by (rule dispatcher_never_stuck [OF sample_drained_run(1) sample_cursor_synced])
    (simp_all add: sample_values)

text \<open>Two waiting tasks, twenty phases.\<close>

definition "sample_drain = sample_d10\<lparr>d_submit := Draining\<rparr>"

theorem drain_terminates_witness:
  "own_steps sample_hash_env sample_drain 1 (set_phase 0 Checking sample_drain) \<and>
   work_left sample_drain = 20 \<and>
   (\<exists>d''. submit_step sample_hash_env (set_phase 0 Checking sample_drain) d'' \<or>
      (\<exists>i. task_step sample_hash_env i (set_phase 0 Checking sample_drain) d''))"
proof -
  have run: "sample_run_to sample_drain"
    unfolding sample_drain_def
    by (rule dispatch_run_step [OF sample_submit_run dispatch_step.submit [OF submit_step.input_closed]]) code_simp
  have "task_step sample_hash_env 0 sample_drain (set_phase 0 Checking sample_drain)"
    by (rule task_step.previous_done) code_simp+
  then have own: "own_steps sample_hash_env sample_drain 1 (set_phase 0 Checking sample_drain)"
    using own_steps.own [OF own_steps.none] by (metis One_nat_def)
  have draining: "d_submit sample_drain = Draining" by (simp add: sample_drain_def)
  have "work_left sample_drain = 20" by code_simp
  with own drain_terminates [OF run sample_cursor_synced draining own] draining show ?thesis by simp
qed

theorem conversation_in_order_witness:
  "tk_result (d_tasks sample_e2 ! 0) = Some None \<and> tk_result (d_tasks sample_e2 ! 1) = Some None \<and>
   tk_phase (d_tasks sample_e2 ! 0) \<in> {Unlinking, Releasing, Finished}"
proof -
  have "tk_result (d_tasks sample_e2 ! 1) = Some None"
    using sample_values(4,7) by (metis One_nat_def lessI nth_Cons_0 nth_Cons_Suc nth_map numeral_2_eq_2)
  with conversation_in_order [OF sample_handled_run(2) sample_cursor_synced, of 0 1] sample_values(4,9)
  show ?thesis by simp
qed

theorem dispatcher_bounded_witness:
  "length (filter (\<lambda>t. tk_phase t = Running) (d_tasks sample_e1)) \<le> 4 \<and> length (d_batches sample_e1) \<le> 16"
  using dispatcher_bounded [OF sample_handled_run(1) sample_cursor_synced]
  by (simp add: handler_cap_def default_max_concurrent_handlers_def maximum_concurrent_handlers_def)

theorem cursor_never_ahead_witness:
  "cursor_get (b_cursor_store (d_bot sample_e4)) = ''k'' \<and>
   read_cursor (snd (cursor_view sample_hash_env (d_bot sample_e4) (d_world sample_e4))) = Some ''k'' \<and>
   length (filter (\<lambda>t. tk_batch t = 0) (d_tasks sample_e4)) = 2"
proof -
  have "cursor_get (b_cursor_store sample_bot) = []" by code_simp
  with cursor_never_ahead [OF sample_drained_run(2) sample_cursor_synced] show ?thesis
    by (simp add: sample_values(5,6) cursor_after_def) (simp add: sample_batch_def)
qed

theorem dispatcher_returns_truth_witness:
  "d_next_commit sample_e4 = length (d_submitted sample_e4) \<and> list_all (\<lambda>t. tk_result t = Some None) (d_tasks sample_e4)"
  using dispatcher_returns_truth [OF sample_drained_run(2) sample_cursor_synced sample_values(2)] sample_values(3)
  by (simp add: list_all_iff)

end
