(* ===== verification/GoText.thy ===== *)
theory GoText
  imports Utf8
begin

section \<open>Go's text functions\<close>

text \<open>
  Functions of \<open>strings\<close>, \<open>strconv\<close> and \<open>unicode/utf8\<close> that the text-processing parts of
  the program share: trimming, hexadecimal digits, the UTF-8 form of a rune and
  \<open>strconv.Unquote\<close>, with the facts about them.
\<close>

subsection \<open>Trimming and searching\<close>

definition strings_trim :: "char list \<Rightarrow> string \<Rightarrow> string" where
  "strings_trim cs s = rev (dropWhile (\<lambda>c. c \<in> set cs) (rev (dropWhile (\<lambda>c. c \<in> set cs) s)))"

definition trim_suffix :: "string \<Rightarrow> string \<Rightarrow> string" where
  "trim_suffix s p = (if has_suffix s p then take (length s - length p) s else s)"

text \<open>\<open>unicode.IsSpace\<close> of one rune, given by its bytes.\<close>

definition space_rune :: "string \<Rightarrow> bool" where
  "space_rune r =
     (case map byte_val r of
        [a] \<Rightarrow> a = 32 \<or> 9 \<le> a \<and> a \<le> 13
      | [a, b] \<Rightarrow> a = 194 \<and> (b = 133 \<or> b = 160)
      | [a, b, c] \<Rightarrow>
          a = 225 \<and> b = 154 \<and> c = 128
          \<or> a = 226 \<and> b = 128 \<and> (128 \<le> c \<and> c \<le> 138 \<or> c = 168 \<or> c = 169 \<or> c = 175)
          \<or> a = 226 \<and> b = 129 \<and> c = 159
          \<or> a = 227 \<and> b = 128 \<and> c = 128
      | _ \<Rightarrow> False)"

definition trim_space :: "string \<Rightarrow> string" where
  "trim_space s = concat (rev (dropWhile space_rune (rev (dropWhile space_rune (runes s)))))"

fun strings_contains :: "string \<Rightarrow> string \<Rightarrow> bool" where
  "strings_contains [] p = (p = [])"
| "strings_contains (c # s) p = (has_prefix (c # s) p \<or> strings_contains s p)"

text \<open>\<open>strings.Index\<close>.\<close>

fun strings_index :: "string \<Rightarrow> string \<Rightarrow> nat option" where
  "strings_index [] p = (if p = [] then Some 0 else None)"
| "strings_index (c # s) p = (if has_prefix (c # s) p then Some 0 else map_option Suc (strings_index s p))"

text \<open>\<open>strings.IndexByte\<close> and \<open>strings.IndexAny\<close> with an ASCII set.\<close>

fun index_where :: "(char \<Rightarrow> bool) \<Rightarrow> string \<Rightarrow> nat option" where
  "index_where P [] = None"
| "index_where P (c # s) = (if P c then Some 0 else map_option Suc (index_where P s))"

text \<open>\<open>strings.LastIndexByte\<close>.\<close>

definition last_index_byte :: "string \<Rightarrow> char \<Rightarrow> nat option" where
  "last_index_byte s c = map_option (\<lambda>i. length s - Suc i) (index_where (\<lambda>x. x = c) (rev s))"

text \<open>A slice expression \<open>s[i:j]\<close>.\<close>

definition substring :: "string \<Rightarrow> nat \<Rightarrow> nat \<Rightarrow> string" where
  "substring s i j = take (j - i) (drop i s)"

lemma index_where_Some:
  "index_where P s = Some i \<Longrightarrow> i < length s \<and> P (s ! i) \<and> (\<forall>c\<in>set (take i s). \<not> P c)"
  by (induction s arbitrary: i) (auto split: if_splits)

lemma index_where_None: "index_where P s = None \<longleftrightarrow> (\<forall>c\<in>set s. \<not> P c)"
  by (induction s) auto

lemma substring_split: "i \<le> j \<Longrightarrow> substring s i j @ drop j s = drop i s"
  using append_take_drop_id [of "j - i" "drop i s"] by (simp add: substring_def)

subsection \<open>Digits\<close>

definition hex_digit :: "nat \<Rightarrow> char" where
  "hex_digit n = char_of (if n < 10 then 48 + n else 87 + n)"

definition unhex :: "char \<Rightarrow> nat option" where
  "unhex c =
     (if is_digit c then Some (byte_val c - 48)
      else if 97 \<le> byte_val c \<and> byte_val c \<le> 102 then Some (byte_val c - 87)
      else if 65 \<le> byte_val c \<and> byte_val c \<le> 70 then Some (byte_val c - 55)
      else None)"

lemma unhex_hex_digit [simp]: "n < 16 \<Longrightarrow> unhex (hex_digit n) = Some n"
  by (auto simp: unhex_def hex_digit_def is_digit_def)

fun hex_value :: "nat \<Rightarrow> string \<Rightarrow> nat option" where
  "hex_value acc [] = Some acc"
| "hex_value acc (c # s) = (case unhex c of None \<Rightarrow> None | Some d \<Rightarrow> hex_value (16 * acc + d) s)"

text \<open>Exactly \<open>n\<close> hexadecimal digits in front: their value and what follows.\<close>

definition read_hex :: "nat \<Rightarrow> string \<Rightarrow> (nat \<times> string) option" where
  "read_hex n s =
     (if length s < n then None
      else (case hex_value 0 (take n s) of None \<Rightarrow> None | Some v \<Rightarrow> Some (v, drop n s)))"

definition octal_digit :: "char \<Rightarrow> nat option" where
  "octal_digit c = (if 48 \<le> byte_val c \<and> byte_val c \<le> 55 then Some (byte_val c - 48) else None)"

subsection \<open>Runes\<close>

definition surrogate :: "nat \<Rightarrow> bool" where
  "surrogate v \<longleftrightarrow> 0xD800 \<le> v \<and> v < 0xE000"

definition valid_rune :: "nat \<Rightarrow> bool" where
  "valid_rune v \<longleftrightarrow> v \<le> 0x10FFFF \<and> \<not> surrogate v"

text \<open>\<open>utf8.AppendRune\<close>: what is no rune is written as U+FFFD.\<close>

definition encode_rune :: "nat \<Rightarrow> string" where
  "encode_rune v =
     (if \<not> valid_rune v then replacement_rune
      else if v < 0x80 then [char_of v]
      else if v < 0x800 then [char_of (0xC0 + v div 64), char_of (0x80 + v mod 64)]
      else if v < 0x10000 then
        [char_of (0xE0 + v div 4096), char_of (0x80 + v div 64 mod 64), char_of (0x80 + v mod 64)]
      else [char_of (0xF0 + v div 262144), char_of (0x80 + v div 4096 mod 64),
            char_of (0x80 + v div 64 mod 64), char_of (0x80 + v mod 64)])"

lemma encode_rune_not_Nil [simp]: "encode_rune v \<noteq> []"
  by (simp add: encode_rune_def replacement_rune_def)

subsection \<open>\<open>strconv.Unquote\<close>\<close>

abbreviation backslash :: char where "backslash \<equiv> CHR 0x5C"
abbreviation double_quote :: char where "double_quote \<equiv> CHR 0x22"

text \<open>The escapes of one letter, \<open>\<close> as they stand for a byte.\<close>

definition simple_escapes :: "(char \<times> char) list" where
  "simple_escapes =
     [(CHR ''a'', CHR 0x07), (CHR ''b'', CHR 0x08), (CHR ''f'', CHR 0x0C), (CHR ''n'', CHR 0x0A),
      (CHR ''r'', CHR 0x0D), (CHR ''t'', CHR 0x09), (CHR ''v'', CHR 0x0B), (backslash, backslash),
      (double_quote, double_quote)]"

text \<open>
  \<open>unquoteChar\<close> after a backslash, in a string in double quotes: the bytes the escape stands for
  and what follows it.
\<close>

definition unquote_escape :: "string \<Rightarrow> (string \<times> string) option" where
  "unquote_escape s =
     (case s of [] \<Rightarrow> None
      | c # r \<Rightarrow>
          (case map_of simple_escapes c of
             Some b \<Rightarrow> Some ([b], r)
           | None \<Rightarrow>
               if c = CHR ''x'' then
                 (case read_hex 2 r of None \<Rightarrow> None | Some (v, t) \<Rightarrow> Some ([char_of v], t))
               else if c = CHR ''u'' \<or> c = CHR ''U'' then
                 (case read_hex (if c = CHR ''u'' then 4 else 8) r of
                    None \<Rightarrow> None
                  | Some (v, t) \<Rightarrow> if valid_rune v then Some (encode_rune v, t) else None)
               else (case (octal_digit c, r) of
                       (Some x, d # e # t) \<Rightarrow>
                         (case (octal_digit d, octal_digit e) of
                            (Some y, Some z) \<Rightarrow>
                              if 64 * x + 8 * y + z \<le> 255 then Some ([char_of (64 * x + 8 * y + z)], t)
                              else None
                          | _ \<Rightarrow> None)
                     | _ \<Rightarrow> None)))"

lemma read_hex_length: "read_hex n s = Some (v, t) \<Longrightarrow> length t \<le> length s"
  by (auto simp: read_hex_def split: if_splits option.splits)

lemma unquote_escape_length: "unquote_escape s = Some (b, t) \<Longrightarrow> length t < length s"
  by (auto simp: unquote_escape_def dest!: read_hex_length
      split: list.splits option.splits if_splits prod.splits)

text \<open>The text between the quotes; the literal is rejected at a line feed or another quote.\<close>

function unquote_body :: "string \<Rightarrow> string option" where
  "unquote_body s =
     (case s of [] \<Rightarrow> Some []
      | c # r \<Rightarrow>
          if c = newline \<or> c = double_quote then None
          else if c = backslash then
            (case unquote_escape r of
               None \<Rightarrow> None
             | Some (b, t) \<Rightarrow> (case unquote_body t of None \<Rightarrow> None | Some u \<Rightarrow> Some (b @ u)))
          else (case unquote_body (drop (rune_size s) s) of
                  None \<Rightarrow> None
                | Some u \<Rightarrow> Some ((if rune_ok s then take (rune_size s) s else replacement_rune) @ u)))"
  by pat_completeness auto
termination
  by (relation "measure length") (auto dest!: unquote_escape_length)

declare unquote_body.simps [simp del]

definition strconv_unquote :: "string \<Rightarrow> string option" where
  "strconv_unquote lit =
     (if length lit < 2 \<or> hd lit \<noteq> double_quote \<or> last lit \<noteq> double_quote then None
      else unquote_body (butlast (tl lit)))"

text \<open>A literal without escapes, of ASCII letters, is the text itself.\<close>

lemma unquote_plain:
  "\<forall>c\<in>set s. is_ascii c \<and> c \<notin> {newline, double_quote, backslash} \<Longrightarrow> unquote_body s = Some s"
proof (induction s)
  case Nil
  show ?case by (simp add: unquote_body.simps)
next
  case (Cons c s)
  then show ?case
    by (subst unquote_body.simps) (simp add: rune_ok_def)
qed

end
