(* ===== verification/Markdown.thy ===== *)
theory Markdown
  imports GoText
begin

section \<open>Bare less-than signs\<close>

text \<open>
  Models \<open>internal/markdown/less_than.go\<close>: the client of the service takes a less-than sign
  for the start of an HTML tag, so every such sign that starts none of four known tags and is in
  no fenced code block is replaced by U+FF1C.  The code works with indices into the line, the
  model with what is left of it; \<open>html_tag_end\<close> is the length of the tag instead of its end.
  The lemmas show that normalising is idempotent, so no bare sign is left; theory \<open>MarkdownSpec\<close>
  says independently of these functions what it has to write.
\<close>

subsection \<open>Tags\<close>

definition full_width_less_than :: string where
  "full_width_less_than = [CHR 0xEF, CHR 0xBC, CHR 0x9C]"

definition allowed_html_tags :: "string list" where
  "allowed_html_tags = [''a'', ''br'', ''div'', ''span'']"

definition is_ascii_letter :: "char \<Rightarrow> bool" where
  "is_ascii_letter c \<longleftrightarrow> is_lower_letter c \<or> is_upper_letter c"

definition is_html_name_byte :: "char \<Rightarrow> bool" where
  "is_html_name_byte c \<longleftrightarrow> is_ascii_letter c \<or> is_digit c \<or> c = CHR ''-'' \<or> c = CHR '':''"

definition is_html_space :: "char \<Rightarrow> bool" where
  "is_html_space c \<longleftrightarrow> c = blank \<or> c = tabulator \<or> c = newline \<or> c = carriage_return"

abbreviation less_than :: char where "less_than \<equiv> CHR ''<''"
abbreviation greater_than :: char where "greater_than \<equiv> CHR ''>''"
abbreviation slash :: char where "slash \<equiv> CHR ''/''"
abbreviation double_quote :: char where "double_quote \<equiv> CHR 0x22"
abbreviation single_quote :: char where "single_quote \<equiv> CHR 0x27"

text \<open>The attributes, up to and with the sign that ends the tag; within quotes everything goes.\<close>

fun attributes_end :: "char option \<Rightarrow> string \<Rightarrow> nat option" where
  "attributes_end q [] = None"
| "attributes_end (Some q) (c # r) = map_option Suc (attributes_end (if c = q then None else Some q) r)"
| "attributes_end None (c # r) =
     (if c = single_quote \<or> c = double_quote then map_option Suc (attributes_end (Some c) r)
      else if c = greater_than then Some 1
      else if c = less_than \<or> c = newline \<or> c = carriage_return then None
      else map_option Suc (attributes_end None r))"

text \<open>Spaces and the final sign of a closing tag.\<close>

fun closing_end :: "string \<Rightarrow> nat option" where
  "closing_end [] = None"
| "closing_end (c # r) =
     (if is_html_space c then map_option Suc (closing_end r)
      else if c = greater_than then Some 1 else None)"

text \<open>What follows the name of a tag.\<close>

definition after_name :: "bool \<Rightarrow> string \<Rightarrow> nat option" where
  "after_name closing r =
     (case r of [] \<Rightarrow> None
      | c # r' \<Rightarrow>
          if c = greater_than then Some 1
          else if \<not> closing \<and> c = slash \<and> r' \<noteq> [] \<and> hd r' = greater_than then Some 2
          else if \<not> is_html_space c then None
          else if closing then closing_end r
          else attributes_end None r)"

definition name_and_rest :: "bool \<Rightarrow> string \<Rightarrow> nat option" where
  "name_and_rest closing r =
     (if r = [] \<or> \<not> is_ascii_letter (hd r) then None
      else (let name = hd r # takeWhile is_html_name_byte (tl r)
            in if ascii_lower name \<notin> set allowed_html_tags then None
               else map_option ((+) (length name)) (after_name closing (drop (length name) r))))"

text \<open>The length of the tag at the front of a text that begins with a less-than sign.\<close>

definition html_tag_end :: "string \<Rightarrow> nat option" where
  "html_tag_end s =
     (let r = drop 1 s in
      if r \<noteq> [] \<and> hd r = slash then map_option ((+) 2) (name_and_rest True (drop 1 r))
      else map_option ((+) 1) (name_and_rest False r))"

subsection \<open>Fences\<close>

definition fence_run :: "string \<Rightarrow> (char \<times> nat \<times> string) option" where
  "fence_run line =
     (let i = length (takeWhile (\<lambda>c. c = blank) (take 4 line)) in
      if 3 < i \<or> length line \<le> i \<or> line ! i \<noteq> CHR 0x60 \<and> line ! i \<noteq> CHR ''~'' then None
      else (let marker = line ! i; n = length (takeWhile (\<lambda>c. c = marker) (drop i line))
            in if n < 3 then None else Some (marker, n, drop (i + n) line)))"

definition opening_fence :: "string \<Rightarrow> (char \<times> nat) option" where
  "opening_fence line =
     (case fence_run line of None \<Rightarrow> None
      | Some (marker, n, rest) \<Rightarrow>
          if marker = CHR 0x60 \<and> CHR 0x60 \<in> set rest then None else Some (marker, n))"

definition is_closing_fence :: "string \<Rightarrow> char \<Rightarrow> nat \<Rightarrow> bool" where
  "is_closing_fence line marker opening_length =
     (case fence_run line of None \<Rightarrow> False
      | Some (closing_marker, n, rest) \<Rightarrow>
          closing_marker = marker \<and> opening_length \<le> n \<and> strings_trim [blank, tabulator] rest = [])"

subsection \<open>Normalising\<close>

lemma html_tag_end_pos: "html_tag_end s = Some n \<Longrightarrow> 0 < n"
  by (auto simp: html_tag_end_def Let_def split: if_splits)

function normalize_line :: "string \<Rightarrow> string" where
  "normalize_line line =
     (case line of [] \<Rightarrow> []
      | c # r \<Rightarrow>
          if c = less_than
          then (case html_tag_end line of
                  Some n \<Rightarrow> take n line @ normalize_line (drop n line)
                | None \<Rightarrow> full_width_less_than @ normalize_line r)
          else c # normalize_line r)"
  by pat_completeness auto
termination
  by (relation "measure length") (auto dest: html_tag_end_pos)

declare normalize_line.simps [simp del]

text \<open>The line at the front, with its line feed, and the lines after it.\<close>

definition first_line :: "string \<Rightarrow> string" where
  "first_line s = (let l = takeWhile (\<lambda>c. c \<noteq> newline) s in take (Suc (length l)) s)"

definition fence_line :: "string \<Rightarrow> string" where
  "fence_line line = trim_suffix (trim_suffix line [newline]) [carriage_return]"

text \<open>One line, given the fence that is open before it: the text written and the fence after it.\<close>

definition line_step :: "(char \<times> nat) option \<Rightarrow> string \<Rightarrow> string \<times> (char \<times> nat) option" where
  "line_step fence line =
     (case fence of
        Some (marker, n) \<Rightarrow> (line, if is_closing_fence (fence_line line) marker n then None else fence)
      | None \<Rightarrow>
          (case opening_fence (fence_line line) of
             Some f \<Rightarrow> (line, Some f)
           | None \<Rightarrow> (normalize_line line, None)))"

function normalize_lines :: "(char \<times> nat) option \<Rightarrow> string \<Rightarrow> string" where
  "normalize_lines fence s =
     (if s = [] then []
      else (let line = first_line s; (out, fence') = line_step fence line
            in out @ normalize_lines fence' (drop (length line) s)))"
  by pat_completeness auto
termination
proof (relation "measure (length \<circ> snd)", goal_cases)
  case (2 fence s line p out fence')
  then have "0 < length line" by (simp add: first_line_def Let_def)
  with 2 show ?case by simp
qed simp

declare normalize_lines.simps [simp del]

definition normalize_bare_less_than :: "string \<Rightarrow> string" where
  "normalize_bare_less_than s = (if less_than \<in> set s then normalize_lines None s else s)"

subsection \<open>Tags are determined by their own text\<close>

lemma attributes_end_prefix:
  "attributes_end q s = Some n \<Longrightarrow>
   attributes_end q (take n s @ x) = Some n \<and> 0 < n \<and> n \<le> length s \<and> s ! (n - 1) = greater_than"
proof (induction q s arbitrary: n rule: attributes_end.induct)
  case (2 q c r)
  then obtain m where m: "n = Suc m" "attributes_end (if c = q then None else Some q) r = Some m"
    by (auto split: if_splits)
  with "2.IH" [OF m(2)] show ?case by (cases m) (auto split: if_splits)
next
  case (3 c r)
  show ?case
  proof (cases "c = single_quote \<or> c = double_quote")
    case True
    with "3.prems" obtain m where m: "n = Suc m" "attributes_end (Some c) r = Some m" by auto
    with "3.IH"(1) [OF True m(2)] True show ?thesis by (cases m) auto
  next
    case False
    with "3.prems" "3.IH"(2) [OF False] show ?thesis
      by (auto split: if_splits simp: nth_Cons')
  qed
qed simp

lemma closing_end_prefix:
  "closing_end s = Some n \<Longrightarrow>
   closing_end (take n s @ x) = Some n \<and> 0 < n \<and> n \<le> length s \<and> s ! (n - 1) = greater_than"
  by (induction s arbitrary: n rule: closing_end.induct) (auto split: if_splits simp: nth_Cons')

lemma after_name_tail:
  assumes "c \<noteq> greater_than" and "\<not> (\<not> closing \<and> c = slash \<and> r \<noteq> [] \<and> hd r = greater_than)"
  shows "after_name closing (c # r) =
    (if is_html_space c then if closing then closing_end (c # r) else attributes_end None (c # r) else None)"
  by (cases "is_html_space c")
    (simp_all only: after_name_def list.case assms if_False if_True not_True_eq_False not_False_eq_True)

lemma after_name_prefix:
  assumes "after_name closing s = Some n"
  shows "after_name closing (take n s @ x) = Some n \<and> 0 < n \<and> n \<le> length s \<and> s ! (n - 1) = greater_than"
proof (cases s)
  case (Cons c r)
  consider "c = greater_than"
    | "c \<noteq> greater_than" "\<not> closing \<and> c = slash \<and> r \<noteq> [] \<and> hd r = greater_than"
    | "c \<noteq> greater_than" "\<not> (\<not> closing \<and> c = slash \<and> r \<noteq> [] \<and> hd r = greater_than)"
    by blast
  then show ?thesis
  proof cases
    case 1
    with assms show ?thesis by (auto simp: after_name_def Cons)
  next
    case 2
    then obtain r' where r: "r = greater_than # r'" by (cases r) auto
    from assms 2 have "n = 2" by (simp add: after_name_def Cons)
    with 2 r show ?thesis by (simp add: after_name_def Cons)
  next
    case 3
    have eq: "after_name closing s =
        (if is_html_space c then if closing then closing_end s else attributes_end None s else None)"
      unfolding Cons by (rule after_name_tail [OF 3])
    have space: "is_html_space c" by (rule ccontr) (use assms eq in simp)
    with assms eq have e: "(if closing then closing_end s else attributes_end None s) = Some n" by simp
    have not_slash: "c \<noteq> slash" using space by (auto simp: is_html_space_def)
    have pre: "(if closing then closing_end (take n s @ x) else attributes_end None (take n s @ x)) = Some n \<and>
        0 < n \<and> n \<le> length s \<and> s ! (n - 1) = greater_than"
    proof (cases closing)
      case True
      with e closing_end_prefix [of s n x] show ?thesis by simp
    next
      case False
      with e attributes_end_prefix [of None s n x] show ?thesis by simp
    qed
    then obtain m where m: "n = Suc m" by (cases n) auto
    have take: "take n s @ x = c # take m r @ x" by (simp add: Cons m)
    have eq': "after_name closing (c # take m r @ x) =
        (if closing then closing_end (c # take m r @ x) else attributes_end None (c # take m r @ x))"
      by (subst after_name_tail) (use 3(1) not_slash space in simp_all)
    from pre show ?thesis unfolding take eq' .
  qed
qed (use assms in \<open>simp add: after_name_def\<close>)

lemma name_and_rest_simps:
  assumes "is_ascii_letter h" and "list_all is_html_name_byte nm" and "\<not> is_html_name_byte c"
  shows "name_and_rest closing (h # nm @ c # r) =
    (if ascii_lower (h # nm) \<in> set allowed_html_tags
     then map_option ((+) (Suc (length nm))) (after_name closing (c # r)) else None)"
proof -
  have "takeWhile is_html_name_byte (nm @ c # r) = nm"
    using assms by (simp add: list_all_iff takeWhile_append2)
  then show ?thesis using assms(1) by (simp add: name_and_rest_def Let_def)
qed

lemma name_and_restE:
  assumes "name_and_rest closing s = Some n"
  obtains h nm c r m where "s = h # nm @ c # r" "is_ascii_letter h" "list_all is_html_name_byte nm"
    "\<not> is_html_name_byte c" "ascii_lower (h # nm) \<in> set allowed_html_tags"
    "after_name closing (c # r) = Some m" "n = Suc (length nm) + m"
proof -
  obtain h t where s: "s = h # t" "is_ascii_letter h"
    using assms by (cases s) (auto simp: name_and_rest_def split: if_splits)
  let ?nm = "takeWhile is_html_name_byte t"
  have t: "t = ?nm @ dropWhile is_html_name_byte t" by simp
  have drop: "drop (length ?nm) t = dropWhile is_html_name_byte t" by (simp add: dropWhile_eq_drop)
  obtain m where m: "ascii_lower (h # ?nm) \<in> set allowed_html_tags"
    "after_name closing (dropWhile is_html_name_byte t) = Some m" "n = Suc (length ?nm) + m"
    using assms s by (auto simp: name_and_rest_def Let_def drop split: if_splits)
  then obtain c r where c: "dropWhile is_html_name_byte t = c # r"
    by (cases "dropWhile is_html_name_byte t") (auto simp: after_name_def)
  then have "\<not> is_html_name_byte c" by (metis hd_dropWhile list.distinct(1) list.sel(1))
  moreover have "list_all is_html_name_byte ?nm" by (auto simp: list_all_iff dest: set_takeWhileD)
  ultimately show thesis using that s m c t by metis
qed

lemma name_and_rest_prefix:
  assumes "name_and_rest closing s = Some n"
  shows "name_and_rest closing (take n s @ x) = Some n \<and> 0 < n \<and> n \<le> length s \<and> s ! (n - 1) = greater_than"
proof -
  obtain h nm c r m where s: "s = h # nm @ c # r" "is_ascii_letter h" "list_all is_html_name_byte nm"
    "\<not> is_html_name_byte c" "ascii_lower (h # nm) \<in> set allowed_html_tags"
    "after_name closing (c # r) = Some m" "n = Suc (length nm) + m"
    using assms by (rule name_and_restE)
  note pre = after_name_prefix [OF s(6), of x]
  then obtain k where k: "m = Suc k" by (cases m) auto
  have "take n s @ x = h # nm @ c # (take k r @ x)" by (simp add: s(1,7) k)
  with pre s k show ?thesis
    by (simp add: name_and_rest_simps nth_Cons' nth_append)
qed

lemma html_tag_end_prefix:
  assumes "html_tag_end s = Some n"
  shows "html_tag_end (take n s @ x) = Some n" and "n \<le> length s" and "s ! (n - 1) = greater_than"
proof -
  have "html_tag_end (take n s @ x) = Some n \<and> n \<le> length s \<and> s ! (n - 1) = greater_than"
  proof (cases s)
    case (Cons a r)
    show ?thesis
    proof (cases "r \<noteq> [] \<and> hd r = slash")
      case True
      then obtain r' where r: "r = slash # r'" by (cases r) auto
      with assms obtain m where "name_and_rest True r' = Some m" "n = 2 + m"
        by (auto simp: html_tag_end_def Cons)
      with name_and_rest_prefix [OF this(1), of x] show ?thesis
        by (simp add: html_tag_end_def Cons r nth_Cons')
    next
      case False
      with assms obtain m where m: "name_and_rest False r = Some m" "n = Suc m"
        by (auto simp: html_tag_end_def Cons)
      with name_and_rest_prefix [OF m(1), of x] False show ?thesis
        by (cases r; cases m) (auto simp: html_tag_end_def Cons nth_Cons')
    qed
  qed (use assms in \<open>simp add: html_tag_end_def name_and_rest_def\<close>)
  then show "html_tag_end (take n s @ x) = Some n" "n \<le> length s" "s ! (n - 1) = greater_than" by blast+
qed

text \<open>A byte that does not end a tag cannot complete one.\<close>

lemma html_tag_end_snoc:
  assumes "c \<noteq> greater_than"
  shows "html_tag_end (s @ [c]) = html_tag_end s"
proof (cases "html_tag_end s")
  case (Some n)
  with html_tag_end_prefix(1) [OF Some, of "drop n s @ [c]"] html_tag_end_prefix(2) [OF Some]
  show ?thesis by (metis Some append.assoc append_take_drop_id)
next
  case None
  show ?thesis
  proof (cases "html_tag_end (s @ [c])")
    case (Some n)
    have "0 < n" by (rule html_tag_end_pos [OF Some])
    have "n \<noteq> Suc (length s)" using html_tag_end_prefix(3) [OF Some] assms by auto
    with html_tag_end_prefix(2) [OF Some] have "n \<le> length s" by simp
    with html_tag_end_prefix(1) [OF Some, of "drop n s"] have "html_tag_end s = Some n" by simp
    with None show ?thesis by simp
  qed (simp add: None)
qed

subsection \<open>Lines\<close>

lemma normalize_line_Nil [simp]: "normalize_line [] = []"
  by (simp add: normalize_line.simps)

lemma normalize_line_other [simp]: "c \<noteq> less_than \<Longrightarrow> normalize_line (c # r) = c # normalize_line r"
  by (simp add: normalize_line.simps)

lemma normalize_line_tag:
  "html_tag_end (less_than # r) = Some n \<Longrightarrow>
   normalize_line (less_than # r) = take n (less_than # r) @ normalize_line (drop n (less_than # r))"
  by (simp add: normalize_line.simps)

lemma normalize_line_bare:
  "html_tag_end (less_than # r) = None \<Longrightarrow>
   normalize_line (less_than # r) = full_width_less_than @ normalize_line r"
  by (simp add: normalize_line.simps)

text \<open>The three cases of the loop, as an induction rule.\<close>

lemma normalize_line_induct [case_names Nil other bare tag]:
  assumes "P []" and "\<And>c r. c \<noteq> less_than \<Longrightarrow> P r \<Longrightarrow> P (c # r)"
    and "\<And>r. html_tag_end (less_than # r) = None \<Longrightarrow> P r \<Longrightarrow> P (less_than # r)"
    and "\<And>r n. html_tag_end (less_than # r) = Some n \<Longrightarrow> 0 < n \<Longrightarrow> P (drop n (less_than # r)) \<Longrightarrow> P (less_than # r)"
  shows "P line"
proof (induction line rule: normalize_line.induct)
  case (1 line)
  show ?case
  proof (cases line)
    case (Cons c r)
    show ?thesis
    proof (cases "c = less_than")
      case True
      show ?thesis
      proof (cases "html_tag_end line")
        case None
        have "P r" by (rule 1(1) [OF Cons True None])
        with None Cons True assms(3) show ?thesis by simp
      next
        case (Some n)
        have "P (drop n line)" by (rule 1(2) [OF Cons True Some])
        with Some Cons True assms(4) html_tag_end_pos [OF Some] show ?thesis by simp
      qed
    next
      case False
      have "P r" by (rule 1(3) [OF Cons False])
      with False Cons assms(2) show ?thesis by simp
    qed
  qed (simp add: assms)
qed

lemma full_width_plain [simp]: "normalize_line (full_width_less_than @ r) = full_width_less_than @ normalize_line r"
  by (simp add: full_width_less_than_def)

lemma normalize_line_tag_append:
  assumes "html_tag_end (less_than # r) = Some n"
  shows "normalize_line (take n (less_than # r) @ x) = take n (less_than # r) @ normalize_line x"
proof -
  obtain m where m: "n = Suc m" using html_tag_end_pos [OF assms] by (cases n) auto
  have "m \<le> length r" using html_tag_end_prefix(2) [OF assms] by (simp add: m)
  with html_tag_end_prefix(1) [OF assms, of x] show ?thesis by (simp add: m normalize_line_tag)
qed

lemma normalize_line_idem: "normalize_line (normalize_line line) = normalize_line line"
proof (induction line rule: normalize_line_induct)
  case (tag r n)
  show ?case
    unfolding normalize_line_tag [OF tag(1)] normalize_line_tag_append [OF tag(1)] tag(3) ..
qed (simp_all add: normalize_line_bare)

lemma normalize_line_snoc:
  assumes "c \<noteq> less_than" and "c \<noteq> greater_than"
  shows "normalize_line (line @ [c]) = normalize_line line @ [c]"
proof (induction line rule: normalize_line_induct)
  case (bare r)
  then show ?case
    using html_tag_end_snoc [OF assms(2), of "less_than # r"] by (simp add: normalize_line_bare)
next
  case (tag r n)
  have "(less_than # r) @ [c] = take n (less_than # r) @ drop n (less_than # r) @ [c]"
    by (metis append.assoc append_take_drop_id)
  then show ?case
    by (simp only: normalize_line_tag_append [OF tag(1)] normalize_line_tag [OF tag(1)] tag(3) append.assoc)
qed (simp_all add: assms)

lemma normalize_line_last:
  "line \<noteq> [] \<Longrightarrow> normalize_line line \<noteq> [] \<and> last (normalize_line line) \<in> {last line, CHR 0x9C}"
proof (induction line rule: normalize_line_induct)
  case (tag r n)
  show ?case
  proof (cases "drop n (less_than # r) = []")
    case True
    with tag show ?thesis by (simp add: normalize_line_tag)
  next
    case False
    with tag(3) have "last (less_than # r) = last (drop n (less_than # r))" by (simp only: last_drop) auto
    with tag False show ?thesis by (auto simp: normalize_line_tag)
  qed
qed (auto simp: normalize_line_bare full_width_less_than_def)

lemma normalize_line_keeps: "c \<noteq> less_than \<Longrightarrow> c \<in> set line \<Longrightarrow> c \<in> set (normalize_line line)"
proof (induction line rule: normalize_line_induct)
  case (tag r n)
  have "set (less_than # r) = set (take n (less_than # r)) \<union> set (drop n (less_than # r))"
    by (metis append_take_drop_id set_append)
  with tag show ?case by (auto simp: normalize_line_tag)
qed (auto simp: normalize_line_bare)

lemma normalize_line_new:
  "c \<in> set (normalize_line line) \<Longrightarrow> c \<in> set line \<or> c \<in> set full_width_less_than"
proof (induction line rule: normalize_line_induct)
  case (tag r n)
  then show ?case
    using set_take_subset [of n "less_than # r"] set_drop_subset [of n "less_than # r"]
    by (auto simp: normalize_line_tag)
qed (auto simp: normalize_line_bare)

lemma normalize_line_prefix:
  "less_than \<notin> set p \<Longrightarrow> normalize_line (p @ r) = p @ normalize_line r"
  by (induction p) auto

subsection \<open>A normalised line is no new fence\<close>

lemma trim_suffix_snoc [simp]: "trim_suffix (x @ [c]) [c] = x"
  by (simp add: trim_suffix_def has_suffix_def)

lemma trim_suffix_other: "x = [] \<or> last x \<noteq> c \<Longrightarrow> trim_suffix x [c] = x"
  by (cases x rule: rev_cases) (simp_all add: trim_suffix_def has_suffix_def)

lemma trim_suffix_normalize:
  assumes "c \<noteq> less_than" and "c \<noteq> greater_than" and "c \<noteq> CHR 0x9C"
  shows "trim_suffix (normalize_line line) [c] = normalize_line (trim_suffix line [c])"
proof (cases "line \<noteq> [] \<and> last line = c")
  case True
  then obtain x where "line = x @ [c]" by (metis append_butlast_last_id)
  then show ?thesis by (simp add: normalize_line_snoc [OF assms(1,2)])
next
  case False
  then have "normalize_line line = [] \<or> last (normalize_line line) \<noteq> c"
    using normalize_line_last [of line] assms(3) by (cases "line = []") auto
  with False show ?thesis by (simp add: trim_suffix_other)
qed

lemma fence_line_normalize: "fence_line (normalize_line line) = normalize_line (fence_line line)"
  by (simp add: fence_line_def trim_suffix_normalize)

lemma takeWhile_append_stop: "r = [] \<or> \<not> P (hd r) \<Longrightarrow> takeWhile P (p @ r) = takeWhile P p"
  by (induction p) (cases r, auto)

lemma fence_run_append:
  assumes "r = [] \<or> hd r \<notin> {blank, CHR 0x60, CHR ''~''}"
  shows "fence_run (p @ r) = map_option (\<lambda>(m, n, rest). (m, n, rest @ r)) (fence_run p)"
proof -
  define i where "i = length (takeWhile (\<lambda>c. c = blank) (take 4 p))"
  have "take (4 - length p) r = [] \<or> hd (take (4 - length p) r) \<noteq> blank"
    using assms by (cases r; cases "4 - length p") auto
  then have i: "length (takeWhile (\<lambda>c. c = blank) (take 4 (p @ r))) = i"
    using takeWhile_append_stop [of "take (4 - length p) r" "\<lambda>c. c = blank" "take 4 p"] by (simp add: i_def)
  have le: "i \<le> length p" using length_takeWhile_le [of "\<lambda>c. c = blank" "take 4 p"] by (simp add: i_def)
  show ?thesis
  proof (cases "i = length p")
    case True
    then show ?thesis
      using assms unfolding fence_run_def i i_def [symmetric] by (cases r) (auto simp: nth_append)
  next
    case False
    with le have lt: "i < length p" by simp
    let ?m = "p ! i"
    have tw: "takeWhile (\<lambda>c. c = ?m) (drop i p @ r) = takeWhile (\<lambda>c. c = ?m) (drop i p)"
      if "?m = CHR 0x60 \<or> ?m = CHR ''~''"
      using assms that by (intro takeWhile_append_stop) auto
    have "length (takeWhile (\<lambda>c. c = ?m) (drop i p)) \<le> length (drop i p)" by (rule length_takeWhile_le)
    then have "i + length (takeWhile (\<lambda>c. c = ?m) (drop i p)) \<le> length p" using lt by simp
    then show ?thesis
      using lt tw unfolding fence_run_def i i_def [symmetric]
      by (auto simp: nth_append Let_def)
  qed
qed

lemma opening_fence_normalize:
  assumes "opening_fence line = None"
  shows "opening_fence (normalize_line line) = None"
proof -
  define p r where "p = takeWhile (\<lambda>c. c \<noteq> less_than) line" and "r = dropWhile (\<lambda>c. c \<noteq> less_than) line"
  have line: "line = p @ r" by (simp add: p_def r_def)
  have r: "r = [] \<or> hd r = less_than" using hd_dropWhile [of "\<lambda>c. c \<noteq> less_than" line] by (auto simp: r_def)
  have N: "normalize_line line = p @ normalize_line r"
    unfolding line by (rule normalize_line_prefix) (auto simp: p_def dest: set_takeWhileD)
  have "normalize_line r = [] \<or> hd (normalize_line r) \<in> {less_than, CHR 0xEF}"
  proof (cases r)
    case (Cons c r')
    with r have c: "c = less_than" by simp
    show ?thesis
    proof (cases "html_tag_end (less_than # r')")
      case (Some n)
      then show ?thesis using html_tag_end_pos [OF Some] by (cases n) (simp_all add: Cons c normalize_line_tag)
    qed (simp add: Cons c normalize_line_bare full_width_less_than_def)
  qed simp
  then have "normalize_line r = [] \<or> hd (normalize_line r) \<notin> {blank, CHR 0x60, CHR ''~''}" by auto
  note runs = fence_run_append [OF this, of p] fence_run_append [of r p]
  have "r = [] \<or> hd r \<notin> {blank, CHR 0x60, CHR ''~''}" using r by auto
  from runs(2) [OF this] runs(1) assms show ?thesis
    unfolding opening_fence_def line N [unfolded line]
    by (cases "fence_run p") (auto split: if_splits intro: normalize_line_keeps)
qed

lemma opening_fence_line_normalize:
  "opening_fence (fence_line line) = None \<Longrightarrow> opening_fence (fence_line (normalize_line line)) = None"
  by (simp add: fence_line_normalize opening_fence_normalize)

lemma line_step_idem: "line_step fence (fst (line_step fence line)) = line_step fence line"
  by (auto simp: line_step_def normalize_line_idem opening_fence_line_normalize split: option.split)

subsection \<open>The loop over the lines\<close>

lemma takeWhile_line: "newline \<notin> set x \<Longrightarrow> takeWhile (\<lambda>c. c \<noteq> newline) (x @ newline # r) = x"
  by (induction x) auto

lemma first_line_fed: "newline \<notin> set x \<Longrightarrow> first_line (x @ newline # r) = x @ [newline]"
  by (simp add: first_line_def takeWhile_line)

lemma first_line_all: "newline \<notin> set x \<Longrightarrow> first_line x = x"
proof -
  assume "newline \<notin> set x"
  then have tw: "takeWhile (\<lambda>c. c \<noteq> newline) x = x" by auto
  show ?thesis unfolding first_line_def Let_def tw by simp
qed

lemma first_lineE:
  obtains (fed) x r where "s = x @ newline # r" "newline \<notin> set x" "first_line s = x @ [newline]"
  | (all) "newline \<notin> set s" "first_line s = s"
proof (cases "newline \<in> set s")
  case True
  then obtain x r where "s = x @ newline # r" "newline \<notin> set x" by (meson split_list_first)
  with first_line_fed show thesis by (intro fed [of x r]) auto
qed (use first_line_all all in blast)

lemma normalize_line_no_newline: "newline \<notin> set line \<Longrightarrow> newline \<notin> set (normalize_line line)"
  using normalize_line_new [of newline line] by (auto simp: full_width_less_than_def)

text \<open>What is written for a line is one line.\<close>

lemma first_line_step:
  fixes fence :: "(char \<times> nat) option"
  assumes "s \<noteq> []"
  defines "out \<equiv> fst (line_step fence (first_line s))"
  shows "out \<noteq> []" and "drop (length (first_line s)) s = [] \<or> last out = newline"
    and "first_line (out @ (if drop (length (first_line s)) s = [] then [] else x)) = out"
proof -
  have out: "out = first_line s \<or> out = normalize_line (first_line s)"
    by (auto simp: out_def line_step_def split: option.split)
  show "out \<noteq> []" "drop (length (first_line s)) s = [] \<or> last out = newline"
    "first_line (out @ (if drop (length (first_line s)) s = [] then [] else x)) = out"
    using assms(1) out normalize_line_last [of "first_line s"]
    by (cases s rule: first_lineE;
        auto simp: normalize_line_snoc first_line_fed first_line_all normalize_line_no_newline)+
qed

lemma normalize_lines_Nil [simp]: "normalize_lines fence [] = []"
  by (simp add: normalize_lines.simps)

lemma normalize_lines_step:
  "s \<noteq> [] \<Longrightarrow> line_step fence (first_line s) = (out, fence') \<Longrightarrow>
   normalize_lines fence s = out @ normalize_lines fence' (drop (length (first_line s)) s)"
  by (simp add: normalize_lines.simps [of fence s] Let_def)

lemma normalize_lines_idem: "normalize_lines fence (normalize_lines fence s) = normalize_lines fence s"
proof (induction fence s rule: normalize_lines.induct)
  case (1 fence s)
  show ?case
  proof (cases "s = []")
    case False
    obtain out fence' where step: "line_step fence (first_line s) = (out, fence')" by fastforce
    let ?rest = "drop (length (first_line s)) s"
    let ?N = "normalize_lines fence' ?rest"
    have IH: "normalize_lines fence' ?N = ?N" by (rule 1 [OF False refl step [symmetric] refl])
    have N: "?N = (if ?rest = [] then [] else ?N)" by simp
    have out: "fst (line_step fence (first_line s)) = out" by (simp add: step)
    have first: "first_line (out @ ?N) = out" "out \<noteq> []"
      using first_line_step(3) [OF False, of fence ?N] first_line_step(1) [OF False, of fence] N
      unfolding out by metis+
    have "line_step fence out = (out, fence')" using line_step_idem [of fence "first_line s"] by (simp add: step)
    with first have "normalize_lines fence (out @ ?N) = out @ normalize_lines fence' ?N"
      by (simp add: normalize_lines_step)
    then show ?thesis by (simp add: normalize_lines_step [OF False step] IH)
  qed simp
qed

subsection \<open>Nothing else changes\<close>

text \<open>Reading the full-width sign as the plain one.\<close>

fun plain_sign :: "string \<Rightarrow> string" where
  "plain_sign (a # b # c # r) =
     (if [a, b, c] = full_width_less_than then less_than # plain_sign r else a # plain_sign (b # c # r))"
| "plain_sign s = s"

lemma plain_sign_less_than: "plain_sign (x @ less_than # y) = plain_sign x @ less_than # plain_sign y"
  by (induction x rule: plain_sign.induct)
    (cases y; cases "tl y"; auto simp: full_width_less_than_def)+

lemma plain_sign_full_width:
  "plain_sign (x @ full_width_less_than @ y) = plain_sign x @ less_than # plain_sign y"
  by (induction x rule: plain_sign.induct) (auto simp: full_width_less_than_def)

lemma plain_sign_line: "plain_sign (p @ normalize_line line @ q) = plain_sign (p @ line @ q)"
proof (induction line arbitrary: p rule: normalize_line_induct)
  case (other c r)
  from other(2) [of "p @ [c]"] other(1) show ?case by simp
next
  case (bare r)
  then show ?case
    using bare(2) [of "[]"] by (simp add: normalize_line_bare plain_sign_full_width plain_sign_less_than)
next
  case (tag r n)
  from tag(3) [of "p @ take n (less_than # r)"] show ?case
    by (simp only: normalize_line_tag [OF tag(1)] append.assoc) (metis append.assoc append_take_drop_id)
qed simp

lemma plain_sign_lines: "plain_sign (p @ normalize_lines fence s) = plain_sign (p @ s)"
proof (induction fence s arbitrary: p rule: normalize_lines.induct)
  case (1 fence s)
  show ?case
  proof (cases "s = []")
    case False
    obtain out fence' where step: "line_step fence (first_line s) = (out, fence')" by fastforce
    let ?rest = "drop (length (first_line s)) s"
    have s: "s = first_line s @ ?rest"
      by (cases s rule: first_lineE) simp_all
    have out: "out = first_line s \<or> out = normalize_line (first_line s)"
      using step by (auto simp: line_step_def split: option.splits)
    have "plain_sign (p @ normalize_lines fence s) = plain_sign ((p @ out) @ normalize_lines fence' ?rest)"
      by (simp add: normalize_lines_step [OF False step])
    also have "\<dots> = plain_sign (p @ out @ ?rest)"
      using 1 [OF False refl step [symmetric] refl, of "p @ out"] by simp
    also have "\<dots> = plain_sign (p @ first_line s @ ?rest)"
      using out plain_sign_line [of p "first_line s" ?rest] by auto
    finally show ?thesis using s by simp
  qed simp
qed

lemma normalize_line_without: "less_than \<notin> set line \<Longrightarrow> normalize_line line = line"
  using normalize_line_prefix [of line "[]"] by simp

lemma normalize_lines_without: "less_than \<notin> set s \<Longrightarrow> normalize_lines fence s = s"
proof (induction fence s rule: normalize_lines.induct)
  case (1 fence s)
  show ?case
  proof (cases "s = []")
    case False
    obtain out fence' where step: "line_step fence (first_line s) = (out, fence')" by fastforce
    have "first_line s @ drop (length (first_line s)) s = s" by (cases s rule: first_lineE) simp_all
    then have no: "less_than \<notin> set (first_line s)" "less_than \<notin> set (drop (length (first_line s)) s)"
      using "1.prems" by (metis Un_iff set_append)+
    have "out = first_line s"
      using step normalize_line_without [OF no(1)] by (auto simp: line_step_def split: option.splits)
    with 1(1) [OF False refl step [symmetric] refl no(2)] \<open>first_line s @ _ = s\<close> show ?thesis
      by (simp add: normalize_lines_step [OF False step])
  qed simp
qed

lemma normalize_bare_less_than_lines: "normalize_bare_less_than s = normalize_lines None s"
  by (simp add: normalize_bare_less_than_def normalize_lines_without)

subsection \<open>What is normalised\<close>

text \<open>A line without bare signs: every less-than sign that is not within a tag starts one.\<close>

function bare_free :: "string \<Rightarrow> bool" where
  "bare_free line =
     (case line of [] \<Rightarrow> True
      | c # r \<Rightarrow>
          if c = less_than
          then (case html_tag_end line of Some n \<Rightarrow> bare_free (drop n line) | None \<Rightarrow> False)
          else bare_free r)"
  by pat_completeness auto
termination
  by (relation "measure length") (auto dest: html_tag_end_pos)

declare bare_free.simps [simp del]

text \<open>The lines of a text that are in no fenced block and open none.\<close>

function open_lines :: "(char \<times> nat) option \<Rightarrow> string \<Rightarrow> string list" where
  "open_lines fence s =
     (if s = [] then []
      else (let line = first_line s; fence' = snd (line_step fence line)
            in (if fence = None \<and> fence' = None then [line] else []) @
               open_lines fence' (drop (length line) s)))"
  by pat_completeness auto
termination
proof (relation "measure (length \<circ> snd)", goal_cases)
  case (2 fence s line fence')
  then have "0 < length line" by (simp add: first_line_def Let_def)
  with 2 show ?case by simp
qed simp

declare open_lines.simps [simp del]

lemma open_lines_step:
  "s \<noteq> [] \<Longrightarrow> line_step fence (first_line s) = (out, fence') \<Longrightarrow>
   open_lines fence s = (if fence = None \<and> fence' = None then [first_line s] else []) @
     open_lines fence' (drop (length (first_line s)) s)"
  by (simp add: open_lines.simps [of fence s] Let_def)

lemma bare_free_tag_append:
  assumes "html_tag_end (less_than # r) = Some n"
  shows "bare_free (take n (less_than # r) @ x) = bare_free x"
proof -
  obtain m where m: "n = Suc m" using html_tag_end_pos [OF assms] by (cases n) auto
  have "m \<le> length r" using html_tag_end_prefix(2) [OF assms] by (simp add: m)
  with html_tag_end_prefix(1) [OF assms, of x] show ?thesis
    by (simp add: m bare_free.simps [of "less_than # _"])
qed

lemma bare_free_other: "c \<noteq> less_than \<Longrightarrow> bare_free (c # r) = bare_free r"
  by (simp add: bare_free.simps [of "c # r"])

lemma bare_free_normalize_line: "bare_free (normalize_line line)"
proof (induction line rule: normalize_line_induct)
  case Nil
  show ?case by (simp add: bare_free.simps)
next
  case (tag r n)
  then show ?case by (simp only: normalize_line_tag [OF tag(1)] bare_free_tag_append [OF tag(1)])
qed (simp_all add: normalize_line_bare bare_free_other full_width_less_than_def)

lemma open_lines_normalize:
  "open_lines fence (normalize_lines fence s) = map normalize_line (open_lines fence s)"
proof (induction fence s rule: normalize_lines.induct)
  case (1 fence s)
  show ?case
  proof (cases "s = []")
    case False
    obtain out fence' where step: "line_step fence (first_line s) = (out, fence')" by fastforce
    let ?rest = "drop (length (first_line s)) s"
    let ?N = "normalize_lines fence' ?rest"
    have IH: "open_lines fence' ?N = map normalize_line (open_lines fence' ?rest)"
      by (rule 1 [OF False refl step [symmetric] refl])
    have N: "?N = (if ?rest = [] then [] else ?N)" by simp
    have out: "fst (line_step fence (first_line s)) = out" by (simp add: step)
    have first: "first_line (out @ ?N) = out" "out \<noteq> []"
      using first_line_step(3) [OF False, of fence ?N] first_line_step(1) [OF False, of fence] N
      unfolding out by metis+
    have again: "line_step fence out = (out, fence')" using line_step_idem [of fence "first_line s"] by (simp add: step)
    have norm: "out = normalize_line (first_line s)" if "fence = None" "fence' = None"
      using step that by (auto simp: line_step_def split: option.splits)
    have "open_lines fence (out @ ?N) = (if fence = None \<and> fence' = None then [out] else []) @ open_lines fence' ?N"
    proof -
      have "out @ ?N \<noteq> []" "line_step fence (first_line (out @ ?N)) = (out, fence')"
        using first(2) by (simp, simp only: first(1) again)
      from open_lines_step [OF this] show ?thesis by (simp only: first(1) append_eq_conv_conj) simp
    qed
    then show ?thesis
      by (simp add: normalize_lines_step [OF False step] open_lines_step [OF False step] IH norm)
  qed (simp add: open_lines.simps)
qed

end
