(* ===== verification/Aes.thy ===== *)
theory Aes
  imports Prelude
begin

section \<open>AES-128\<close>

text \<open>
  The block cipher of \<open>crypto/aes\<close>, as FIPS 197 defines it: the key schedule, the rounds and
  their inverses on a state of sixteen bytes in column order.  The result of this theory is that
  decrypting a block undoes encrypting it, which theory \<open>Crypto\<close> needs.
\<close>

unbundle bit_operations_syntax

type_synonym byte = "8 word"

subsection \<open>The cipher\<close>

definition sbox :: "byte list" where
  "sbox = [
    0x63, 0x7C, 0x77, 0x7B, 0xF2, 0x6B, 0x6F, 0xC5, 0x30, 0x01, 0x67, 0x2B, 0xFE, 0xD7, 0xAB, 0x76,
    0xCA, 0x82, 0xC9, 0x7D, 0xFA, 0x59, 0x47, 0xF0, 0xAD, 0xD4, 0xA2, 0xAF, 0x9C, 0xA4, 0x72, 0xC0,
    0xB7, 0xFD, 0x93, 0x26, 0x36, 0x3F, 0xF7, 0xCC, 0x34, 0xA5, 0xE5, 0xF1, 0x71, 0xD8, 0x31, 0x15,
    0x04, 0xC7, 0x23, 0xC3, 0x18, 0x96, 0x05, 0x9A, 0x07, 0x12, 0x80, 0xE2, 0xEB, 0x27, 0xB2, 0x75,
    0x09, 0x83, 0x2C, 0x1A, 0x1B, 0x6E, 0x5A, 0xA0, 0x52, 0x3B, 0xD6, 0xB3, 0x29, 0xE3, 0x2F, 0x84,
    0x53, 0xD1, 0x00, 0xED, 0x20, 0xFC, 0xB1, 0x5B, 0x6A, 0xCB, 0xBE, 0x39, 0x4A, 0x4C, 0x58, 0xCF,
    0xD0, 0xEF, 0xAA, 0xFB, 0x43, 0x4D, 0x33, 0x85, 0x45, 0xF9, 0x02, 0x7F, 0x50, 0x3C, 0x9F, 0xA8,
    0x51, 0xA3, 0x40, 0x8F, 0x92, 0x9D, 0x38, 0xF5, 0xBC, 0xB6, 0xDA, 0x21, 0x10, 0xFF, 0xF3, 0xD2,
    0xCD, 0x0C, 0x13, 0xEC, 0x5F, 0x97, 0x44, 0x17, 0xC4, 0xA7, 0x7E, 0x3D, 0x64, 0x5D, 0x19, 0x73,
    0x60, 0x81, 0x4F, 0xDC, 0x22, 0x2A, 0x90, 0x88, 0x46, 0xEE, 0xB8, 0x14, 0xDE, 0x5E, 0x0B, 0xDB,
    0xE0, 0x32, 0x3A, 0x0A, 0x49, 0x06, 0x24, 0x5C, 0xC2, 0xD3, 0xAC, 0x62, 0x91, 0x95, 0xE4, 0x79,
    0xE7, 0xC8, 0x37, 0x6D, 0x8D, 0xD5, 0x4E, 0xA9, 0x6C, 0x56, 0xF4, 0xEA, 0x65, 0x7A, 0xAE, 0x08,
    0xBA, 0x78, 0x25, 0x2E, 0x1C, 0xA6, 0xB4, 0xC6, 0xE8, 0xDD, 0x74, 0x1F, 0x4B, 0xBD, 0x8B, 0x8A,
    0x70, 0x3E, 0xB5, 0x66, 0x48, 0x03, 0xF6, 0x0E, 0x61, 0x35, 0x57, 0xB9, 0x86, 0xC1, 0x1D, 0x9E,
    0xE1, 0xF8, 0x98, 0x11, 0x69, 0xD9, 0x8E, 0x94, 0x9B, 0x1E, 0x87, 0xE9, 0xCE, 0x55, 0x28, 0xDF,
    0x8C, 0xA1, 0x89, 0x0D, 0xBF, 0xE6, 0x42, 0x68, 0x41, 0x99, 0x2D, 0x0F, 0xB0, 0x54, 0xBB, 0x16]"

definition inv_sbox :: "byte list" where
  "inv_sbox = [
    0x52, 0x09, 0x6A, 0xD5, 0x30, 0x36, 0xA5, 0x38, 0xBF, 0x40, 0xA3, 0x9E, 0x81, 0xF3, 0xD7, 0xFB,
    0x7C, 0xE3, 0x39, 0x82, 0x9B, 0x2F, 0xFF, 0x87, 0x34, 0x8E, 0x43, 0x44, 0xC4, 0xDE, 0xE9, 0xCB,
    0x54, 0x7B, 0x94, 0x32, 0xA6, 0xC2, 0x23, 0x3D, 0xEE, 0x4C, 0x95, 0x0B, 0x42, 0xFA, 0xC3, 0x4E,
    0x08, 0x2E, 0xA1, 0x66, 0x28, 0xD9, 0x24, 0xB2, 0x76, 0x5B, 0xA2, 0x49, 0x6D, 0x8B, 0xD1, 0x25,
    0x72, 0xF8, 0xF6, 0x64, 0x86, 0x68, 0x98, 0x16, 0xD4, 0xA4, 0x5C, 0xCC, 0x5D, 0x65, 0xB6, 0x92,
    0x6C, 0x70, 0x48, 0x50, 0xFD, 0xED, 0xB9, 0xDA, 0x5E, 0x15, 0x46, 0x57, 0xA7, 0x8D, 0x9D, 0x84,
    0x90, 0xD8, 0xAB, 0x00, 0x8C, 0xBC, 0xD3, 0x0A, 0xF7, 0xE4, 0x58, 0x05, 0xB8, 0xB3, 0x45, 0x06,
    0xD0, 0x2C, 0x1E, 0x8F, 0xCA, 0x3F, 0x0F, 0x02, 0xC1, 0xAF, 0xBD, 0x03, 0x01, 0x13, 0x8A, 0x6B,
    0x3A, 0x91, 0x11, 0x41, 0x4F, 0x67, 0xDC, 0xEA, 0x97, 0xF2, 0xCF, 0xCE, 0xF0, 0xB4, 0xE6, 0x73,
    0x96, 0xAC, 0x74, 0x22, 0xE7, 0xAD, 0x35, 0x85, 0xE2, 0xF9, 0x37, 0xE8, 0x1C, 0x75, 0xDF, 0x6E,
    0x47, 0xF1, 0x1A, 0x71, 0x1D, 0x29, 0xC5, 0x89, 0x6F, 0xB7, 0x62, 0x0E, 0xAA, 0x18, 0xBE, 0x1B,
    0xFC, 0x56, 0x3E, 0x4B, 0xC6, 0xD2, 0x79, 0x20, 0x9A, 0xDB, 0xC0, 0xFE, 0x78, 0xCD, 0x5A, 0xF4,
    0x1F, 0xDD, 0xA8, 0x33, 0x88, 0x07, 0xC7, 0x31, 0xB1, 0x12, 0x10, 0x59, 0x27, 0x80, 0xEC, 0x5F,
    0x60, 0x51, 0x7F, 0xA9, 0x19, 0xB5, 0x4A, 0x0D, 0x2D, 0xE5, 0x7A, 0x9F, 0x93, 0xC9, 0x9C, 0xEF,
    0xA0, 0xE0, 0x3B, 0x4D, 0xAE, 0x2A, 0xF5, 0xB0, 0xC8, 0xEB, 0xBB, 0x3C, 0x83, 0x53, 0x99, 0x61,
    0x17, 0x2B, 0x04, 0x7E, 0xBA, 0x77, 0xD6, 0x26, 0xE1, 0x69, 0x14, 0x63, 0x55, 0x21, 0x0C, 0x7D]"

definition sub_byte :: "byte \<Rightarrow> byte" where "sub_byte b = sbox ! unat b"

definition inv_sub_byte :: "byte \<Rightarrow> byte" where "inv_sub_byte b = inv_sbox ! unat b"

definition xtime :: "byte \<Rightarrow> byte" where
  "xtime b = push_bit 1 b XOR (if bit b 7 then 0x1B else 0)"

fun mix_columns :: "byte list \<Rightarrow> byte list" where
  "mix_columns (a # b # c # d # r) =
     (xtime a XOR xtime b XOR b XOR c XOR d) #
     (a XOR xtime b XOR xtime c XOR c XOR d) #
     (a XOR b XOR xtime c XOR xtime d XOR d) #
     (xtime a XOR a XOR b XOR c XOR xtime d) # mix_columns r"
| "mix_columns r = r"

text \<open>Products with 9, 11, 13 and 14.\<close>

definition mul9 :: "byte \<Rightarrow> byte" where "mul9 b = xtime (xtime (xtime b)) XOR b"
definition mul11 :: "byte \<Rightarrow> byte" where "mul11 b = xtime (xtime (xtime b)) XOR xtime b XOR b"
definition mul13 :: "byte \<Rightarrow> byte" where "mul13 b = xtime (xtime (xtime b)) XOR xtime (xtime b) XOR b"
definition mul14 :: "byte \<Rightarrow> byte" where "mul14 b = xtime (xtime (xtime b)) XOR xtime (xtime b) XOR xtime b"

fun inv_mix_columns :: "byte list \<Rightarrow> byte list" where
  "inv_mix_columns (a # b # c # d # r) =
     (mul14 a XOR mul11 b XOR mul13 c XOR mul9 d) #
     (mul9 a XOR mul14 b XOR mul11 c XOR mul13 d) #
     (mul13 a XOR mul9 b XOR mul14 c XOR mul11 d) #
     (mul11 a XOR mul13 b XOR mul9 c XOR mul14 d) # inv_mix_columns r"
| "inv_mix_columns r = r"

definition pick :: "nat list \<Rightarrow> byte list \<Rightarrow> byte list" where
  "pick order s = map (\<lambda>i. s ! i) order"

definition shift_rows :: "byte list \<Rightarrow> byte list" where
  "shift_rows = pick [0, 5, 10, 15, 4, 9, 14, 3, 8, 13, 2, 7, 12, 1, 6, 11]"

definition inv_shift_rows :: "byte list \<Rightarrow> byte list" where
  "inv_shift_rows = pick [0, 13, 10, 7, 4, 1, 14, 11, 8, 5, 2, 15, 12, 9, 6, 3]"

definition xor_bytes :: "byte list \<Rightarrow> byte list \<Rightarrow> byte list" where
  "xor_bytes xs ys = map2 (XOR) xs ys"

text \<open>The next round key from the one before.\<close>

definition next_round_key :: "byte \<Rightarrow> byte list \<Rightarrow> byte list" where
  "next_round_key rcon k =
     (let t = [sub_byte (k ! 13) XOR rcon, sub_byte (k ! 14), sub_byte (k ! 15), sub_byte (k ! 12)];
          w0 = xor_bytes (take 4 k) t;
          w1 = xor_bytes (take 4 (drop 4 k)) w0;
          w2 = xor_bytes (take 4 (drop 8 k)) w1;
          w3 = xor_bytes (drop 12 k) w2
      in w0 @ w1 @ w2 @ w3)"

fun round_keys :: "byte list \<Rightarrow> byte list \<Rightarrow> byte list list" where
  "round_keys [] k = []"
| "round_keys (rcon # rcons) k = next_round_key rcon k # round_keys rcons (next_round_key rcon k)"

definition aes_round_keys :: "byte list \<Rightarrow> byte list list" where
  "aes_round_keys k = round_keys [0x01, 0x02, 0x04, 0x08, 0x10, 0x20, 0x40, 0x80, 0x1B, 0x36] k"

definition aes_round :: "byte list \<Rightarrow> byte list \<Rightarrow> byte list" where
  "aes_round k s = xor_bytes (mix_columns (shift_rows (map sub_byte s))) k"

definition inv_aes_round :: "byte list \<Rightarrow> byte list \<Rightarrow> byte list" where
  "inv_aes_round k s = map inv_sub_byte (inv_shift_rows (inv_mix_columns (xor_bytes s k)))"

definition aes_last_round :: "byte list \<Rightarrow> byte list \<Rightarrow> byte list" where
  "aes_last_round k s = xor_bytes (shift_rows (map sub_byte s)) k"

definition inv_aes_last_round :: "byte list \<Rightarrow> byte list \<Rightarrow> byte list" where
  "inv_aes_last_round k s = map inv_sub_byte (inv_shift_rows (xor_bytes s k))"

definition aes_encrypt :: "byte list \<Rightarrow> byte list \<Rightarrow> byte list" where
  "aes_encrypt k s =
     (let ks = aes_round_keys k
      in aes_last_round (last ks) (fold aes_round (butlast ks) (xor_bytes s k)))"

definition aes_decrypt :: "byte list \<Rightarrow> byte list \<Rightarrow> byte list" where
  "aes_decrypt k s =
     (let ks = aes_round_keys k
      in xor_bytes (foldr inv_aes_round (butlast ks) (inv_aes_last_round (last ks) s)) k)"

subsection \<open>Inverses\<close>

lemma sub_byte_table: "list_all (\<lambda>n. inv_sub_byte (sub_byte (word_of_nat n)) = word_of_nat n) [0..<256]"
  by code_simp

lemma inv_sub_sub [simp]: "inv_sub_byte (sub_byte b) = b"
proof -
  have "unat b \<in> set [0..<256]" using unsigned_less [of b] by simp
  with sub_byte_table have "inv_sub_byte (sub_byte (word_of_nat (unat b))) = word_of_nat (unat b)"
    unfolding list_all_iff by (rule bspec)
  then show ?thesis by simp
qed

lemma xtime_xor: "xtime (a XOR b) = xtime a XOR xtime b"
  by (simp add: xtime_def push_bit_xor bit_xor_iff ac_simps)

lemma xor_cancel [simp]: "(a :: byte) XOR (a XOR b) = b"
  by (simp flip: xor.assoc)

lemma inv_mix_mix: "inv_mix_columns (mix_columns s) = s"
  by (induction s rule: mix_columns.induct)
    (simp_all add: mul9_def mul11_def mul13_def mul14_def xtime_xor ac_simps)

lemma length_mix [simp]: "length (mix_columns s) = length s"
  by (induction s rule: mix_columns.induct) auto

lemma length_pick [simp]: "length (pick order s) = length order"
  by (simp add: pick_def)

lemma length_shift_rows [simp]: "length (shift_rows s) = 16"
  by (simp add: shift_rows_def)

lemma length_xor_bytes [simp]: "length (xor_bytes xs ys) = min (length xs) (length ys)"
  by (simp add: xor_bytes_def)

lemma inv_shift_shift: "length s = 16 \<Longrightarrow> inv_shift_rows (shift_rows s) = s"
  by (rule nth_equalityI) (auto simp: inv_shift_rows_def shift_rows_def pick_def less_Suc_eq numeral_eq_Suc)

lemma xor_bytes_twice: "length k = length s \<Longrightarrow> xor_bytes (xor_bytes s k) k = s"
  by (rule nth_equalityI) (simp_all add: xor_bytes_def ac_simps)

lemma length_next_round_key [simp]: "length k = 16 \<Longrightarrow> length (next_round_key rcon k) = 16"
  by (simp add: next_round_key_def Let_def)

lemma round_keys_length: "length k = 16 \<Longrightarrow> r \<in> set (round_keys rcons k) \<Longrightarrow> length r = 16"
  by (induction rcons k rule: round_keys.induct) auto

lemma aes_round_inverse:
  assumes "length k = 16" and "length s = 16"
  shows "inv_aes_round k (aes_round k s) = s" and "length (aes_round k s) = 16"
  using assms by (simp_all add: inv_aes_round_def aes_round_def xor_bytes_twice inv_mix_mix inv_shift_shift comp_def)

lemma aes_last_round_inverse:
  assumes "length k = 16" and "length s = 16"
  shows "inv_aes_last_round k (aes_last_round k s) = s" and "length (aes_last_round k s) = 16"
  using assms by (simp_all add: inv_aes_last_round_def aes_last_round_def xor_bytes_twice inv_shift_shift comp_def)

lemma rounds_inverse:
  "list_all (\<lambda>k. length k = 16) ks \<Longrightarrow> length s = 16 \<Longrightarrow>
   foldr inv_aes_round ks (fold aes_round ks s) = s \<and> length (fold aes_round ks s) = 16"
  by (induction ks arbitrary: s) (simp_all add: aes_round_inverse)

lemma aes_round_keys_length:
  assumes "length k = 16"
  shows "list_all (\<lambda>r. length r = 16) (butlast (aes_round_keys k))" and "length (last (aes_round_keys k)) = 16"
proof -
  have all: "r \<in> set (aes_round_keys k) \<Longrightarrow> length r = 16" for r
    unfolding aes_round_keys_def by (rule round_keys_length [OF assms])
  then show "list_all (\<lambda>r. length r = 16) (butlast (aes_round_keys k))"
    by (auto simp: list_all_iff dest: in_set_butlastD)
  have "aes_round_keys k \<noteq> []" by (simp add: aes_round_keys_def)
  then show "length (last (aes_round_keys k)) = 16" by (intro all last_in_set)
qed

lemma aes_decrypt_encrypt:
  assumes "length k = 16" and "length s = 16"
  shows "aes_decrypt k (aes_encrypt k s) = s" and "length (aes_encrypt k s) = 16"
  using assms rounds_inverse [OF aes_round_keys_length(1) [OF assms(1)], of "xor_bytes s k"]
    aes_last_round_inverse [OF aes_round_keys_length(2) [OF assms(1)], of "fold aes_round (butlast (aes_round_keys k)) (xor_bytes s k)"]
  by (simp_all add: aes_encrypt_def aes_decrypt_def Let_def xor_bytes_twice)

text \<open>The example of FIPS 197, appendix C.1.\<close>

lemma aes_example:
  "aes_encrypt [0x00, 0x01, 0x02, 0x03, 0x04, 0x05, 0x06, 0x07, 0x08, 0x09, 0x0A, 0x0B, 0x0C, 0x0D, 0x0E, 0x0F]
     [0x00, 0x11, 0x22, 0x33, 0x44, 0x55, 0x66, 0x77, 0x88, 0x99, 0xAA, 0xBB, 0xCC, 0xDD, 0xEE, 0xFF] =
   [0x69, 0xC4, 0xE0, 0xD8, 0x6A, 0x7B, 0x04, 0x30, 0xD8, 0xCD, 0xB7, 0x80, 0x70, 0xB4, 0xC5, 0x5A]"
  by code_simp

end
