(* ===== verification/Crypto.thy ===== *)
theory Crypto
  imports Aes GoText "HOL-Library.Signed_Division"
begin

section \<open>Media encryption and keys\<close>

text \<open>
  Models \<open>internal/crypto/aes.go\<close>: AES-128 in ECB mode with PKCS7 padding, and the three
  spellings of a key in the protocol.  \<open>encoding/hex\<close> and \<open>encoding/base64\<close> are
  modelled in front; a slice expression or a loop over blocks is \<open>take\<close> and \<open>drop\<close>.
  What the block mode needs of the cipher is the locale \<open>block_cipher\<close>, interpreted on AES.
\<close>

subsection \<open>Hexadecimal\<close>

definition hex_encode :: "bytes \<Rightarrow> string" where
  "hex_encode data = concat (map (\<lambda>b. [hex_digit (byte_val b div 16), hex_digit (byte_val b mod 16)]) data)"

fun hex_decode :: "string \<Rightarrow> bytes option" where
  "hex_decode [] = Some []"
| "hex_decode [_] = None"
| "hex_decode (h # l # r) =
     (case (unhex h, unhex l, hex_decode r) of
        (Some i, Some j, Some bs) \<Rightarrow> Some (char_of (16 * i + j) # bs)
      | _ \<Rightarrow> None)"

text \<open>\<open>hexPattern\<close>.\<close>

definition hex_pattern :: "string \<Rightarrow> bool" where
  "hex_pattern s \<longleftrightarrow> length s = 32 \<and> list_all (\<lambda>c. unhex c \<noteq> None) s"

subsection \<open>Base64\<close>

definition b64_char :: "nat \<Rightarrow> char" where
  "b64_char n =
     (if n < 26 then char_of (65 + n) else if n < 52 then char_of (71 + n)
      else if n < 62 then char_of (n - 4) else if n = 62 then CHR ''+'' else CHR ''/'')"

text \<open>The value of a character in the standard alphabet, or in the URL-safe one.\<close>

definition b64_val :: "bool \<Rightarrow> char \<Rightarrow> nat option" where
  "b64_val url c =
     (if is_upper_letter c then Some (byte_val c - 65)
      else if is_lower_letter c then Some (byte_val c - 71)
      else if is_digit c then Some (byte_val c + 4)
      else if c = (if url then CHR ''-'' else CHR ''+'') then Some 62
      else if c = (if url then CHR ''_'' else CHR ''/'') then Some 63
      else None)"

abbreviation pad_char :: char where "pad_char \<equiv> CHR ''=''"

fun b64_encode :: "bytes \<Rightarrow> string" where
  "b64_encode [] = []"
| "b64_encode [a] =
     (let x = byte_val a in [b64_char (x div 4), b64_char (x mod 4 * 16), pad_char, pad_char])"
| "b64_encode [a, b] =
     (let x = byte_val a; y = byte_val b
      in [b64_char (x div 4), b64_char (x mod 4 * 16 + y div 16), b64_char (y mod 16 * 4), pad_char])"
| "b64_encode (a # b # c # r) =
     (let x = byte_val a; y = byte_val b; z = byte_val c
      in b64_char (x div 4) # b64_char (x mod 4 * 16 + y div 16) #
         b64_char (y mod 16 * 4 + z div 64) # b64_char (z mod 64) # b64_encode r)"

text \<open>
  The decoder takes four characters at a time; padding is required and only allowed at the end,
  the bits it leaves over are ignored.
\<close>

definition b64_byte1 :: "nat \<Rightarrow> nat \<Rightarrow> char" where "b64_byte1 p q = char_of (p * 4 + q div 16)"
definition b64_byte2 :: "nat \<Rightarrow> nat \<Rightarrow> char" where "b64_byte2 q r = char_of (q mod 16 * 16 + r div 4)"
definition b64_byte3 :: "nat \<Rightarrow> nat \<Rightarrow> char" where "b64_byte3 r s = char_of (r mod 4 * 64 + s)"

fun b64_quanta :: "bool \<Rightarrow> string \<Rightarrow> bytes option" where
  "b64_quanta url [] = Some []"
| "b64_quanta url (a # b # c # d # rest) =
     (case (b64_val url a, b64_val url b) of
        (Some p, Some q) \<Rightarrow>
          (if c = pad_char then (if d = pad_char \<and> rest = [] then Some [b64_byte1 p q] else None)
           else (case b64_val url c of
              None \<Rightarrow> None
            | Some r \<Rightarrow>
                (if d = pad_char then (if rest = [] then Some [b64_byte1 p q, b64_byte2 q r] else None)
                 else (case (b64_val url d, b64_quanta url rest) of
                    (Some s, Some bs) \<Rightarrow> Some (b64_byte1 p q # b64_byte2 q r # b64_byte3 r s # bs)
                  | _ \<Rightarrow> None))))
      | _ \<Rightarrow> None)"
| "b64_quanta url _ = None"

text \<open>Carriage returns and line feeds are ignored wherever they stand.\<close>

definition b64_decode :: "bool \<Rightarrow> string \<Rightarrow> bytes option" where
  "b64_decode url s = b64_quanta url (filter (\<lambda>c. c \<noteq> carriage_return \<and> c \<noteq> newline) s)"

subsection \<open>The cipher\<close>

datatype crypto_error =
    Key_Length nat
  | Ciphertext_Length nat
  | Not_Base64
  | Decoded_Length nat
  | Not_Hex
  | Empty_Data
  | Invalid_Padding

definition to_bytes :: "string \<Rightarrow> byte list" where
  "to_bytes s = map (\<lambda>c. word_of_nat (byte_val c)) s"

definition of_bytes :: "byte list \<Rightarrow> string" where
  "of_bytes bs = map (\<lambda>b. char_of (unat b)) bs"

definition encrypt_block :: "bytes \<Rightarrow> bytes \<Rightarrow> bytes" where
  "encrypt_block key blk = of_bytes (aes_encrypt (to_bytes key) (to_bytes blk))"

definition decrypt_block :: "bytes \<Rightarrow> bytes \<Rightarrow> bytes" where
  "decrypt_block key blk = of_bytes (aes_decrypt (to_bytes key) (to_bytes blk))"

definition block_size :: nat where "block_size = 16"

text \<open>The loop over the blocks of a slice whose length is a multiple of the block size.\<close>

function each_block :: "(bytes \<Rightarrow> bytes) \<Rightarrow> bytes \<Rightarrow> bytes" where
  "each_block f data =
     (if data = [] then [] else f (take 16 data) @ each_block f (drop 16 data))"
  by pat_completeness auto
termination
  by (relation "measure (length \<circ> snd)") auto

declare each_block.simps [simp del]

definition pkcs7_pad :: "bytes \<Rightarrow> nat \<Rightarrow> bytes" where
  "pkcs7_pad data block = (let padding = block - length data mod block in data @ replicate padding (char_of padding))"

definition pkcs7_unpad :: "bytes \<Rightarrow> crypto_error + bytes" where
  "pkcs7_unpad data =
     (if data = [] then Inl Empty_Data
      else (let padding = byte_val (last data)
            in if length data < padding \<or> padding = 0 then Inl Invalid_Padding
               else Inr (take (length data - padding) data)))"

definition encrypt_aes_ecb :: "bytes \<Rightarrow> bytes \<Rightarrow> crypto_error + bytes" where
  "encrypt_aes_ecb plaintext key =
     (if length key \<noteq> 16 then Inl (Key_Length (length key))
      else Inr (each_block (encrypt_block key) (pkcs7_pad plaintext block_size)))"

definition decrypt_aes_ecb :: "bytes \<Rightarrow> bytes \<Rightarrow> crypto_error + bytes" where
  "decrypt_aes_ecb ciphertext key =
     (if length key \<noteq> 16 then Inl (Key_Length (length key))
      else if length ciphertext mod block_size \<noteq> 0 then Inl (Ciphertext_Length (length ciphertext))
      else pkcs7_unpad (each_block (decrypt_block key) ciphertext))"

text \<open>\<open>EncryptedSize\<close>; integer division in Go truncates.\<close>

definition encrypted_size :: "int \<Rightarrow> int" where
  "encrypted_size raw = ((raw + 1 + int block_size - 1) sdiv int block_size) * int block_size"

subsection \<open>Keys\<close>

definition hex_key :: "string \<Rightarrow> crypto_error + bytes" where
  "hex_key s = (case hex_decode s of Some k \<Rightarrow> Inr k | None \<Rightarrow> Inl Not_Hex)"

definition decode_aes_key :: "string \<Rightarrow> crypto_error + bytes" where
  "decode_aes_key encoded =
     (if hex_pattern encoded then hex_key encoded
      else (case (case b64_decode False encoded of Some d \<Rightarrow> Some d | None \<Rightarrow> b64_decode True encoded) of
              None \<Rightarrow> Inl Not_Base64
            | Some decoded \<Rightarrow>
                (if length decoded = 16 then Inr decoded
                 else if length decoded = 32 \<and> hex_pattern decoded then hex_key decoded
                 else Inl (Decoded_Length (length decoded)))))"

definition encode_aes_key_hex :: "bytes \<Rightarrow> string" where
  "encode_aes_key_hex key = hex_encode key"

definition encode_aes_key_base64 :: "bytes \<Rightarrow> string" where
  "encode_aes_key_base64 key = b64_encode (hex_encode key)"

subsection \<open>Codings\<close>

lemma b64_val_char [simp]: "n < 64 \<Longrightarrow> b64_val False (b64_char n) = Some n"
  by (auto simp: b64_char_def b64_val_def is_upper_letter_def is_lower_letter_def is_digit_def)

lemma b64_val_other: "b64_val False pad_char = None" "b64_val False newline = None" "b64_val False carriage_return = None"
  by (simp_all add: b64_val_def is_upper_letter_def is_lower_letter_def is_digit_def)

lemma b64_char_other [simp]:
  assumes "n < 64"
  shows "b64_char n \<noteq> pad_char" and "b64_char n \<noteq> newline" and "b64_char n \<noteq> carriage_return"
  using b64_val_char [OF assms] b64_val_other by (metis option.distinct(1))+

lemma hex_encode_Cons:
  "hex_encode (b # bs) = hex_digit (byte_val b div 16) # hex_digit (byte_val b mod 16) # hex_encode bs"
  by (simp add: hex_encode_def)

lemma byte_halves: "byte_val b div 16 < (16 :: nat)" "byte_val b div 4 < (64 :: nat)"
  using nat_of_char_less_256 [of b] by linarith+

lemma hex_decode_encode [simp]: "hex_decode (hex_encode bs) = Some bs"
  by (induction bs) (simp_all add: hex_encode_Cons byte_halves, simp add: hex_encode_def)

lemma length_hex_encode [simp]: "length (hex_encode bs) = 2 * length bs"
  by (induction bs) (simp_all add: hex_encode_Cons, simp add: hex_encode_def)

lemma hex_encode_hex: "list_all (\<lambda>c. unhex c \<noteq> None) (hex_encode bs)"
  by (induction bs) (simp_all add: hex_encode_Cons byte_halves, simp add: hex_encode_def)

lemma hex_decode_length: "hex_decode s = Some bs \<Longrightarrow> length s = 2 * length bs"
  by (induction s arbitrary: bs rule: hex_decode.induct) (auto split: option.splits)

lemma b64_byte_inverse:
  fixes a b c :: char
  shows "b64_byte1 (byte_val a div 4) (byte_val a mod 4 * 16 + byte_val b div 16) = a"
    and "b64_byte1 (byte_val a div 4) (byte_val a mod 4 * 16) = a"
    and "b64_byte2 (byte_val a mod 4 * 16 + byte_val b div 16) (byte_val b mod 16 * 4 + byte_val c div 64) = b"
    and "b64_byte2 (byte_val a mod 4 * 16 + byte_val b div 16) (byte_val b mod 16 * 4) = b"
    and "b64_byte3 (byte_val b mod 16 * 4 + byte_val c div 64) (byte_val c mod 64) = c"
proof -
  have lt: "byte_val a < (256 :: nat)" "byte_val b < (256 :: nat)" "byte_val c < (256 :: nat)" by simp_all
  have arith: "x div 4 * 4 + (x mod 4 * 16 + y div 16) div 16 = x"
    "x div 4 * 4 + (x mod 4 * 16) div 16 = x"
    "(x mod 4 * 16 + y div 16) mod 16 * 16 + (y mod 16 * 4 + z div 64) div 4 = y"
    "(x mod 4 * 16 + y div 16) mod 16 * 16 + (y mod 16 * 4) div 4 = y"
    "(y mod 16 * 4 + z div 64) mod 4 * 64 + z mod 64 = z"
    if "x < 256" "y < 256" "z < 256" for x y z :: nat
  proof -
    have "y div 16 < 16" "z div 64 < 4" using that by simp_all
    then show "x div 4 * 4 + (x mod 4 * 16 + y div 16) div 16 = x" "x div 4 * 4 + (x mod 4 * 16) div 16 = x"
      "(x mod 4 * 16 + y div 16) mod 16 * 16 + (y mod 16 * 4 + z div 64) div 4 = y"
      "(x mod 4 * 16 + y div 16) mod 16 * 16 + (y mod 16 * 4) div 4 = y"
      "(y mod 16 * 4 + z div 64) mod 4 * 64 + z mod 64 = z"
      by simp_all
  qed
  show "b64_byte1 (byte_val a div 4) (byte_val a mod 4 * 16 + byte_val b div 16) = a"
    "b64_byte1 (byte_val a div 4) (byte_val a mod 4 * 16) = a"
    "b64_byte2 (byte_val a mod 4 * 16 + byte_val b div 16) (byte_val b mod 16 * 4 + byte_val c div 64) = b"
    "b64_byte2 (byte_val a mod 4 * 16 + byte_val b div 16) (byte_val b mod 16 * 4) = b"
    "b64_byte3 (byte_val b mod 16 * 4 + byte_val c div 64) (byte_val c mod 64) = c"
    unfolding b64_byte1_def b64_byte2_def b64_byte3_def arith [OF lt] by simp_all
qed

lemma b64_bounds:
  fixes a b :: char
  shows "byte_val a mod 4 * 16 + byte_val b div 16 < (64 :: nat)" "byte_val a mod 4 * 16 < (64 :: nat)"
    and "byte_val a mod 16 * 4 + byte_val b div 64 < (64 :: nat)" "byte_val a mod 16 * 4 < (64 :: nat)"
proof -
  have "byte_val b < (256 :: nat)" by simp
  then have "byte_val b div 16 < (16 :: nat)" "byte_val b div 64 < (4 :: nat)" by linarith+
  moreover have "byte_val a mod 4 < (4 :: nat)" "byte_val a mod 16 < (16 :: nat)" by simp_all
  ultimately show "byte_val a mod 4 * 16 + byte_val b div 16 < (64 :: nat)" "byte_val a mod 4 * 16 < (64 :: nat)"
    "byte_val a mod 16 * 4 + byte_val b div 64 < (64 :: nat)" "byte_val a mod 16 * 4 < (64 :: nat)"
    by linarith+
qed

lemma b64_quanta_encode: "b64_quanta False (b64_encode bs) = Some bs"
  by (induction bs rule: b64_encode.induct)
    (simp_all add: Let_def byte_halves b64_bounds b64_byte_inverse)

lemma b64_encode_clean:
  "filter (\<lambda>c. c \<noteq> carriage_return \<and> c \<noteq> newline) (b64_encode bs) = b64_encode bs"
  by (induction bs rule: b64_encode.induct) (simp_all add: Let_def byte_halves b64_bounds)

lemma b64_decode_encode [simp]: "b64_decode False (b64_encode bs) = Some bs"
  by (simp only: b64_decode_def b64_encode_clean b64_quanta_encode)

lemma length_b64_encode: "length (b64_encode bs) = 4 * ((length bs + 2) div 3)"
proof (induction bs rule: b64_encode.induct)
  case (4 a b c r)
  have "(length (a # b # c # r) + 2) div 3 = Suc ((length r + 2) div 3)" by simp
  with 4 show ?case by (simp add: Let_def)
qed (simp_all add: Let_def)

subsection \<open>The block mode\<close>

text \<open>What ECB needs of a cipher: decryption with the same key undoes encryption, block by block.\<close>

locale block_cipher =
  fixes enc dec :: "bytes \<Rightarrow> bytes \<Rightarrow> bytes"
  assumes dec_enc: "length key = 16 \<Longrightarrow> length blk = 16 \<Longrightarrow> dec key (enc key blk) = blk"
    and length_enc: "length key = 16 \<Longrightarrow> length blk = 16 \<Longrightarrow> length (enc key blk) = 16"
begin

lemma each_block_inverse:
  assumes "length key = 16"
  shows "16 dvd length data \<Longrightarrow>
    each_block (dec key) (each_block (enc key) data) = data \<and> length (each_block (enc key) data) = length data"
proof (induction "enc key" data rule: each_block.induct)
  case (1 data)
  show ?case
  proof (cases "data = []")
    case False
    with "1.prems" have len: "16 \<le> length data" by (intro dvd_imp_le) auto
    then have "16 dvd length (drop 16 data)" using "1.prems" by (simp add: dvd_minus_self)
    note IH = "1.hyps" [OF False this]
    have block: "dec key (enc key (take 16 data)) = take 16 data" "length (enc key (take 16 data)) = 16"
      using len dec_enc length_enc assms by simp_all
    have enc: "each_block (enc key) data = enc key (take 16 data) @ each_block (enc key) (drop 16 data)"
      using False by (simp add: each_block.simps [of "enc key" data])
    have "enc key (take 16 data) \<noteq> []" using block(2) by auto
    then have "each_block (dec key) (each_block (enc key) data) =
        take 16 data @ each_block (dec key) (each_block (enc key) (drop 16 data))"
      by (simp add: enc each_block.simps [of "dec key" "_ @ _"] block)
    then show ?thesis using IH len block by (simp add: enc)
  qed (simp add: each_block.simps)
qed

end

lemma to_of_bytes [simp]: "to_bytes (of_bytes bs) = bs"
proof -
  have "unat b mod 256 = unat b" for b :: byte by (rule mod_less) (use unsigned_less [of b] in simp)
  then show ?thesis by (induction bs) (simp_all add: to_bytes_def of_bytes_def)
qed

lemma of_to_bytes [simp]: "of_bytes (to_bytes s) = s"
proof -
  have "take_bit 8 (byte_val c) = (byte_val c :: nat)" for c :: char by (simp add: take_bit_eq_mod)
  then show ?thesis by (induction s) (simp_all add: to_bytes_def of_bytes_def unsigned_of_nat)
qed

lemma length_to_bytes [simp]: "length (to_bytes s) = length s"
  by (simp add: to_bytes_def)

lemma length_of_bytes [simp]: "length (of_bytes bs) = length bs"
  by (simp add: of_bytes_def)

interpretation aes: block_cipher encrypt_block decrypt_block
  by unfold_locales (simp_all add: encrypt_block_def decrypt_block_def aes_decrypt_encrypt)

lemma length_pkcs7_pad:
  "16 dvd length (pkcs7_pad data block_size)"
  "length (pkcs7_pad data block_size) = 16 * (length data div 16) + 16"
  by (simp_all add: pkcs7_pad_def block_size_def Let_def) presburger+

lemma pkcs7_unpad_pad [simp]: "pkcs7_unpad (pkcs7_pad data block_size) = Inr data"
proof -
  define n where "n = 16 - length data mod 16"
  have n: "0 < n" "n \<le> 16" by (simp_all add: n_def)
  then have "last (data @ replicate n (char_of n :: char)) = char_of n" by simp
  with n show ?thesis
    by (simp add: pkcs7_pad_def pkcs7_unpad_def Let_def block_size_def flip: n_def)
qed

lemma hex_pattern_encode: "length key = 16 \<Longrightarrow> hex_pattern (hex_encode key)"
  using hex_encode_hex [of key] by (simp add: hex_pattern_def)

lemma hex_key_encode: "hex_key (hex_encode key) = Inr key"
  by (simp add: hex_key_def)

lemma hex_key_length:
  assumes "hex_key s = Inr k" and "hex_pattern s"
  shows "length k = 16"
  using assms hex_decode_length [of s k] by (auto simp: hex_key_def hex_pattern_def split: option.splits)

lemma b64_not_hex_pattern:
  "length d = 16 \<Longrightarrow> \<not> hex_pattern (b64_encode d)" "length d = 32 \<Longrightarrow> \<not> hex_pattern (b64_encode d)"
  by (simp_all add: hex_pattern_def length_b64_encode)

lemma encrypted_decrypts:
  assumes "encrypt_aes_ecb data key = Inr c"
  shows "decrypt_aes_ecb c key = Inr data" and "length c = length (pkcs7_pad data block_size)"
proof -
  let ?p = "pkcs7_pad data block_size"
  have key: "length key = 16" and c: "c = each_block (encrypt_block key) ?p"
    using assms by (auto simp: encrypt_aes_ecb_def split: if_splits)
  note inverse = aes.each_block_inverse [OF key length_pkcs7_pad(1) [of data]]
  then show "length c = length ?p" by (simp add: c)
  show "decrypt_aes_ecb c key = Inr data"
    using inverse length_pkcs7_pad(1) [of data] pkcs7_unpad_pad [of data] key
    by (simp add: c decrypt_aes_ecb_def block_size_def mod_eq_0_iff_dvd)
qed

lemma encrypted_length:
  assumes "encrypt_aes_ecb data key = Inr c"
  shows "length c = 16 * (length data div 16) + 16"
  using encrypted_decrypts(2) [OF assms] by (simp only: length_pkcs7_pad(2))

lemma encrypted_size_padded: "encrypted_size (int n) = int (16 * (n div 16) + 16)"
proof -
  have "(16 + int n) div 16 = int n div 16 + 1" by (rule div_add_self1) simp
  then show ?thesis by (simp add: encrypted_size_def block_size_def signed_divide_int_def zdiv_int)
qed

subsection \<open>Properties\<close>

text \<open>What is encrypted is decrypted.  Under a 16-byte key encryption succeeds for media of every
  length (also empty), the ciphertext has exactly the size that \<open>EncryptedSize\<close> announces, and
  decrypting it with the key gives the media back byte for byte.  The cipher is AES-128 as FIPS 197
  defines it.\<close>

theorem decrypt_encrypt:
  assumes "length key = 16"
  shows "\<exists>c. encrypt_aes_ecb data key = Inr c \<and> int (length c) = encrypted_size (int (length data)) \<and>
             decrypt_aes_ecb c key = Inr data"
proof -
  obtain c where c: "encrypt_aes_ecb data key = Inr c" using assms by (simp add: encrypt_aes_ecb_def)
  moreover have "int (length c) = encrypted_size (int (length data))"
    unfolding encrypted_size_padded encrypted_length [OF c] ..
  ultimately show ?thesis using encrypted_decrypts(1) [OF c] by blast
qed

theorem decrypt_encrypt_witness:
  "\<exists>c. encrypt_aes_ecb ''hello'' ''0123456789abcdef'' = Inr c \<and> decrypt_aes_ecb c ''0123456789abcdef'' = Inr ''hello''"
  using decrypt_encrypt [of "''0123456789abcdef''" "''hello''"] by auto

text \<open>The three spellings of a key in the protocol, hexadecimal, base64 of the bytes and base64 of
  the hexadecimal, are told apart: each is decoded to the key it was made from.\<close>

theorem keys_round_trip:
  assumes "length key = 16"
  shows "decode_aes_key (encode_aes_key_hex key) = Inr key \<and>
         decode_aes_key (encode_aes_key_base64 key) = Inr key \<and>
         decode_aes_key (b64_encode key) = Inr key"
  using assms
  by (simp add: decode_aes_key_def encode_aes_key_hex_def encode_aes_key_base64_def
      hex_pattern_encode hex_key_encode b64_not_hex_pattern)

theorem keys_round_trip_witness: "decode_aes_key (encode_aes_key_base64 ''0123456789abcdef'') = Inr ''0123456789abcdef''"
  using keys_round_trip [of "''0123456789abcdef''"] by simp

text \<open>Whatever is decoded is a key AES accepts.\<close>

lemma decoded_key_length:
  "decode_aes_key s = Inr k \<Longrightarrow> length k = 16"
  by (auto simp: decode_aes_key_def hex_key_length split: if_splits option.splits)

text \<open>
  \<open>pkcs7Unpad\<close> looks at the last byte only: padding longer than a block, or whose other bytes
  differ, is removed without an error.
\<close>

lemma malformed_padding_accepted:
  "pkcs7_unpad (replicate 31 (CHR ''x'') @ [CHR 0x14]) = Inr (replicate 12 (CHR ''x''))"
  by (simp add: pkcs7_unpad_def Let_def)

end
