(* ===== verification/Outbound.thy ===== *)
theory Outbound
  imports SessionFrame Handler Markdown Crypto
begin

section \<open>Sending one message\<close>

text \<open>
  Models \<open>outbound.go\<close>, \<open>BuildMessage\<close> of \<open>internal/protocol/api.go\<close> and
  \<open>reportError\<close> of \<open>logging.go\<close>.  The state of a sending operation is the bot, the world, the
  results that \<open>crypto/rand\<close> has in store and the requests this operation has made, oldest
  first.  Hooks, the service and whatever other goroutines do while they run are functions of an
  environment: each may change the bot and the world.  A message is a value here; that the code
  works on a copy of the caller's graph of pointers is the subject of theory \<open>ItemGraph\<close>.
\<close>

subsection \<open>Messages\<close>

record outbound_message =
  om_client_id :: string
  om_run_id :: string
  om_item :: message_item

record send_result =
  sr_client_id :: string
  sr_run_id :: string

record send_request =
  sq_user_id :: string
  sq_message :: outbound_message

record send_outcome =
  so_request :: send_request
  so_result :: send_result
  so_err :: "goerr option"

definition tool_call_completed :: string where "tool_call_completed = ''completed''"
definition tool_call_failed :: string where "tool_call_failed = ''failed''"
definition tool_call_blocked :: string where "tool_call_blocked = ''blocked''"
definition tool_call_unknown :: string where "tool_call_unknown = ''unknown''"

definition normalize_tool_call_status :: "string \<Rightarrow> string" where
  "normalize_tool_call_status status =
     (if status = tool_call_completed \<or> status = tool_call_failed \<or> status = tool_call_blocked
      then status else tool_call_unknown)"

text \<open>The clock is the argument \<open>now\<close>, in milliseconds.\<close>

definition new_tool_call_start_message :: "int \<Rightarrow> string \<Rightarrow> string \<Rightarrow> string \<Rightarrow> outbound_message" where
  "new_tool_call_start_message now runID toolName toolCallID =
     \<lparr>om_client_id = [], om_run_id = runID,
      om_item = MessageItem item_tool_call_start now 0 (Some False) [] None None None None None
        (Some \<lparr>ts_tool_name = toolName, ts_tool_call_id = toolCallID\<rparr>) None None\<rparr>"

definition new_tool_call_result_message ::
    "int \<Rightarrow> string \<Rightarrow> string \<Rightarrow> string \<Rightarrow> string \<Rightarrow> outbound_message" where
  "new_tool_call_result_message now runID toolName toolCallID status =
     \<lparr>om_client_id = [], om_run_id = runID,
      om_item = MessageItem item_tool_call_result now 0 (Some True) [] None None None None None None
        (Some \<lparr>tr_tool_name = toolName, tr_tool_call_id = toolCallID,
               tr_status = normalize_tool_call_status status\<rparr>) None\<rparr>"

text \<open>\<open>normalizeMessageItemText\<close> on the value that a graph of items stands for.\<close>

primrec normalize_item :: "message_item \<Rightarrow> message_item" and normalize_ref :: "ref_message \<Rightarrow> ref_message" where
  "normalize_item (MessageItem ty ct ut ic mid txt im vo fi vi ts tr rm) =
     MessageItem ty ct ut ic mid (map_option normalize_bare_less_than txt) im vo fi vi ts tr
       (map_option normalize_ref rm)"
| "normalize_ref (RefMessage title it) = RefMessage (normalize_bare_less_than title) (map_option normalize_item it)"

definition validate_outbound_message :: "outbound_message \<Rightarrow> goerr option" where
  "validate_outbound_message msg =
     (let item = om_item msg; ty = mi_type item in
      if om_client_id msg = [] then Some (Msg ''outbound message client ID is empty'')
      else if ty = item_text then
        (if mi_text item = None then Some (Msg ''text message is missing text_item'') else None)
      else if ty = item_image then
        (if mi_image item = None then Some (Msg ''image message is missing image_item'') else None)
      else if ty = item_voice then
        (if mi_voice item = None then Some (Msg ''voice message is missing voice_item'') else None)
      else if ty = item_file then
        (if mi_file item = None then Some (Msg ''file message is missing file_item'') else None)
      else if ty = item_video then
        (if mi_video item = None then Some (Msg ''video message is missing video_item'') else None)
      else if ty = item_tool_call_start then
        (if mi_tool_start item = None then Some (Msg ''tool-call start message is missing tool_call_start_item'') else None)
      else if ty = item_tool_call_result then
        (if mi_tool_result item = None then Some (Msg ''tool-call result message is missing tool_call_result_item'') else None)
      else Some (Msg (''unsupported outbound message item type '' @ dec_int ty)))"

definition require_context_token :: "string \<Rightarrow> string \<Rightarrow> goerr option" where
  "require_context_token userID contextToken =
     (if contextToken = [] then Some (Msg (''no context_token for user '' @ userID)) else None)"

subsection \<open>Client IDs\<close>

text \<open>Version and variant bits, then the bytes in groups (\<open>%08x\<close> of four bytes is eight digits).\<close>

definition mask_client_id :: "bytes \<Rightarrow> bytes" where
  "mask_client_id buf =
     (let buf = buf[6 := char_of (byte_val (buf ! 6) mod 16 + 64)]
      in buf[8 := char_of (byte_val (buf ! 8) mod 64 + 128)])"

definition format_client_id :: "bytes \<Rightarrow> string" where
  "format_client_id buf =
     hex_encode (take 4 buf) @ ''-'' @ hex_encode (take 2 (drop 4 buf)) @ ''-'' @
     hex_encode (take 2 (drop 6 buf)) @ ''-'' @ hex_encode (take 2 (drop 8 buf)) @ ''-'' @
     hex_encode (take 6 (drop 10 buf))"

definition new_client_id :: "goerr + bytes \<Rightarrow> goerr + string" where
  "new_client_id read =
     (case read of
        Inl e \<Rightarrow> Inl (Wrapf ''generate client ID: '' e [])
      | Inr buf \<Rightarrow> Inr (format_client_id (mask_client_id buf)))"

subsection \<open>The wire\<close>

text \<open>\<open>BuildMessage\<close>: the map that is encoded; \<open>run_id\<close> is absent when empty.\<close>

record outbound_payload =
  pl_from_user_id :: string
  pl_to_user_id :: string
  pl_client_id :: string
  pl_message_type :: int
  pl_message_state :: int
  pl_context_token :: string
  pl_item_list :: "message_item list"
  pl_run_id :: "string option"

definition build_message :: "string \<Rightarrow> string \<Rightarrow> string \<Rightarrow> string \<Rightarrow> message_item \<Rightarrow> outbound_payload" where
  "build_message userID contextToken clientID runID item =
     \<lparr>pl_from_user_id = [], pl_to_user_id = userID, pl_client_id = clientID,
      pl_message_type = 2, pl_message_state = 2, pl_context_token = contextToken,
      pl_item_list = [item], pl_run_id = (if runID \<noteq> [] then Some runID else None)\<rparr>"

record upload_url_request =
  uu_file_key :: string
  uu_media_type :: int
  uu_to_user_id :: string
  uu_raw_size :: nat
  uu_raw_file_md5 :: string
  uu_file_size :: nat
  uu_thumb_raw_size :: nat
  uu_thumb_file_md5 :: string
  uu_thumb_file_size :: nat
  uu_no_need_thumb :: bool
  uu_aes_key :: string

record upload_url_response =
  ur_upload_param :: string
  ur_thumb_upload_param :: string
  ur_upload_full_url :: string

datatype api_call =
    SendMessageCall outbound_payload
  | SendTypingCall string string int
  | GetUploadURLCall upload_url_request
  | GetConfigCall string string

text \<open>
  A request to the service with the credentials it carries.  \<open>rq_generation\<close> is not sent: it is
  the generation of the session the credentials were taken from.
\<close>

record api_request =
  rq_base_url :: string
  rq_token :: string
  rq_call :: api_call
  rq_generation :: "64 word"

text \<open>
  What the CDN answers to an upload: no request could be made, no answer came, or a status with
  the headers \<open>x-error-message\<close> and \<open>x-encrypted-param\<close>.  The answer to a download: the
  status, the body as it arrives (its bytes, then the end or an error) and the file name that
  \<open>mime.ParseMediaType\<close> finds in the header \<open>Content-Disposition\<close>.
\<close>

datatype cdn_reply = CdnRequestError goerr | CdnTransportError goerr | CdnReply int string string

record get_reply =
  gr_status :: int
  gr_body :: bytes
  gr_read_error :: "goerr option"
  gr_file_name :: string

datatype get_result = GetRequestError goerr | GetTransportError goerr | GetReply get_reply

subsection \<open>State and environment\<close>

text \<open>
  \<open>cl_cdn\<close> lists the uploads made to the CDN, with the answers.  Of the environment, the numbers are the requests
  made before; \<open>ev_parse_url\<close> gives scheme and path as \<open>url.Parse\<close> does, \<open>ev_md5\<close> is
  \<open>md5.Sum\<close>, \<open>ev_thumbnail\<close> is \<open>thumb.FromImage\<close> with its image codecs (\<open>None\<close>: an error)
  and \<open>ev_strip\<close> is \<open>StripMarkdown\<close> when the option is set.
\<close>

type_synonym shared = "bot \<times> world"

record client_state =
  cl_bot :: bot
  cl_world :: world
  cl_random :: "(goerr + bytes) list"
  cl_sent :: "api_request list"
  cl_cdn :: "(string \<times> bytes \<times> cdn_reply) list"

record environment =
  ev_os :: os_env
  ev_before_send :: "(send_request \<times> shared) hook list"
  ev_after_send :: "send_outcome \<Rightarrow> shared hook list"
  ev_on_error :: "(goerr \<Rightarrow> shared \<Rightarrow> shared) option"
  ev_error_hooks :: "goerr \<Rightarrow> shared hook list"
  ev_answer :: "api_request \<Rightarrow> nat \<Rightarrow> shared \<Rightarrow> goerr option \<times> shared"
  ev_upload_url :: "api_request \<Rightarrow> nat \<Rightarrow> shared \<Rightarrow> (goerr + upload_url_response) \<times> shared"
  ev_config :: "api_request \<Rightarrow> nat \<Rightarrow> shared \<Rightarrow> (goerr + string) \<times> shared"
  ev_cdn_post :: "string \<Rightarrow> bytes \<Rightarrow> nat \<Rightarrow> shared \<Rightarrow> cdn_reply \<times> shared"
  ev_get :: "string \<Rightarrow> shared \<Rightarrow> get_result \<times> shared"
  ev_parse_url :: "string \<Rightarrow> (string \<times> string) option"
  ev_md5 :: "bytes \<Rightarrow> bytes"
  ev_thumbnail :: "bytes \<Rightarrow> bytes option"
  ev_strip :: "(string \<Rightarrow> string) option"
  ev_notify_errors :: bool

definition shared_of :: "client_state \<Rightarrow> shared" where
  "shared_of s = (cl_bot s, cl_world s)"

definition set_shared :: "shared \<Rightarrow> client_state \<Rightarrow> client_state" where
  "set_shared x s = s\<lparr>cl_bot := fst x, cl_world := snd x\<rparr>"

definition read_random :: "client_state \<Rightarrow> (goerr + bytes) \<times> client_state" where
  "read_random s =
     (case cl_random s of
        [] \<Rightarrow> (Inl (Msg ''no random bytes''), s)
      | r # rs \<Rightarrow> (r, s\<lparr>cl_random := rs\<rparr>))"

definition report_error :: "environment \<Rightarrow> goerr \<Rightarrow> client_state \<Rightarrow> client_state" where
  "report_error env e s =
     (let x = (case ev_on_error env of None \<Rightarrow> shared_of s | Some f \<Rightarrow> f e (shared_of s))
      in set_shared (snd (run_hooks (ev_error_hooks env e) x)) s)"

text \<open>\<open>authenticatedRequest\<close> with the request made: the token used, empty when none was made.\<close>

definition make_request :: "environment \<Rightarrow> 64 word \<Rightarrow> api_call \<Rightarrow>
    (api_request \<Rightarrow> nat \<Rightarrow> shared \<Rightarrow> 'r \<times> shared) \<Rightarrow> client_state \<Rightarrow> (goerr + string \<times> 'r) \<times> client_state" where
  "make_request env generation call reply s =
     (case begin_authenticated_request generation (cl_bot s) of
        Inl e \<Rightarrow> (Inl e, s)
      | Inr (c, _) \<Rightarrow>
          (let rq = \<lparr>rq_base_url = cr_base_url c, rq_token = cr_token c, rq_call = call,
                     rq_generation = b_generation (cl_bot s)\<rparr>
           in case reply rq (length (cl_sent s)) (shared_of s) of
                (r, x) \<Rightarrow> (Inr (cr_token c, r), set_shared x (s\<lparr>cl_sent := cl_sent s @ [rq]\<rparr>))))"

definition handle_error :: "environment \<Rightarrow> 64 word \<Rightarrow> string \<Rightarrow> goerr option \<Rightarrow> client_state \<Rightarrow>
    goerr option \<times> client_state" where
  "handle_error env generation tok err s =
     (case handle_authenticated_error_for_session (ev_os env) generation tok err (cl_bot s) (cl_world s) of
        (r, b, w) \<Rightarrow> (r, set_shared (b, w) s))"

subsection \<open>\<open>sendMessage\<close>\<close>

text \<open>From the validated message to the result: the request, its error, the hooks after it.\<close>

definition transmit :: "environment \<Rightarrow> 64 word \<Rightarrow> string \<Rightarrow> send_request \<Rightarrow> send_result \<Rightarrow> client_state \<Rightarrow>
    send_result \<times> goerr option \<times> client_state" where
  "transmit env generation contextToken request result s =
     (let msg = sq_message request;
          wire = build_message (sq_user_id request) contextToken (om_client_id msg) (om_run_id msg) (om_item msg)
      in case make_request env generation (SendMessageCall wire) (ev_answer env) s of
           (Inl e, s) \<Rightarrow> (result, Some e, s)
         | (Inr (tok, sendErr), s) \<Rightarrow>
            (if tok = [] then (result, sendErr, s)
             else (case handle_error env generation tok sendErr s of (sendErr, s) \<Rightarrow>
               (let outcome = \<lparr>so_request = request, so_result = result, so_err = sendErr\<rparr> in
                case run_hooks (ev_after_send env outcome) (shared_of s) of
                  (None, x) \<Rightarrow> (result, sendErr, set_shared x s)
                | (Some hookErr, x) \<Rightarrow>
                    (result, sendErr,
                     report_error env (Wrapf ''AfterSend hook failed: '' hookErr []) (set_shared x s))))))"

definition send_prepared :: "environment \<Rightarrow> 64 word \<Rightarrow> string \<Rightarrow> string \<Rightarrow> outbound_message \<Rightarrow> client_state \<Rightarrow>
    send_result \<times> goerr option \<times> client_state" where
  "send_prepared env generation userID contextToken msg s =
     (let result = \<lparr>sr_client_id = om_client_id msg, sr_run_id = om_run_id msg\<rparr> in
      case run_hooks (ev_before_send env) (\<lparr>sq_user_id = userID, sq_message = msg\<rparr>, shared_of s) of
        (Some e, request, x) \<Rightarrow> (result, Some (Wrapf ''BeforeSend hook failed: '' e []), set_shared x s)
      | (None, request, x) \<Rightarrow>
         (let s = set_shared x s in
          if sq_user_id request \<noteq> userID
          then (result, Some (Msg ''BeforeSend hook cannot change user ID''), s)
          else if om_client_id (sq_message request) \<noteq> om_client_id msg
          then (result, Some (Msg ''BeforeSend hook cannot change client ID''), s)
          else (let m = sq_message request;
                    m = m\<lparr>om_item := normalize_item (om_item m)\<rparr>;
                    request = request\<lparr>sq_message := m\<rparr>
                in case validate_outbound_message m of
                     Some e \<Rightarrow> (result, Some e, s)
                   | None \<Rightarrow> transmit env generation contextToken request (result\<lparr>sr_run_id := om_run_id m\<rparr>) s)))"

definition no_result :: send_result where
  "no_result = \<lparr>sr_client_id = [], sr_run_id = []\<rparr>"

definition send_message :: "environment \<Rightarrow> 64 word \<Rightarrow> string \<Rightarrow> string \<Rightarrow> outbound_message \<Rightarrow> client_state \<Rightarrow>
    send_result \<times> goerr option \<times> client_state" where
  "send_message env generation userID contextToken msg s =
     (case require_context_token userID contextToken of
        Some e \<Rightarrow> (no_result, Some e, s)
      | None \<Rightarrow>
        (case ready_session generation (cl_bot s) of
           Inl e \<Rightarrow> (no_result, Some e, s)
         | Inr _ \<Rightarrow>
            (if om_client_id msg = []
             then (case read_random s of (read, s) \<Rightarrow>
                    (case new_client_id read of
                       Inl e \<Rightarrow> (no_result, Some e, s)
                     | Inr clientID \<Rightarrow>
                         send_prepared env generation userID contextToken (msg\<lparr>om_client_id := clientID\<rparr>) s))
             else send_prepared env generation userID contextToken msg s)))"

subsection \<open>Facts about one message\<close>

lemma normalize_bare_idem [simp]:
  "normalize_bare_less_than (normalize_bare_less_than s) = normalize_bare_less_than s"
  by (simp add: normalize_bare_less_than_lines normalize_lines_idem)

lemma normalize_item_idem [simp]: "normalize_item (normalize_item it) = normalize_item it"
  and normalize_ref_idem [simp]: "normalize_ref (normalize_ref rm) = normalize_ref rm"
proof (induction it and rm)
  case (MessageItem ty ct ut ic mid tx im vo fi vi ts tr rm)
  then show ?case by (cases tx; cases rm) auto
next
  case (RefMessage title it)
  then show ?case by (cases it) auto
qed

lemma sent_set_shared [simp]:
  "cl_sent (set_shared x s) = cl_sent s" "cl_random (set_shared x s) = cl_random s"
  "cl_bot (set_shared x s) = fst x" "cl_world (set_shared x s) = snd x" "cl_cdn (set_shared x s) = cl_cdn s"
  by (simp_all add: set_shared_def)

lemma sent_report_error [simp]: "cl_sent (report_error env e s) = cl_sent s"
  by (simp add: report_error_def Let_def)

lemma sent_read_random [simp]: "cl_sent (snd (read_random s)) = cl_sent s" "cl_cdn (snd (read_random s)) = cl_cdn s" "cl_bot (snd (read_random s)) = cl_bot s"
  by (simp_all add: read_random_def split: list.split)

lemma sent_handle_error: "handle_error env g tok err s = (r, s') \<Longrightarrow> cl_sent s' = cl_sent s"
  by (auto simp: handle_error_def split: prod.splits)

lemma handle_error_None [simp]: "handle_error env g tok None s = (None, s)"
  by (simp add: handle_error_def handle_authenticated_error_for_session_def set_shared_def)

lemma handle_error_SomeD: "handle_error env g tok err s = (None, s') \<Longrightarrow> err = None"
  by (auto simp: handle_error_def handle_authenticated_error_for_session_def
      split: option.splits prod.splits if_splits)

text \<open>A request carries credentials of the session it is made for.\<close>

lemma make_request_cases:
  assumes "make_request env g call reply s = (r, s')"
  obtains (refused) e where "r = Inl e" "s' = s"
  | (made) rq x y tok where "r = Inr (tok, x)" "rq_call rq = call" "rq_generation rq = g" "rq_token rq = tok"
      "reply rq (length (cl_sent s)) (shared_of s) = (x, y)" "cl_sent s' = cl_sent s @ [rq]"
proof (cases "begin_authenticated_request g (cl_bot s)")
  case (Inl e)
  with assms show thesis by (intro refused [of e]) (simp_all add: make_request_def)
next
  case (Inr p)
  obtain c z where p: "p = (c, z)" by (cases p)
  have gen: "b_generation (cl_bot s) = g"
    using Inr by (auto simp: begin_authenticated_request_def ready_session_def split: if_splits option.splits)
  let ?rq = "\<lparr>rq_base_url = cr_base_url c, rq_token = cr_token c, rq_call = call,
      rq_generation = b_generation (cl_bot s)\<rparr>"
  obtain x y where xy: "reply ?rq (length (cl_sent s)) (shared_of s) = (x, y)" by (metis surj_pair)
  from assms Inr p gen xy show thesis
    by (intro made [of "cr_token c" x ?rq y]) (auto simp: make_request_def Let_def)
qed

lemma validate_client_id: "validate_outbound_message m = None \<Longrightarrow> om_client_id m \<noteq> []"
  by (auto simp: validate_outbound_message_def Let_def)

text \<open>What a transmission adds to the requests: at most the one described.\<close>

definition carries_item :: "string \<Rightarrow> string \<Rightarrow> send_result \<Rightarrow> 64 word \<Rightarrow> message_item \<Rightarrow> api_request \<Rightarrow> bool" where
  "carries_item userID contextToken res generation it rq \<longleftrightarrow>
     rq_generation rq = generation \<and>
     rq_call rq = SendMessageCall (build_message userID contextToken (sr_client_id res) (sr_run_id res) it)"

definition carries :: "string \<Rightarrow> string \<Rightarrow> send_result \<Rightarrow> 64 word \<Rightarrow> api_request \<Rightarrow> bool" where
  "carries userID contextToken res generation rq \<longleftrightarrow>
     (\<exists>it. carries_item userID contextToken res generation it rq \<and> normalize_item it = it)"

lemma transmit_sent:
  assumes "transmit env g ct request result s = (res, err, s')"
    and "sr_client_id result = om_client_id (sq_message request)"
    and "sr_run_id result = om_run_id (sq_message request)"
  shows "res = result \<and>
    ((cl_sent s' = cl_sent s \<and> err \<noteq> None) \<or>
     (\<exists>rq. cl_sent s' = cl_sent s @ [rq] \<and>
           carries_item (sq_user_id request) ct result g (om_item (sq_message request)) rq \<and>
           (err = None \<longrightarrow> (\<exists>x y. ev_answer env rq (length (cl_sent s)) x = (None, y)))))"
proof -
  let ?wire = "build_message (sq_user_id request) ct (om_client_id (sq_message request))
      (om_run_id (sq_message request)) (om_item (sq_message request))"
  obtain r s1 where mk: "make_request env g (SendMessageCall ?wire) (ev_answer env) s = (r, s1)" by fastforce
  from mk show ?thesis
  proof (cases rule: make_request_cases)
    case (refused e)
    with assms(1) mk show ?thesis by (auto simp: transmit_def Let_def)
  next
    case (made rq x y tok)
    have car: "carries_item (sq_user_id request) ct result g (om_item (sq_message request)) rq"
      using made(2,3) assms(2,3) by (simp add: carries_item_def)
    have "res = result \<and> cl_sent s' = cl_sent s @ [rq] \<and> (err = None \<longrightarrow> x = None)"
      using assms(1) mk made(1,6)
      by (auto simp: transmit_def Let_def sent_handle_error dest: handle_error_SomeD
          split: if_splits prod.splits option.splits)
    with car made(5) show ?thesis by blast
  qed
qed

lemma send_prepared_sent:
  assumes "send_prepared env g uid ct msg s = (res, err, s')"
  shows "sr_client_id res = om_client_id msg \<and>
    ((cl_sent s' = cl_sent s \<and> err \<noteq> None) \<or>
     (\<exists>rq it. cl_sent s' = cl_sent s @ [rq] \<and> carries_item uid ct res g it rq \<and> normalize_item it = it \<and>
           om_client_id msg \<noteq> [] \<and> (ev_before_send env = [] \<longrightarrow> it = normalize_item (om_item msg)) \<and>
           (err = None \<longrightarrow> (\<exists>x y. ev_answer env rq (length (cl_sent s)) x = (None, y)))))"
proof -
  obtain e request x where hooks: "run_hooks (ev_before_send env)
      (\<lparr>sq_user_id = uid, sq_message = msg\<rparr>, shared_of s) = (e, request, x)" by (metis prod_cases3)
  let ?m = "(sq_message request)\<lparr>om_item := normalize_item (om_item (sq_message request))\<rparr>"
  let ?result = "\<lparr>sr_client_id = om_client_id msg, sr_run_id = om_run_id ?m\<rparr>"
  show ?thesis
  proof (cases "e = None \<and> sq_user_id request = uid \<and> om_client_id (sq_message request) = om_client_id msg \<and>
      validate_outbound_message ?m = None")
    case True
    then have "transmit env g ct (request\<lparr>sq_message := ?m\<rparr>) ?result (set_shared x s) = (res, err, s')"
      using assms hooks by (simp add: send_prepared_def Let_def)
    from transmit_sent [OF this] True
    have tr: "res = ?result \<and> ((cl_sent s' = cl_sent s \<and> err \<noteq> None) \<or>
      (\<exists>rq. cl_sent s' = cl_sent s @ [rq] \<and> carries_item uid ct ?result g (om_item ?m) rq \<and>
        (err = None \<longrightarrow> (\<exists>x y. ev_answer env rq (length (cl_sent s)) x = (None, y)))))"
      by simp
    have "om_client_id msg \<noteq> []" using validate_client_id [of ?m] True by simp
    moreover have "normalize_item (om_item ?m) = om_item ?m" by simp
    moreover have "ev_before_send env = [] \<longrightarrow> om_item ?m = normalize_item (om_item msg)"
      using hooks by auto
    ultimately show ?thesis using tr by (simp only: send_result.select_convs) blast
  next
    case False
    with assms hooks show ?thesis
      by (auto simp: send_prepared_def Let_def split: option.splits if_splits)
  qed
qed

lemma send_message_sent:
  assumes "send_message env g uid ct msg s = (res, err, s')"
  shows "(cl_sent s' = cl_sent s \<and> err \<noteq> None) \<or>
    (\<exists>rq it. cl_sent s' = cl_sent s @ [rq] \<and> carries_item uid ct res g it rq \<and> normalize_item it = it \<and>
          ct \<noteq> [] \<and> sr_client_id res \<noteq> [] \<and> (om_client_id msg \<noteq> [] \<longrightarrow> sr_client_id res = om_client_id msg) \<and>
          (ev_before_send env = [] \<longrightarrow> it = normalize_item (om_item msg)) \<and>
          (err = None \<longrightarrow> (\<exists>x y. ev_answer env rq (length (cl_sent s)) x = (None, y))))"
proof (cases "ct = []")
  case True
  with assms show ?thesis by (auto simp: send_message_def require_context_token_def)
next
  case False
  then have ct: "require_context_token uid ct = None" by (simp add: require_context_token_def)
  show ?thesis
  proof (cases "ready_session g (cl_bot s)")
    case (Inl e)
    with assms ct show ?thesis by (auto simp: send_message_def)
  next
    case (Inr c)
    show ?thesis
    proof (cases "om_client_id msg = []")
      case True
      obtain rd s1 where rd: "read_random s = (rd, s1)" by fastforce
      then have s1: "cl_sent s1 = cl_sent s" using sent_read_random(1) [of s] by simp
      show ?thesis
      proof (cases "new_client_id rd")
        case (Inl e)
        with assms ct Inr True rd s1 show ?thesis by (auto simp: send_message_def)
      next
        case (Inr cid)
        with assms ct \<open>ready_session _ _ = Inr c\<close> True rd
        have "send_prepared env g uid ct (msg\<lparr>om_client_id := cid\<rparr>) s1 = (res, err, s')"
          by (simp add: send_message_def)
        from send_prepared_sent [OF this] s1 False True show ?thesis by auto
      qed
    next
      case nonempty: False
      with assms ct Inr have "send_prepared env g uid ct msg s = (res, err, s')"
        by (simp add: send_message_def)
      from send_prepared_sent [OF this] False nonempty show ?thesis by auto
    qed
  qed
qed

subsection \<open>Properties\<close>

text \<open>C25: one call of \<open>sendMessage\<close> makes at most one request.  The request goes to the user and
  carries the context token the call was made with, with credentials of the session it was made
  for and no other; it bears the client ID that the result reports, which is the caller's if the
  caller gave one, so that a retry can repeat it; its texts are normalised.  Without an error
  exactly one request was made and the service accepted it; without a request there is an error.
  Hooks, the service and concurrent operations may do what they like.\<close>

theorem send_message_one_request:
  assumes "send_message env generation userID contextToken msg s = (res, err, s')"
  shows "(cl_sent s' = cl_sent s \<and> err \<noteq> None) \<or>
    (\<exists>rq. cl_sent s' = cl_sent s @ [rq] \<and> carries userID contextToken res generation rq \<and>
          contextToken \<noteq> [] \<and> sr_client_id res \<noteq> [] \<and>
          (om_client_id msg \<noteq> [] \<longrightarrow> sr_client_id res = om_client_id msg) \<and>
          (err = None \<longrightarrow> (\<exists>x y. ev_answer env rq (length (cl_sent s)) x = (None, y))))"
  using send_message_sent [OF assms] unfolding carries_def by blast

subsection \<open>A sample\<close>

text \<open>A bot with credentials, and a service and a CDN that accept everything.\<close>

definition sending_bot :: bot where
  "sending_bot = sample_bot\<lparr>b_creds := Some sample_creds\<rparr>"

definition sample_client :: client_state where
  "sample_client = \<lparr>cl_bot = sending_bot, cl_world = quiet_world,
     cl_random = (let k = Inr (replicate 16 CHR ''k'') in [k, k, k, k]), cl_sent = [], cl_cdn = []\<rparr>"

definition accepting_env :: environment where
  "accepting_env = \<lparr>ev_os = sample_hash_env, ev_before_send = [], ev_after_send = (\<lambda>_. []), ev_on_error = None,
     ev_error_hooks = (\<lambda>_. []), ev_answer = (\<lambda>_ _ x. (None, x)),
     ev_upload_url = (\<lambda>_ _ x. (Inr \<lparr>ur_upload_param = ''up'', ur_thumb_upload_param = [], ur_upload_full_url = []\<rparr>, x)),
     ev_config = (\<lambda>_ _ x. (Inr ''ticket'', x)), ev_cdn_post = (\<lambda>_ _ _ x. (CdnReply 200 [] ''param'', x)),
     ev_get = (\<lambda>_ x. (GetTransportError (Msg ''offline''), x)), ev_parse_url = (\<lambda>_. None), ev_md5 = (\<lambda>_. []),
     ev_thumbnail = (\<lambda>_. None), ev_strip = None, ev_notify_errors = False\<rparr>"

lemma sending_bot_ready:
  "begin_authenticated_request 0 sending_bot = Inr (sample_creds, None)"
  "ready_session 0 sending_bot = Inr sample_creds" "b_generation sending_bot = 0"
  by (simp_all add: begin_authenticated_request_def ready_session_def sending_bot_def)

abbreviation sample_text :: "string \<Rightarrow> outbound_message" where
  "sample_text txt \<equiv> \<lparr>om_client_id = ''id'', om_run_id = [],
     om_item = MessageItem item_text 0 0 None [] (Some txt) None None None None None None None\<rparr>"

theorem send_message_one_request_witness:
  "\<exists>res s' rq. send_message accepting_env 0 ''u'' ''ct'' (sample_text ''1 < 2'') sample_client = (res, None, s') \<and>
    cl_sent s' = [rq] \<and> carries ''u'' ''ct'' res 0 rq \<and> sr_client_id res = ''id''"
proof -
  have "fst (snd (send_message accepting_env 0 ''u'' ''ct'' (sample_text ''1 < 2'') sample_client)) = None"
    by (simp add: send_message_def require_context_token_def sample_client_def sending_bot_ready send_prepared_def
        accepting_env_def validate_outbound_message_def transmit_def make_request_def set_shared_def shared_of_def
        Let_def sample_creds_def split: prod.split)
  then obtain res s' where "send_message accepting_env 0 ''u'' ''ct'' (sample_text ''1 < 2'') sample_client = (res, None, s')"
    by (metis prod.collapse)
  from send_message_one_request [OF this] this show ?thesis by (auto simp: sample_client_def)
qed

end
