(* ===== verification/Media.thy ===== *)
theory Media
  imports Outbound
begin

section \<open>Media: the CDN\<close>

text \<open>
  Models \<open>media.go\<close>, \<open>UploadToCDN\<close> and \<open>BuildCDNUploadURL\<close> of \<open>internal/protocol/api.go\<close>
  and \<open>internal/remote/download.go\<close>.  In error texts the message that the server puts into a
  header is left out.  The lemmas show that what is uploaded is downloaded again and bound the
  attempts of an upload.
\<close>

subsection \<open>Library functions\<close>

text \<open>\<open>url.QueryEscape\<close>.\<close>

definition upper_hex_digit :: "nat \<Rightarrow> char" where
  "upper_hex_digit n = char_of (if n < 10 then 48 + n else 55 + n)"

definition escape_byte :: "char \<Rightarrow> string" where
  "escape_byte c =
     (if is_digit c \<or> is_lower_letter c \<or> is_upper_letter c \<or> c \<in> set ''-_.~'' then [c]
      else if c = blank then ''+''
      else [CHR ''%'', upper_hex_digit (byte_val c div 16), upper_hex_digit (byte_val c mod 16)])"

definition query_escape :: "string \<Rightarrow> string" where
  "query_escape s = concat (map escape_byte s)"

text \<open>\<open>path.Base\<close>: trailing slashes are dropped, then everything up to the last one left.\<close>

definition path_base :: "string \<Rightarrow> string" where
  "path_base p =
     (if p = [] then ''.''
      else (let q = rev (dropWhile (\<lambda>c. c = CHR ''/'') (rev p));
                b = rev (takeWhile (\<lambda>c. c \<noteq> CHR ''/'') (rev q))
            in if b = [] then ''/'' else b))"

text \<open>\<open>io.ReadAll(io.LimitReader(body, limit))\<close>: behind the limit nothing is read, not even an error.\<close>

definition read_limited :: "nat \<Rightarrow> get_reply \<Rightarrow> goerr + bytes" where
  "read_limited limit r =
     (if limit \<le> length (gr_body r) then Inr (take limit (gr_body r))
      else (case gr_read_error r of None \<Rightarrow> Inr (gr_body r) | Some e \<Rightarrow> Inl e))"

subsection \<open>Remote files\<close>

definition max_download_bytes :: nat where "max_download_bytes = 100 * 1024 * 1024"

definition suggested_file_name :: "get_reply \<Rightarrow> string \<Rightarrow> string" where
  "suggested_file_name resp urlPath =
     (if gr_file_name resp \<noteq> [] then path_base (gr_file_name resp)
      else (let base = path_base urlPath
            in if base \<noteq> [] \<and> base \<noteq> ''.'' \<and> base \<noteq> ''/'' then base else []))"

definition get_request :: "environment \<Rightarrow> string \<Rightarrow> client_state \<Rightarrow> get_result \<times> client_state" where
  "get_request env url s = (case ev_get env url (shared_of s) of (r, x) \<Rightarrow> (r, set_shared x s))"

definition download_with_client :: "environment \<Rightarrow> string \<Rightarrow> client_state \<Rightarrow> (goerr + bytes \<times> string) \<times> client_state" where
  "download_with_client env rawURL s =
     (case ev_parse_url env rawURL of
        None \<Rightarrow> (Inl (Msg ''invalid remote URL''), s)
      | Some (scheme, urlPath) \<Rightarrow>
          (if scheme \<noteq> ''http'' \<and> scheme \<noteq> ''https'' then (Inl (Msg ''invalid remote URL''), s)
           else (case get_request env rawURL s of
              (GetRequestError e, s) \<Rightarrow> (Inl (Wrapf ''create request: '' e []), s)
            | (GetTransportError e, s) \<Rightarrow> (Inl (Wrapf ''fetch remote media: '' e []), s)
            | (GetReply resp, s) \<Rightarrow>
                (if 400 \<le> gr_status resp
                 then (Inl (Msg (''remote media download failed: HTTP '' @ dec_int (gr_status resp))), s)
                 else (case read_limited (max_download_bytes + 1) resp of
                    Inl e \<Rightarrow> (Inl (Wrapf ''read remote media: '' e []), s)
                  | Inr data \<Rightarrow>
                      (if max_download_bytes < length data
                       then (Inl (Msg (''remote media exceeds '' @ dec_nat max_download_bytes @ '' bytes'')), s)
                       else (Inr (data, suggested_file_name resp urlPath), s)))))))"

subsection \<open>Downloading from the CDN\<close>

definition cdn_base_url :: string where
  "cdn_base_url = ''https://novac2c.cdn.weixin.qq.com/c2c''"

definition cdn_download_url :: "string \<Rightarrow> string" where
  "cdn_download_url p = cdn_base_url @ ''/download?encrypted_query_param='' @ query_escape p"

text \<open>The crypto errors as errors.\<close>

definition crypto_goerr :: "crypto_error \<Rightarrow> goerr" where
  "crypto_goerr e =
     (case e of
        Key_Length n \<Rightarrow> Msg (''AES key must be 16 bytes, got '' @ dec_nat n)
      | Ciphertext_Length n \<Rightarrow> Msg (''ciphertext length '' @ dec_nat n @ '' is not a multiple of block size'')
      | Not_Base64 \<Rightarrow> Wrapf ''cannot base64 decode aes_key: '' (Msg ''illegal base64 data'') []
      | Decoded_Length n \<Rightarrow> Msg (''decoded aes_key has unexpected length '' @ dec_nat n @ '' (want 16 or 32)'')
      | Not_Hex \<Rightarrow> Msg ''encoding/hex: invalid byte''
      | Empty_Data \<Rightarrow> Msg ''empty data''
      | Invalid_Padding \<Rightarrow> Msg ''invalid PKCS7 padding'')"

definition decrypt_download :: "string \<Rightarrow> bytes \<Rightarrow> goerr + bytes" where
  "decrypt_download keySource ciphertext =
     (if keySource = [] then Inl (Msg ''no AES key available for decryption'')
      else (case decode_aes_key keySource of
          Inl e \<Rightarrow> Inl (Wrapf ''decode aes key: '' (crypto_goerr e) [])
        | Inr aesKey \<Rightarrow> (case decrypt_aes_ecb ciphertext aesKey of Inl e \<Rightarrow> Inl (crypto_goerr e) | Inr d \<Rightarrow> Inr d)))"

definition fetch_download :: "environment \<Rightarrow> string \<Rightarrow> client_state \<Rightarrow> (goerr + bytes) \<times> client_state" where
  "fetch_download env url s =
     (case get_request env url s of
        (GetRequestError e, s) \<Rightarrow> (Inl (Wrapf ''cdn download request: '' e []), s)
      | (GetTransportError e, s) \<Rightarrow> (Inl (Wrapf ''cdn download: '' e []), s)
      | (GetReply resp, s) \<Rightarrow>
          (if 400 \<le> gr_status resp then (Inl (Msg (''cdn download failed: HTTP '' @ dec_int (gr_status resp))), s)
           else (case read_limited (max_download_bytes + 1) resp of
              Inl e \<Rightarrow> (Inl (Wrapf ''cdn download read: '' e []), s)
            | Inr ciphertext \<Rightarrow>
                (if max_download_bytes < length ciphertext
                 then (Inl (Msg (''cdn download exceeds '' @ dec_nat max_download_bytes @ '' bytes'')), s)
                 else (Inr ciphertext, s)))))"

definition cdn_download :: "environment \<Rightarrow> cdn_media option \<Rightarrow> string \<Rightarrow> client_state \<Rightarrow> (goerr + bytes) \<times> client_state" where
  "cdn_download env media aeskeyOverride s =
     (case media of
        None \<Rightarrow> (Inl (Msg ''missing CDN media''), s)
      | Some m \<Rightarrow>
          (if cdn_full_url m = [] \<and> cdn_encrypt_query_param m = []
           then (Inl (Msg ''missing CDN encrypted_query_param''), s)
           else (let url = (if cdn_full_url m = [] then cdn_download_url (cdn_encrypt_query_param m) else cdn_full_url m);
                     keySource = (if aeskeyOverride = [] then cdn_aes_key m else aeskeyOverride)
                 in case fetch_download env url s of
                      (Inl e, s) \<Rightarrow> (Inl e, s)
                    | (Inr ciphertext, s) \<Rightarrow> (decrypt_download keySource ciphertext, s))))"

record downloaded_media =
  dm_data :: bytes
  dm_type :: string
  dm_file_name :: string
  dm_format :: string

text \<open>The first medium of a list, when it has a CDN reference.\<close>

definition first_media :: "('a \<Rightarrow> cdn_media option) \<Rightarrow> 'a list \<Rightarrow> 'a option" where
  "first_media media xs = (case xs of [] \<Rightarrow> None | x # _ \<Rightarrow> if media x = None then None else Some x)"

definition downloaded :: "(goerr + bytes) \<times> client_state \<Rightarrow> string \<Rightarrow> string \<Rightarrow> string \<Rightarrow>
    (goerr + downloaded_media option) \<times> client_state" where
  "downloaded r ty name fmt =
     (case r of (Inl e, s) \<Rightarrow> (Inl e, s)
      | (Inr data, s) \<Rightarrow>
          (Inr (Some \<lparr>dm_data = data, dm_type = ty, dm_file_name = name, dm_format = fmt\<rparr>), s))"

definition download :: "environment \<Rightarrow> incoming_message \<Rightarrow> client_state \<Rightarrow> (goerr + downloaded_media option) \<times> client_state" where
  "download env msg s =
     (case first_media ic_media (in_images msg) of
        Some x \<Rightarrow> downloaded (cdn_download env (ic_media x) (ic_aes_key x) s) ''image'' [] []
      | None \<Rightarrow> (case first_media fc_media (in_files msg) of
        Some x \<Rightarrow> downloaded (cdn_download env (fc_media x) [] s) ''file''
            (if fc_file_name x = [] then ''file.bin'' else fc_file_name x) []
      | None \<Rightarrow> (case first_media dc_media (in_videos msg) of
        Some x \<Rightarrow> downloaded (cdn_download env (dc_media x) [] s) ''video'' [] []
      | None \<Rightarrow> (case first_media vc_media (in_voices msg) of
        Some x \<Rightarrow> downloaded (cdn_download env (vc_media x) [] s) ''voice'' [] ''silk''
      | None \<Rightarrow> (Inr None, s)))))"

definition download_raw :: "environment \<Rightarrow> cdn_media option \<Rightarrow> string \<Rightarrow> client_state \<Rightarrow> (goerr + bytes) \<times> client_state" where
  "download_raw env media aeskeyOverride s = cdn_download env media aeskeyOverride s"

subsection \<open>Uploading to the CDN\<close>

definition max_upload_attempts :: nat where "max_upload_attempts = 3"

text \<open>The loop of \<open>UploadToCDN\<close>: attempts left, the number of the next one, the last error.\<close>

fun upload_attempts :: "environment \<Rightarrow> string \<Rightarrow> bytes \<Rightarrow> nat \<Rightarrow> nat \<Rightarrow> goerr \<Rightarrow> client_state \<Rightarrow>
    (goerr + string) \<times> client_state" where
  "upload_attempts env url ciphertext 0 attempt lastErr s =
     (Inl (Wrapf (''CDN upload failed after '' @ dec_nat max_upload_attempts @ '' attempts: '') lastErr []), s)"
| "upload_attempts env url ciphertext (Suc n) attempt lastErr s =
     (case ev_cdn_post env url ciphertext (length (cl_cdn s)) (shared_of s) of
        (CdnRequestError e, x) \<Rightarrow> (Inl (Wrapf ''CDN upload request: '' e []), set_shared x s)
      | (CdnTransportError e, x) \<Rightarrow>
          upload_attempts env url ciphertext n (Suc attempt)
            (Wrapf (''CDN upload attempt '' @ dec_nat attempt @ '': '') e [])
            (set_shared x (s\<lparr>cl_cdn := cl_cdn s @ [(url, ciphertext, CdnTransportError e)]\<rparr>))
      | (CdnReply status errMsg param, x) \<Rightarrow>
          (let s = set_shared x (s\<lparr>cl_cdn := cl_cdn s @ [(url, ciphertext, CdnReply status errMsg param)]\<rparr>) in
           if 400 \<le> status \<and> status < 500
           then (Inl (Msg (''CDN upload client error '' @ dec_int status)), s)
           else if status \<noteq> 200
           then upload_attempts env url ciphertext n (Suc attempt)
             (Msg (''CDN upload server error '' @ dec_int status)) s
           else if param = []
           then upload_attempts env url ciphertext n (Suc attempt)
             (Msg ''CDN upload response missing x-encrypted-param header'') s
           else (Inr param, s)))"

definition upload_to_cdn :: "environment \<Rightarrow> string \<Rightarrow> bytes \<Rightarrow> client_state \<Rightarrow> (goerr + string) \<times> client_state" where
  "upload_to_cdn env url ciphertext s =
     upload_attempts env url ciphertext max_upload_attempts 1 (Msg ''%!w(<nil>)'') s"

definition build_cdn_upload_url :: "string \<Rightarrow> string \<Rightarrow> string \<Rightarrow> string" where
  "build_cdn_upload_url base uploadParam filekey =
     base @ ''/upload?encrypted_query_param='' @ query_escape uploadParam @ ''&filekey='' @ query_escape filekey"

record upload_result =
  up_media :: cdn_media
  up_thumb_media :: cdn_media
  up_aes_key :: bytes
  up_encrypted_file_size :: nat

definition no_media :: cdn_media where
  "no_media = \<lparr>cdn_encrypt_query_param = [], cdn_aes_key = [], cdn_encrypt_type = 0, cdn_full_url = []\<rparr>"

definition media_reference :: "string \<Rightarrow> bytes \<Rightarrow> cdn_media" where
  "media_reference param key =
     \<lparr>cdn_encrypt_query_param = param, cdn_aes_key = encode_aes_key_base64 key, cdn_encrypt_type = 1, cdn_full_url = []\<rparr>"

text \<open>\<open>GenerateAESKey\<close>.\<close>

definition generate_aes_key :: "client_state \<Rightarrow> (goerr + bytes) \<times> client_state" where
  "generate_aes_key s = read_random s"

text \<open>The thumbnail of an upload: its bytes, key and ciphertext.\<close>

type_synonym thumbnail = "(bytes \<times> bytes \<times> bytes) option"

definition prepare_thumbnail :: "bytes option \<Rightarrow> client_state \<Rightarrow> (goerr + thumbnail) \<times> client_state" where
  "prepare_thumbnail thumbData s =
     (case thumbData of
        None \<Rightarrow> (Inr None, s)
      | Some data \<Rightarrow>
          (case generate_aes_key s of
             (Inl e, s) \<Rightarrow> (Inl (Wrapf ''generate thumb aes key: '' e []), s)
           | (Inr key, s) \<Rightarrow>
               (case encrypt_aes_ecb data key of
                  Inl e \<Rightarrow> (Inl (Wrapf ''encrypt thumb: '' (crypto_goerr e) []), s)
                | Inr c \<Rightarrow> (Inr (Some (data, key, c)), s))))"

definition upload_request :: "environment \<Rightarrow> bytes \<Rightarrow> bytes \<Rightarrow> bytes \<Rightarrow> string \<Rightarrow> thumbnail \<Rightarrow> string \<Rightarrow> int \<Rightarrow> upload_url_request" where
  "upload_request env data ciphertext aesKey fileKey thumb userID mediaType =
     \<lparr>uu_file_key = fileKey, uu_media_type = mediaType, uu_to_user_id = userID, uu_raw_size = length data,
      uu_raw_file_md5 = hex_encode (ev_md5 env data), uu_file_size = length ciphertext,
      uu_thumb_raw_size = (case thumb of None \<Rightarrow> 0 | Some (d, _, _) \<Rightarrow> length d),
      uu_thumb_file_md5 = (case thumb of None \<Rightarrow> [] | Some (d, _, _) \<Rightarrow> hex_encode (ev_md5 env d)),
      uu_thumb_file_size = (case thumb of None \<Rightarrow> 0 | Some (_, _, c) \<Rightarrow> length c),
      uu_no_need_thumb = (thumb = None), uu_aes_key = encode_aes_key_hex aesKey\<rparr>"

text \<open>
  The thumbnail's own upload, when the server offers one.  The code encrypts the thumbnail again,
  with the same key and so to the same ciphertext.
\<close>

definition upload_thumbnail :: "environment \<Rightarrow> upload_url_response \<Rightarrow> string \<Rightarrow> thumbnail \<Rightarrow> client_state \<Rightarrow>
    (goerr + cdn_media) \<times> client_state" where
  "upload_thumbnail env resp fileKey thumb s =
     (case thumb of
        None \<Rightarrow> (Inr no_media, s)
      | Some (data, key, _) \<Rightarrow>
          (if ur_thumb_upload_param resp = [] then (Inr no_media, s)
           else (case encrypt_aes_ecb data key of
              Inl e \<Rightarrow> (Inl (Wrapf ''encrypt thumb for upload: '' (crypto_goerr e) []), s)
            | Inr c \<Rightarrow>
               (case upload_to_cdn env (build_cdn_upload_url cdn_base_url (ur_thumb_upload_param resp) (fileKey @ ''_thumb'')) c s of
                  (Inl e, s) \<Rightarrow> (Inl (Wrapf ''thumb upload: '' e []), s)
                | (Inr p, s) \<Rightarrow> (Inr (if p \<noteq> [] then media_reference p key else no_media), s)))))"

text \<open>From the answer to the upload URL request on.\<close>

definition upload_files :: "environment \<Rightarrow> 64 word \<Rightarrow> bytes \<Rightarrow> bytes \<Rightarrow> string \<Rightarrow> thumbnail \<Rightarrow> upload_url_response \<Rightarrow>
    client_state \<Rightarrow> (upload_result option \<times> goerr option) \<times> client_state" where
  "upload_files env generation aesKey ciphertext fileKey thumb resp s =
     (if ur_upload_full_url resp = [] \<and> ur_upload_param resp = []
      then ((None, Some (Msg ''getuploadurl did not return upload_param'')), s)
      else (let url = (if ur_upload_full_url resp = []
                       then build_cdn_upload_url cdn_base_url (ur_upload_param resp) fileKey
                       else ur_upload_full_url resp)
            in case upload_to_cdn env url ciphertext s of
                 (Inl e, s) \<Rightarrow> ((None, Some (Wrapf ''cdn upload: '' e [])), s)
               | (Inr p, s) \<Rightarrow>
                   (case upload_thumbnail env resp fileKey thumb s of
                      (Inl e, s) \<Rightarrow> ((None, Some e), s)
                    | (Inr thumbMedia, s) \<Rightarrow>
                        (case ready_session generation (cl_bot s) of
                           Inl e \<Rightarrow> ((None, Some e), s)
                         | Inr _ \<Rightarrow>
                             ((Some \<lparr>up_media = media_reference p aesKey, up_thumb_media = thumbMedia,
                                up_aes_key = aesKey, up_encrypted_file_size = length ciphertext\<rparr>, None), s)))))"

definition request_upload :: "environment \<Rightarrow> 64 word \<Rightarrow> bytes \<Rightarrow> bytes \<Rightarrow> bytes \<Rightarrow> string \<Rightarrow> thumbnail \<Rightarrow> string \<Rightarrow> int \<Rightarrow>
    client_state \<Rightarrow> (upload_result option \<times> goerr option) \<times> client_state" where
  "request_upload env generation data aesKey ciphertext fileKey thumb userID mediaType s =
     (case make_request env generation
         (GetUploadURLCall (upload_request env data ciphertext aesKey fileKey thumb userID mediaType)) (ev_upload_url env) s of
        (Inl e, s) \<Rightarrow> ((None, Some e), s)
      | (Inr (tok, r), s) \<Rightarrow>
          (let err = (case r of Inl e \<Rightarrow> Some e | Inr _ \<Rightarrow> None) in
           if tok = [] then ((None, err), s)
           else (case r of
              Inl e \<Rightarrow> (case handle_error env generation tok (Some e) s of
                  (h, s) \<Rightarrow> ((None, Some (Wrapf ''getuploadurl: '' (case h of Some x \<Rightarrow> x | None \<Rightarrow> Msg ''%!w(<nil>)'') [])), s))
            | Inr resp \<Rightarrow> upload_files env generation aesKey ciphertext fileKey thumb resp s)))"

definition cdn_upload_with_thumb :: "environment \<Rightarrow> 64 word \<Rightarrow> bytes \<Rightarrow> bytes option \<Rightarrow> string \<Rightarrow> int \<Rightarrow> client_state \<Rightarrow>
    (upload_result option \<times> goerr option) \<times> client_state" where
  "cdn_upload_with_thumb env generation data thumbData userID mediaType s =
     (case generate_aes_key s of
        (Inl e, s) \<Rightarrow> ((None, Some (Wrapf ''generate aes key: '' e [])), s)
      | (Inr aesKey, s) \<Rightarrow>
        (case encrypt_aes_ecb data aesKey of
           Inl e \<Rightarrow> ((None, Some (Wrapf ''encrypt: '' (crypto_goerr e) [])), s)
         | Inr ciphertext \<Rightarrow>
        (case read_random s of
           (Inl e, s) \<Rightarrow> ((None, Some (Wrapf ''generate file key: '' e [])), s)
         | (Inr fileKeyBuf, s) \<Rightarrow>
        (case prepare_thumbnail thumbData s of
           (Inl e, s) \<Rightarrow> ((None, Some e), s)
         | (Inr thumb, s) \<Rightarrow>
             request_upload env generation data aesKey ciphertext (hex_encode fileKeyBuf) thumb userID mediaType s))))"

definition cdn_upload :: "environment \<Rightarrow> 64 word \<Rightarrow> bytes \<Rightarrow> string \<Rightarrow> int \<Rightarrow> client_state \<Rightarrow>
    (upload_result option \<times> goerr option) \<times> client_state" where
  "cdn_upload env generation data userID mediaType s =
     cdn_upload_with_thumb env generation data None userID mediaType s"

definition upload :: "environment \<Rightarrow> 64 word option \<Rightarrow> bytes \<Rightarrow> string \<Rightarrow> int \<Rightarrow> client_state \<Rightarrow>
    (upload_result option \<times> goerr option) \<times> client_state" where
  "upload env bound data userID mediaType s =
     (case ready_session_for_context bound (cl_bot s) of
        Inl e \<Rightarrow> ((None, Some e), s)
      | Inr (_, generation) \<Rightarrow> cdn_upload env generation data userID mediaType s)"

subsection \<open>Attempts\<close>

text \<open>The answers after which another attempt is made.\<close>

fun retryable :: "cdn_reply \<Rightarrow> bool" where
  "retryable (CdnRequestError e) = False"
| "retryable (CdnTransportError e) = True"
| "retryable (CdnReply status errMsg param) =
     (\<not> (400 \<le> status \<and> status < 500) \<and> \<not> (status = 200 \<and> param \<noteq> []))"

fun accepted :: "cdn_reply \<Rightarrow> string option" where
  "accepted (CdnReply status errMsg param) = (if status = 200 \<and> param \<noteq> [] then Some param else None)"
| "accepted _ = None"

text \<open>The uploads of one call, given the answers.\<close>

definition uploads :: "string \<Rightarrow> bytes \<Rightarrow> cdn_reply list \<Rightarrow> (string \<times> bytes \<times> cdn_reply) list" where
  "uploads url c rs = map (\<lambda>r. (url, c, r)) rs"

lemma upload_attempts_log:
  "upload_attempts env url c n k lastErr s = (r, s') \<Longrightarrow>
   \<exists>rs. cl_cdn s' = cl_cdn s @ uploads url c rs \<and> length rs \<le> n \<and> list_all retryable (butlast rs) \<and>
     (\<forall>p. r = Inr p \<longleftrightarrow> rs \<noteq> [] \<and> accepted (last rs) = Some p)"
proof (induction n arbitrary: k lastErr s)
  case 0
  then have "cl_cdn s' = cl_cdn s @ uploads url c []" "\<forall>p. r \<noteq> Inr p" by (auto simp: uploads_def)
  then show ?case by (intro exI [of _ "[]"]) simp
next
  case (Suc n)
  obtain a x where a: "ev_cdn_post env url c (length (cl_cdn s)) (shared_of s) = (a, x)" by (metis surj_pair)
  let ?s = "set_shared x (s\<lparr>cl_cdn := cl_cdn s @ [(url, c, a)]\<rparr>)"
  have last: ?case if "r = (case accepted a of Some p \<Rightarrow> Inr p | None \<Rightarrow> Inl e)" "s' = ?s" "\<not> retryable a" for e
    using that by (intro exI [of _ "[a]"]) (auto simp: uploads_def split: option.splits)
  have more: ?case if again: "retryable a" "upload_attempts env url c n (Suc k) e ?s = (r, s')" for e
  proof -
    obtain rs where rs: "cl_cdn s' = cl_cdn ?s @ uploads url c rs" "length rs \<le> n" "list_all retryable (butlast rs)"
      "\<forall>p. r = Inr p \<longleftrightarrow> rs \<noteq> [] \<and> accepted (last rs) = Some p"
      using Suc.IH [OF again(2)] by blast
    have "accepted a = None" using again(1) by (cases a) auto
    with rs again(1) show ?thesis
      by (intro exI [of _ "a # rs"]) (auto simp: uploads_def)
  qed
  show ?case
  proof (cases a)
    case (CdnRequestError e)
    with Suc.prems a have "cl_cdn s' = cl_cdn s" "\<forall>p. r \<noteq> Inr p" by auto
    then show ?thesis by (intro exI [of _ "[]"]) (simp add: uploads_def)
  next
    case (CdnTransportError e)
    with Suc.prems a more show ?thesis by auto
  next
    case (CdnReply status m p)
    consider "400 \<le> status \<and> status < 500" | "status = 200" "p \<noteq> []" | "retryable a"
      using CdnReply by fastforce
    then show ?thesis
    proof cases
      case 1
      with Suc.prems a CdnReply show ?thesis by (intro last) (auto simp: Let_def)
    next
      case 2
      with Suc.prems a CdnReply show ?thesis by (intro last) (auto simp: Let_def)
    next
      case 3
      with Suc.prems a CdnReply more show ?thesis by (auto simp: Let_def split: if_splits)
    qed
  qed
qed


lemma accepted_not_Nil: "accepted a = Some p \<Longrightarrow> p \<noteq> []"
  by (cases a) (auto split: if_splits)

lemma upload_to_cdn_log:
  assumes "upload_to_cdn env url c s = (r, s')"
  shows "\<exists>rs. cl_cdn s' = cl_cdn s @ uploads url c rs \<and> length rs \<le> 3 \<and> list_all retryable (butlast rs) \<and>
     (\<forall>p. r = Inr p \<longleftrightarrow> rs \<noteq> [] \<and> accepted (last rs) = Some p)"
  using upload_attempts_log [OF assms [unfolded upload_to_cdn_def]] by (simp add: max_upload_attempts_def)

lemma upload_to_cdn_ok:
  assumes "upload_to_cdn env url c s = (Inr p, s')"
  shows "p \<noteq> []" and "\<exists>reply. (url, c, reply) \<in> set (cl_cdn s') \<and> accepted reply = Some p"
    and "set (cl_cdn s) \<subseteq> set (cl_cdn s')"
proof -
  obtain rs where rs: "cl_cdn s' = cl_cdn s @ uploads url c rs" "rs \<noteq> []" "accepted (last rs) = Some p"
    using upload_to_cdn_log [OF assms] by auto
  have "(url, c, last rs) \<in> set (uploads url c rs)" using rs(2) by (simp add: uploads_def)
  with rs show "p \<noteq> []" "\<exists>reply. (url, c, reply) \<in> set (cl_cdn s') \<and> accepted reply = Some p"
    "set (cl_cdn s) \<subseteq> set (cl_cdn s')"
    by (auto dest: accepted_not_Nil)
qed

lemma upload_thumbnail_cdn:
  "upload_thumbnail env resp fk thumb s = (r, s') \<Longrightarrow> set (cl_cdn s) \<subseteq> set (cl_cdn s')"
  using upload_to_cdn_log
  by (auto simp: upload_thumbnail_def split: option.splits if_splits sum.splits prod.splits) fastforce+

lemma upload_filesE:
  assumes "upload_files env g aesKey c fk thumb resp s = ((Some res, None), s')"
  obtains p url reply where "up_media res = media_reference p aesKey" "p \<noteq> []"
    "up_encrypted_file_size res = length c" "(url, c, reply) \<in> set (cl_cdn s')" "accepted reply = Some p"
proof -
  obtain url p s1 where up: "upload_to_cdn env url c s = (Inr p, s1)"
    "up_media res = media_reference p aesKey" "up_encrypted_file_size res = length c"
    "\<exists>r. upload_thumbnail env resp fk thumb s1 = (r, s')"
    using assms by (auto simp: upload_files_def Let_def split: if_splits prod.splits sum.splits)
  then have "set (cl_cdn s1) \<subseteq> set (cl_cdn s')" using upload_thumbnail_cdn by blast
  with up upload_to_cdn_ok [OF up(1)] that show thesis by blast
qed

text \<open>A successful upload: key, ciphertext and reference belong together.\<close>

lemma cdn_uploadE:
  assumes "cdn_upload_with_thumb env g data thumbData userID mt s = ((Some res, None), s')"
  obtains aesKey c p url reply where "encrypt_aes_ecb data aesKey = Inr c"
    "up_media res = media_reference p aesKey" "p \<noteq> []" "up_encrypted_file_size res = length c"
    "(url, c, reply) \<in> set (cl_cdn s')" "accepted reply = Some p"
proof -
  obtain aesKey c fk thumb s1 where "encrypt_aes_ecb data aesKey = Inr c"
    "request_upload env g data aesKey c fk thumb userID mt s1 = ((Some res, None), s')"
    using assms by (auto simp: cdn_upload_with_thumb_def split: prod.splits sum.splits)
  moreover from this(2) obtain resp s2 where
    "upload_files env g aesKey c fk thumb resp s2 = ((Some res, None), s')"
    by (auto simp: request_upload_def Let_def split: prod.splits sum.splits if_splits)
  ultimately show thesis using upload_filesE that by metis
qed

lemma encrypt_key_length: "encrypt_aes_ecb data key = Inr c \<Longrightarrow> length key = 16"
  by (auto simp: encrypt_aes_ecb_def split: if_splits)

lemma encode_key_not_Nil: "length key = 16 \<Longrightarrow> encode_aes_key_base64 key \<noteq> []"
  using length_b64_encode [of "hex_encode key"] by (auto simp: encode_aes_key_base64_def)

lemma decrypt_own_upload:
  assumes "encrypt_aes_ecb data key = Inr c"
  shows "decrypt_download (encode_aes_key_base64 key) c = Inr data"
proof -
  have len: "length key = 16" by (rule encrypt_key_length [OF assms])
  have "decode_aes_key (encode_aes_key_base64 key) = Inr key"
    by (simp add: decode_aes_key_def encode_aes_key_base64_def hex_pattern_encode hex_key_encode b64_not_hex_pattern len)
  moreover have "decrypt_aes_ecb c key = Inr data" by (rule encrypted_decrypts [OF assms])
  ultimately show ?thesis by (simp add: decrypt_download_def encode_key_not_Nil len)
qed

text \<open>The CDN answers a request for a reference with the bytes stored under it.\<close>

definition serves :: "environment \<Rightarrow> string \<Rightarrow> bytes \<Rightarrow> bool" where
  "serves env url c \<longleftrightarrow>
     (\<forall>x. \<exists>name. ev_get env url x =
        (GetReply \<lparr>gr_status = 200, gr_body = c, gr_read_error = None, gr_file_name = name\<rparr>, x))"

lemma fetch_served:
  assumes "serves env url c" and "length c \<le> max_download_bytes"
  shows "\<exists>s'. fetch_download env url s = (Inr c, s')"
proof -
  obtain name where "ev_get env url (shared_of s) =
      (GetReply \<lparr>gr_status = 200, gr_body = c, gr_read_error = None, gr_file_name = name\<rparr>, shared_of s)"
    using assms(1) unfolding serves_def by blast
  with assms(2) show ?thesis
    by (simp add: fetch_download_def get_request_def read_limited_def)
qed

subsection \<open>Properties\<close>

text \<open>C30: media that was uploaded can be downloaded.  When \<open>cdnUploadWithThumb\<close> succeeds, one of the
  uploads to the CDN was a ciphertext of the announced size, acknowledged with the parameter in the
  reference; and whoever has the reference and a CDN that returns that ciphertext for it downloads
  the original bytes, provided the ciphertext is within the download limit.\<close>

theorem upload_download_roundtrip:
  assumes "cdn_upload_with_thumb env g data thumbData userID mt s = ((Some res, None), s')"
  shows "\<exists>url c reply. (url, c, reply) \<in> set (cl_cdn s') \<and>
    accepted reply = Some (cdn_encrypt_query_param (up_media res)) \<and> length c = up_encrypted_file_size res \<and>
    (\<forall>env' t. serves env' (cdn_download_url (cdn_encrypt_query_param (up_media res))) c \<longrightarrow>
       up_encrypted_file_size res \<le> max_download_bytes \<longrightarrow>
       fst (cdn_download env' (Some (up_media res)) [] t) = Inr data)"
proof -
  obtain aesKey c p url reply where up: "encrypt_aes_ecb data aesKey = Inr c"
    "up_media res = media_reference p aesKey" "p \<noteq> []" "up_encrypted_file_size res = length c"
    "(url, c, reply) \<in> set (cl_cdn s')" "accepted reply = Some p"
    by (rule cdn_uploadE [OF assms])
  have "fst (cdn_download env' (Some (up_media res)) [] t) = Inr data"
    if sv: "serves env' (cdn_download_url p) c" and le: "length c \<le> max_download_bytes" for env' t
  proof -
    obtain t' where "fetch_download env' (cdn_download_url p) t = (Inr c, t')" using fetch_served [OF sv le] by blast
    with up(1,2,3) decrypt_own_upload [OF up(1)] show ?thesis
      by (simp add: cdn_download_def media_reference_def)
  qed
  with up show ?thesis by (intro exI [of _ url] exI [of _ c] exI [of _ reply]) (auto simp: media_reference_def)
qed

theorem upload_download_roundtrip_witness:
  "\<exists>res s' url c reply. cdn_upload_with_thumb accepting_env 0 ''hi'' None ''u'' 3 sample_client = ((Some res, None), s') \<and>
    (url, c, reply) \<in> set (cl_cdn s') \<and> accepted reply = Some ''param'' \<and>
    cdn_encrypt_query_param (up_media res) = ''param''"
proof -
  obtain c where c: "encrypt_aes_ecb ''hi'' (replicate 16 CHR ''k'') = Inr c" by (simp add: encrypt_aes_ecb_def)
  obtain res s' where up:
    "cdn_upload_with_thumb accepting_env 0 ''hi'' None ''u'' 3 sample_client = ((Some res, None), s')"
    "cdn_encrypt_query_param (up_media res) = ''param''"
    by (simp add: cdn_upload_with_thumb_def generate_aes_key_def read_random_def sample_client_def c
        prepare_thumbnail_def request_upload_def make_request_def sending_bot_ready accepting_env_def
        upload_files_def upload_to_cdn_def max_upload_attempts_def numeral_3_eq_3 upload_thumbnail_def
        set_shared_def shared_of_def sample_creds_def media_reference_def Let_def)
  from upload_download_roundtrip [OF up(1)] up show ?thesis by metis
qed

text \<open>An upload makes at most three attempts, all of the same bytes to the same address; another
  attempt is made only after a lost connection, an unexpected status other than 4xx, or a missing
  parameter.  It succeeds exactly when the last answer is an acknowledgement with a parameter, which
  is the result.\<close>

theorem upload_attempts_bounded:
  assumes "upload_to_cdn env url c s = (r, s')"
  shows "\<exists>rs. cl_cdn s' = cl_cdn s @ uploads url c rs \<and> length rs \<le> 3 \<and> list_all retryable (butlast rs) \<and>
     (\<forall>p. r = Inr p \<longleftrightarrow> rs \<noteq> [] \<and> accepted (last rs) = Some p)"
  by (rule upload_to_cdn_log [OF assms])

theorem upload_attempts_bounded_witness:
  "\<exists>e s' rs. upload_to_cdn (accepting_env\<lparr>ev_cdn_post := (\<lambda>url c n x. (CdnReply 503 [] [], x))\<rparr>) ''u'' ''c'' sample_client =
      (Inl e, s') \<and> cl_cdn s' = uploads ''u'' ''c'' rs \<and> length rs \<le> 3"
proof -
  let ?env = "accepting_env\<lparr>ev_cdn_post := (\<lambda>url c n x. (CdnReply 503 [] [], x))\<rparr>"
  obtain e s' where "upload_to_cdn ?env ''u'' ''c'' sample_client = (Inl e, s')"
    by (simp add: upload_to_cdn_def max_upload_attempts_def numeral_3_eq_3 Let_def)
  from upload_attempts_bounded [OF this] this show ?thesis by (auto simp: sample_client_def)
qed

text \<open>
  The limits of the two directions differ by the padding: data of the maximal size that
  \<open>remote.Download\<close> accepts is encrypted to more than \<open>cdnDownload\<close> accepts.
\<close>

lemma maximal_media_not_downloadable:
  assumes "encrypt_aes_ecb data key = Inr c" and "length data = max_download_bytes"
  shows "max_download_bytes < length c"
  using encrypted_length [OF assms(1)] assms(2) by (simp add: max_download_bytes_def)

end
