(* ===== verification/Chunk.thy ===== *)
theory Chunk
  imports Utf8
begin

section \<open>Splitting long texts\<close>

text \<open>
  Models \<open>chunkText\<close>, \<open>firstRunes\<close>, \<open>runeLen\<close> and \<open>categorizeByExtension\<close> of
  \<open>content.go\<close>.  A string is its bytes; a rune is what \<open>for range\<close> reads from it (theory
  \<open>Utf8\<close>).  The lemmas show that a cut never falls into a rune, even in text that is not valid
  UTF-8, and that the pieces are the text.
\<close>

subsection \<open>Operations\<close>

definition max_text_chars :: int where "max_text_chars = 2000"

function first_runes :: "string \<Rightarrow> nat \<Rightarrow> string" where
  "first_runes str limit =
     (if str = [] \<or> limit = 0 then []
      else take (rune_size str) str @ first_runes (drop (rune_size str) str) (limit - 1))"
  by pat_completeness auto
termination
  by (relation "measure snd") auto

declare first_runes.simps [simp del]

text \<open>\<open>strings.LastIndex\<close>.\<close>

definition last_index :: "string \<Rightarrow> string \<Rightarrow> nat option" where
  "last_index s sub =
     (case filter (\<lambda>i. has_prefix (drop i s) sub) [0..<Suc (length s)] of
        [] \<Rightarrow> None | i # js \<Rightarrow> Some (last (i # js)))"

text \<open>The position after the last \<open>sub\<close> when enough runes come before it.\<close>

definition break_at :: "string \<Rightarrow> string \<Rightarrow> nat \<Rightarrow> nat option" where
  "break_at prefix sub limit =
     (case last_index prefix sub of
        None \<Rightarrow> None
      | Some idx \<Rightarrow> if limit * 3 div 10 < rune_len (take idx prefix) then Some (idx + length sub) else None)"

definition chunk_cut :: "string \<Rightarrow> nat \<Rightarrow> nat" where
  "chunk_cut prefix limit =
     (case break_at prefix [newline, newline] limit of Some pos \<Rightarrow> pos
      | None \<Rightarrow> (case break_at prefix [newline] limit of Some pos \<Rightarrow> pos
      | None \<Rightarrow> (case break_at prefix [blank] limit of Some pos \<Rightarrow> pos
      | None \<Rightarrow> length prefix)))"

lemma break_at_pos: "break_at prefix sub limit = Some pos \<Longrightarrow> sub \<noteq> [] \<Longrightarrow> 0 < pos"
  by (auto simp: break_at_def split: option.splits if_splits)

lemma chunk_cut_pos: "prefix \<noteq> [] \<Longrightarrow> 0 < chunk_cut prefix limit"
  by (auto simp: chunk_cut_def dest: break_at_pos split: option.split)

lemma first_runes_not_Nil: "str \<noteq> [] \<Longrightarrow> 0 < limit \<Longrightarrow> first_runes str limit \<noteq> []"
  by (subst first_runes.simps) simp

text \<open>The loop of \<open>chunkText\<close>, which is entered with a positive limit only.\<close>

function chunk_loop :: "nat \<Rightarrow> string \<Rightarrow> string list" where
  "chunk_loop limit str =
     (if str = [] \<or> limit = 0 then []
      else if rune_len str \<le> limit then [str]
      else (let pos = chunk_cut (first_runes str limit) limit
            in take pos str # chunk_loop limit (drop pos str)))"
  by pat_completeness auto
termination
proof (relation "measure (\<lambda>(limit, str). length str)", goal_cases)
  case (2 limit str pos)
  then have "0 < pos" using chunk_cut_pos first_runes_not_Nil by auto
  with 2 show ?case by auto
qed simp

declare chunk_loop.simps [simp del]

definition chunk_text :: "string \<Rightarrow> int \<Rightarrow> string list" where
  "chunk_text str limit =
     (if limit \<le> 0 then [str]
      else if int (rune_len str) \<le> limit then [str]
      else (case chunk_loop (nat limit) str of [] \<Rightarrow> [[]] | chunks \<Rightarrow> chunks))"

subsection \<open>Cuts between runes\<close>

text \<open>A cut between runes: both sides decode as the whole does.\<close>

definition rune_cut :: "string \<Rightarrow> nat \<Rightarrow> bool" where
  "rune_cut str pos \<longleftrightarrow> runes str = runes (take pos str) @ runes (drop pos str)"

text \<open>Text cut off behind the first rune does not change it.\<close>

lemma first_runes_cut:
  "first_runes str limit = take (length (first_runes str limit)) str \<and>
   rune_cut str (length (first_runes str limit)) \<and> rune_len (first_runes str limit) = min limit (rune_len str)"
proof (induction str limit rule: first_runes.induct)
  case (1 str limit)
  show ?case
  proof (cases "str = [] \<or> limit = 0")
    case True
    then show ?thesis by (auto simp: first_runes.simps [of str limit] rune_cut_def)
  next
    case False
    let ?k = "rune_size str" and ?rest = "drop (rune_size str) str"
    let ?f = "first_runes ?rest (limit - 1)"
    have k: "0 < ?k" "?k \<le> length str" using False rune_size_le_length by simp_all
    note IH = "1.IH" [OF False]
    have f: "first_runes str limit = take ?k str @ ?f"
      using False by (simp add: first_runes.simps [of str limit])
    have len: "length (first_runes str limit) = ?k + length ?f" using k by (simp add: f)
    have pre: "first_runes str limit = take (?k + length ?f) str"
      unfolding f take_add using IH by simp
    have first: "rune_size (take (?k + length ?f) str) = ?k"
      by (rule rune_size_take) (use k in simp_all)
    have ne: "take (?k + length ?f) str \<noteq> []" using False k by auto
    have runes_pre: "runes (take (?k + length ?f) str) = take ?k str # runes ?f"
      using runes_Cons [OF ne] IH unfolding first by (simp add: drop_take)
    have "runes str = take ?k str # runes ?rest" using False by (simp add: runes_Cons)
    also have "runes ?rest = runes ?f @ runes (drop (length ?f) ?rest)"
      using IH by (simp add: rune_cut_def)
    also have "drop (length ?f) ?rest = drop (?k + length ?f) str" by (simp add: add.commute)
    finally have "rune_cut str (?k + length ?f)"
      unfolding rune_cut_def runes_pre by simp
    moreover have "rune_len (first_runes str limit) = min limit (rune_len str)"
      using IH False unfolding pre rune_len_def runes_pre by (cases limit) (simp_all add: runes_Cons)
    ultimately show ?thesis using pre len by simp
  qed
qed

lemma rune_cut_ascii:
  assumes "is_ascii c" and "str = x @ c # y"
  shows "rune_cut str (Suc (length x))"
  using runes_append_ascii [OF assms(1), of x y] runes_append_ascii [OF assms(1), of x "[]"]
  by (simp add: rune_cut_def assms runes_ascii_Cons)

lemma last_indexD:
  assumes "last_index s sub = Some idx"
  shows "\<exists>y. s = take idx s @ sub @ y" and "idx \<le> length s"
proof -
  let ?js = "filter (\<lambda>i. has_prefix (drop i s) sub) [0..<Suc (length s)]"
  have "idx \<in> set ?js"
    using assms by (cases ?js) (auto simp: last_index_def simp del: upt_Suc filter.simps split: if_splits)
  then have "has_prefix (drop idx s) sub" "idx \<le> length s" by (auto simp del: upt_Suc)
  then show "\<exists>y. s = take idx s @ sub @ y" "idx \<le> length s"
    by (metis append_take_drop_id has_prefixE, simp)
qed

lemma break_at_cut:
  assumes "break_at prefix sub limit = Some pos" and "sub \<noteq> []" and "\<forall>c\<in>set sub. is_ascii c"
  shows "pos \<le> length prefix" and "rune_cut (prefix @ rest) pos" and "limit * 3 div 10 < rune_len (take pos prefix)"
    and "rune_len (take pos prefix) \<le> rune_len prefix"
proof -
  obtain idx where idx: "last_index prefix sub = Some idx" "limit * 3 div 10 < rune_len (take idx prefix)"
    "pos = idx + length sub"
    using assms(1) by (auto simp: break_at_def split: option.splits if_splits)
  obtain y where y: "prefix = take idx prefix @ sub @ y" using last_indexD(1) [OF idx(1)] by blast
  have le: "idx \<le> length prefix" by (rule last_indexD(2) [OF idx(1)])
  obtain init c where sub: "sub = init @ [c]" using assms(2) by (metis rev_exhaust)
  have c: "is_ascii c" using assms(3) sub by simp
  have len: "length (take idx prefix @ init) = pos - 1" "0 < pos" using le idx(3) sub by simp_all
  show pos: "pos \<le> length prefix"
    using arg_cong [OF y, of length] le idx(3) by simp
  have split: "prefix = (take idx prefix @ init) @ c # y" using y sub by simp
  have "rune_cut (prefix @ rest) (Suc (length (take idx prefix @ init)))"
    by (rule rune_cut_ascii [OF c, of _ _ "y @ rest"]) (metis append.assoc append_Cons split)
  with len show "rune_cut (prefix @ rest) pos" by simp
  have "rune_cut (prefix @ []) (Suc (length (take idx prefix @ init)))"
    by (rule rune_cut_ascii [OF c, of _ _ y]) (metis append_Nil2 split)
  with len show "rune_len (take pos prefix) \<le> rune_len prefix"
    by (simp add: rune_cut_def rune_len_def)
  obtain d sub' where sub': "sub = d # sub'" using assms(2) by (cases sub) auto
  have "take pos prefix = take idx prefix @ d # sub'"
    using arg_cong [OF y, of "take pos"] le idx(3) sub' by simp
  then have "rune_len (take idx prefix) \<le> rune_len (take pos prefix)"
    using rune_len_append_ascii [of d "take idx prefix" sub'] assms(3) sub' by simp
  with idx(2) show "limit * 3 div 10 < rune_len (take pos prefix)" by simp
qed

lemma ascii_breaks [simp]: "is_ascii newline" "is_ascii blank"
  by (simp_all add: is_ascii_def)

lemma chunk_cut_right:
  assumes "str = prefix @ rest" and "rune_cut str (length prefix)" and "limit * 3 div 10 < rune_len prefix"
  shows "rune_cut str (chunk_cut prefix limit)" and "chunk_cut prefix limit \<le> length prefix"
    and "limit * 3 div 10 < rune_len (take (chunk_cut prefix limit) prefix)"
    and "rune_len (take (chunk_cut prefix limit) prefix) \<le> rune_len prefix"
  using assms
  by (auto simp: chunk_cut_def split: option.split dest: break_at_cut)

subsection \<open>Pieces\<close>

text \<open>Dropping behind a cut removes the runes before it.\<close>

lemma rune_cut_drop:
  "rune_cut str pos \<Longrightarrow> rune_len str = rune_len (take pos str) + rune_len (drop pos str)"
  by (simp add: rune_cut_def rune_len_def)

lemma first_runes_nat:
  assumes "limit < rune_len str" and "0 < limit"
  defines "prefix \<equiv> first_runes str limit"
  shows "str = prefix @ drop (length prefix) str" and "rune_cut str (length prefix)"
    and "rune_len prefix = limit" and "prefix \<noteq> []"
proof -
  have str: "str \<noteq> []" using assms(1) by auto
  show "str = prefix @ drop (length prefix) str"
    using first_runes_cut [of str limit] unfolding prefix_def by (metis append_take_drop_id)
  show "rune_cut str (length prefix)" "rune_len prefix = limit"
    using first_runes_cut [of str limit] assms(1) by (simp_all add: prefix_def)
  show "prefix \<noteq> []" unfolding prefix_def by (rule first_runes_not_Nil [OF str assms(2)])
qed

text \<open>One turn of the loop.\<close>

lemma chunk_turn:
  assumes "limit < rune_len str" and "0 < limit"
  defines "pos \<equiv> chunk_cut (first_runes str limit) limit"
  shows "rune_cut str pos" and "0 < pos" and "rune_len (take pos str) \<le> limit"
    and "limit * 3 div 10 < rune_len (take pos str)"
proof -
  let ?p = "first_runes str limit"
  note fr = first_runes_nat [OF assms(1,2)]
  have tenth: "limit * 3 div 10 < rune_len ?p" using assms(2) fr(3) by simp
  note right = chunk_cut_right [OF fr(1,2) tenth]
  have take: "take pos str = take pos ?p"
    using right(2) by (subst fr(1)) (simp add: pos_def)
  show "rune_cut str pos" "0 < pos" using right(1) chunk_cut_pos [OF fr(4)] by (simp_all add: pos_def)
  show "rune_len (take pos str) \<le> limit" "limit * 3 div 10 < rune_len (take pos str)"
    unfolding take using right(3,4) fr(3) by (simp_all add: pos_def)
qed

definition good_piece :: "nat \<Rightarrow> string \<Rightarrow> bool" where
  "good_piece limit c \<longleftrightarrow> c \<noteq> [] \<and> rune_len c \<le> limit"

lemma concat_concat_runes: "concat (concat (map runes xs)) = concat xs"
  by (induction xs) (simp_all add: concat_runes)

lemma chunk_loop_turn:
  "str \<noteq> [] \<Longrightarrow> 0 < limit \<Longrightarrow> limit < rune_len str \<Longrightarrow>
   chunk_loop limit str =
     take (chunk_cut (first_runes str limit) limit) str #
     chunk_loop limit (drop (chunk_cut (first_runes str limit) limit) str)"
  by (simp add: chunk_loop.simps [of limit str] Let_def)

lemma chunk_loop_pieces:
  "0 < limit \<Longrightarrow>
   concat (map runes (chunk_loop limit str)) = runes str \<and>
   list_all (good_piece limit) (chunk_loop limit str) \<and>
   list_all (\<lambda>c. limit * 3 div 10 < rune_len c) (butlast (chunk_loop limit str))"
proof (induction limit str rule: chunk_loop.induct)
  case (1 limit str)
  consider "str = []" | "str \<noteq> []" "rune_len str \<le> limit" | "str \<noteq> []" "limit < rune_len str" by linarith
  then show ?case
  proof cases
    case 3
    let ?pos = "chunk_cut (first_runes str limit) limit"
    have cond: "\<not> (str = [] \<or> limit = 0)" "\<not> rune_len str \<le> limit" using 3 "1.prems" by auto
    note IH = "1.IH" [OF cond refl "1.prems"]
    note turn = chunk_turn [OF 3(2) "1.prems"]
    have "take ?pos str \<noteq> []" using 3(1) turn(2) by simp
    with IH turn show ?thesis
      by (simp add: chunk_loop_turn 3 "1.prems" good_piece_def rune_cut_def)
  next
    case 1
    then show ?thesis by (simp add: chunk_loop.simps)
  next
    case 2
    with "1.prems" show ?thesis by (simp add: chunk_loop.simps [of limit str] good_piece_def)
  qed
qed

lemma chunk_loop_not_Nil: "str \<noteq> [] \<Longrightarrow> 0 < limit \<Longrightarrow> chunk_loop limit str \<noteq> []"
  by (subst chunk_loop.simps) (simp add: Let_def)

lemma chunk_text_loop:
  assumes "limit > 0"
  shows "chunk_text str limit = (if str = [] then [[]] else chunk_loop (nat limit) str)"
proof (cases "int (rune_len str) \<le> limit")
  case True
  then have "rune_len str \<le> nat limit" using assms by simp
  then show ?thesis
    using assms True by (auto simp: chunk_text_def chunk_loop.simps [of "nat limit" str])
next
  case False
  then have "str \<noteq> []" using assms by auto
  moreover have "chunk_loop (nat limit) str \<noteq> []"
    by (rule chunk_loop_not_Nil) (use \<open>str \<noteq> []\<close> assms in simp_all)
  ultimately show ?thesis
    using assms False by (auto simp: chunk_text_def split: list.split)
qed

lemma chunk_text_runes: "concat (map runes (chunk_text str limit)) = runes str"
  using chunk_loop_pieces [of "nat limit" str]
  by (cases "limit > 0") (simp_all add: chunk_text_loop, simp add: chunk_text_def)

subsection \<open>Properties\<close>

text \<open>C28: a text is sent in pieces without loss and without breaking a character: the runes of the
  pieces in order are the runes of the text (so no piece begins or ends within a multi-byte
  character, whatever the bytes), and joined they are the text.  With a positive limit no piece of
  a nonempty text is empty or longer than the limit, and every piece but the last carries more than
  three tenths of it, so a long text never goes out as a stream of tiny messages.\<close>

theorem chunks_are_the_text:
  "concat (map runes (chunk_text str limit)) = runes str \<and> concat (chunk_text str limit) = str \<and>
   (0 < limit \<and> str \<noteq> [] \<longrightarrow>
      list_all (good_piece (nat limit)) (chunk_text str limit) \<and>
      list_all (\<lambda>c. nat limit * 3 div 10 < rune_len c) (butlast (chunk_text str limit)))"
proof (intro conjI impI)
  show runes: "concat (map runes (chunk_text str limit)) = runes str" by (rule chunk_text_runes)
  then show "concat (chunk_text str limit) = str"
    using concat_concat_runes [of "chunk_text str limit"] by (simp add: concat_runes)
  assume "0 < limit \<and> str \<noteq> []"
  then show "list_all (good_piece (nat limit)) (chunk_text str limit)"
    "list_all (\<lambda>c. nat limit * 3 div 10 < rune_len c) (butlast (chunk_text str limit))"
    using chunk_loop_pieces [of "nat limit" str] by (simp_all add: chunk_text_loop)
qed

theorem chunks_are_the_text_witness:
  "concat (chunk_text ''one two three four'' 10) = ''one two three four'' \<and>
   list_all (good_piece 10) (chunk_text ''one two three four'' 10)"
  using chunks_are_the_text [of "''one two three four''" 10] by simp

end
