(* ===== verification/ConfigCache.thy ===== *)
theory ConfigCache
  imports GoErrors
begin

section \<open>The configuration cache\<close>

text \<open>
  Models \<open>internal/config/cache.go\<close>.  Times and durations are milliseconds; the zero time, which
  every time is after, is \<open>None\<close>.  The clock and the random number are arguments, the provider is
  a function of the state it may change.  The lock of an entry makes each operation atomic for one
  user.  The lemmas give the delay after any number of failures.
\<close>

definition ttl_ms :: int where "ttl_ms = 24 * 60 * 60 * 1000"
definition initial_retry_delay_ms :: int where "initial_retry_delay_ms = 2 * 1000"
definition max_retry_delay_ms :: int where "max_retry_delay_ms = 60 * 60 * 1000"

record cache_entry =
  ce_typing_ticket :: string
  ce_ever_succeeded :: bool
  ce_next_fetch_at :: "int option"
  ce_retry_delay :: int

type_synonym config_cache = "string \<rightharpoonup> cache_entry"

definition new_cache :: config_cache where "new_cache = (\<lambda>_. None)"

definition empty_entry :: cache_entry where
  "empty_entry = \<lparr>ce_typing_ticket = [], ce_ever_succeeded = False, ce_next_fetch_at = None, ce_retry_delay = 0\<rparr>"

definition cache_entry_of :: "config_cache \<Rightarrow> string \<Rightarrow> cache_entry" where
  "cache_entry_of c userID = (case c userID of None \<Rightarrow> empty_entry | Some e \<Rightarrow> e)"

definition entry_fresh :: "int \<Rightarrow> cache_entry \<Rightarrow> bool" where
  "entry_fresh now e = (case ce_next_fetch_at e of None \<Rightarrow> False | Some t \<Rightarrow> now < t)"

definition entry_failed :: "int \<Rightarrow> cache_entry \<Rightarrow> cache_entry" where
  "entry_failed now e =
     (let d = min (ce_retry_delay e * 2) max_retry_delay_ms;
          d = (if d = 0 then initial_retry_delay_ms else d)
      in e\<lparr>ce_retry_delay := d, ce_next_fetch_at := Some (now + d)\<rparr>)"

text \<open>\<open>jitter\<close> is \<open>rand.Intn(ttlMS)\<close>.\<close>

definition entry_fetched :: "int \<Rightarrow> int \<Rightarrow> string \<Rightarrow> cache_entry \<Rightarrow> cache_entry" where
  "entry_fetched now jitter ticket e =
     e\<lparr>ce_typing_ticket := ticket, ce_ever_succeeded := True, ce_retry_delay := initial_retry_delay_ms,
       ce_next_fetch_at := Some (now + jitter)\<rparr>"

text \<open>\<open>GetForUser\<close>: the ticket, the error and the cache.  \<open>provider\<close> is the call of \<open>GetConfig\<close>.\<close>

definition get_for_user :: "('s \<Rightarrow> (goerr + string) \<times> 's) \<Rightarrow> int \<Rightarrow> int \<Rightarrow> string \<Rightarrow> config_cache \<Rightarrow> 's \<Rightarrow>
    (string \<times> goerr option) \<times> config_cache \<times> 's" where
  "get_for_user provider now jitter userID c s =
     (let e = cache_entry_of c userID in
      if entry_fresh now e then ((ce_typing_ticket e, None), c(userID \<mapsto> e), s)
      else (case provider s of
          (Inl err, s) \<Rightarrow>
            ((ce_typing_ticket e, Some (Wrapf ''getConfig failed: '' err [])), c(userID \<mapsto> entry_failed now e), s)
        | (Inr ticket, s) \<Rightarrow> ((ticket, None), c(userID \<mapsto> entry_fetched now jitter ticket e), s)))"

definition cache_clear :: "config_cache \<Rightarrow> config_cache" where
  "cache_clear c = new_cache"

subsection \<open>Delays\<close>

text \<open>The entry after failures at the given times.\<close>

definition after_failures :: "int list \<Rightarrow> cache_entry \<Rightarrow> cache_entry" where
  "after_failures ts e = fold entry_failed ts e"

lemma entry_failed_delay:
  "ce_retry_delay (entry_failed now e) =
     (if min (ce_retry_delay e * 2) max_retry_delay_ms = 0 then initial_retry_delay_ms
      else min (ce_retry_delay e * 2) max_retry_delay_ms)"
  by (simp add: entry_failed_def Let_def)

lemma entry_failed_next:
  "ce_next_fetch_at (entry_failed now e) = Some (now + ce_retry_delay (entry_failed now e))"
  by (simp add: entry_failed_def Let_def)

lemma doubling:
  assumes "0 < d" and "d \<le> max_retry_delay_ms"
  shows "ce_retry_delay (after_failures ts (e\<lparr>ce_retry_delay := d\<rparr>)) =
    min (d * 2 ^ length ts) max_retry_delay_ms"
proof (induction ts rule: rev_induct)
  case (snoc t ts)
  let ?d = "ce_retry_delay (after_failures ts (e\<lparr>ce_retry_delay := d\<rparr>))"
  have pos: "0 < d * 2 ^ length ts" using assms(1) by simp
  have "ce_retry_delay (after_failures (ts @ [t]) (e\<lparr>ce_retry_delay := d\<rparr>)) = min (?d * 2) max_retry_delay_ms"
    using pos by (auto simp: after_failures_def entry_failed_delay max_retry_delay_ms_def snoc [unfolded after_failures_def])
  also have "\<dots> = min (d * 2 ^ length (ts @ [t])) max_retry_delay_ms"
    using pos by (auto simp: snoc max_retry_delay_ms_def min_def)
  finally show ?case .
qed (use assms in \<open>simp add: after_failures_def\<close>)

lemma first_failure: "entry_failed t empty_entry = (entry_failed t empty_entry)\<lparr>ce_retry_delay := initial_retry_delay_ms\<rparr>"
  by (simp add: entry_failed_def empty_entry_def Let_def max_retry_delay_ms_def)

text \<open>Retries back off.  For a user never fetched before, the delay after the n-th failure in a row
  is two seconds doubled n - 1 ts, at most one hour, and no fetch is made before it has passed: a
  request in that time is answered from the cache without calling the provider.\<close>

theorem config_backoff:
  assumes "ts \<noteq> []"
  defines "e \<equiv> after_failures ts empty_entry"
  shows "ce_retry_delay e = min (2000 * 2 ^ (length ts - 1)) 3600000 \<and>
    ce_next_fetch_at e = Some (last ts + ce_retry_delay e) \<and>
    (\<forall>provider now jitter c s. c userID = Some e \<longrightarrow> now < last ts + ce_retry_delay e \<longrightarrow>
       get_for_user provider now jitter userID c s = ((ce_typing_ticket e, None), c, s))"
proof -
  obtain t us where ts: "ts = t # us" using assms(1) by (cases ts) auto
  have "e = after_failures us ((entry_failed t empty_entry)\<lparr>ce_retry_delay := initial_retry_delay_ms\<rparr>)"
    unfolding e_def ts by (simp add: after_failures_def flip: first_failure)
  moreover have "0 < initial_retry_delay_ms" "initial_retry_delay_ms \<le> max_retry_delay_ms"
    by (simp_all add: initial_retry_delay_ms_def max_retry_delay_ms_def)
  ultimately have delay: "ce_retry_delay e = min (2000 * 2 ^ length us) 3600000"
    using doubling by (simp add: initial_retry_delay_ms_def max_retry_delay_ms_def)
  have "e = entry_failed (last ts) (fold entry_failed (butlast ts) empty_entry)"
    using append_butlast_last_id [OF assms(1)] unfolding e_def after_failures_def
    by (metis fold_append comp_apply fold_simps)
  then have nxt: "ce_next_fetch_at e = Some (last ts + ce_retry_delay e)"
    using entry_failed_next by metis
  have cached: "get_for_user provider now jitter userID c s = ((ce_typing_ticket e, None), c, s)"
    if "c userID = Some e" "now < last ts + ce_retry_delay e" for provider now jitter c and s :: 's
    using that nxt by (simp add: get_for_user_def cache_entry_of_def entry_fresh_def map_upd_triv)
  show ?thesis
  proof (intro conjI allI impI)
    show "ce_retry_delay e = min (2000 * 2 ^ (length ts - 1)) 3600000" using delay ts by simp
    show "ce_next_fetch_at e = Some (last ts + ce_retry_delay e)" by (rule nxt)
  qed (rule cached)
qed

theorem config_backoff_witness: "ce_retry_delay (after_failures [0, 2000, 6000] empty_entry) = 8000"
proof -
  have "[0, 2000, 6000 :: int] \<noteq> []" by simp
  from conjunct1 [OF config_backoff [OF this]] show ?thesis by simp
qed

end
