(* ===== verification/Content.thy ===== *)
theory Content
  imports Media Chunk ConfigCache
begin

section \<open>Sending content\<close>

text \<open>
  Models \<open>content.go\<close> and the exported senders of \<open>outbound.go\<close>: replies and messages of text,
  media and files, the typing indicator, and the notice after a failure.  \<open>bound\<close> is the session
  generation that a handler's context carries, if any.  Where the code would go on with a nil upload
  result (an upload without an error and without a result, which takes an empty token), it panics;
  the model returns an error.
\<close>

subsection \<open>Text\<close>

abbreviation text_item_of :: "string \<Rightarrow> message_item" where
  "text_item_of t \<equiv> MessageItem item_text 0 0 None [] (Some t) None None None None None None None"

definition item_message :: "message_item \<Rightarrow> outbound_message" where
  "item_message it = \<lparr>om_client_id = [], om_run_id = [], om_item = it\<rparr>"

fun send_chunks :: "environment \<Rightarrow> 64 word \<Rightarrow> string \<Rightarrow> string \<Rightarrow> string list \<Rightarrow> client_state \<Rightarrow> goerr option \<times> client_state" where
  "send_chunks env generation userID contextToken [] s = (None, s)"
| "send_chunks env generation userID contextToken (chunk # chunks) s =
     (case send_message env generation userID contextToken (item_message (text_item_of chunk)) s of
        (_, Some e, s) \<Rightarrow> (Some e, s)
      | (_, None, s) \<Rightarrow> send_chunks env generation userID contextToken chunks s)"

definition strip_option :: "environment \<Rightarrow> string \<Rightarrow> string" where
  "strip_option env t = (case ev_strip env of None \<Rightarrow> t | Some f \<Rightarrow> f t)"

definition send_text :: "environment \<Rightarrow> 64 word \<Rightarrow> string \<Rightarrow> string \<Rightarrow> string \<Rightarrow> client_state \<Rightarrow> goerr option \<times> client_state" where
  "send_text env generation userID t contextToken s =
     (case require_context_token userID contextToken of
        Some e \<Rightarrow> (Some e, s)
      | None \<Rightarrow> send_chunks env generation userID contextToken (chunk_text (strip_option env t) max_text_chars) s)"

definition error_notice :: string where
  "error_notice = map char_of [0xE2, 0x9A, 0xA0, 0xEF, 0xB8, 0x8F, 0x20, 0xE6, 0xB6, 0x88, 0xE6, 0x81, 0xAF, 0xE5, 0x8F, 0x91,
     0xE9, 0x80, 0x81, 0xE5, 0xA4, 0xB1, 0xE8, 0xB4, 0xA5, 0xEF, 0xBC, 0x8C, 0xE8, 0xAF, 0xB7, 0xE7, 0xA8, 0x8D, 0xE5, 0x90, 0x8E,
     0xE9, 0x87, 0x8D, 0xE8, 0xAF, 0x95, 0xE3, 0x80, 0x82 :: nat]"

definition notify_error :: "environment \<Rightarrow> 64 word \<Rightarrow> string \<Rightarrow> string \<Rightarrow> client_state \<Rightarrow> client_state" where
  "notify_error env generation userID contextToken s =
     (if \<not> ev_notify_errors env then s
      else if require_context_token userID contextToken \<noteq> None then s
      else (case ready_session generation (cl_bot s) of
          Inl _ \<Rightarrow> s
        | Inr _ \<Rightarrow> snd (snd (send_message env generation userID contextToken (item_message (text_item_of error_notice)) s))))"

text \<open>A failed operation is followed by the notice.\<close>

definition with_notice :: "environment \<Rightarrow> 64 word \<Rightarrow> string \<Rightarrow> string \<Rightarrow> goerr option \<times> client_state \<Rightarrow> goerr option \<times> client_state" where
  "with_notice env generation userID contextToken r =
     (case r of (None, s) \<Rightarrow> (None, s) | (Some e, s) \<Rightarrow> (Some e, notify_error env generation userID contextToken s))"

subsection \<open>Content\<close>

record send_content_t =
  sc_text :: string
  sc_image :: "bytes option"
  sc_video :: "bytes option"
  sc_file :: "bytes option"
  sc_file_name :: string
  sc_caption :: string
  sc_image_url :: string
  sc_video_url :: string
  sc_file_url :: string

definition no_content :: send_content_t where
  "no_content = \<lparr>sc_text = [], sc_image = None, sc_video = None, sc_file = None, sc_file_name = [], sc_caption = [],
     sc_image_url = [], sc_video_url = [], sc_file_url = []\<rparr>"

definition content_text :: "string \<Rightarrow> send_content_t" where "content_text t = no_content\<lparr>sc_text := t\<rparr>"
definition content_image :: "bytes \<Rightarrow> send_content_t" where "content_image d = no_content\<lparr>sc_image := Some d\<rparr>"
definition content_image_url :: "string \<Rightarrow> send_content_t" where "content_image_url u = no_content\<lparr>sc_image_url := u\<rparr>"
definition content_video :: "bytes \<Rightarrow> send_content_t" where "content_video d = no_content\<lparr>sc_video := Some d\<rparr>"
definition content_video_url :: "string \<Rightarrow> send_content_t" where "content_video_url u = no_content\<lparr>sc_video_url := u\<rparr>"
definition content_file :: "bytes \<Rightarrow> string \<Rightarrow> send_content_t" where
  "content_file d n = no_content\<lparr>sc_file := Some d, sc_file_name := n\<rparr>"
definition content_file_url :: "string \<Rightarrow> string \<Rightarrow> send_content_t" where
  "content_file_url u n = no_content\<lparr>sc_file_url := u, sc_file_name := n\<rparr>"

text \<open>One of the three downloads of \<open>resolveRemote\<close>.\<close>

definition resolve_one :: "environment \<Rightarrow> string \<Rightarrow> string \<Rightarrow> (bytes \<times> string \<Rightarrow> send_content_t \<Rightarrow> send_content_t) \<Rightarrow>
    send_content_t \<Rightarrow> client_state \<Rightarrow> (goerr option \<times> send_content_t) \<times> client_state" where
  "resolve_one env url what store content s =
     (if url = [] then ((None, content), s)
      else (case download_with_client env url s of
          (Inl e, s) \<Rightarrow> ((Some (Wrapf (''download '' @ what @ '': '') e []), content), s)
        | (Inr r, s) \<Rightarrow> ((None, store r content), s)))"

definition resolve_remote :: "environment \<Rightarrow> send_content_t \<Rightarrow> client_state \<Rightarrow> (goerr option \<times> send_content_t) \<times> client_state" where
  "resolve_remote env content s =
     (case resolve_one env (sc_image_url content) ''image''
         (\<lambda>(d, _) c. c\<lparr>sc_image := Some d, sc_image_url := []\<rparr>) content s of
        ((Some e, c), s) \<Rightarrow> ((Some e, c), s)
      | ((None, c), s) \<Rightarrow>
     (case resolve_one env (sc_video_url c) ''video'' (\<lambda>(d, _) c. c\<lparr>sc_video := Some d, sc_video_url := []\<rparr>) c s of
        ((Some e, c), s) \<Rightarrow> ((Some e, c), s)
      | ((None, c), s) \<Rightarrow>
        resolve_one env (sc_file_url c) ''file''
          (\<lambda>(d, n) c. c\<lparr>sc_file := Some d, sc_file_url := [],
                        sc_file_name := (if sc_file_name c = [] then n else sc_file_name c)\<rparr>) c s))"

subsection \<open>Kinds of files\<close>

text \<open>\<open>filepath.Ext\<close>.\<close>

definition path_ext :: "string \<Rightarrow> string" where
  "path_ext p =
     (let b = takeWhile (\<lambda>c. c \<noteq> CHR ''/'') (rev p)
      in if CHR ''.'' \<in> set b then CHR ''.'' # rev (takeWhile (\<lambda>c. c \<noteq> CHR ''.'') b) else [])"

definition image_exts :: "string list" where
  "image_exts = [''.png'', ''.jpg'', ''.jpeg'', ''.gif'', ''.webp'', ''.bmp'', ''.svg'']"

definition video_exts :: "string list" where
  "video_exts = [''.mp4'', ''.mov'', ''.webm'', ''.mkv'', ''.avi'']"

datatype file_category = ImageFile | VideoFile | OtherFile

definition categorize_by_extension :: "string \<Rightarrow> file_category" where
  "categorize_by_extension filename =
     (let ext = to_lower (path_ext filename) in
      if ext \<in> set image_exts then ImageFile else if ext \<in> set video_exts then VideoFile else OtherFile)"

subsection \<open>\<open>sendContent\<close>\<close>

definition media_image :: int where "media_image = 1"
definition media_video :: int where "media_video = 2"
definition media_file :: int where "media_file = 3"

definition nil_result :: goerr where "nil_result = Msg ''invalid memory address or nil pointer dereference''"

definition placeholder_jpeg :: bytes where
  "placeholder_jpeg = map char_of [
    0xFF, 0xD8, 0xFF, 0xE0, 0x00, 0x10, 0x4A, 0x46, 0x49, 0x46, 0x00, 0x01, 0x01, 0x00, 0x00, 0x01,
    0x00, 0x01, 0x00, 0x00, 0xFF, 0xDB, 0x00, 0x43, 0x00, 0x08, 0x06, 0x06, 0x07, 0x06, 0x05, 0x08,
    0x07, 0x07, 0x07, 0x09, 0x09, 0x08, 0x0A, 0x0C, 0x14, 0x0D, 0x0C, 0x0B, 0x0B, 0x0C, 0x19, 0x12,
    0x13, 0x0F, 0x14, 0x1D, 0x1A, 0x1F, 0x1E, 0x1D, 0x1A, 0x1C, 0x1C, 0x20, 0x24, 0x2E, 0x27, 0x20,
    0x22, 0x2C, 0x23, 0x1C, 0x1C, 0x28, 0x37, 0x29, 0x2C, 0x30, 0x31, 0x34, 0x34, 0x34, 0x1F, 0x27,
    0x39, 0x3D, 0x38, 0x32, 0x3C, 0x2E, 0x33, 0x34, 0x32, 0xFF, 0xC0, 0x00, 0x0B, 0x08, 0x00, 0x01,
    0x00, 0x01, 0x01, 0x01, 0x11, 0x00, 0xFF, 0xC4, 0x00, 0x1F, 0x00, 0x00, 0x01, 0x05, 0x01, 0x01,
    0x01, 0x01, 0x01, 0x01, 0x00, 0x00, 0x00, 0x00, 0x00, 0x00, 0x00, 0x00, 0x01, 0x02, 0x03, 0x04,
    0x05, 0x06, 0x07, 0x08, 0x09, 0x0A, 0x0B, 0xFF, 0xC4, 0x00, 0xB5, 0x10, 0x00, 0x02, 0x01, 0x03,
    0x03, 0x02, 0x04, 0x03, 0x05, 0x05, 0x04, 0x04, 0x00, 0x00, 0x01, 0x7D, 0x01, 0x02, 0x03, 0x00,
    0x04, 0x11, 0x05, 0x12, 0x21, 0x31, 0x41, 0x06, 0x13, 0x51, 0x61, 0x07, 0x22, 0x71, 0x14, 0x32,
    0x81, 0x91, 0xA1, 0x08, 0x23, 0x42, 0xB1, 0xC1, 0x15, 0x52, 0xD1, 0xF0, 0x24, 0x33, 0x62, 0x72,
    0x82, 0x09, 0x0A, 0x16, 0x17, 0x18, 0x19, 0x1A, 0x25, 0x26, 0x27, 0x28, 0x29, 0x2A, 0x34, 0x35,
    0x36, 0x37, 0x38, 0x39, 0x3A, 0x43, 0x44, 0x45, 0x46, 0x47, 0x48, 0x49, 0x4A, 0x53, 0x54, 0x55,
    0x56, 0x57, 0x58, 0x59, 0x5A, 0x63, 0x64, 0x65, 0x66, 0x67, 0x68, 0x69, 0x6A, 0x73, 0x74, 0x75,
    0x76, 0x77, 0x78, 0x79, 0x7A, 0x83, 0x84, 0x85, 0x86, 0x87, 0x88, 0x89, 0x8A, 0x92, 0x93, 0x94,
    0x95, 0x96, 0x97, 0x98, 0x99, 0x9A, 0xA2, 0xA3, 0xA4, 0xA5, 0xA6, 0xA7, 0xA8, 0xA9, 0xAA, 0xB2,
    0xB3, 0xB4, 0xB5, 0xB6, 0xB7, 0xB8, 0xB9, 0xBA, 0xC2, 0xC3, 0xC4, 0xC5, 0xC6, 0xC7, 0xC8, 0xC9,
    0xCA, 0xD2, 0xD3, 0xD4, 0xD5, 0xD6, 0xD7, 0xD8, 0xD9, 0xDA, 0xE1, 0xE2, 0xE3, 0xE4, 0xE5, 0xE6,
    0xE7, 0xE8, 0xE9, 0xEA, 0xF1, 0xF2, 0xF3, 0xF4, 0xF5, 0xF6, 0xF7, 0xF8, 0xF9, 0xFA, 0xFF, 0xDA,
    0x00, 0x08, 0x01, 0x01, 0x00, 0x00, 0x3F, 0x00, 0xFB, 0xD5, 0xDB, 0x20, 0xF8, 0x4B, 0xAF, 0xF8,
    0x4A, 0x3F, 0x07, 0x5F, 0xD9, 0xBE, 0x23, 0xD2, 0x7F, 0xE1, 0x3B, 0xD6, 0x3F, 0xE1, 0x3B, 0xD6,
    0x3F, 0xE1, 0x3B, 0xD6, 0x3F, 0xE1, 0x3B, 0xFF, 0xD9 :: nat]"

text \<open>Upload, then the message made of the result.\<close>

definition upload_and_send :: "environment \<Rightarrow> 64 word \<Rightarrow> string \<Rightarrow> string \<Rightarrow> bytes \<Rightarrow> bytes option \<Rightarrow> int \<Rightarrow>
    (upload_result \<Rightarrow> message_item) \<Rightarrow> client_state \<Rightarrow> goerr option \<times> client_state" where
  "upload_and_send env generation userID contextToken data thumbData mediaType item s =
     (case cdn_upload_with_thumb env generation data thumbData userID mediaType s of
        ((_, Some e), s) \<Rightarrow> (Some e, s)
      | ((None, None), s) \<Rightarrow> (Some nil_result, s)
      | ((Some r, None), s) \<Rightarrow>
          (case send_message env generation userID contextToken (item_message (item r)) s of (_, e, s) \<Rightarrow> (e, s)))"

definition thumb_reference :: "upload_result \<Rightarrow> cdn_media option" where
  "thumb_reference r = (if cdn_encrypt_query_param (up_thumb_media r) \<noteq> [] then Some (up_thumb_media r) else None)"

definition image_message_item :: "upload_result \<Rightarrow> message_item" where
  "image_message_item r = MessageItem item_image 0 0 None [] None
     (Some \<lparr>im_media = Some (up_media r), im_thumb_media = thumb_reference r, im_aes_key = [], im_url = [],
        im_mid_size = int (up_encrypted_file_size r), im_thumb_size = 0, im_thumb_width = 0, im_thumb_height = 0,
        im_hd_size = 0\<rparr>) None None None None None None"

definition video_message_item :: "upload_result \<Rightarrow> message_item" where
  "video_message_item r = MessageItem item_video 0 0 None [] None None None None
     (Some \<lparr>vi_media = Some (up_media r), vi_video_size = int (up_encrypted_file_size r), vi_play_length = 0,
        vi_thumb_media = thumb_reference r\<rparr>) None None None"

definition file_message_item :: "string \<Rightarrow> nat \<Rightarrow> upload_result \<Rightarrow> message_item" where
  "file_message_item name n r = MessageItem item_file 0 0 None [] None None None
     (Some \<lparr>fi_media = Some (up_media r), fi_file_name = name, fi_md5 = [], fi_len = dec_nat n\<rparr>) None None None None"

definition send_image_data :: "environment \<Rightarrow> 64 word \<Rightarrow> string \<Rightarrow> string \<Rightarrow> bytes \<Rightarrow> client_state \<Rightarrow> goerr option \<times> client_state" where
  "send_image_data env generation userID contextToken data s =
     (let thumbData = (case ev_thumbnail env data of Some t \<Rightarrow> t | None \<Rightarrow> placeholder_jpeg)
      in upload_and_send env generation userID contextToken data (Some thumbData) media_image image_message_item s)"

definition send_video_data :: "environment \<Rightarrow> 64 word \<Rightarrow> string \<Rightarrow> string \<Rightarrow> bytes \<Rightarrow> client_state \<Rightarrow> goerr option \<times> client_state" where
  "send_video_data env generation userID contextToken data s =
     upload_and_send env generation userID contextToken data (Some placeholder_jpeg) media_video video_message_item s"

text \<open>\<open>sendContent\<close>; a file of a known kind is sent again as an image or a video.\<close>

function send_content :: "environment \<Rightarrow> 64 word \<Rightarrow> string \<Rightarrow> string \<Rightarrow> send_content_t \<Rightarrow> client_state \<Rightarrow> goerr option \<times> client_state" where
  "send_content env generation userID contextToken content s =
     (case require_context_token userID contextToken of
        Some e \<Rightarrow> (Some e, s)
      | None \<Rightarrow>
     (if sc_text content \<noteq> [] then send_text env generation userID (sc_text content) contextToken s
      else (case ready_session generation (cl_bot s) of
        Inl e \<Rightarrow> (Some e, s)
      | Inr _ \<Rightarrow>
     (case (if sc_caption content \<noteq> [] then send_text env generation userID (sc_caption content) contextToken s else (None, s)) of
        (Some e, s) \<Rightarrow> (Some e, s)
      | (None, s) \<Rightarrow>
     (case sc_image content of
        Some data \<Rightarrow> send_image_data env generation userID contextToken data s
      | None \<Rightarrow>
     (case sc_video content of
        Some data \<Rightarrow> send_video_data env generation userID contextToken data s
      | None \<Rightarrow>
     (case sc_file content of
        Some data \<Rightarrow>
          (let fileName = (if sc_file_name content = [] then ''file.bin'' else sc_file_name content) in
           case categorize_by_extension fileName of
             ImageFile \<Rightarrow> send_content env generation userID contextToken (content_image data) s
           | VideoFile \<Rightarrow> send_content env generation userID contextToken (content_video data) s
           | OtherFile \<Rightarrow> upload_and_send env generation userID contextToken data None media_file
               (file_message_item fileName (length data)) s)
      | None \<Rightarrow> (if sc_caption content \<noteq> [] then (None, s) else (Some (Msg ''empty SendContent''), s)))))))))"
  by pat_completeness auto
termination
  by (relation "measure (\<lambda>(_, _, _, _, content, _). case sc_file content of None \<Rightarrow> 0 | Some _ \<Rightarrow> 1)")
    (simp_all add: content_image_def content_video_def no_content_def)

declare send_content.simps [simp del]

subsection \<open>The exported senders\<close>

definition bot_send_message :: "environment \<Rightarrow> 64 word option \<Rightarrow> string \<Rightarrow> outbound_message \<Rightarrow> client_state \<Rightarrow>
    send_result \<times> goerr option \<times> client_state" where
  "bot_send_message env bound userID msg s =
     (case ready_session_for_context bound (cl_bot s) of
        Inl e \<Rightarrow> (no_result, Some e, s)
      | Inr (_, generation) \<Rightarrow>
          (let contextToken = context_get (b_context_tokens (cl_bot s)) userID in
           case send_message env generation userID contextToken msg s of
             (r, e, s) \<Rightarrow> (r, with_notice env generation userID contextToken (e, s))))"

definition bot_send :: "environment \<Rightarrow> 64 word option \<Rightarrow> string \<Rightarrow> string \<Rightarrow> client_state \<Rightarrow> goerr option \<times> client_state" where
  "bot_send env bound userID t s =
     (case ready_session_for_context bound (cl_bot s) of
        Inl e \<Rightarrow> (Some e, s)
      | Inr (_, generation) \<Rightarrow>
          (let ct = context_get (b_context_tokens (cl_bot s)) userID in
           case require_context_token userID ct of
             Some e \<Rightarrow> (Some e, s)
           | None \<Rightarrow> with_notice env generation userID ct (send_text env generation userID t ct s)))"

definition send_media :: "environment \<Rightarrow> 64 word option \<Rightarrow> string \<Rightarrow> send_content_t \<Rightarrow> client_state \<Rightarrow> goerr option \<times> client_state" where
  "send_media env bound userID content s =
     (case ready_session_for_context bound (cl_bot s) of
        Inl e \<Rightarrow> (Some e, s)
      | Inr (_, generation) \<Rightarrow>
          (let ct = context_get (b_context_tokens (cl_bot s)) userID in
           case require_context_token userID ct of
             Some e \<Rightarrow> (Some e, s)
           | None \<Rightarrow>
              (case resolve_remote env content s of
                 ((Some e, _), s) \<Rightarrow> (Some e, s)
               | ((None, resolved), s) \<Rightarrow>
                   with_notice env generation userID ct (send_content env generation userID ct resolved s))))"

text \<open>
  What the replies have in common: the session of the message, its context token kept, then the
  operation.  An error in keeping the token ends the reply only if it says that reauthentication is
  required.
\<close>

definition reply_with :: "environment \<Rightarrow> incoming_message option \<Rightarrow>
    (64 word \<Rightarrow> incoming_message \<Rightarrow> client_state \<Rightarrow> 'r \<times> goerr option \<times> client_state) \<Rightarrow> 'r \<Rightarrow>
    client_state \<Rightarrow> 'r \<times> goerr option \<times> client_state" where
  "reply_with env inbound operation none s =
     (case inbound of
        None \<Rightarrow> (none, Some (Msg ''inbound message is nil''), s)
      | Some msg \<Rightarrow>
     (case incoming_session_generation (in_session_bound msg) (in_session_generation msg) (cl_bot s) of
        Inl e \<Rightarrow> (none, Some e, s)
      | Inr generation \<Rightarrow>
     (case require_context_token (in_user_id msg) (in_context_token msg) of
        Some e \<Rightarrow> (none, Some e, s)
      | None \<Rightarrow>
     (case persist_context_token (ev_os env) generation (in_user_id msg) (in_context_token msg) (cl_bot s) (cl_world s) of
        (r, b, w) \<Rightarrow>
          (let s = set_shared (b, w) s in
           if opt_is r ReauthRequired then (none, r, s) else operation generation msg s)))))"

definition reply_message :: "environment \<Rightarrow> incoming_message option \<Rightarrow> outbound_message \<Rightarrow> client_state \<Rightarrow>
    send_result \<times> goerr option \<times> client_state" where
  "reply_message env inbound msg s =
     reply_with env inbound
       (\<lambda>generation m s. case send_message env generation (in_user_id m) (in_context_token m) msg s of
          (r, e, s) \<Rightarrow> (r, with_notice env generation (in_user_id m) (in_context_token m) (e, s))) no_result s"

definition bot_reply :: "environment \<Rightarrow> incoming_message option \<Rightarrow> string \<Rightarrow> client_state \<Rightarrow> goerr option \<times> client_state" where
  "bot_reply env inbound t s =
     snd (reply_with env inbound
       (\<lambda>generation m s. ((), with_notice env generation (in_user_id m) (in_context_token m)
          (send_text env generation (in_user_id m) t (in_context_token m) s))) () s)"

definition reply_content :: "environment \<Rightarrow> incoming_message option \<Rightarrow> send_content_t \<Rightarrow> client_state \<Rightarrow> goerr option \<times> client_state" where
  "reply_content env inbound content s =
     snd (reply_with env inbound
       (\<lambda>generation m s. ((), case resolve_remote env content s of
            ((Some e, _), s) \<Rightarrow> (Some e, s)
          | ((None, resolved), s) \<Rightarrow> with_notice env generation (in_user_id m) (in_context_token m)
              (send_content env generation (in_user_id m) (in_context_token m) resolved s))) () s)"

subsection \<open>Typing\<close>

text \<open>\<open>generationConfigProvider.GetConfig\<close>.\<close>

definition session_get_config :: "environment \<Rightarrow> 64 word \<Rightarrow> string \<Rightarrow> string \<Rightarrow> client_state \<Rightarrow> (goerr + string) \<times> client_state" where
  "session_get_config env generation userID contextToken s =
     (case make_request env generation (GetConfigCall userID contextToken) (ev_config env) s of
        (Inl e, s) \<Rightarrow> (Inl e, s)
      | (Inr (_, r), s) \<Rightarrow> (r, s))"

definition send_typing_for_session :: "environment \<Rightarrow> 64 word \<Rightarrow> string \<Rightarrow> string \<Rightarrow> int \<Rightarrow> client_state \<Rightarrow> goerr option \<times> client_state" where
  "send_typing_for_session env generation userID ticket status s =
     (case make_request env generation (SendTypingCall userID ticket status) (ev_answer env) s of
        (Inl e, s) \<Rightarrow> (Some e, s)
      | (Inr (tok, sendErr), s) \<Rightarrow>
          (if tok = [] then (sendErr, s)
           else (case handle_error env generation tok sendErr s of
              (Some e, s) \<Rightarrow> (Some e, s)
            | (None, s) \<Rightarrow> (case ready_session generation (cl_bot s) of Inl e \<Rightarrow> (Some e, s) | Inr _ \<Rightarrow> (None, s)))))"

text \<open>The part after the context token has been looked up; the cache is that of the session.\<close>

definition typing_status :: "environment \<Rightarrow> int \<Rightarrow> int \<Rightarrow> credentials \<Rightarrow> 64 word \<Rightarrow> string \<Rightarrow> string \<Rightarrow> int \<Rightarrow>
    config_cache \<Rightarrow> client_state \<Rightarrow> goerr option \<times> config_cache \<times> client_state" where
  "typing_status env now jitter c generation userID ct status cache s =
     (case get_for_user (session_get_config env generation userID ct) now jitter userID cache s of
        ((ticket, Some e), cache, s) \<Rightarrow>
          (case handle_error env generation (cr_token c) (Some e) s of (r, s) \<Rightarrow> (r, cache, s))
      | ((ticket, None), cache, s) \<Rightarrow>
          (case ready_session generation (cl_bot s) of
             Inl e \<Rightarrow> (Some e, cache, s)
           | Inr _ \<Rightarrow>
              (if ticket = [] then (None, cache, s)
               else (case send_typing_for_session env generation userID ticket status s of (r, s) \<Rightarrow> (r, cache, s)))))"

definition send_typing :: "environment \<Rightarrow> 64 word option \<Rightarrow> int \<Rightarrow> int \<Rightarrow> string \<Rightarrow> config_cache \<Rightarrow> client_state \<Rightarrow>
    goerr option \<times> config_cache \<times> client_state" where
  "send_typing env bound now jitter userID cache s =
     (case ready_config bound (cl_bot s) of
        Inl e \<Rightarrow> (Some e, cache, s)
      | Inr (c, _, generation) \<Rightarrow>
          (let ct = context_get (b_context_tokens (cl_bot s)) userID in
           case require_context_token userID ct of
             Some e \<Rightarrow> (Some e, cache, s)
           | None \<Rightarrow> typing_status env now jitter c generation userID ct 1 cache s))"

definition stop_typing :: "environment \<Rightarrow> 64 word option \<Rightarrow> int \<Rightarrow> int \<Rightarrow> string \<Rightarrow> config_cache \<Rightarrow> client_state \<Rightarrow>
    goerr option \<times> config_cache \<times> client_state" where
  "stop_typing env bound now jitter userID cache s =
     (case ready_config bound (cl_bot s) of
        Inl e \<Rightarrow> (Some e, cache, s)
      | Inr (c, _, generation) \<Rightarrow>
          (let ct = context_get (b_context_tokens (cl_bot s)) userID in
           if ct = [] then (None, cache, s)
           else typing_status env now jitter c generation userID ct 2 cache s))"

subsection \<open>The requests of an operation\<close>

definition message_to :: "string \<Rightarrow> string \<Rightarrow> 64 word \<Rightarrow> message_item \<Rightarrow> api_request \<Rightarrow> bool" where
  "message_to userID contextToken generation it rq \<longleftrightarrow> (\<exists>res. carries_item userID contextToken res generation it rq)"

lemma send_item_sent:
  assumes "ev_before_send env = []" and "send_message env g uid ct (item_message it) s = (res, err, s')"
  shows "(cl_sent s' = cl_sent s \<and> err \<noteq> None) \<or>
    (\<exists>rq. cl_sent s' = cl_sent s @ [rq] \<and> message_to uid ct g (normalize_item it) rq)"
  using send_message_sent [OF assms(2)] assms(1) unfolding message_to_def item_message_def
  by (elim disjE exE conjE) auto

lemma normalize_text_item [simp]:
  "normalize_item (text_item_of t) = text_item_of (normalize_bare_less_than t)"
  by simp

lemma send_chunks_sent:
  assumes "ev_before_send env = []"
  shows "send_chunks env g uid ct chunks s = (err, s') \<Longrightarrow>
    \<exists>rqs. cl_sent s' = cl_sent s @ rqs \<and> length rqs \<le> length chunks \<and>
      list_all2 (\<lambda>c rq. message_to uid ct g (text_item_of (normalize_bare_less_than c)) rq) (take (length rqs) chunks) rqs \<and>
      (err = None \<longrightarrow> length rqs = length chunks)"
proof (induction chunks arbitrary: s)
  case (Cons c chunks)
  obtain res e s1 where m: "send_message env g uid ct (item_message (text_item_of c)) s = (res, e, s1)"
    by (metis prod_cases3)
  note sent = send_item_sent [OF assms m]
  show ?case
  proof (cases e)
    case None
    with sent obtain rq where rq: "cl_sent s1 = cl_sent s @ [rq]"
      "message_to uid ct g (text_item_of (normalize_bare_less_than c)) rq" by auto
    have "send_chunks env g uid ct chunks s1 = (err, s')" using Cons.prems m None by simp
    from Cons.IH [OF this] rq show ?thesis
      by (elim exE) (rule_tac x = "rq # rqs" in exI, simp)
  next
    case (Some x)
    with Cons.prems m have r: "err = Some x" "s' = s1" by simp_all
    from sent show ?thesis
    proof (elim disjE exE conjE)
      assume "cl_sent s1 = cl_sent s"
      with r show ?thesis by (intro exI [of _ "[]"]) simp
    next
      fix rq assume "cl_sent s1 = cl_sent s @ [rq]" "message_to uid ct g (normalize_item (text_item_of c)) rq"
      with r show ?thesis by (intro exI [of _ "[rq]"]) simp
    qed
  qed
qed simp

text \<open>The kind of a request: the type of the message's item, or 0 for the address of an upload.\<close>

definition upload_kind :: int where "upload_kind = 0"

definition request_kind :: "api_request \<Rightarrow> int" where
  "request_kind rq =
     (case rq_call rq of
        SendMessageCall pl \<Rightarrow> (case pl_item_list pl of [it] \<Rightarrow> mi_type it | _ \<Rightarrow> -1)
      | GetUploadURLCall _ \<Rightarrow> upload_kind
      | _ \<Rightarrow> -1)"

definition plan_of :: "environment \<Rightarrow> string \<Rightarrow> int list" where
  "plan_of env t = map (\<lambda>_. item_text) (chunk_text (strip_option env t) max_text_chars)"

definition media_plan :: "send_content_t \<Rightarrow> int list" where
  "media_plan c =
     (if sc_image c \<noteq> None then [upload_kind, item_image]
      else if sc_video c \<noteq> None then [upload_kind, item_video]
      else if sc_file c \<noteq> None
      then (case categorize_by_extension (if sc_file_name c = [] then ''file.bin'' else sc_file_name c) of
              ImageFile \<Rightarrow> [upload_kind, item_image]
            | VideoFile \<Rightarrow> [upload_kind, item_video]
            | OtherFile \<Rightarrow> [upload_kind, item_file])
      else [])"

definition content_plan :: "environment \<Rightarrow> send_content_t \<Rightarrow> int list" where
  "content_plan env c =
     (if sc_text c \<noteq> [] then plan_of env (sc_text c)
      else (if sc_caption c \<noteq> [] then plan_of env (sc_caption c) else []) @ media_plan c)"

lemma message_to_kind: "message_to uid ct g it rq \<Longrightarrow> request_kind rq = mi_type it"
  by (auto simp: message_to_def carries_item_def request_kind_def build_message_def)

lemma mi_type_normalize [simp]: "mi_type (normalize_item it) = mi_type it"
  by (cases it) simp

text \<open>What an operation that succeeds adds.\<close>

definition adds :: "client_state \<Rightarrow> client_state \<Rightarrow> int list \<Rightarrow> bool" where
  "adds s s' kinds \<longleftrightarrow> (\<exists>rqs. cl_sent s' = cl_sent s @ rqs \<and> map request_kind rqs = kinds)"

lemma adds_refl [simp]: "adds s s []"
  by (simp add: adds_def)

lemma adds_trans: "adds s t ks \<Longrightarrow> adds t u ls \<Longrightarrow> adds s u (ks @ ls)"
  unfolding adds_def by (metis append.assoc map_append)

lemma adds_set_shared [simp]: "adds s (set_shared x t) ks = adds s t ks"
  by (simp add: adds_def)

lemma send_text_adds:
  assumes "ev_before_send env = []" and "send_text env g uid t ct s = (None, s')"
  shows "adds s s' (plan_of env t)"
proof -
  let ?chunks = "chunk_text (strip_option env t) max_text_chars"
  have "send_chunks env g uid ct ?chunks s = (None, s')"
    using assms(2) by (auto simp: send_text_def split: option.splits)
  from send_chunks_sent [OF assms(1) this] obtain rqs where rqs: "cl_sent s' = cl_sent s @ rqs"
    "list_all2 (\<lambda>c rq. message_to uid ct g (text_item_of (normalize_bare_less_than c)) rq) ?chunks rqs" by auto
  from rqs(2) have "map request_kind rqs = map (\<lambda>_. item_text) ?chunks"
    by (induction rule: list_all2_induct) (auto dest: message_to_kind)
  with rqs(1) show ?thesis unfolding adds_def plan_of_def by blast
qed

lemma send_item_adds:
  assumes "ev_before_send env = []" and "send_message env g uid ct (item_message it) s = (res, None, s')"
  shows "adds s s' [mi_type it]"
  using send_item_sent [OF assms] by (auto simp: adds_def dest: message_to_kind)

lemma upload_attempts_sent: "upload_attempts env url c n k e s = (r, s') \<Longrightarrow> cl_sent s' = cl_sent s"
  by (induction n arbitrary: k e s) (auto split: cdn_reply.splits prod.splits if_splits simp: Let_def)

lemma upload_to_cdn_sent: "upload_to_cdn env url c s = (r, s') \<Longrightarrow> cl_sent s' = cl_sent s"
  unfolding upload_to_cdn_def by (rule upload_attempts_sent)

lemma read_random_sent: "read_random s = (r, s') \<Longrightarrow> cl_sent s' = cl_sent s"
  using sent_read_random(1) [of s] by simp

lemma prepare_thumbnail_sent: "prepare_thumbnail th s = (r, s') \<Longrightarrow> cl_sent s' = cl_sent s"
  by (auto simp: prepare_thumbnail_def generate_aes_key_def dest!: read_random_sent
      split: option.splits prod.splits sum.splits)

lemma upload_thumbnail_sent: "upload_thumbnail env resp fk th s = (r, s') \<Longrightarrow> cl_sent s' = cl_sent s"
  by (auto simp: upload_thumbnail_def dest!: upload_to_cdn_sent
      split: option.splits prod.splits sum.splits if_splits)

lemma upload_files_sent: "upload_files env g k c fk th resp s = (r, s') \<Longrightarrow> cl_sent s' = cl_sent s"
  by (auto simp: upload_files_def Let_def dest!: upload_to_cdn_sent upload_thumbnail_sent
      split: prod.splits sum.splits if_splits)

lemma request_upload_adds:
  assumes "request_upload env g data k c fk th uid mt s = ((Some res, None), s')"
  shows "adds s s' [upload_kind]"
proof -
  let ?call = "GetUploadURLCall (upload_request env data c k fk th uid mt)"
  obtain r s1 where mk: "make_request env g ?call (ev_upload_url env) s = (r, s1)" by fastforce
  from mk show ?thesis
  proof (cases rule: make_request_cases)
    case (refused e)
    with assms mk show ?thesis by (simp add: request_upload_def)
  next
    case (made rq x y tok)
    then have "adds s s1 [upload_kind]" by (auto simp: adds_def request_kind_def)
    moreover have "cl_sent s' = cl_sent s1"
      using assms mk made(1) upload_files_sent
      by (auto simp: request_upload_def Let_def split: if_splits sum.splits prod.splits)
    ultimately show ?thesis by (simp add: adds_def)
  qed
qed

lemma cdn_upload_adds:
  assumes "cdn_upload_with_thumb env g data th uid mt s = ((Some res, None), s')"
  shows "adds s s' [upload_kind]"
proof -
  obtain k c fk thumb s1 where "request_upload env g data k c fk thumb uid mt s1 = ((Some res, None), s')"
    "cl_sent s1 = cl_sent s"
    using assms
    by (auto simp: cdn_upload_with_thumb_def generate_aes_key_def split: prod.splits sum.splits
        dest!: read_random_sent prepare_thumbnail_sent)
  with request_upload_adds show ?thesis by (metis adds_def)
qed

lemma upload_and_send_adds:
  assumes "ev_before_send env = []" and "upload_and_send env g uid ct data th mt item s = (None, s')"
    and "\<And>r. mi_type (item r) = kind"
  shows "adds s s' [upload_kind, kind]"
proof -
  obtain r s1 res where "cdn_upload_with_thumb env g data th uid mt s = ((Some r, None), s1)"
    "send_message env g uid ct (item_message (item r)) s1 = (res, None, s')"
    using assms(2) by (auto simp: upload_and_send_def split: prod.splits option.splits)
  from adds_trans [OF cdn_upload_adds [OF this(1)] send_item_adds [OF assms(1) this(2)]] assms(3)
  show ?thesis by simp
qed

lemma item_kinds [simp]:
  "mi_type (image_message_item r) = item_image" "mi_type (video_message_item r) = item_video"
  "mi_type (file_message_item n m r) = item_file"
  by (simp_all add: image_message_item_def video_message_item_def file_message_item_def)

text \<open>\<open>sendContent\<close> after the caption.\<close>

definition send_media_part :: "environment \<Rightarrow> 64 word \<Rightarrow> string \<Rightarrow> string \<Rightarrow> send_content_t \<Rightarrow> client_state \<Rightarrow> goerr option \<times> client_state" where
  "send_media_part env g uid ct content s =
     (case sc_image content of
        Some data \<Rightarrow> send_image_data env g uid ct data s
      | None \<Rightarrow>
     (case sc_video content of
        Some data \<Rightarrow> send_video_data env g uid ct data s
      | None \<Rightarrow>
     (case sc_file content of
        Some data \<Rightarrow>
          (let fileName = (if sc_file_name content = [] then ''file.bin'' else sc_file_name content) in
           case categorize_by_extension fileName of
             ImageFile \<Rightarrow> send_content env g uid ct (content_image data) s
           | VideoFile \<Rightarrow> send_content env g uid ct (content_video data) s
           | OtherFile \<Rightarrow> upload_and_send env g uid ct data None media_file (file_message_item fileName (length data)) s)
      | None \<Rightarrow> (if sc_caption content \<noteq> [] then (None, s) else (Some (Msg ''empty SendContent''), s)))))"

lemma send_content_unfold:
  "send_content env g uid ct content s =
     (case require_context_token uid ct of
        Some e \<Rightarrow> (Some e, s)
      | None \<Rightarrow>
     (if sc_text content \<noteq> [] then send_text env g uid (sc_text content) ct s
      else (case ready_session g (cl_bot s) of
        Inl e \<Rightarrow> (Some e, s)
      | Inr _ \<Rightarrow>
     (case (if sc_caption content \<noteq> [] then send_text env g uid (sc_caption content) ct s else (None, s)) of
        (Some e, s) \<Rightarrow> (Some e, s)
      | (None, s) \<Rightarrow> send_media_part env g uid ct content s))))"
  unfolding send_media_part_def by (rule send_content.simps)

lemma send_content_ok:
  assumes "send_content env g uid ct content s = (None, s')"
  obtains (words) "sc_text content \<noteq> []" "send_text env g uid (sc_text content) ct s = (None, s')"
  | (media) s1 where "sc_text content = []"
      "(if sc_caption content \<noteq> [] then send_text env g uid (sc_caption content) ct s else (None, s)) = (None, s1)"
      "send_media_part env g uid ct content s1 = (None, s')"
proof -
  let ?cap = "if sc_caption content \<noteq> [] then send_text env g uid (sc_caption content) ct s else (None, s)"
  obtain e s1 where cap: "?cap = (e, s1)" by fastforce
  have none: "require_context_token uid ct = None"
    using assms unfolding send_content_unfold by (cases "require_context_token uid ct") simp_all
  show thesis
  proof (cases "sc_text content \<noteq> []")
    case True
    with assms none words show thesis unfolding send_content_unfold by simp
  next
    case False
    show thesis
    proof (cases "ready_session g (cl_bot s)")
      case (Inl x)
      with assms none False show thesis unfolding send_content_unfold by simp
    next
      case (Inr c)
      with assms none False have "(case e of Some x \<Rightarrow> (Some x, s1) | None \<Rightarrow> send_media_part env g uid ct content s1) = (None, s')"
        unfolding send_content_unfold cap by simp
      with False cap media show thesis by (cases e) auto
    qed
  qed
qed

lemma single_media_adds:
  assumes "ev_before_send env = []" and "sc_text content = []" and "sc_caption content = []" and "sc_file content = None"
    and "send_content env g uid ct content s = (None, s')"
  shows "adds s s' (media_plan content)"
  using assms(5)
proof (cases rule: send_content_ok)
  case words
  with assms(2) show ?thesis by simp
next
  case (media s1)
  then have "s1 = s" using assms(3) by simp
  with media assms(3,4) upload_and_send_adds [OF assms(1)] show ?thesis
    by (auto simp: send_media_part_def media_plan_def send_image_data_def send_video_data_def Let_def split: option.splits)
qed

lemma media_part_adds:
  assumes "ev_before_send env = []" and "send_media_part env g uid ct content s = (None, s')"
  shows "adds s s' (media_plan content)"
proof -
  let ?name = "if sc_file_name content = [] then ''file.bin'' else sc_file_name content"
  consider (image) d where "sc_image content = Some d" | (video) d where "sc_image content = None" "sc_video content = Some d"
    | (doc) d where "sc_image content = None" "sc_video content = None" "sc_file content = Some d"
    | (none) "sc_image content = None" "sc_video content = None" "sc_file content = None"
    by (cases "sc_image content"; cases "sc_video content"; cases "sc_file content") auto
  then show ?thesis
  proof cases
    case image
    with assms upload_and_send_adds [OF assms(1)] show ?thesis
      by (auto simp: send_media_part_def media_plan_def send_image_data_def Let_def)
  next
    case video
    with assms upload_and_send_adds [OF assms(1)] show ?thesis
      by (auto simp: send_media_part_def media_plan_def send_video_data_def)
  next
    case doc
    have plain: "sc_text (content_image d) = []" "sc_caption (content_image d) = []" "sc_file (content_image d) = None"
      "sc_text (content_video d) = []" "sc_caption (content_video d) = []" "sc_file (content_video d) = None"
      "media_plan (content_image d) = [upload_kind, item_image]" "media_plan (content_video d) = [upload_kind, item_video]"
      by (simp_all add: content_image_def content_video_def no_content_def media_plan_def)
    show ?thesis
    proof (cases "categorize_by_extension ?name")
      case ImageFile
      with assms(2) doc have "send_content env g uid ct (content_image d) s = (None, s')"
        by (simp add: send_media_part_def)
      from single_media_adds [OF assms(1) plain(1-3) this] ImageFile doc plain(7) show ?thesis
        by (simp add: media_plan_def)
    next
      case VideoFile
      with assms(2) doc have "send_content env g uid ct (content_video d) s = (None, s')"
        by (simp add: send_media_part_def)
      from single_media_adds [OF assms(1) plain(4-6) this] VideoFile doc plain(8) show ?thesis
        by (simp add: media_plan_def)
    next
      case OtherFile
      with assms(2) doc have "upload_and_send env g uid ct d None media_file (file_message_item ?name (length d)) s = (None, s')"
        by (simp add: send_media_part_def Let_def)
      from upload_and_send_adds [OF assms(1) this item_kinds(3)] OtherFile doc show ?thesis
        by (simp add: media_plan_def)
    qed
  next
    case none
    with assms(2) show ?thesis by (auto simp: send_media_part_def media_plan_def split: if_splits)
  qed
qed

lemma sample_text_sent:
  "\<exists>s'. send_text accepting_env 0 ''u'' ''hi'' ''ct'' sample_client = (None, s')"
proof -
  have "rune_len ''hi'' = 2" by (simp add: rune_len_def runes_Cons is_ascii_def)
  then have chunks: "chunk_text ''hi'' max_text_chars = [''hi'']" by (simp add: chunk_text_def max_text_chars_def)
  have "fst (snd (send_message accepting_env 0 ''u'' ''ct'' (item_message (text_item_of ''hi'')) sample_client)) = None"
    by (simp add: send_message_def require_context_token_def sample_client_def sending_bot_ready send_prepared_def
        accepting_env_def validate_outbound_message_def transmit_def make_request_def set_shared_def shared_of_def
        Let_def sample_creds_def item_message_def read_random_def new_client_id_def format_client_id_def split: prod.split)
  then obtain res s' where
    "send_message accepting_env 0 ''u'' ''ct'' (item_message (text_item_of ''hi'')) sample_client = (res, None, s')"
    by (metis prod.collapse)
  then show ?thesis
    by (simp add: send_text_def require_context_token_def strip_option_def accepting_env_def chunks)
qed

subsection \<open>Properties\<close>

text \<open>C26: a text arrives in order.  Without hooks, the messages that \<open>sendText\<close> makes are the pieces of
  the text, normalised, in their order and to the right user and session, one message each; it stops
  at the first failure, and without an error all pieces have been sent.\<close>

theorem text_sent_in_order:
  assumes "ev_before_send env = []" and "send_text env generation userID t contextToken s = (err, s')"
  shows "\<exists>rqs. cl_sent s' = cl_sent s @ rqs \<and>
    list_all2 (\<lambda>c rq. message_to userID contextToken generation (text_item_of (normalize_bare_less_than c)) rq)
      (take (length rqs) (chunk_text (strip_option env t) max_text_chars)) rqs \<and>
    (err = None \<longrightarrow> length rqs = length (chunk_text (strip_option env t) max_text_chars))"
proof (cases "require_context_token userID contextToken")
  case None
  with assms(2) have "send_chunks env generation userID contextToken (chunk_text (strip_option env t) max_text_chars) s = (err, s')"
    by (simp add: send_text_def)
  from send_chunks_sent [OF assms(1) this] show ?thesis by blast
next
  case (Some e)
  with assms(2) show ?thesis by (intro exI [of _ "[]"]) (auto simp: send_text_def)
qed

theorem text_sent_in_order_witness:
  "\<exists>s' rq. send_text accepting_env 0 ''u'' ''hi'' ''ct'' sample_client = (None, s') \<and> cl_sent s' = [rq] \<and>
    message_to ''u'' ''ct'' 0 (text_item_of (normalize_bare_less_than ''hi'')) rq"
proof -
  obtain s' where send: "send_text accepting_env 0 ''u'' ''hi'' ''ct'' sample_client = (None, s')"
    using sample_text_sent by blast
  have "rune_len ''hi'' = 2" by (simp add: rune_len_def runes_Cons is_ascii_def)
  then have chunks: "chunk_text (strip_option accepting_env ''hi'') max_text_chars = [''hi'']"
    by (simp add: chunk_text_def max_text_chars_def strip_option_def accepting_env_def)
  have "ev_before_send accepting_env = []" by (simp add: accepting_env_def)
  from text_sent_in_order [OF this send] obtain rqs where rqs: "cl_sent s' = cl_sent sample_client @ rqs"
    "list_all2 (\<lambda>c rq. message_to ''u'' ''ct'' 0 (text_item_of (normalize_bare_less_than c)) rq)
      (take (length rqs) [''hi'']) rqs" "length rqs = 1"
    unfolding chunks by auto
  then obtain rq where rq: "rqs = [rq]" by (auto simp: length_Suc_conv)
  have "cl_sent s' = [rq]" using rqs(1) rq by (simp add: sample_client_def)
  moreover have "message_to ''u'' ''ct'' 0 (text_item_of (normalize_bare_less_than ''hi'')) rq"
    using rqs(2) unfolding rq by simp
  ultimately show ?thesis using send by blast
qed

text \<open>C27: what \<open>sendContent\<close> sends when it succeeds, in order.  A text alone, in pieces; otherwise the
  caption in pieces, then one upload and one message for the first of image, video and file that is
  given, a file being sent as an image or a video when its name has such an extension.  Nothing is
  sent twice and nothing is left out.\<close>

theorem content_sent:
  assumes "ev_before_send env = []" and "send_content env generation userID contextToken content s = (None, s')"
  shows "\<exists>rqs. cl_sent s' = cl_sent s @ rqs \<and> map request_kind rqs = content_plan env content"
  using assms(2)
proof (cases rule: send_content_ok)
  case words
  with send_text_adds [OF assms(1) words(2)] show ?thesis by (simp add: content_plan_def adds_def)
next
  case (media s1)
  have "adds s s1 (if sc_caption content \<noteq> [] then plan_of env (sc_caption content) else [])"
    using media(2) send_text_adds [OF assms(1)] by (auto split: if_splits)
  from adds_trans [OF this media_part_adds [OF assms(1) media(3)]] media(1) show ?thesis
    by (simp add: content_plan_def adds_def)
qed

theorem content_sent_witness:
  "\<exists>s' rq. send_content accepting_env 0 ''u'' ''ct'' (content_text ''hi'') sample_client = (None, s') \<and>
    cl_sent s' = [rq] \<and> request_kind rq = item_text"
proof -
  obtain s' where "send_text accepting_env 0 ''u'' ''hi'' ''ct'' sample_client = (None, s')"
    using sample_text_sent by blast
  then have send: "send_content accepting_env 0 ''u'' ''ct'' (content_text ''hi'') sample_client = (None, s')"
    by (simp add: send_content_unfold require_context_token_def content_text_def no_content_def)
  have "rune_len ''hi'' = 2" by (simp add: rune_len_def runes_Cons is_ascii_def)
  then have plan: "content_plan accepting_env (content_text ''hi'') = [item_text]"
    by (simp add: content_plan_def plan_of_def content_text_def no_content_def chunk_text_def max_text_chars_def
        strip_option_def accepting_env_def)
  have "ev_before_send accepting_env = []" by (simp add: accepting_env_def)
  from content_sent [OF this send] obtain rqs where rqs: "cl_sent s' = cl_sent sample_client @ rqs"
    "map request_kind rqs = [item_text]" by (simp only: plan) (elim exE conjE)
  obtain rq where rq: "rqs = [rq]" "request_kind rq = item_text" using rqs(2) by auto
  have "cl_sent s' = [rq]" using rqs(1) rq(1) by (simp add: sample_client_def)
  with send rq(2) show ?thesis by blast
qed

end
