(* ===== verification/JsonText.thy ===== *)
theory JsonText
  imports Json GoText "HOL-Library.List_Lexorder" "HOL-Library.Char_ord"
begin

section \<open>The text of JSON documents\<close>

text \<open>
  \<open>encoding/json\<close> between text and value, as \<open>redact.String\<close> uses it: a decoder with
  \<open>UseNumber\<close> into \<open>any\<close>, so that a number is its literal (\<open>JReal\<close>), and
  \<open>json.Marshal\<close>, which sorts the keys of a map, replaces what is not UTF-8 and escapes
  \<open><\<close>, \<open>>\<close>, \<open>&\<close>, U+2028 and U+2029.  Both are executable.
\<close>

subsection \<open>Strings\<close>

definition json_escapes :: "(char \<times> char) list" where
  "json_escapes =
     [(double_quote, double_quote), (backslash, backslash), (CHR ''/'', CHR ''/''),
      (CHR ''b'', CHR 0x08), (CHR ''f'', CHR 0x0C), (CHR ''n'', CHR 0x0A),
      (CHR ''r'', CHR 0x0D), (CHR ''t'', CHR 0x09)]"

text \<open>After \<open>\\u\<close> with a surrogate: the pair it forms with the next escape, or U+FFFD.\<close>

definition low_surrogate :: "string \<Rightarrow> (nat \<times> string) option" where
  "low_surrogate s =
     (case s of b # u # t \<Rightarrow>
        if b = backslash \<and> u = CHR ''u'' then
          (case read_hex 4 t of
             Some (w, t') \<Rightarrow> if 0xDC00 \<le> w \<and> w < 0xE000 then Some (w, t') else None
           | None \<Rightarrow> None)
        else None
      | _ \<Rightarrow> None)"

definition json_escape :: "string \<Rightarrow> (string \<times> string) option" where
  "json_escape s =
     (case s of [] \<Rightarrow> None
      | c # r \<Rightarrow>
          (case map_of json_escapes c of
             Some b \<Rightarrow> Some ([b], r)
           | None \<Rightarrow>
               if c \<noteq> CHR ''u'' then None
               else (case read_hex 4 r of None \<Rightarrow> None
                     | Some (v, t) \<Rightarrow>
                         if v < 0xD800 \<or> 0xDC00 \<le> v then Some (encode_rune v, t)
                         else (case low_surrogate t of
                                 None \<Rightarrow> Some (replacement_rune, t)
                               | Some (w, t') \<Rightarrow>
                                   Some (encode_rune (0x10000 + (v - 0xD800) * 0x400 + (w - 0xDC00)), t')))))"

lemma low_surrogate_length: "low_surrogate s = Some (w, t) \<Longrightarrow> length t \<le> length s"
  by (auto simp: low_surrogate_def dest!: read_hex_length split: list.splits if_splits option.splits)

lemma json_escape_length: "json_escape s = Some (b, t) \<Longrightarrow> length t < length s"
  by (auto simp: json_escape_def dest!: read_hex_length low_surrogate_length
      split: list.splits if_splits option.splits prod.splits)

text \<open>A string after its opening quote: its text and what follows the closing quote.\<close>

function parse_string :: "string \<Rightarrow> (string \<times> string) option" where
  "parse_string s =
     (case s of [] \<Rightarrow> None
      | c # r \<Rightarrow>
          if c = double_quote then Some ([], r)
          else if byte_val c < 32 then None
          else if c = backslash then
            (case json_escape r of
               None \<Rightarrow> None
             | Some (b, t) \<Rightarrow> map_option (\<lambda>(u, rest). (b @ u, rest)) (parse_string t))
          else map_option (\<lambda>(u, rest). ((if rune_ok s then take (rune_size s) s else replacement_rune) @ u, rest))
                 (parse_string (drop (rune_size s) s)))"
  by pat_completeness auto
termination
  by (relation "measure length") (auto dest!: json_escape_length)

declare parse_string.simps [simp del]

text \<open>One rune as \<open>json.Marshal\<close> writes it.\<close>

definition escape_rune :: "string \<Rightarrow> string" where
  "escape_rune r =
     (if \<not> rune_ok r then [backslash] @ ''ufffd''
      else if r = [CHR 0xE2, CHR 0x80, CHR 0xA8] then [backslash] @ ''u2028''
      else if r = [CHR 0xE2, CHR 0x80, CHR 0xA9] then [backslash] @ ''u2029''
      else (case r of
              [c] \<Rightarrow>
                if c = double_quote \<or> c = backslash then [backslash, c]
                else if c = CHR 0x08 then [backslash, CHR ''b'']
                else if c = CHR 0x0C then [backslash, CHR ''f'']
                else if c = newline then [backslash, CHR ''n'']
                else if c = carriage_return then [backslash, CHR ''r'']
                else if c = tabulator then [backslash, CHR ''t'']
                else if byte_val c < 32 \<or> c \<in> {CHR ''<'', CHR ''>'', CHR ''&''} then
                  [backslash] @ ''u00'' @ [hex_digit (byte_val c div 16), hex_digit (byte_val c mod 16)]
                else [c]
            | _ \<Rightarrow> r))"

definition json_string :: "string \<Rightarrow> string" where
  "json_string s = [double_quote] @ concat (map escape_rune (runes s)) @ [double_quote]"

subsection \<open>Numbers\<close>

text \<open>A sequence of at least one digit.\<close>

definition read_digits :: "string \<Rightarrow> (string \<times> string) option" where
  "read_digits s = (case takeWhile is_digit s of [] \<Rightarrow> None | ds \<Rightarrow> Some (ds, dropWhile is_digit s))"

definition read_integer_part :: "string \<Rightarrow> (string \<times> string) option" where
  "read_integer_part s =
     (case s of [] \<Rightarrow> None
      | c # r \<Rightarrow> if c = CHR ''0'' then Some ([c], r) else read_digits s)"

definition read_fraction :: "string \<Rightarrow> (string \<times> string) option" where
  "read_fraction s =
     (case s of
        c # r \<Rightarrow> if c = CHR ''.'' then map_option (\<lambda>(ds, t). (c # ds, t)) (read_digits r) else Some ([], s)
      | [] \<Rightarrow> Some ([], s))"

definition read_exponent :: "string \<Rightarrow> (string \<times> string) option" where
  "read_exponent s =
     (case s of
        c # r \<Rightarrow>
          if c = CHR ''e'' \<or> c = CHR ''E'' then
            (case r of
               x # r' \<Rightarrow>
                 if x = CHR ''+'' \<or> x = CHR ''-''
                 then map_option (\<lambda>(ds, t). (c # x # ds, t)) (read_digits r')
                 else map_option (\<lambda>(ds, t). (c # ds, t)) (read_digits r)
             | [] \<Rightarrow> None)
          else Some ([], s)
      | [] \<Rightarrow> Some ([], s))"

definition parse_number :: "string \<Rightarrow> (string \<times> string) option" where
  "parse_number s =
     (let (sign, r) = (case s of c # r \<Rightarrow> if c = CHR ''-'' then ([c], r) else ([], s) | [] \<Rightarrow> ([], s)) in
      case read_integer_part r of None \<Rightarrow> None
      | Some (i, r) \<Rightarrow>
          (case read_fraction r of None \<Rightarrow> None
           | Some (f, r) \<Rightarrow>
               (case read_exponent r of None \<Rightarrow> None
                | Some (e, r) \<Rightarrow> Some (sign @ i @ f @ e, r))))"

subsection \<open>Values\<close>

definition json_space :: "char \<Rightarrow> bool" where
  "json_space c \<longleftrightarrow> c \<in> {blank, tabulator, newline, carriage_return}"

definition skip_space :: "string \<Rightarrow> string" where
  "skip_space s = dropWhile json_space s"

definition parse_scalar :: "string \<Rightarrow> (json \<times> string) option" where
  "parse_scalar s =
     (if has_prefix s ''true'' then Some (JBool True, drop 4 s)
      else if has_prefix s ''false'' then Some (JBool False, drop 5 s)
      else if has_prefix s ''null'' then Some (JNull, drop 4 s)
      else map_option (\<lambda>(lit, r). (JReal lit, r)) (parse_number s))"

text \<open>
  The first number bounds the calls: a call reads a byte before the next but one, so that twice
  the length is enough.  The second is the nesting that is still allowed; Go allows 10,000.
\<close>

fun parse_value :: "nat \<Rightarrow> nat \<Rightarrow> string \<Rightarrow> (json \<times> string) option"
  and parse_elements :: "nat \<Rightarrow> nat \<Rightarrow> json list \<Rightarrow> string \<Rightarrow> (json \<times> string) option"
  and parse_members :: "nat \<Rightarrow> nat \<Rightarrow> (string \<times> json) list \<Rightarrow> string \<Rightarrow> (json \<times> string) option" where
  "parse_value 0 d s = None"
| "parse_value (Suc n) d s =
     (case skip_space s of [] \<Rightarrow> None
      | c # r \<Rightarrow>
          if c = double_quote then map_option (\<lambda>(t, rest). (JStr t, rest)) (parse_string r)
          else if c = CHR ''['' then
            (if d = 0 then None
             else if take 1 (skip_space r) = '']'' then Some (JArr [], tl (skip_space r))
             else parse_elements n (d - 1) [] r)
          else if c = CHR ''{'' then
            (if d = 0 then None
             else if take 1 (skip_space r) = ''}'' then Some (JObj [], tl (skip_space r))
             else parse_members n (d - 1) [] r)
          else parse_scalar (c # r))"
| "parse_elements 0 d vs s = None"
| "parse_elements (Suc n) d vs s =
     (case parse_value n d s of None \<Rightarrow> None
      | Some (v, r) \<Rightarrow>
          (case skip_space r of [] \<Rightarrow> None
           | c # r' \<Rightarrow> if c = CHR '','' then parse_elements n d (vs @ [v]) r'
                      else if c = CHR '']'' then Some (JArr (vs @ [v]), r')
                      else None))"
| "parse_members 0 d kvs s = None"
| "parse_members (Suc n) d kvs s =
     (if take 1 (skip_space s) \<noteq> [double_quote] then None
      else (case parse_string (tl (skip_space s)) of None \<Rightarrow> None
            | Some (k, r) \<Rightarrow>
                if take 1 (skip_space r) \<noteq> '':'' then None
                else (case parse_value n d (tl (skip_space r)) of None \<Rightarrow> None
                      | Some (v, r) \<Rightarrow>
                          (case skip_space r of [] \<Rightarrow> None
                           | c # r' \<Rightarrow> if c = CHR '','' then parse_members n d (kvs @ [(k, v)]) r'
                                      else if c = CHR ''}'' then Some (JObj (kvs @ [(k, v)]), r')
                                      else None))))"

definition max_json_depth :: nat where "max_json_depth = 10000"

definition parse_json :: "string \<Rightarrow> (json \<times> string) option" where
  "parse_json input = parse_value (2 * length input + 2) max_json_depth input"

text \<open>
  Decoded into \<open>any\<close>, an object is a map: of several members with one name the last stays.  Decoded
  into typed fields, a number without fraction and exponent is an integer.
\<close>

fun as_any :: "json \<Rightarrow> json" where
  "as_any (JArr vs) = JArr (map as_any vs)"
| "as_any (JObj kvs) = JObj (fold (\<lambda>(k, v). AList.update k v) (map (\<lambda>(k, v). (k, as_any v)) kvs) [])"
| "as_any v = v"

definition integer_literal :: "string \<Rightarrow> int option" where
  "integer_literal lit =
     (case lit of [] \<Rightarrow> None
      | c # r \<Rightarrow>
          if list_all is_digit lit then Some (int (dec_value lit))
          else if c = CHR ''-'' \<and> r \<noteq> [] \<and> list_all is_digit r then Some (- int (dec_value r))
          else None)"

fun as_typed :: "json \<Rightarrow> json" where
  "as_typed (JReal lit) = (case integer_literal lit of Some i \<Rightarrow> JInt i | None \<Rightarrow> JReal lit)"
| "as_typed (JArr vs) = JArr (map as_typed vs)"
| "as_typed (JObj kvs) = JObj (map (\<lambda>(k, v). (k, as_typed v)) kvs)"
| "as_typed v = v"

text \<open>\<open>decodeJSON\<close> of \<open>redact.go\<close>: one value and nothing but white space after it.\<close>

definition decode_json :: "string \<Rightarrow> json option" where
  "decode_json input =
     (case parse_json input of
        None \<Rightarrow> None
      | Some (v, rest) \<Rightarrow> if skip_space rest = [] then Some (as_any v) else None)"

text \<open>\<open>json.Unmarshal\<close>, and \<open>Decode\<close> of a \<open>json.Decoder\<close>, which leaves what follows unread.\<close>

definition unmarshal_json :: "string \<Rightarrow> json option" where
  "unmarshal_json input =
     (case parse_json input of
        None \<Rightarrow> None
      | Some (v, rest) \<Rightarrow> if skip_space rest = [] then Some (as_typed v) else None)"

definition first_json :: "string \<Rightarrow> json option" where
  "first_json input = map_option (\<lambda>(v, rest). as_typed v) (parse_json input)"

fun encode_json :: "json \<Rightarrow> string" where
  "encode_json JNull = ''null''"
| "encode_json (JBool b) = (if b then ''true'' else ''false'')"
| "encode_json (JInt i) = dec_int i"
| "encode_json (JReal lit) = lit"
| "encode_json (JStr s) = json_string s"
| "encode_json (JArr vs) = ''['' @ strings_join (map encode_json vs) '','' @ '']''"
| "encode_json (JObj kvs) =
     ''{'' @ strings_join (map (\<lambda>(k, t). json_string k @ '':'' @ t)
                 (sort_key fst (map (\<lambda>(k, v). (k, encode_json v)) kvs))) '','' @ ''}''"

end
