(* ===== verification/Redact.thy ===== *)
theory Redact
  imports JsonText
begin

section \<open>Redacting credentials: \<open>internal/redact/redact.go\<close>\<close>

text \<open>
  What may reach a log or an error message goes through \<open>redact.String\<close>: a JSON document is
  decoded and its sensitive fields replaced, other text is scanned for JSON fields, URLs,
  authorization values and \<open>key=value\<close> or \<open>key: value\<close> pairs.  The code walks over a
  string with offsets; here a scanner takes the rest of the string and returns how many bytes it
  accepts.  The prefix patterns are regular expressions without backtracking: they are written
  as scanners, with the two letters outside ASCII that \<open>(?i)\<close> adds to \<open>s\<close> and \<open>k\<close>.
  \<open>net/url\<close> and the folding tables of \<open>strings.EqualFold\<close> are arguments.
\<close>

definition replacement :: string where "replacement = ''***''"

subsection \<open>The library\<close>

text \<open>
  Of a \<open>url.URL\<close>, the fields \<open>URL\<close> looks at; \<open>u_location\<close> is scheme, host and path, and
  \<open>u_user\<close> the user information as it is printed.
\<close>

record parsed_url =
  u_location :: string
  u_user :: "string option"
  u_raw_query :: string
  u_force_query :: bool
  u_fragment :: string

record text_library =
  parse_url :: "string \<Rightarrow> parsed_url option"
  url_string :: "parsed_url \<Rightarrow> string"
  equal_fold :: "string \<Rightarrow> string \<Rightarrow> bool"

subsection \<open>Names\<close>

definition sensitive_exact :: "string list" where
  "sensitive_exact =
     [''authorization'', ''proxy-authorization'', ''proxy_authorization'', ''token'', ''credential'',
      ''password'', ''secret'', ''api_key'', ''apikey'', ''aeskey'', ''aes_key'',
      ''encrypt_query_param'', ''encrypted_query_param'', ''x-encrypted-param'', ''x_encrypted_param'',
      ''upload_param'', ''thumb_upload_param'', ''upload_full_url'', ''download_full_url'', ''full_url'',
      ''qrcode'', ''qrcode_url'', ''qrcode_img_content'', ''verify_code'', ''filekey'', ''file_key'']"

definition sensitive_fragments :: "string list" where
  "sensitive_fragments =
     [''_token'', ''token_'', ''_ticket'', ''ticket_'', ''auth_'', ''_auth'', ''credential'', ''password'',
      ''secret'', ''api_key'', ''apikey'', ''aes_key'', ''aeskey'', ''upload_param'', ''full_url'']"

definition sensitive_key :: "text_library \<Rightarrow> string list \<Rightarrow> string \<Rightarrow> bool" where
  "sensitive_key lib extra key =
     (let lower = to_lower (trim_space key);
          compact = filter (\<lambda>c. c \<noteq> CHR ''_'' \<and> c \<noteq> CHR ''-'') lower
      in lower \<in> set sensitive_exact
         \<or> has_suffix compact ''token'' \<or> has_prefix compact ''token''
         \<or> has_suffix compact ''ticket'' \<or> has_prefix compact ''ticket''
         \<or> list_ex (strings_contains lower) sensitive_fragments
         \<or> list_ex (\<lambda>candidate. equal_fold lib (trim_space candidate) key) extra)"

subsection \<open>JSON fields in text\<close>

text \<open>
  The loop of \<open>jsonStringEnd\<close> and \<open>quotedValueEnd\<close>: how many bytes after the opening quote
  until the closing one, that included.
\<close>

fun quote_scan :: "char \<Rightarrow> bool \<Rightarrow> string \<Rightarrow> nat option" where
  "quote_scan q escaped [] = None"
| "quote_scan q escaped (c # r) =
     (if escaped then map_option Suc (quote_scan q False r)
      else if c = backslash then map_option Suc (quote_scan q True r)
      else if c = q then Some 1
      else map_option Suc (quote_scan q False r))"

definition json_string_end :: "string \<Rightarrow> nat option" where
  "json_string_end s = map_option Suc (quote_scan double_quote False (tl s))"

definition skip_json_space :: "string \<Rightarrow> string" where
  "skip_json_space s = dropWhile json_space s"

text \<open>The loop of \<open>jsonValueEnd\<close> over an object or array.\<close>

fun nested_end :: "nat \<Rightarrow> nat \<Rightarrow> bool \<Rightarrow> bool \<Rightarrow> string \<Rightarrow> nat" where
  "nested_end od ad in_string escaped [] = 0"
| "nested_end od ad in_string escaped (c # r) =
     (if in_string then
        Suc (if escaped then nested_end od ad True False r
             else if c = backslash then nested_end od ad True True r
             else if c = double_quote then nested_end od ad False False r
             else nested_end od ad True False r)
      else
        (let in_string = (c = double_quote);
             od = (if c = CHR ''{'' then Suc od else if c = CHR ''}'' then od - 1 else od);
             ad = (if c = CHR ''['' then Suc ad else if c = CHR '']'' then ad - 1 else ad)
         in if od = 0 \<and> ad = 0 then 1 else Suc (nested_end od ad in_string False r)))"

definition json_value_end :: "string \<Rightarrow> nat" where
  "json_value_end s =
     (case s of [] \<Rightarrow> 0
      | c # r \<Rightarrow>
          if c = double_quote then (case json_string_end s of Some n \<Rightarrow> n | None \<Rightarrow> length s)
          else if c \<noteq> CHR ''{'' \<and> c \<noteq> CHR ''['' then
            length (takeWhile (\<lambda>c. c \<notin> set '',}] '' \<union> {tabulator, newline, carriage_return}) s)
          else nested_end 0 0 False False s)"

text \<open>
  A key at the front of the text, when a colon and a value follow: the bytes before the value and
  the text from the value on.
\<close>

definition sensitive_field :: "text_library \<Rightarrow> string list \<Rightarrow> string \<Rightarrow> string \<Rightarrow> (string \<times> string) option" where
  "sensitive_field lib extra lit after =
     (case (strconv_unquote lit, skip_json_space after) of
        (Some key, c # rest) \<Rightarrow>
          if c = CHR '':'' \<and> sensitive_key lib extra key then
            (let value = skip_json_space rest
             in Some (lit @ take (length after - length value) after, value))
          else None
      | _ \<Rightarrow> None)"

lemma skip_json_space_length: "length (skip_json_space s) \<le> length s"
  by (simp add: skip_json_space_def length_dropWhile_le)

lemma sensitive_field_length: "sensitive_field lib extra lit after = Some (h, v) \<Longrightarrow> length v < length after"
  using skip_json_space_length [of after] skip_json_space_length [of "tl (skip_json_space after)"]
  by (auto simp: sensitive_field_def Let_def split: option.splits list.splits if_splits)

lemma quote_scan_bound: "quote_scan q e s = Some n \<Longrightarrow> 0 < n \<and> n \<le> length s"
  by (induction q e s arbitrary: n rule: quote_scan.induct) (auto split: if_splits)

lemma json_string_end_pos: "json_string_end s = Some n \<Longrightarrow> 0 < n"
  by (auto simp: json_string_end_def)

function replace_sensitive_json_fields :: "text_library \<Rightarrow> string list \<Rightarrow> string \<Rightarrow> string" where
  "replace_sensitive_json_fields lib extra s =
     (case s of [] \<Rightarrow> []
      | c # r \<Rightarrow>
          if c \<noteq> double_quote then c # replace_sensitive_json_fields lib extra r
          else (case json_string_end s of
                  None \<Rightarrow> s
                | Some n \<Rightarrow>
                    (case sensitive_field lib extra (take n s) (drop n s) of
                       None \<Rightarrow> take n s @ replace_sensitive_json_fields lib extra (drop n s)
                     | Some (before, value) \<Rightarrow>
                         before @ [double_quote] @ replacement @ [double_quote] @
                         replace_sensitive_json_fields lib extra (drop (json_value_end value) value))))"
  by pat_completeness auto
termination
  by (relation "measure (\<lambda>(lib, extra, s). length s)")
    (auto dest!: json_string_end_pos sensitive_field_length)

declare replace_sensitive_json_fields.simps [simp del]

subsection \<open>Values after an equals sign or a colon\<close>

definition quoted_value_end :: "string \<Rightarrow> nat" where
  "quoted_value_end s =
     (case s of [] \<Rightarrow> 0
      | q # r \<Rightarrow> (case quote_scan q False r of Some n \<Rightarrow> Suc n | None \<Rightarrow> length s))"

definition token_byte :: "char \<Rightarrow> bool" where
  "token_byte c \<longleftrightarrow> c \<notin> {blank, tabulator, carriage_return, newline, CHR ''&'', CHR '','', CHR '';''}"

text \<open>\<open>authorizationTokenEnd\<close>: the bytes up to the next separator.\<close>

definition authorization_token :: "string \<Rightarrow> string" where
  "authorization_token s = takeWhile token_byte s"

definition inline_space :: "char \<Rightarrow> bool" where
  "inline_space c \<longleftrightarrow> c = blank \<or> c = tabulator"

definition skip_inline_space :: "string \<Rightarrow> string" where
  "skip_inline_space s = dropWhile inline_space s"

definition is_ascii_letter :: "char \<Rightarrow> bool" where
  "is_ascii_letter c \<longleftrightarrow> is_lower_letter c \<or> is_upper_letter c"

definition is_authorization_scheme :: "string \<Rightarrow> bool" where
  "is_authorization_scheme value =
     (case value of [] \<Rightarrow> False
      | c # r \<Rightarrow> is_ascii_letter c \<and>
          list_all (\<lambda>x. is_ascii_letter x \<or> is_digit x \<or> x \<in> set ''+._-'') r)"

definition looks_like_diagnostic_assignment :: "string \<Rightarrow> bool" where
  "looks_like_diagnostic_assignment value =
     (case index_where (\<lambda>c. c = CHR ''='') value of
        None \<Rightarrow> False
      | Some equals \<Rightarrow> 0 < equals \<and> strings_trim ''='' (drop equals value) \<noteq> [])"

definition diagnostic_keys :: "string list" where
  "diagnostic_keys =
     [''status'', ''http'', ''http_status'', ''ret'', ''errcode'', ''code'', ''error'', ''error_code'',
      ''endpoint'', ''method'', ''attempt'']"

definition is_common_diagnostic_assignment :: "string \<Rightarrow> bool" where
  "is_common_diagnostic_assignment value \<longleftrightarrow>
     looks_like_diagnostic_assignment value \<and>
     to_lower (takeWhile (\<lambda>c. c \<noteq> CHR ''='') value) \<in> set diagnostic_keys"

text \<open>
  \<open>authorizationValueEnd\<close> and the loop of \<open>sensitivePairValueEnd\<close>: a value goes on over
  separators unless a diagnostic assignment follows them.
\<close>

function authorization_value_end :: "string \<Rightarrow> nat" where
  "authorization_value_end s =
     (case s of [] \<Rightarrow> 0
      | c # r \<Rightarrow>
          if c \<in> {CHR ''&'', CHR '';'', carriage_return, newline} then 0
          else if \<not> inline_space c \<and> c \<noteq> CHR '','' then Suc (authorization_value_end r)
          else
            (let separators = takeWhile (\<lambda>c. inline_space c \<or> c = CHR '','') s;
                 rest = drop (length separators) s;
                 candidate = authorization_token rest
             in if candidate \<noteq> [] \<and> is_common_diagnostic_assignment candidate then 0
                else length separators + length candidate +
                     authorization_value_end (drop (length candidate) rest)))"
  by pat_completeness auto
termination
  by (relation "measure length") auto

declare authorization_value_end.simps [simp del]

definition pair_separator :: "char \<Rightarrow> bool" where
  "pair_separator c \<longleftrightarrow> inline_space c \<or> c = CHR '','' \<or> c = CHR '';''"

function unquoted_pair_value_end :: "string \<Rightarrow> nat" where
  "unquoted_pair_value_end s =
     (case s of [] \<Rightarrow> 0
      | c # r \<Rightarrow>
          if c \<in> {CHR ''&'', carriage_return, newline} then 0
          else if \<not> pair_separator c then Suc (unquoted_pair_value_end r)
          else
            (let separators = takeWhile pair_separator s;
                 rest = drop (length separators) s;
                 candidate = authorization_token rest
             in if candidate \<noteq> [] \<and> looks_like_diagnostic_assignment candidate \<and>
                   (list_ex inline_space separators \<or> is_common_diagnostic_assignment candidate) then 0
                else length separators + length candidate +
                     unquoted_pair_value_end (drop (length candidate) rest)))"
  by pat_completeness auto
termination
  by (relation "measure length") auto

declare unquoted_pair_value_end.simps [simp del]

definition sensitive_pair_value_end :: "string \<Rightarrow> nat" where
  "sensitive_pair_value_end s =
     (if hd s = double_quote \<or> hd s = CHR 0x27 then quoted_value_end s else unquoted_pair_value_end s)"

subsection \<open>Pattern matches\<close>

text \<open>
  \<open>FindAllStringSubmatchIndex\<close> for a pattern of two groups, a name and what separates it from
  the value: where a match and its value begin, and where the name ends.  A matcher is
  given the text from a position on and returns the length of the name and of the match.
\<close>

type_synonym matcher = "string \<Rightarrow> (nat \<times> nat) option"
type_synonym pattern_match = "nat \<times> nat \<times> nat"

function find_all :: "matcher \<Rightarrow> nat \<Rightarrow> string \<Rightarrow> pattern_match list" where
  "find_all m offset s =
     (case s of [] \<Rightarrow> []
      | c # r \<Rightarrow>
          (case m s of
             None \<Rightarrow> find_all m (Suc offset) r
           | Some (name, n) \<Rightarrow> (offset, offset + name, offset + n) # find_all m (offset + n) (drop (n - 1) r)))"
  by pat_completeness auto
termination
  by (relation "measure (\<lambda>(m, offset, s). length s)") auto

declare find_all.simps [simp del]

text \<open>\<open>\s\<close>.\<close>

definition regex_space :: "char \<Rightarrow> bool" where
  "regex_space c \<longleftrightarrow> c \<in> {tabulator, newline, CHR 0x0C, carriage_return, blank}"

text \<open>\<open>(?i)[a-z0-9_.-]+\<close>: the length of the name in front.\<close>

fun name_length :: "string \<Rightarrow> nat" where
  "name_length (a # b # c # s) =
     (if is_ascii_letter a \<or> is_digit a \<or> a \<in> set ''_.-'' then Suc (name_length (b # c # s))
      else if a = CHR 0xC5 \<and> b = CHR 0xBF then 2 + name_length (c # s)
      else if a = CHR 0xE2 \<and> b = CHR 0x84 \<and> c = CHR 0xAA then 3 + name_length s
      else 0)"
| "name_length [a, b] =
     (if is_ascii_letter a \<or> is_digit a \<or> a \<in> set ''_.-'' then Suc (name_length [b])
      else if a = CHR 0xC5 \<and> b = CHR 0xBF then 2 else 0)"
| "name_length [a] = (if is_ascii_letter a \<or> is_digit a \<or> a \<in> set ''_.-'' then 1 else 0)"
| "name_length [] = 0"

text \<open>\<open>\s*=\s*\<close> and \<open>\s*:\s*\<close> behind a name of the given length.\<close>

definition separator_after :: "char \<Rightarrow> nat \<Rightarrow> string \<Rightarrow> (nat \<times> nat) option" where
  "separator_after sep n s =
     (let spaces = takeWhile regex_space (drop n s); rest = drop (n + length spaces) s
      in case rest of [] \<Rightarrow> None
         | c # r \<Rightarrow> if c = sep then Some (n, n + length spaces + 1 + length (takeWhile regex_space r)) else None)"

text \<open>\<open>assignmentPrefixPattern\<close> with an equals sign, \<open>headerPrefixPattern\<close> with a colon.\<close>

definition match_pair :: "char \<Rightarrow> matcher" where
  "match_pair sep s = (if name_length s = 0 then None else separator_after sep (name_length s) s)"

text \<open>\<open>(?i)((?:proxy[-_])?authorization)\<close>.\<close>

definition authorization_name :: "string \<Rightarrow> nat" where
  "authorization_name s =
     (let lower = ascii_lower s in
      if has_prefix lower ''authorization'' then 13
      else if (has_prefix lower ''proxy-'' \<or> has_prefix lower ''proxy_'') \<and>
              has_prefix (drop 6 lower) ''authorization'' then 19
      else 0)"

definition match_authorization_assignment :: matcher where
  "match_authorization_assignment s =
     (if authorization_name s = 0 then None else separator_after (CHR ''='') (authorization_name s) s)"

subsection \<open>Pairs\<close>

text \<open>The loop over the matches; \<open>cursor\<close> is where the part not yet written begins.\<close>

fun replace_pairs_loop :: "text_library \<Rightarrow> string list \<Rightarrow> string \<Rightarrow> nat \<Rightarrow> pattern_match list \<Rightarrow> string" where
  "replace_pairs_loop lib extra input cursor [] = drop cursor input"
| "replace_pairs_loop lib extra input cursor ((start, name_end, value_start) # matches) =
     (if start < cursor \<or> \<not> sensitive_key lib extra (substring input start name_end) \<or> length input \<le> value_start
      then replace_pairs_loop lib extra input cursor matches
      else
        (let n = sensitive_pair_value_end (drop value_start input)
         in if n = 0 then replace_pairs_loop lib extra input cursor matches
            else substring input cursor value_start @ replacement @
                 replace_pairs_loop lib extra input (value_start + n) matches))"

definition replace_sensitive_pairs :: "text_library \<Rightarrow> char \<Rightarrow> string list \<Rightarrow> string \<Rightarrow> string" where
  "replace_sensitive_pairs lib sep extra input =
     replace_pairs_loop lib extra input 0 (find_all (match_pair sep) 0 input)"

subsection \<open>Authorization values\<close>

text \<open>The value that begins at \<open>rest\<close>: how much of it is replaced.\<close>

definition assigned_authorization :: "string \<Rightarrow> nat" where
  "assigned_authorization rest =
     (if hd rest = double_quote \<or> hd rest = CHR 0x27 then quoted_value_end rest
      else
        (let first = authorization_token rest;
             second = skip_inline_space (drop (length first) rest);
             parameter = authorization_token second
         in if first \<noteq> [] \<and> is_authorization_scheme first \<and> parameter \<noteq> [] \<and>
               \<not> is_common_diagnostic_assignment parameter
            then length rest - length second + authorization_value_end second
            else length first))"

fun replace_authorizations_loop :: "string \<Rightarrow> nat \<Rightarrow> pattern_match list \<Rightarrow> string" where
  "replace_authorizations_loop input cursor [] = drop cursor input"
| "replace_authorizations_loop input cursor ((start, name_end, value_start) # matches) =
     (if start < cursor \<or> length input \<le> value_start then replace_authorizations_loop input cursor matches
      else
        (let n = assigned_authorization (drop value_start input)
         in if n = 0 then replace_authorizations_loop input cursor matches
            else substring input cursor value_start @ replacement @
                 replace_authorizations_loop input (value_start + n) matches))"

definition replace_authorization_assignments :: "string \<Rightarrow> string" where
  "replace_authorization_assignments input =
     replace_authorizations_loop input 0 (find_all match_authorization_assignment 0 input)"

text \<open>
  \<open>replaceAuthorizationValue\<close> with \<open>authorizationHeaderPattern\<close>: behind the name, a colon with
  blanks around it, everything to the end of the line is replaced.
\<close>

definition header_prefix :: "string \<Rightarrow> nat" where
  "header_prefix s =
     (let n = authorization_name s;
          spaces = takeWhile inline_space (drop n s);
          rest = drop (n + length spaces) s
      in if n = 0 then 0
         else (case rest of [] \<Rightarrow> 0
               | c # r \<Rightarrow> if c = CHR '':'' then n + length spaces + 1 + length (takeWhile inline_space r) else 0))"

definition line_rest :: "string \<Rightarrow> string" where
  "line_rest s = dropWhile (\<lambda>c. c \<noteq> carriage_return \<and> c \<noteq> newline) s"

lemma line_rest_length: "length (line_rest s) \<le> length s"
  by (simp add: line_rest_def length_dropWhile_le)

function replace_authorization_headers :: "string \<Rightarrow> string" where
  "replace_authorization_headers s =
     (case s of [] \<Rightarrow> []
      | c # r \<Rightarrow>
          (let n = header_prefix s
           in if n = 0 then c # replace_authorization_headers r
              else take n s @ replacement @ replace_authorization_headers (line_rest (drop n s))))"
  by pat_completeness auto
termination
proof (relation "measure length", goal_cases)
  case (3 s c r n)
  then show ?case
    using line_rest_length [of "drop n s"] by (cases "length s \<le> n") auto
qed auto

declare replace_authorization_headers.simps [simp del]

definition replace_authorization_values :: "string \<Rightarrow> string" where
  "replace_authorization_values input =
     replace_authorization_headers (replace_authorization_assignments input)"

subsection \<open>URLs\<close>

definition redact_text_without_urls :: "text_library \<Rightarrow> string list \<Rightarrow> string \<Rightarrow> string" where
  "redact_text_without_urls lib extra input =
     replace_sensitive_pairs lib (CHR '':'') extra
       (replace_sensitive_pairs lib (CHR ''='') extra
         (replace_authorization_values (replace_sensitive_json_fields lib extra input)))"

definition redact_malformed_url_userinfo :: "string \<Rightarrow> string" where
  "redact_malformed_url_userinfo raw =
     (case (case strings_index raw ''://'' of
              Some scheme \<Rightarrow> Some (scheme + 3)
            | None \<Rightarrow> if has_prefix raw ''//'' then Some 2 else None) of
        None \<Rightarrow> raw
      | Some start \<Rightarrow>
          (let authority = takeWhile (\<lambda>c. c \<notin> set ''/?#'') (drop start raw)
           in case last_index_byte authority (CHR ''@'') of
                None \<Rightarrow> raw
              | Some userinfo \<Rightarrow> take start raw @ replacement @ ''@'' @ drop (start + userinfo + 1) raw))"

definition redact_parsed_url :: "parsed_url \<Rightarrow> parsed_url" where
  "redact_parsed_url u =
     (let u = (if u_user u \<noteq> None then u\<lparr>u_user := Some replacement\<rparr> else u);
          u = (if u_raw_query u \<noteq> [] \<or> u_force_query u
               then u\<lparr>u_raw_query := replacement, u_force_query := True\<rparr> else u)
      in if u_fragment u \<noteq> [] then u\<lparr>u_fragment := replacement\<rparr> else u)"

definition redact_url :: "text_library \<Rightarrow> string \<Rightarrow> string" where
  "redact_url lib raw =
     (case parse_url lib raw of
        Some u \<Rightarrow> url_string lib (redact_parsed_url u)
      | None \<Rightarrow>
          (let safe = redact_malformed_url_userinfo raw in
           case index_where (\<lambda>c. c = CHR ''?'') safe of
             Some query \<Rightarrow>
               if CHR ''#'' \<in> set (drop query safe)
               then take query safe @ ''?'' @ replacement @ ''#'' @ replacement
               else take query safe @ ''?'' @ replacement
           | None \<Rightarrow>
               redact_text_without_urls lib []
                 (case index_where (\<lambda>c. c = CHR ''#'') safe of
                    Some fragment \<Rightarrow> take fragment safe @ ''#'' @ replacement
                  | None \<Rightarrow> safe)))"

text \<open>\<open>(?i:s)\<close>: the bytes of the letter in front, if there is one.\<close>

definition folded_s :: "string \<Rightarrow> nat" where
  "folded_s s =
     (if s \<noteq> [] \<and> (hd s = CHR ''s'' \<or> hd s = CHR ''S'') then 1
      else if take 2 s = [CHR 0xC5, CHR 0xBF] then 2 else 0)"

text \<open>\<open>(?i)(?:https?|wss?)://\<close>: its length, or 0.\<close>

definition with_slashes :: "nat \<Rightarrow> string \<Rightarrow> nat" where
  "with_slashes n s = (if has_prefix (drop n s) ''://'' then n + 3 else 0)"

definition url_scheme :: "string \<Rightarrow> nat" where
  "url_scheme s =
     (let base = (if has_prefix (ascii_lower s) ''http'' then 4
                  else if has_prefix (ascii_lower s) ''w'' \<and> folded_s (drop 1 s) \<noteq> 0
                       then 1 + folded_s (drop 1 s) else 0)
      in if base = 0 then 0
         else if folded_s (drop base s) \<noteq> 0 \<and> with_slashes (base + folded_s (drop base s)) s \<noteq> 0
              then with_slashes (base + folded_s (drop base s)) s
              else with_slashes base s)"

definition url_byte :: "char \<Rightarrow> bool" where
  "url_byte c \<longleftrightarrow> \<not> regex_space c \<and> c \<notin> {double_quote, CHR 0x27, CHR ''<'', CHR ''>''}"

text \<open>\<open>\b\<close> looks at the byte before: whether it belongs to a word.\<close>

definition word_byte :: "char \<Rightarrow> bool" where
  "word_byte c \<longleftrightarrow> is_ascii_letter c \<or> is_digit c \<or> c = CHR ''_''"

definition match_url :: "bool \<Rightarrow> string \<Rightarrow> nat" where
  "match_url after_word s =
     (let n = url_scheme s; body = takeWhile url_byte (drop n s)
      in if n = 0 \<or> after_word \<or> body = [] then 0 else n + length body)"

definition match_scheme_relative_url :: "bool \<Rightarrow> string \<Rightarrow> nat" where
  "match_scheme_relative_url after_word s =
     (let body = takeWhile url_byte (drop 2 s)
      in if has_prefix s ''//'' \<and> body \<noteq> [] then 2 + length body else 0)"

text \<open>\<open>ReplaceAllStringFunc\<close>.\<close>

function replace_all :: "(bool \<Rightarrow> string \<Rightarrow> nat) \<Rightarrow> (string \<Rightarrow> string) \<Rightarrow> bool \<Rightarrow> string \<Rightarrow> string" where
  "replace_all m f after_word s =
     (case s of [] \<Rightarrow> []
      | c # r \<Rightarrow>
          (let n = m after_word s
           in if n = 0 then c # replace_all m f (word_byte c) r
              else f (take n s) @ replace_all m f (word_byte (last (take n s))) (drop n s)))"
  by pat_completeness auto
termination
  by (relation "measure (\<lambda>(m, f, a, s). length s)") auto

declare replace_all.simps [simp del]

subsection \<open>Text and documents\<close>

definition redact_text :: "text_library \<Rightarrow> string list \<Rightarrow> string \<Rightarrow> string" where
  "redact_text lib extra input =
     (let redacted = replace_sensitive_json_fields lib extra input;
          redacted = replace_all match_url (redact_url lib) False redacted;
          redacted = replace_all match_scheme_relative_url (redact_url lib) False redacted;
          redacted = replace_authorization_values redacted;
          redacted = replace_sensitive_pairs lib (CHR ''='') extra redacted
      in replace_sensitive_pairs lib (CHR '':'') extra redacted)"

fun redact_value :: "text_library \<Rightarrow> string list \<Rightarrow> json \<Rightarrow> json" where
  "redact_value lib extra (JObj kvs) =
     JObj (map (\<lambda>(k, v). (k, if sensitive_key lib extra k then JStr replacement else redact_value lib extra v)) kvs)"
| "redact_value lib extra (JArr vs) = JArr (map (redact_value lib extra) vs)"
| "redact_value lib extra (JStr s) = JStr (redact_text lib extra s)"
| "redact_value lib extra v = v"

definition redact_string :: "text_library \<Rightarrow> string list \<Rightarrow> string \<Rightarrow> string" where
  "redact_string lib extra input =
     (if input = [] then input
      else (case decode_json input of
              Some v \<Rightarrow> encode_json (redact_value lib extra v)
            | None \<Rightarrow> redact_text lib extra input))"

section \<open>What a redacted document shows\<close>

text \<open>
  Two documents that differ only in the values of sensitive fields, at any depth; and the
  documents whose sensitive fields all hold the replacement.
\<close>

inductive public_eq :: "text_library \<Rightarrow> string list \<Rightarrow> json \<Rightarrow> json \<Rightarrow> bool" for lib extra where
  same: "public_eq lib extra v v"
| elements: "list_all2 (public_eq lib extra) vs ws \<Longrightarrow> public_eq lib extra (JArr vs) (JArr ws)"
| members: "list_all2 (\<lambda>x y. fst x = fst y \<and> (sensitive_key lib extra (fst x) \<or> public_eq lib extra (snd x) (snd y))) kvs lws \<Longrightarrow>
    public_eq lib extra (JObj kvs) (JObj lws)"

fun masked :: "text_library \<Rightarrow> string list \<Rightarrow> json \<Rightarrow> bool" where
  "masked lib extra (JObj kvs) =
     list_all (\<lambda>(k, v). if sensitive_key lib extra k then v = JStr replacement else masked lib extra v) kvs"
| "masked lib extra (JArr vs) = list_all (masked lib extra) vs"
| "masked lib extra v = True"

lemma redact_value_masked: "masked lib extra (redact_value lib extra v)"
  by (induction lib extra v rule: redact_value.induct) (auto simp: list_all_iff)

lemma redact_value_members:
  "redact_value lib extra (JObj kvs) =
   JObj (map (\<lambda>x. (fst x, if sensitive_key lib extra (fst x) then JStr replacement
                        else redact_value lib extra (snd x))) kvs)"
  by (simp add: case_prod_beta)

lemma redact_value_public: "public_eq lib extra v w \<Longrightarrow> redact_value lib extra v = redact_value lib extra w"
proof (induction rule: public_eq.induct)
  case (elements vs ws)
  then have "map (redact_value lib extra) vs = map (redact_value lib extra) ws"
    by (induction rule: list_all2_induct) simp_all
  then show ?case by simp
next
  case (members kvs lws)
  then show ?case unfolding redact_value_members
    by (simp del: redact_value.simps) (induction rule: list_all2_induct, auto)
qed simp

lemma decode_json_Nil [simp]: "decode_json [] = None"
  by (simp add: decode_json_def parse_json_def skip_space_def numeral_2_eq_2)

definition sample_library :: text_library where
  "sample_library = \<lparr>parse_url = (\<lambda>raw. None), url_string = u_location, equal_fold = (=)\<rparr>"

end
