(* ===== verification/RedactError.thy ===== *)
theory RedactError
  imports Redact
begin

section \<open>Redacting errors: \<open>Error\<close> of \<open>internal/redact/redact.go\<close>\<close>

text \<open>
  An error, as \<open>Error\<close> sees it, has a message and zero, one or several causes (\<open>Unwrap\<close>), or is
  a \<open>*url.Error\<close>.  An object of the program or its libraries has an identity (\<open>nat\<close>), by which
  \<open>errors.Is\<close> finds it, and a flag that says whether Go can compare values of its type.
  \<open>SanitizedError\<close> and \<open>SanitizedMultiError\<close> are the types \<open>redact.go\<close> builds.
\<close>

datatype any_error =
    PlainError nat bool string
  | WrapError nat bool string any_error
  | MultiError nat bool string "any_error option list"
  | UrlError string string "any_error option"
  | SanitizedError string "any_error option"
  | SanitizedMultiError string "any_error option list"

text \<open>\<open>errors.As(err, &urlErr)\<close>: is there a \<open>*url.Error\<close> in the tree?\<close>

fun has_url_error :: "any_error \<Rightarrow> bool" where
  "has_url_error (PlainError i cmp m) = False"
| "has_url_error (WrapError i cmp m c) = has_url_error c"
| "has_url_error (MultiError i cmp m cs) = list_ex (\<lambda>c. case c of None \<Rightarrow> False | Some e \<Rightarrow> has_url_error e) cs"
| "has_url_error (UrlError op u c) = True"
| "has_url_error (SanitizedError m c) = (case c of None \<Rightarrow> False | Some e \<Rightarrow> has_url_error e)"
| "has_url_error (SanitizedMultiError m cs) = list_ex (\<lambda>c. case c of None \<Rightarrow> False | Some e \<Rightarrow> has_url_error e) cs"

text \<open>
  \<open>reflect.Value.Comparable\<close>, for objects that are compared with themselves: a pointer is, a
  \<open>sanitizedError\<close> when its cause is, a \<open>sanitizedMultiError\<close> holds a slice and is not.  A
  \<open>*url.Error\<close> is only ever compared with a copy, which is another pointer.
\<close>

fun comparable :: "any_error \<Rightarrow> bool" where
  "comparable (PlainError i cmp m) = cmp"
| "comparable (WrapError i cmp m c) = cmp"
| "comparable (MultiError i cmp m cs) = cmp"
| "comparable (UrlError op u c) = False"
| "comparable (SanitizedError m c) = (case c of None \<Rightarrow> True | Some e \<Rightarrow> comparable e)"
| "comparable (SanitizedMultiError m cs) = False"

definition same_error :: "any_error option \<Rightarrow> any_error option \<Rightarrow> bool" where
  "same_error l r =
     (case (l, r) of
        (Some a, Some b) \<Rightarrow> a = b \<and> comparable a
      | (None, None) \<Rightarrow> True
      | _ \<Rightarrow> False)"

text \<open>One error with one cause, and one with several, given the redacted message and causes.\<close>

definition rebuild_single :: "any_error \<Rightarrow> string \<Rightarrow> string \<Rightarrow> any_error \<Rightarrow> any_error \<Rightarrow> any_error" where
  "rebuild_single err old message cause safe_cause =
     (if \<not> has_url_error err \<and> message = old \<and> same_error (Some safe_cause) (Some cause) then err
      else SanitizedError message (Some safe_cause))"

definition rebuild_multi ::
    "any_error \<Rightarrow> string \<Rightarrow> string \<Rightarrow> any_error option list \<Rightarrow> any_error option list \<Rightarrow> any_error" where
  "rebuild_multi err old message causes safe_causes =
     (if \<not> has_url_error err \<and> message = old \<and> list_all2 same_error safe_causes causes then err
      else SanitizedMultiError message safe_causes)"

definition rebuild_leaf :: "any_error \<Rightarrow> string \<Rightarrow> string \<Rightarrow> any_error" where
  "rebuild_leaf err old message = (if message = old then err else SanitizedError message None)"

fun redact_error :: "text_library \<Rightarrow> any_error \<Rightarrow> any_error" where
  "redact_error lib (UrlError op u c) =
     UrlError (redact_string lib [] op) (redact_url lib u) (map_option (redact_error lib) c)"
| "redact_error lib (PlainError i cmp m) = rebuild_leaf (PlainError i cmp m) m (redact_string lib [] m)"
| "redact_error lib (WrapError i cmp m c) =
     rebuild_single (WrapError i cmp m c) m (redact_string lib [] m) c (redact_error lib c)"
| "redact_error lib (MultiError i cmp m cs) =
     rebuild_multi (MultiError i cmp m cs) m (redact_string lib [] m) cs (map (map_option (redact_error lib)) cs)"
| "redact_error lib (SanitizedError m None) = rebuild_leaf (SanitizedError m None) m (redact_string lib [] m)"
| "redact_error lib (SanitizedError m (Some c)) =
     rebuild_single (SanitizedError m (Some c)) m (redact_string lib [] m) c (redact_error lib c)"
| "redact_error lib (SanitizedMultiError m cs) =
     rebuild_multi (SanitizedMultiError m cs) m (redact_string lib [] m) cs (map (map_option (redact_error lib)) cs)"

definition redact_error_option :: "text_library \<Rightarrow> any_error option \<Rightarrow> any_error option" where
  "redact_error_option lib err = map_option (redact_error lib) err"

subsection \<open>The errors that are reached by \<open>errors.Is\<close> and \<open>errors.As\<close>\<close>

definition causes_tree :: "(any_error \<Rightarrow> any_error list) \<Rightarrow> any_error option list \<Rightarrow> any_error list" where
  "causes_tree tree cs = concat (map (\<lambda>c. case c of None \<Rightarrow> [] | Some e \<Rightarrow> tree e) cs)"

lemma causes_tree_cong [fundef_cong]:
  "cs = cs' \<Longrightarrow> (\<And>e. Some e \<in> set cs' \<Longrightarrow> tree e = tree' e) \<Longrightarrow> causes_tree tree cs = causes_tree tree' cs'"
  by (auto simp: causes_tree_def intro!: arg_cong [where f = concat] split: option.splits)

lemma causes_tree_iff: "x \<in> set (causes_tree tree cs) \<longleftrightarrow> (\<exists>e. Some e \<in> set cs \<and> x \<in> set (tree e))"
  by (auto simp: causes_tree_def split: option.splits)

lemma causes_tree_map: "causes_tree tree (map (map_option f) cs) = causes_tree (tree \<circ> f) cs"
  by (auto simp: causes_tree_def intro!: arg_cong [where f = concat] split: option.splits)

fun error_tree :: "any_error \<Rightarrow> any_error list" where
  "error_tree (PlainError i cmp m) = [PlainError i cmp m]"
| "error_tree (WrapError i cmp m c) = WrapError i cmp m c # error_tree c"
| "error_tree (MultiError i cmp m cs) =
     MultiError i cmp m cs # causes_tree error_tree cs"
| "error_tree (UrlError op u c) = UrlError op u c # (case c of None \<Rightarrow> [] | Some e \<Rightarrow> error_tree e)"
| "error_tree (SanitizedError m c) = SanitizedError m c # (case c of None \<Rightarrow> [] | Some e \<Rightarrow> error_tree e)"
| "error_tree (SanitizedMultiError m cs) =
     SanitizedMultiError m cs # causes_tree error_tree cs"

text \<open>The texts an error shows are results of the redaction.\<close>

definition redacted_texts :: "text_library \<Rightarrow> any_error \<Rightarrow> bool" where
  "redacted_texts lib e \<longleftrightarrow>
     (case e of
        UrlError op u c \<Rightarrow> (\<exists>x. op = redact_string lib [] x) \<and> (\<exists>x. u = redact_url lib x)
      | PlainError i cmp m \<Rightarrow> \<exists>x. m = redact_string lib [] x
      | WrapError i cmp m c \<Rightarrow> \<exists>x. m = redact_string lib [] x
      | MultiError i cmp m cs \<Rightarrow> \<exists>x. m = redact_string lib [] x
      | SanitizedError m c \<Rightarrow> \<exists>x. m = redact_string lib [] x
      | SanitizedMultiError m cs \<Rightarrow> \<exists>x. m = redact_string lib [] x)"

lemma error_tree_self: "e \<in> set (error_tree e)"
  by (cases e) simp_all

lemma same_error_map:
  "list_all2 same_error (map (map_option f) cs) cs \<Longrightarrow> map (map_option f) cs = cs"
  by (induction cs) (auto simp: same_error_def split: option.splits)

text \<open>What redaction keeps is an error that has nothing to hide.\<close>

lemma rebuild_leaf_cases:
  obtains "rebuild_leaf err old message = err" "message = old"
  | "rebuild_leaf err old message = SanitizedError message None"
  using that by (cases "message = old") (simp_all add: rebuild_leaf_def)

lemma rebuild_single_cases:
  obtains "rebuild_single err old message c c' = err" "message = old" "c' = c"
  | "rebuild_single err old message c c' = SanitizedError message (Some c')"
proof (cases "\<not> has_url_error err \<and> message = old \<and> same_error (Some c') (Some c)")
  case True
  then show thesis by (intro that(1)) (auto simp: rebuild_single_def same_error_def)
next
  case False
  then show thesis by (intro that(2)) (simp only: rebuild_single_def if_False)
qed

lemma rebuild_multi_cases:
  obtains "rebuild_multi err old message cs (map (map_option f) cs) = err" "message = old" "map (map_option f) cs = cs"
  | "rebuild_multi err old message cs (map (map_option f) cs) = SanitizedMultiError message (map (map_option f) cs)"
  using that same_error_map [of f cs]
  by (cases "\<not> has_url_error err \<and> message = old \<and> list_all2 same_error (map (map_option f) cs) cs")
    (simp_all add: rebuild_multi_def)

lemma redact_error_texts: "x \<in> set (error_tree (redact_error lib e)) \<Longrightarrow> redacted_texts lib x"
proof (induction lib e arbitrary: x rule: redact_error.induct)
  case (1 lib op u c)
  then show ?case by (cases c) (auto simp: redacted_texts_def)
next
  case (2 lib i cmp m)
  then show ?case
    by (cases rule: rebuild_leaf_cases [of "PlainError i cmp m" m "redact_string lib [] m"])
      (auto simp: redacted_texts_def, metis)
next
  case (3 lib i cmp m c)
  show ?case
  proof (cases rule: rebuild_single_cases [of "WrapError i cmp m c" m "redact_string lib [] m" c "redact_error lib c"])
    case 1
    with "3.prems" have "x = WrapError i cmp m c \<or> x \<in> set (error_tree (redact_error lib c))" by simp
    with "3.IH" 1(2) show ?thesis by (auto simp: redacted_texts_def, metis)
  next
    case 2
    with 3 show ?thesis by (auto simp: redacted_texts_def)
  qed
next
  case (4 lib i cmp m cs)
  let ?cs = "map (map_option (redact_error lib)) cs"
  have IH: "redacted_texts lib x" if "x \<in> set (causes_tree error_tree ?cs)"
    using that "4.IH" by (auto simp: causes_tree_map causes_tree_iff)
  show ?case
  proof (cases rule: rebuild_multi_cases [of "MultiError i cmp m cs" m "redact_string lib [] m" cs "redact_error lib"])
    case 1
    with "4.prems" have "x = MultiError i cmp m cs \<or>
        x \<in> set (causes_tree error_tree ?cs)" by simp
    with IH 1(2) show ?thesis by (elim disjE) (simp add: redacted_texts_def, metis, blast)
  next
    case 2
    with "4.prems" IH show ?thesis by (auto simp: redacted_texts_def)
  qed
next
  case (5 lib m)
  then show ?case
    by (cases rule: rebuild_leaf_cases [of "SanitizedError m None" m "redact_string lib [] m"])
      (auto simp: redacted_texts_def, metis)
next
  case (6 lib m c)
  show ?case
  proof (cases rule: rebuild_single_cases [of "SanitizedError m (Some c)" m "redact_string lib [] m" c "redact_error lib c"])
    case 1
    with "6.prems" have "x = SanitizedError m (Some c) \<or> x \<in> set (error_tree (redact_error lib c))" by simp
    with "6.IH" 1(2) show ?thesis by (auto simp: redacted_texts_def, metis)
  next
    case 2
    with 6 show ?thesis by (auto simp: redacted_texts_def)
  qed
next
  case (7 lib m cs)
  let ?cs = "map (map_option (redact_error lib)) cs"
  have IH: "redacted_texts lib x" if "x \<in> set (causes_tree error_tree ?cs)"
    using that "7.IH" by (auto simp: causes_tree_map causes_tree_iff)
  show ?case
  proof (cases rule: rebuild_multi_cases [of "SanitizedMultiError m cs" m "redact_string lib [] m" cs "redact_error lib"])
    case 1
    with "7.prems" have "x = SanitizedMultiError m cs \<or>
        x \<in> set (causes_tree error_tree ?cs)" by simp
    with IH 1(2) show ?thesis by (elim disjE) (simp add: redacted_texts_def, metis, blast)
  next
    case 2
    with "7.prems" IH show ?thesis by (auto simp: redacted_texts_def)
  qed
qed

lemma redact_error_keeps:
  "PlainError i cmp m \<in> set (error_tree e) \<Longrightarrow> redact_string lib [] m = m \<Longrightarrow>
   PlainError i cmp m \<in> set (error_tree (redact_error lib e))"
proof (induction lib e rule: redact_error.induct)
  case (3 lib j cmp' m' c)
  then show ?case
    by (cases rule: rebuild_single_cases [of "WrapError j cmp' m' c" m' "redact_string lib [] m'" c "redact_error lib c"]) auto
next
  case (4 lib j cmp' m' cs)
  then show ?case
    by (cases rule: rebuild_multi_cases [of "MultiError j cmp' m' cs" m' "redact_string lib [] m'" cs "redact_error lib"])
      (auto simp: causes_tree_map causes_tree_iff)
next
  case (6 lib m' c)
  then show ?case
    by (cases rule: rebuild_single_cases [of "SanitizedError m' (Some c)" m' "redact_string lib [] m'" c "redact_error lib c"]) auto
next
  case (7 lib m' cs)
  then show ?case
    by (cases rule: rebuild_multi_cases [of "SanitizedMultiError m' cs" m' "redact_string lib [] m'" cs "redact_error lib"])
      (auto simp: causes_tree_map causes_tree_iff)
qed (auto simp: rebuild_leaf_def split: option.splits)

text \<open>C33: Every text that can be read from a redacted error, at any depth, is a result of the
  redaction, and a cause without a secret in its message is still found in it.\<close>

theorem redacted_error_safe:
  "(\<forall>x\<in>set (error_tree (redact_error lib e)). redacted_texts lib x) \<and>
   (PlainError i cmp m \<in> set (error_tree e) \<and> redact_string lib [] m = m \<longrightarrow>
    PlainError i cmp m \<in> set (error_tree (redact_error lib e)))"
  using redact_error_texts redact_error_keeps by blast

definition sample_error :: any_error where
  "sample_error =
     MultiError 1 True ''password=secret refused''
       [Some (WrapError 2 True ''password=secret'' (PlainError 3 True ''refused'')), None]"

theorem redacted_error_safe_witness:
  "PlainError 3 True ''refused'' \<in> set (error_tree (redact_error sample_library sample_error))"
  by (rule redacted_error_safe [THEN conjunct2, rule_format]) code_simp

end
