(* ===== verification/BotAgent.thy ===== *)
theory BotAgent
  imports GoText
begin

section \<open>What a client says of itself: \<open>botagent.go\<close> and \<open>version.go\<close>\<close>

text \<open>
  \<open>SanitizeBotAgent\<close> reduces a text chosen by the user to a list of products
  \<open>name/version\<close>, each with an optional comment in parentheses, of at most 256 bytes.
  \<open>buildClientVersion\<close> packs a version number into 32 bits.  The information the linker
  stores about modules is an argument.
\<close>

subsection \<open>Tokens\<close>

text \<open>\<open>strings.Fields\<close>.\<close>

fun fields_of :: "string \<Rightarrow> string list \<Rightarrow> string list" where
  "fields_of word [] = (if word = [] then [] else [word])"
| "fields_of word (r # rs) =
     (if space_rune r then (if word = [] then fields_of [] rs else word # fields_of [] rs)
      else fields_of (word @ r) rs)"

definition strings_fields :: "string \<Rightarrow> string list" where
  "strings_fields s = fields_of [] (runes s)"

text \<open>The inner loop: tokens are joined until one ends in a parenthesis.\<close>

fun glue_comment :: "string \<Rightarrow> string list \<Rightarrow> string \<times> string list" where
  "glue_comment acc [] = (acc, [])"
| "glue_comment acc (tok # toks) =
     (if has_suffix acc '')'' then (acc, tok # toks) else glue_comment (acc @ '' '' @ tok) toks)"

lemma glue_comment_length: "length (snd (glue_comment acc toks)) \<le> length toks"
  by (induction acc toks rule: glue_comment.induct) auto

function glue_tokens :: "string list \<Rightarrow> string list" where
  "glue_tokens [] = []"
| "glue_tokens (tok # toks) =
     (if has_prefix tok ''('' \<and> \<not> has_suffix tok '')''
      then fst (glue_comment tok toks) # glue_tokens (snd (glue_comment tok toks))
      else tok # glue_tokens toks)"
  by pat_completeness auto
termination
  by (relation "measure length") (auto simp: le_imp_less_Suc glue_comment_length)

subsection \<open>Products\<close>

definition name_byte :: "char \<Rightarrow> bool" where
  "name_byte c \<longleftrightarrow> is_upper_letter c \<or> is_lower_letter c \<or> is_digit c \<or> c \<in> set ''_.-''"

text \<open>\<open>productRe\<close> and \<open>commentCharRe\<close>.\<close>

definition is_product :: "string \<Rightarrow> bool" where
  "is_product tok =
     (case index_where (\<lambda>c. c = CHR ''/'') tok of
        None \<Rightarrow> False
      | Some i \<Rightarrow>
          1 \<le> i \<and> i \<le> 32 \<and> list_all name_byte (take i tok) \<and>
          1 \<le> length (drop (Suc i) tok) \<and> length (drop (Suc i) tok) \<le> 32 \<and>
          list_all (\<lambda>c. name_byte c \<or> c = CHR ''+'') (drop (Suc i) tok))"

definition comment_byte :: "char \<Rightarrow> bool" where
  "comment_byte c \<longleftrightarrow> 32 \<le> byte_val c \<and> byte_val c \<le> 126 \<and> c \<noteq> CHR ''('' \<and> c \<noteq> CHR '')''"

definition is_comment :: "string \<Rightarrow> bool" where
  "is_comment inner \<longleftrightarrow> 1 \<le> length inner \<and> length inner \<le> 64 \<and> list_all comment_byte inner"

text \<open>The loop over the tokens; \<open>pending\<close> is a product that may still get a comment.\<close>

definition flush :: "string \<Rightarrow> string list" where
  "flush pending = (if pending = [] then [] else [pending])"

fun accept_tokens :: "string \<Rightarrow> string list \<Rightarrow> string list" where
  "accept_tokens pending [] = flush pending"
| "accept_tokens pending (tok # toks) =
     (if has_prefix tok ''('' \<and> has_suffix tok '')'' then
        (let inner = butlast (tl tok) in
         if pending \<noteq> [] \<and> is_comment inner
         then (pending @ '' ('' @ inner @ '')'') # accept_tokens [] toks
         else flush pending @ accept_tokens [] toks)
      else flush pending @ accept_tokens (if is_product tok then tok else []) toks)"

definition default_bot_agent :: string where "default_bot_agent = ''OpenClaw''"
definition max_bot_agent_len :: nat where "max_bot_agent_len = 256"

text \<open>The truncation: trailing tokens are dropped; \<open>len\<close> is the length of those kept.\<close>

fun fitting :: "string list \<Rightarrow> nat \<Rightarrow> string list \<Rightarrow> string list" where
  "fitting truncated len [] = truncated"
| "fitting truncated len (t # ts) =
     (let add = length t + (if truncated \<noteq> [] then 1 else 0)
      in if max_bot_agent_len < len + add then truncated else fitting (truncated @ [t]) (len + add) ts)"

definition sanitize_bot_agent :: "string \<Rightarrow> string" where
  "sanitize_bot_agent raw =
     (let trimmed = trim_space raw in
      if trimmed = [] then default_bot_agent
      else
        (let accepted = accept_tokens [] (glue_tokens (strings_fields trimmed)) in
         if accepted = [] then default_bot_agent
         else if length (strings_join accepted '' '') \<le> max_bot_agent_len then strings_join accepted '' ''
         else if fitting [] 0 accepted = [] then default_bot_agent
         else strings_join (fitting [] 0 accepted) '' ''))"

subsection \<open>Versions\<close>

text \<open>\<open>strconv.Atoi\<close> without its error: what is no number is 0, what is too large the largest number.\<close>

definition parse_version_part :: "string \<Rightarrow> nat" where
  "parse_version_part s =
     (let s = takeWhile (\<lambda>c. c \<noteq> CHR ''-'' \<and> c \<noteq> CHR ''+'') s
      in if s = [] \<or> \<not> list_all is_digit s then 0 else min (dec_value s) (2 ^ 63 - 1))"

definition build_client_version :: "string \<Rightarrow> 32 word" where
  "build_client_version version =
     (let parts = split_on (CHR ''.'') (trim_prefix version ''v'');
          parts = (if length parts < 3 then parts @ [''0'', ''0'', ''0''] else parts);
          part = (\<lambda>i. word_of_nat (and (parse_version_part (parts ! i)) 0xFF))
      in or (or (push_bit 16 (part 0)) (push_bit 8 (part 1))) (part 2))"

definition channel_version :: string where "channel_version = ''0.4.2''"

definition is_valid_version :: "string \<Rightarrow> bool" where
  "is_valid_version v \<longleftrightarrow> v \<noteq> [] \<and> v \<noteq> ''(devel)''"

definition module_path :: string where "module_path = ''github.com/Icatme/wechatbot-go''"

text \<open>\<open>debug.ReadBuildInfo\<close>: the main module and the dependencies, with their versions.\<close>

record build_info =
  bi_main :: "string \<times> string"
  bi_deps :: "(string \<times> string) list"

definition module_version :: "build_info option \<Rightarrow> string" where
  "module_version info =
     (case info of None \<Rightarrow> channel_version
      | Some bi \<Rightarrow>
          (case map_of (bi_deps bi) module_path of
             Some v \<Rightarrow>
               if is_valid_version v then v
               else if fst (bi_main bi) = module_path \<and> is_valid_version (snd (bi_main bi))
               then snd (bi_main bi) else channel_version
           | None \<Rightarrow>
               if fst (bi_main bi) = module_path \<and> is_valid_version (snd (bi_main bi))
               then snd (bi_main bi) else channel_version))"

definition client_version :: "build_info option \<Rightarrow> string" where
  "client_version info = dec_nat (unat (build_client_version (module_version info)))"

subsection \<open>What is sent\<close>

text \<open>The grammar of the wire: a product, or a product with a comment.\<close>

definition is_entry :: "string \<Rightarrow> bool" where
  "is_entry t \<longleftrightarrow> is_product t \<or>
     (\<exists>p inner. t = p @ '' ('' @ inner @ '')'' \<and> is_product p \<and> is_comment inner)"

lemma product_not_Nil: "is_product [] = False"
  by (simp add: is_product_def)

lemma flush_entries: "pending = [] \<or> is_product pending \<Longrightarrow> t \<in> set (flush pending) \<Longrightarrow> is_entry t"
  by (auto simp: flush_def is_entry_def split: if_splits)

lemma accept_tokens_entries:
  "pending = [] \<or> is_product pending \<Longrightarrow> t \<in> set (accept_tokens pending toks) \<Longrightarrow> is_entry t"
proof (induction pending toks rule: accept_tokens.induct)
  case (2 pending tok toks)
  consider (comment) "has_prefix tok ''(''" "has_suffix tok '')''" "pending \<noteq> []" "is_comment (butlast (tl tok))"
    | (dropped) "has_prefix tok ''(''" "has_suffix tok '')''" "pending = [] \<or> \<not> is_comment (butlast (tl tok))"
    | (product) "\<not> (has_prefix tok ''('' \<and> has_suffix tok '')'')"
    by blast
  then show ?case
  proof cases
    case comment
    with 2 show ?thesis by (auto simp: Let_def) (auto simp: is_entry_def)
  next
    case dropped
    then have "accept_tokens pending (tok # toks) = flush pending @ accept_tokens [] toks"
      by (auto simp: Let_def)
    with "2.prems" "2.IH"(2) [OF conjI [OF dropped(1,2)] refl] dropped flush_entries show ?thesis by auto
  next
    case product
    then have "accept_tokens pending (tok # toks) =
        flush pending @ accept_tokens (if is_product tok then tok else []) toks"
      by (simp only: accept_tokens.simps if_False)
    with "2.prems" "2.IH"(3) [OF product] flush_entries show ?thesis by (auto split: if_splits)
  qed
qed (use flush_entries in simp)

lemma fitting_subset: "set (fitting truncated len ts) \<subseteq> set truncated \<union> set ts"
  by (induction truncated len ts rule: fitting.induct) (auto simp: Let_def)

lemma strings_join_snoc:
  "strings_join (xs @ [x]) sep = (if xs = [] then x else strings_join xs sep @ sep @ x)"
  by (induction xs sep rule: strings_join.induct) simp_all

lemma fitting_length:
  "length (strings_join truncated '' '') = len \<Longrightarrow> len \<le> max_bot_agent_len \<Longrightarrow>
   length (strings_join (fitting truncated len ts) '' '') \<le> max_bot_agent_len"
  by (induction truncated len ts rule: fitting.induct) (auto simp: Let_def strings_join_snoc)

definition printable :: "char \<Rightarrow> bool" where
  "printable c \<longleftrightarrow> 32 \<le> byte_val c \<and> byte_val c \<le> 126"

lemma name_byte_printable: "name_byte c \<or> c = CHR ''+'' \<Longrightarrow> printable c"
  by (auto simp: name_byte_def printable_def is_upper_letter_def is_lower_letter_def is_digit_def)

lemma product_printable: "is_product t \<Longrightarrow> list_all printable t"
proof -
  assume "is_product t"
  then obtain i where i: "index_where (\<lambda>c. c = CHR ''/'') t = Some i"
      "list_all name_byte (take i t)" "list_all (\<lambda>c. name_byte c \<or> c = CHR ''+'') (drop (Suc i) t)"
    by (auto simp: is_product_def split: option.splits)
  have at: "i < length t" "t ! i = CHR ''/''" using index_where_Some [OF i(1)] by simp_all
  have "set t = set (take i t) \<union> {CHR ''/''} \<union> set (drop (Suc i) t)"
    by (subst id_take_nth_drop [OF at(1)]) (simp add: at(2) insert_commute)
  then show ?thesis
    using i(2,3) name_byte_printable by (auto simp: list_all_iff printable_def)
qed

lemma entry_printable: "is_entry t \<Longrightarrow> list_all printable t"
  by (auto simp: is_entry_def is_comment_def product_printable)
    (auto simp: list_all_iff comment_byte_def printable_def)

lemma join_printable: "(\<And>t. t \<in> set ts \<Longrightarrow> list_all printable t) \<Longrightarrow> list_all printable (strings_join ts '' '')"
  by (induction ts "'' ''" rule: strings_join.induct) (auto simp: printable_def)

text \<open>C35: What is sent as the agent is the default or a list of products that follow the grammar;
  it has at most 256 bytes, all printable.\<close>

theorem bot_agent_well_formed:
  "(\<exists>entries. (sanitize_bot_agent raw = default_bot_agent \<or>
       sanitize_bot_agent raw = strings_join entries '' '' \<and> entries \<noteq> []) \<and> list_all is_entry entries)
   \<and> length (sanitize_bot_agent raw) \<le> max_bot_agent_len \<and> list_all printable (sanitize_bot_agent raw)"
proof -
  let ?accepted = "accept_tokens [] (glue_tokens (strings_fields (trim_space raw)))"
  have entries: "\<forall>t\<in>set ?accepted. is_entry t" using accept_tokens_entries by blast
  then have kept: "\<forall>t\<in>set (fitting [] 0 ?accepted). is_entry t" using fitting_subset by fastforce
  have fits: "length (strings_join (fitting [] 0 ?accepted) '' '') \<le> max_bot_agent_len"
    by (rule fitting_length) (simp_all add: max_bot_agent_len_def)
  have default: "length default_bot_agent \<le> max_bot_agent_len" "list_all printable default_bot_agent"
    by (simp_all add: default_bot_agent_def max_bot_agent_len_def printable_def)
  consider "sanitize_bot_agent raw = default_bot_agent"
    | "sanitize_bot_agent raw = strings_join ?accepted '' ''" "?accepted \<noteq> []"
      "length (sanitize_bot_agent raw) \<le> max_bot_agent_len"
    | "sanitize_bot_agent raw = strings_join (fitting [] 0 ?accepted) '' ''" "fitting [] 0 ?accepted \<noteq> []"
    unfolding sanitize_bot_agent_def Let_def
    by (cases "trim_space raw = []"; cases "?accepted = []"; cases "fitting [] 0 ?accepted = []";
        cases "length (strings_join ?accepted '' '') \<le> max_bot_agent_len") simp_all
  then show ?thesis
  proof cases
    case 1
    then show ?thesis using default by (intro conjI exI [of _ "[]"]) simp_all
  next
    case 2
    have "list_all printable (strings_join ?accepted '' '')"
      using entries entry_printable by (intro join_printable) blast
    with 2 entries show ?thesis by (intro conjI exI [of _ ?accepted]) (simp_all add: list_all_iff)
  next
    case 3
    have "list_all printable (strings_join (fitting [] 0 ?accepted) '' '')"
      using kept entry_printable by (intro join_printable) blast
    with 3 kept fits show ?thesis by (intro conjI exI [of _ "fitting [] 0 ?accepted"]) (simp_all add: list_all_iff)
  qed
qed

subsection \<open>The packed version\<close>

lemma byte_bit: "a < 256 \<Longrightarrow> bit a n \<Longrightarrow> n < (8 :: nat)" for a :: nat
proof (rule ccontr)
  assume "a < 256" "bit a n" "\<not> n < 8"
  then have "(2 :: nat) ^ 8 \<le> 2 ^ n" by (intro power_increasing) simp_all
  with \<open>a < 256\<close> have "a div 2 ^ n = 0" by simp
  with \<open>bit a n\<close> show False by (simp add: bit_iff_odd)
qed

lemma byte_fields:
  fixes a b c :: nat
  assumes "a < 256" and "b < 256" and "c < 256"
  shows "or (or (push_bit 16 (word_of_nat a)) (push_bit 8 (word_of_nat b))) (word_of_nat c)
    = (word_of_nat (65536 * a + 256 * b + c) :: 32 word)"
proof -
  let ?a = "word_of_nat a :: 32 word" and ?b = "word_of_nat b :: 32 word" and ?c = "word_of_nat c :: 32 word"
  note byte = byte_bit [OF assms(1)] byte_bit [OF assms(2)] byte_bit [OF assms(3)]
  have "push_bit 16 ?a + push_bit 8 ?b = or (push_bit 16 ?a) (push_bit 8 ?b)"
    by (rule disjunctive_add_eq_or) (auto simp: bit_eq_iff bit_simps dest!: byte)
  moreover have "or (push_bit 16 ?a) (push_bit 8 ?b) + ?c = or (or (push_bit 16 ?a) (push_bit 8 ?b)) ?c"
    by (rule disjunctive_add_eq_or) (auto simp: bit_eq_iff bit_simps dest!: byte)
  ultimately have "or (or (push_bit 16 ?a) (push_bit 8 ?b)) ?c = push_bit 16 ?a + push_bit 8 ?b + ?c" by simp
  then show ?thesis by (simp add: push_bit_eq_mult ac_simps)
qed

lemma digits_not_separator: "c \<in> set (dec_nat n) \<Longrightarrow> c \<noteq> CHR ''.'' \<and> c \<noteq> CHR ''-'' \<and> c \<noteq> CHR ''+'' \<and> c \<noteq> CHR ''v''"
  using dec_nat_digits [of c n] by (auto simp: is_digit_def)

lemma parse_dec_nat:
  assumes "n < 2 ^ 63" and "suffix = [] \<or> hd suffix = CHR ''-'' \<or> hd suffix = CHR ''+''"
  shows "parse_version_part (dec_nat n @ suffix) = n"
proof -
  have "takeWhile (\<lambda>c. c \<noteq> CHR ''-'' \<and> c \<noteq> CHR ''+'') (dec_nat n @ suffix) = dec_nat n"
    using assms(2) digits_not_separator [of _ n] by (cases suffix) (auto simp: takeWhile_append)
  then show ?thesis
    using assms(1) dec_nat_digits [of _ n] by (simp add: parse_version_part_def list_all_iff)
qed

lemma split_on_hd: "hd (split_on c s) = takeWhile (\<lambda>x. x \<noteq> c) s"
  by (induction s) (auto split: list.splits simp: hd_def)

lemma split_version:
  "split_on (CHR ''.'') (dec_nat M @ ''.'' @ dec_nat N @ ''.'' @ dec_nat P @ suffix) =
   dec_nat M # dec_nat N # (dec_nat P @ takeWhile (\<lambda>x. x \<noteq> CHR ''.'') suffix) # tl (split_on (CHR ''.'') (dec_nat P @ suffix))"
proof -
  have no: "CHR ''.'' \<notin> set (dec_nat n)" for n using digits_not_separator by blast
  have "hd (split_on (CHR ''.'') (dec_nat P @ suffix)) = dec_nat P @ takeWhile (\<lambda>x. x \<noteq> CHR ''.'') suffix"
    using no [of P] by (auto simp: split_on_hd takeWhile_append)
  then have "split_on (CHR ''.'') (dec_nat P @ suffix) =
      (dec_nat P @ takeWhile (\<lambda>x. x \<noteq> CHR ''.'') suffix) # tl (split_on (CHR ''.'') (dec_nat P @ suffix))"
    by (metis list.collapse split_on_not_Nil)
  then show ?thesis using no by (simp add: split_on_append_sep)
qed

lemma and_byte: "and n 0xFF = n mod 256" for n :: nat
  using take_bit_eq_mask [of 8 n] take_bit_eq_mod [of 8 n] by (simp add: mask_eq_exp_minus_1)

lemma channel_or: "is_valid_version (''v'' @ x)"
  by (simp add: is_valid_version_def)

text \<open>The number sent for a version \<open>vM.N.P\<close>, with or without suffix, has the three numbers
  modulo 256 in its lower three bytes.\<close>

theorem client_version_packs:
  assumes "M < 2 ^ 63" and "N < 2 ^ 63" and "P < 2 ^ 63"
    and "suffix = [] \<or> hd suffix = CHR ''-'' \<or> hd suffix = CHR ''+''"
  shows "client_version (Some \<lparr>bi_main = (module_path, ''v'' @ dec_nat M @ ''.'' @ dec_nat N @ ''.'' @ dec_nat P @ suffix),
                               bi_deps = []\<rparr>)
    = dec_nat (65536 * (M mod 256) + 256 * (N mod 256) + P mod 256)"
proof -
  let ?last = "dec_nat P @ takeWhile (\<lambda>x. x \<noteq> CHR ''.'') suffix"
  have "takeWhile (\<lambda>x. x \<noteq> CHR ''.'') suffix = [] \<or> hd (takeWhile (\<lambda>x. x \<noteq> CHR ''.'') suffix) \<in> {CHR ''-'', CHR ''+''}"
    using assms(4) by (cases suffix) auto
  then have parts: "parse_version_part (dec_nat M) = M" "parse_version_part (dec_nat N) = N" "parse_version_part ?last = P"
    using parse_dec_nat [OF assms(1), of "[]"] parse_dec_nat [OF assms(2), of "[]"] parse_dec_nat [OF assms(3)] by auto
  have "trim_prefix (''v'' @ x) ''v'' = x" for x by (simp add: trim_prefix_def has_prefix_def)
  then have "build_client_version (''v'' @ dec_nat M @ ''.'' @ dec_nat N @ ''.'' @ dec_nat P @ suffix) =
      or (or (push_bit 16 (word_of_nat (M mod 256))) (push_bit 8 (word_of_nat (N mod 256)))) (word_of_nat (P mod 256))"
    by (simp only: build_client_version_def Let_def split_version)
      (simp add: parts and_byte del: append_Cons)
  moreover have bound: "65536 * (M mod 256) + 256 * (N mod 256) + P mod 256 < 2 ^ LENGTH(32)"
    using mod_less_divisor [of 256 M] mod_less_divisor [of 256 N] mod_less_divisor [of 256 P] by simp
  ultimately have "unat (build_client_version (''v'' @ dec_nat M @ ''.'' @ dec_nat N @ ''.'' @ dec_nat P @ suffix)) =
      65536 * (M mod 256) + 256 * (N mod 256) + P mod 256"
    by (simp only: byte_fields mod_less_divisor zero_less_numeral) (rule of_nat_inverse [OF refl bound])
  then show ?thesis
    by (simp only: client_version_def module_version_def) (simp add: channel_or del: append_Cons)
qed

theorem client_version_packs_witness:
  "client_version (Some \<lparr>bi_main = (module_path, ''v'' @ dec_nat 0 @ ''.'' @ dec_nat 4 @ ''.'' @ dec_nat 258 @ ''-rc.1''), bi_deps = []\<rparr>)
    = dec_nat (65536 * (0 mod 256) + 256 * (4 mod 256) + 258 mod 256)"
  by (rule client_version_packs) simp_all

end
