(* ===== verification/Protocol.thy ===== *)
theory Protocol
  imports Media RedactError BotAgent
begin

section \<open>HTTP calls of the service: \<open>internal/protocol/api.go\<close>\<close>

text \<open>
  The requests the client makes and what it takes from the answers.  The HTTP library is an
  argument: what \<open>http.NewRequest\<close> and \<open>Client.Do\<close> come back with for a request.  Headers are
  an association list of canonical names.  A body is the JSON value that is encoded; encoding
  maps of strings, numbers and lists does not fail.  Durations are 64-bit nanoseconds.
\<close>

subsection \<open>Requests and answers\<close>

record protocol_client =
  pc_bot_agent :: string
  pc_route_tag :: string
  pc_build :: "build_info option"

record http_request =
  ht_method :: string
  ht_url :: string
  ht_headers :: "(string \<times> string) list"
  ht_body :: "json option"
  ht_timeout :: "64 word option"

text \<open>
  \<open>RequestRefused\<close>: no request could be built.  \<open>NoResponse\<close>: it was sent and failed.
  \<open>Response\<close>: the status and the body, with the error its reading ended in.
\<close>

datatype http_answer =
    RequestRefused any_error
  | NoResponse any_error
  | Response int bytes "any_error option"

text \<open>The library: the redaction's part, \<open>http.StatusText\<close>, and four random bytes.\<close>

record protocol_env =
  pe_library :: text_library
  pe_status_text :: "int \<Rightarrow> string"
  pe_random :: bytes
  pe_exchange :: "http_request \<Rightarrow> http_answer"

datatype protocol_error =
    ApiFailure api_error
  | Failure string any_error
  | DecodeFailure string

type_synonym 'a exchange = "(protocol_error + 'a) \<times> http_request list"

subsection \<open>Headers\<close>

fun canonical_from :: "bool \<Rightarrow> string \<Rightarrow> string" where
  "canonical_from upper [] = []"
| "canonical_from upper (c # s) =
     (if upper then (if is_lower_letter c then char_of (byte_val c - 32) else c) else ascii_lower_byte c)
     # canonical_from (c = CHR ''-'') s"

definition set_header :: "string \<Rightarrow> string \<Rightarrow> (string \<times> string) list \<Rightarrow> (string \<times> string) list" where
  "set_header k v h = AList.update (canonical_from True k) v h"

definition ilink_app_id :: string where "ilink_app_id = ''bot''"

definition random_wechat_uin :: "bytes \<Rightarrow> string" where
  "random_wechat_uin buf = b64_encode (dec_nat (foldl (\<lambda>n b. 256 * n + byte_val b) 0 (take 4 buf)))"

definition common_headers :: "protocol_client \<Rightarrow> (string \<times> string) list" where
  "common_headers c =
     (let h = set_header ''iLink-App-Id'' ilink_app_id [];
          h = set_header ''iLink-App-ClientVersion'' (client_version (pc_build c)) h
      in if pc_route_tag c \<noteq> [] then set_header ''SKRouteTag'' (pc_route_tag c) h else h)"

definition auth_headers :: "protocol_env \<Rightarrow> protocol_client \<Rightarrow> string \<Rightarrow> (string \<times> string) list" where
  "auth_headers env c tok =
     (let h = set_header ''Content-Type'' ''application/json'' (common_headers c);
          h = set_header ''AuthorizationType'' ''ilink_bot_token'' h;
          h = set_header ''Authorization'' (''Bearer '' @ tok) h
      in set_header ''X-WECHAT-UIN'' (random_wechat_uin (pe_random env)) h)"

definition new_client :: "build_info option \<Rightarrow> protocol_client" where
  "new_client build = \<lparr>pc_bot_agent = default_bot_agent, pc_route_tag = [], pc_build = build\<rparr>"

definition base_info :: "protocol_client \<Rightarrow> json" where
  "base_info c =
     JObj ((''channel_version'', JStr (module_version (pc_build c))) #
           (if pc_bot_agent c \<noteq> [] then [(''bot_agent'', JStr (pc_bot_agent c))] else []))"

subsection \<open>Errors of the service\<close>

definition max_api_error_message_bytes :: nat where "max_api_error_message_bytes = 4 * 1024"

text \<open>\<open>strings.ToValidUTF8\<close>: a run of invalid bytes becomes one replacement.\<close>

fun valid_runes :: "bool \<Rightarrow> string list \<Rightarrow> string" where
  "valid_runes in_run [] = []"
| "valid_runes in_run (r # rs) =
     (if rune_ok r then r @ valid_runes False rs
      else (if in_run then [] else replacement_rune) @ valid_runes True rs)"

definition to_valid_utf8 :: "string \<Rightarrow> string" where
  "to_valid_utf8 s = valid_runes False (runes s)"

definition truncated_marker :: string where
  "truncated_marker = [CHR 0xE2, CHR 0x80, CHR 0xA6] @ ''(truncated)''"

text \<open>The loop over \<open>end\<close>.\<close>

fun valid_prefix :: "nat \<Rightarrow> string \<Rightarrow> nat" where
  "valid_prefix 0 s = 0"
| "valid_prefix (Suc n) s = (if valid_utf8 (take (Suc n) s) then Suc n else valid_prefix n s)"

definition truncate_api_error_message :: "string \<Rightarrow> string" where
  "truncate_api_error_message message =
     (if length message \<le> max_api_error_message_bytes then message
      else take (valid_prefix (max_api_error_message_bytes - length truncated_marker) message) message
           @ truncated_marker)"

definition sanitize_api_error_message :: "text_library \<Rightarrow> string \<Rightarrow> string" where
  "sanitize_api_error_message lib message =
     truncate_api_error_message (redact_string lib [] (to_valid_utf8 message))"

text \<open>
  \<open>json.Unmarshal\<close> into an \<open>apiEnvelope\<close>: a value of the wrong kind is an error, reported at the
  end, and leaves its field as it was; the other fields are decoded.
\<close>

record api_envelope =
  en_ret :: int
  en_err_code :: int
  en_err_msg :: string

fun last_fitting :: "(json \<Rightarrow> goerr + 'a) \<Rightarrow> 'a \<Rightarrow> json list \<Rightarrow> bool \<times> 'a" where
  "last_fitting dec x [] = (True, x)"
| "last_fitting dec x (v # vs) =
     (if v = JNull then last_fitting dec x vs
      else (case dec v of
              Inr y \<Rightarrow> last_fitting dec y vs
            | Inl e \<Rightarrow> (False, snd (last_fitting dec x vs))))"

definition decode_envelope :: "json option \<Rightarrow> bool \<times> api_envelope" where
  "decode_envelope text =
     (case text of
        Some (JObj kvs) \<Rightarrow>
          (let ret = last_fitting dec_int64 0 (field_values ''ret'' kvs);
               code = last_fitting dec_int64 0 (field_values ''errcode'' kvs);
               msg = last_fitting dec_str [] (field_values ''errmsg'' kvs)
           in (fst ret \<and> fst code \<and> fst msg,
               \<lparr>en_ret = snd ret, en_err_code = snd code, en_err_msg = snd msg\<rparr>))
      | Some JNull \<Rightarrow> (True, \<lparr>en_ret = 0, en_err_code = 0, en_err_msg = []\<rparr>)
      | _ \<Rightarrow> (False, \<lparr>en_ret = 0, en_err_code = 0, en_err_msg = []\<rparr>))"

definition new_api_error :: "protocol_env \<Rightarrow> string \<Rightarrow> int \<Rightarrow> bytes \<Rightarrow> api_envelope \<Rightarrow> api_error" where
  "new_api_error env endpoint status raw envelope =
     (let message = en_err_msg envelope;
          message = (if message = [] then trim_space (to_valid_utf8 raw) else message);
          message = (if message = [] then pe_status_text env status else message)
      in \<lparr>Endpoint = endpoint, Message = sanitize_api_error_message (pe_library env) message,
          HTTPStatus = status, RetCode = en_ret envelope, ErrCode = en_err_code envelope\<rparr>)"

definition response_api_error :: "protocol_env \<Rightarrow> string \<Rightarrow> int \<Rightarrow> bytes \<Rightarrow> api_error" where
  "response_api_error env endpoint status raw =
     new_api_error env endpoint status raw (snd (decode_envelope (unmarshal_json raw)))"

subsection \<open>Requests with credentials\<close>

definition api_post :: "protocol_env \<Rightarrow> protocol_client \<Rightarrow> string \<Rightarrow> string \<Rightarrow> string \<Rightarrow> json \<Rightarrow> 64 word \<Rightarrow>
    json exchange" where
  "api_post env c base_url endpoint tok body timeout =
     (let rq = \<lparr>ht_method = ''POST'', ht_url = base_url @ endpoint, ht_headers = auth_headers env c tok,
                ht_body = Some body, ht_timeout = Some timeout\<rparr>
      in case pe_exchange env rq of
           RequestRefused e \<Rightarrow> (Inl (Failure (endpoint @ '' request: '') (redact_error (pe_library env) e)), [])
         | NoResponse e \<Rightarrow> (Inl (Failure (endpoint @ '': '') (redact_error (pe_library env) e)), [rq])
         | Response status raw (Some e) \<Rightarrow> (Inl (Failure (endpoint @ '' read response: '') e), [rq])
         | Response status raw None \<Rightarrow>
             (let (ok, envelope) = decode_envelope (unmarshal_json raw) in
              if \<not> ok then
                (Inl (if 400 \<le> status then ApiFailure (response_api_error env endpoint status raw)
                      else DecodeFailure (endpoint @ '' decode response: '')), [rq])
              else if 400 \<le> status \<or> en_ret envelope \<noteq> 0 \<or> en_err_code envelope \<noteq> 0 then
                (Inl (ApiFailure (new_api_error env endpoint status raw envelope)), [rq])
              else (Inr (the (unmarshal_json raw)), [rq])))"

text \<open>The answer of a call, decoded into its type.\<close>

definition decode_answer :: "(json \<Rightarrow> goerr + 'a) \<Rightarrow> string \<Rightarrow> json exchange \<Rightarrow> 'a exchange" where
  "decode_answer dec name answer =
     (case answer of
        (Inl e, rqs) \<Rightarrow> (Inl e, rqs)
      | (Inr v, rqs) \<Rightarrow> ((case dec v of Inl e \<Rightarrow> Inl (DecodeFailure (name @ '' decode: '')) | Inr x \<Rightarrow> Inr x), rqs))"

definition no_answer :: "json exchange \<Rightarrow> unit exchange" where
  "no_answer answer = (case answer of (Inl e, rqs) \<Rightarrow> (Inl e, rqs) | (Inr v, rqs) \<Rightarrow> (Inr (), rqs))"

definition seconds :: "nat \<Rightarrow> 64 word" where
  "seconds n = word_of_nat (n * 10 ^ 9)"

record get_updates_response =
  gu_ret :: int
  gu_msgs :: "json list"
  gu_get_updates_buf :: string
  gu_err_code :: int
  gu_err_msg :: string
  gu_long_polling_timeout_ms :: int

definition dec_raw_list :: "json list \<Rightarrow> json \<Rightarrow> goerr + json list" where
  "dec_raw_list old v = (case v of JArr vs \<Rightarrow> Inr vs | _ \<Rightarrow> Inl json_type_error)"

definition dec_get_updates :: "json \<Rightarrow> goerr + get_updates_response" where
  "dec_get_updates = dec_struct (\<lambda>kvs.
     case (dec_field (\<lambda>_. dec_int64) 0 ''ret'' kvs, dec_field dec_raw_list [] ''msgs'' kvs,
           dec_field (\<lambda>_. dec_str) [] ''get_updates_buf'' kvs, dec_field (\<lambda>_. dec_int64) 0 ''errcode'' kvs,
           dec_field (\<lambda>_. dec_str) [] ''errmsg'' kvs, dec_field (\<lambda>_. dec_int64) 0 ''longpolling_timeout_ms'' kvs) of
       (Inr ret, Inr msgs, Inr buf, Inr code, Inr msg, Inr ms) \<Rightarrow>
         Inr \<lparr>gu_ret = ret, gu_msgs = msgs, gu_get_updates_buf = buf, gu_err_code = code, gu_err_msg = msg,
              gu_long_polling_timeout_ms = ms\<rparr>
     | _ \<Rightarrow> Inl json_type_error)"

text \<open>\<open>max(timeout+15*time.Second, 65*time.Second)\<close>, in 64 bits.\<close>

definition updates_timeout :: "64 word \<Rightarrow> 64 word" where
  "updates_timeout timeout =
     (if sint (seconds 65) < sint (timeout + seconds 15) then timeout + seconds 15 else seconds 65)"

definition get_updates :: "protocol_env \<Rightarrow> protocol_client \<Rightarrow> string \<Rightarrow> string \<Rightarrow> string \<Rightarrow> 64 word \<Rightarrow>
    get_updates_response exchange" where
  "get_updates env c base_url tok cursor timeout =
     decode_answer dec_get_updates ''getupdates''
       (api_post env c base_url ''/ilink/bot/getupdates'' tok
          (JObj [(''get_updates_buf'', JStr cursor), (''base_info'', base_info c)]) (updates_timeout timeout))"

definition post_message :: "protocol_env \<Rightarrow> protocol_client \<Rightarrow> string \<Rightarrow> string \<Rightarrow> json \<Rightarrow> unit exchange" where
  "post_message env c base_url tok msg =
     no_answer (api_post env c base_url ''/ilink/bot/sendmessage'' tok
       (JObj [(''msg'', msg), (''base_info'', base_info c)]) (seconds 15))"

record get_config_response =
  gc_typing_ticket :: string
  gc_ret :: int

definition dec_get_config :: "json \<Rightarrow> goerr + get_config_response" where
  "dec_get_config = dec_struct (\<lambda>kvs.
     case (dec_field (\<lambda>_. dec_str) [] ''typing_ticket'' kvs, dec_field (\<lambda>_. dec_int64) 0 ''ret'' kvs) of
       (Inr ticket, Inr ret) \<Rightarrow> Inr \<lparr>gc_typing_ticket = ticket, gc_ret = ret\<rparr>
     | _ \<Rightarrow> Inl json_type_error)"

definition get_config :: "protocol_env \<Rightarrow> protocol_client \<Rightarrow> string \<Rightarrow> string \<Rightarrow> string \<Rightarrow> string \<Rightarrow>
    get_config_response exchange" where
  "get_config env c base_url tok userID contextToken =
     decode_answer dec_get_config ''getconfig''
       (api_post env c base_url ''/ilink/bot/getconfig'' tok
          (JObj [(''ilink_user_id'', JStr userID), (''context_token'', JStr contextToken), (''base_info'', base_info c)])
          (seconds 15))"

definition post_typing :: "protocol_env \<Rightarrow> protocol_client \<Rightarrow> string \<Rightarrow> string \<Rightarrow> string \<Rightarrow> string \<Rightarrow> int \<Rightarrow>
    unit exchange" where
  "post_typing env c base_url tok userID ticket status =
     no_answer (api_post env c base_url ''/ilink/bot/sendtyping'' tok
       (JObj [(''ilink_user_id'', JStr userID), (''typing_ticket'', JStr ticket), (''status'', JInt status),
              (''base_info'', base_info c)]) (seconds 15))"

definition notify_start :: "protocol_env \<Rightarrow> protocol_client \<Rightarrow> string \<Rightarrow> string \<Rightarrow> unit exchange" where
  "notify_start env c base_url tok =
     no_answer (api_post env c base_url ''/ilink/bot/msg/notifystart'' tok (JObj [(''base_info'', base_info c)]) (seconds 10))"

definition notify_stop :: "protocol_env \<Rightarrow> protocol_client \<Rightarrow> string \<Rightarrow> string \<Rightarrow> unit exchange" where
  "notify_stop env c base_url tok =
     no_answer (api_post env c base_url ''/ilink/bot/msg/notifystop'' tok (JObj [(''base_info'', base_info c)]) (seconds 10))"

definition dec_upload_url :: "json \<Rightarrow> goerr + upload_url_response" where
  "dec_upload_url = dec_struct (\<lambda>kvs.
     case (dec_field (\<lambda>_. dec_str) [] ''upload_param'' kvs, dec_field (\<lambda>_. dec_str) [] ''thumb_upload_param'' kvs,
           dec_field (\<lambda>_. dec_str) [] ''upload_full_url'' kvs) of
       (Inr param, Inr thumb, Inr full) \<Rightarrow>
         Inr \<lparr>ur_upload_param = param, ur_thumb_upload_param = thumb, ur_upload_full_url = full\<rparr>
     | _ \<Rightarrow> Inl json_type_error)"

definition get_upload_url :: "protocol_env \<Rightarrow> protocol_client \<Rightarrow> string \<Rightarrow> string \<Rightarrow> upload_url_request \<Rightarrow>
    upload_url_response exchange" where
  "get_upload_url env c base_url tok r =
     decode_answer dec_upload_url ''getuploadurl''
       (api_post env c base_url ''/ilink/bot/getuploadurl'' tok
          (JObj [(''filekey'', JStr (uu_file_key r)), (''media_type'', JInt (uu_media_type r)),
                 (''to_user_id'', JStr (uu_to_user_id r)), (''rawsize'', JInt (int (uu_raw_size r))),
                 (''rawfilemd5'', JStr (uu_raw_file_md5 r)), (''filesize'', JInt (int (uu_file_size r))),
                 (''thumb_rawsize'', JInt (int (uu_thumb_raw_size r))),
                 (''thumb_rawfilemd5'', JStr (uu_thumb_file_md5 r)),
                 (''thumb_filesize'', JInt (int (uu_thumb_file_size r))),
                 (''no_need_thumb'', JBool (uu_no_need_thumb r)), (''aeskey'', JStr (uu_aes_key r)),
                 (''base_info'', base_info c)]) (seconds 15))"

subsection \<open>The calls of the login\<close>

text \<open>
  What both do with the answer: an error status is an \<open>APIError\<close> made from at most 64 KiB of the
  body, otherwise the first JSON value of the body is decoded.
\<close>

definition login_answer :: "protocol_env \<Rightarrow> string \<Rightarrow> (json \<Rightarrow> goerr + 'a) \<Rightarrow> http_request \<Rightarrow> 'a exchange" where
  "login_answer env name dec rq =
     (case pe_exchange env rq of
        RequestRefused e \<Rightarrow> (Inl (Failure (name @ '' request: '') (redact_error (pe_library env) e)), [])
      | NoResponse e \<Rightarrow> (Inl (Failure (name @ '': '') (redact_error (pe_library env) e)), [rq])
      | Response status raw e \<Rightarrow>
          if 400 \<le> status
          then (Inl (ApiFailure (response_api_error env (''/ilink/bot/'' @ name) status (take (64 * 1024) raw))), [rq])
          else (case map_option dec (first_json raw) of
                  Some (Inr x) \<Rightarrow> (Inr x, [rq])
                | _ \<Rightarrow> (Inl (DecodeFailure (name @ '' decode: '')), [rq])))"

definition dec_qr_code :: "json \<Rightarrow> goerr + qr_code" where
  "dec_qr_code = dec_struct (\<lambda>kvs.
     case (dec_field (\<lambda>_. dec_str) [] ''qrcode'' kvs, dec_field (\<lambda>_. dec_str) [] ''qrcode_img_content'' kvs) of
       (Inr code, Inr img) \<Rightarrow> Inr \<lparr>qc_code = code, qc_img_url = img\<rparr>
     | _ \<Rightarrow> Inl json_type_error)"

definition get_qr_code :: "protocol_env \<Rightarrow> protocol_client \<Rightarrow> string \<Rightarrow> string list \<Rightarrow> qr_code exchange" where
  "get_qr_code env c base_url localTokenList =
     (let body = (if localTokenList = [] then None
                  else Some (JObj [(''local_token_list'', JArr (map JStr (take 10 localTokenList)))]))
      in login_answer env ''get_bot_qrcode'' dec_qr_code
           \<lparr>ht_method = ''POST'', ht_url = base_url @ ''/ilink/bot/get_bot_qrcode?bot_type=3'',
            ht_headers = (if body = None then common_headers c
                          else set_header ''Content-Type'' ''application/json'' (common_headers c)),
            ht_body = body, ht_timeout = None\<rparr>)"

definition dec_qr_status :: "json \<Rightarrow> goerr + qr_status" where
  "dec_qr_status = dec_struct (\<lambda>kvs.
     case (dec_field (\<lambda>_. dec_str) [] ''status'' kvs, dec_field (\<lambda>_. dec_str) [] ''bot_token'' kvs,
           dec_field (\<lambda>_. dec_str) [] ''ilink_bot_id'' kvs, dec_field (\<lambda>_. dec_str) [] ''ilink_user_id'' kvs,
           dec_field (\<lambda>_. dec_str) [] ''baseurl'' kvs, dec_field (\<lambda>_. dec_str) [] ''redirect_host'' kvs) of
       (Inr status, Inr tok, Inr botID, Inr user, Inr base, Inr host) \<Rightarrow>
         Inr \<lparr>qs_status = status, qs_bot_token = tok, qs_bot_id = botID, qs_user_id = user, qs_base_url = base,
              qs_redirect_host = host\<rparr>
     | _ \<Rightarrow> Inl json_type_error)"

definition poll_qr_status :: "protocol_env \<Rightarrow> protocol_client \<Rightarrow> string \<Rightarrow> string \<Rightarrow> string \<Rightarrow> qr_status exchange" where
  "poll_qr_status env c base_url qrcode verifyCode =
     (let u = base_url @ ''/ilink/bot/get_qrcode_status?qrcode='' @ query_escape qrcode
      in login_answer env ''get_qrcode_status'' dec_qr_status
           \<lparr>ht_method = ''GET'',
            ht_url = (if verifyCode \<noteq> [] then u @ ''&verify_code='' @ query_escape verifyCode else u),
            ht_headers = common_headers c, ht_body = None, ht_timeout = None\<rparr>)"

subsection \<open>What the service's errors carry\<close>

lemma valid_prefix_le: "valid_prefix n s \<le> n"
  by (induction n) auto

lemma valid_prefix_valid: "valid_utf8 (take (valid_prefix n s) s)"
  by (induction n) auto

lemma truncated_marker_valid: "valid_utf8 truncated_marker"
  by (simp add: truncated_marker_def) code_simp

lemma truncate_bounded: "length (truncate_api_error_message m) \<le> max_api_error_message_bytes"
  using valid_prefix_le [of "max_api_error_message_bytes - length truncated_marker" m]
  by (simp add: truncate_api_error_message_def max_api_error_message_bytes_def truncated_marker_def)

text \<open>A cut message ends at a rune, with the marker.\<close>

lemma truncate_valid: "valid_utf8 m \<Longrightarrow> valid_utf8 (truncate_api_error_message m)"
  by (simp add: truncate_api_error_message_def valid_utf8_append valid_prefix_valid truncated_marker_valid)

lemma new_api_error_fields:
  "Endpoint (new_api_error env endpoint status raw envelope) = endpoint"
  "HTTPStatus (new_api_error env endpoint status raw envelope) = status"
  "RetCode (new_api_error env endpoint status raw envelope) = en_ret envelope"
  "ErrCode (new_api_error env endpoint status raw envelope) = en_err_code envelope"
  "length (Message (new_api_error env endpoint status raw envelope)) \<le> max_api_error_message_bytes"
  "\<exists>m. Message (new_api_error env endpoint status raw envelope) =
        truncate_api_error_message (redact_string (pe_library env) [] m)"
  by (auto simp: new_api_error_def Let_def sanitize_api_error_message_def truncate_bounded)

definition post_request :: "protocol_env \<Rightarrow> protocol_client \<Rightarrow> string \<Rightarrow> string \<Rightarrow> string \<Rightarrow> json \<Rightarrow> 64 word \<Rightarrow> http_request" where
  "post_request env c base_url endpoint tok body timeout =
     \<lparr>ht_method = ''POST'', ht_url = base_url @ endpoint, ht_headers = auth_headers env c tok,
      ht_body = Some body, ht_timeout = Some timeout\<rparr>"

text \<open>C34: \<open>apiPost\<close> makes exactly one request, the one of these arguments, unless none can be built,
  and never a second one; what it returns is decided by the answer.  Without a complete answer it
  is an error that says how far the request came.  With one it is the body exactly when that is an
  envelope without codes and the status is no error; otherwise the error carries the status and the
  codes of the envelope, as far as it could be read, and a redacted message of at most 4 KiB.\<close>

theorem api_post_outcome:
  "case api_post env c base_url endpoint tok body timeout of (r, requests) \<Rightarrow>
     (case pe_exchange env (post_request env c base_url endpoint tok body timeout) of
        RequestRefused e \<Rightarrow> requests = [] \<and>
          r = Inl (Failure (endpoint @ '' request: '') (redact_error (pe_library env) e))
      | NoResponse e \<Rightarrow> requests = [post_request env c base_url endpoint tok body timeout] \<and>
          r = Inl (Failure (endpoint @ '': '') (redact_error (pe_library env) e))
      | Response status raw (Some e) \<Rightarrow> requests = [post_request env c base_url endpoint tok body timeout] \<and>
          r = Inl (Failure (endpoint @ '' read response: '') e)
      | Response status raw None \<Rightarrow> requests = [post_request env c base_url endpoint tok body timeout] \<and>
          (case (decode_envelope (unmarshal_json raw), r) of
             ((ok, envelope), Inr v) \<Rightarrow>
               ok \<and> status < 400 \<and> en_ret envelope = 0 \<and> en_err_code envelope = 0 \<and> unmarshal_json raw = Some v
           | ((ok, envelope), Inl (ApiFailure a)) \<Rightarrow>
               (400 \<le> status \<or> ok \<and> (en_ret envelope \<noteq> 0 \<or> en_err_code envelope \<noteq> 0)) \<and>
               Endpoint a = endpoint \<and> HTTPStatus a = status \<and>
               RetCode a = en_ret envelope \<and> ErrCode a = en_err_code envelope \<and>
               length (Message a) \<le> max_api_error_message_bytes \<and>
               (\<exists>m. Message a = truncate_api_error_message (redact_string (pe_library env) [] m))
           | ((ok, envelope), Inl (DecodeFailure m)) \<Rightarrow> \<not> ok \<and> status < 400
           | ((ok, envelope), Inl (Failure m e)) \<Rightarrow> False))"
proof (cases "pe_exchange env (post_request env c base_url endpoint tok body timeout)")
  case (Response status raw failed)
  obtain ok envelope where dec: "decode_envelope (unmarshal_json raw) = (ok, envelope)" by fastforce
  then have some: "ok \<Longrightarrow> \<exists>v. unmarshal_json raw = Some v"
    by (auto simp: decode_envelope_def split: option.splits)
  show ?thesis
  proof (cases failed)
    case None
    show ?thesis
      using Response [unfolded None] dec some unfolding post_request_def
      by (cases ok; cases "400 \<le> status"; cases "en_ret envelope = 0"; cases "en_err_code envelope = 0")
        (auto simp: api_post_def response_api_error_def new_api_error_fields)
  qed (use Response in \<open>simp add: api_post_def post_request_def\<close>)
qed (simp_all add: api_post_def post_request_def)

definition sample_protocol :: "bytes \<Rightarrow> protocol_env" where
  "sample_protocol raw = \<lparr>pe_library = sample_library, pe_status_text = (\<lambda>s. ''error''), pe_random = ''abcd'',
     pe_exchange = (\<lambda>rq. Response 401 raw None)\<rparr>"

theorem api_post_outcome_witness:
  "case api_post (sample_protocol ''{\"ret\":\"x\",\"errcode\":-14}'') (new_client None) ''https://host'' ''/e'' ''t''
       (JObj []) (seconds 15) of
     (Inl (ApiFailure a), requests) \<Rightarrow> ErrCode a = -14 \<and> map ht_url requests = [''https://host/e'']
   | _ \<Rightarrow> False"
proof -
  let ?raw = "''{\"ret\":\"x\",\"errcode\":-14}''"
  have dec: "decode_envelope (unmarshal_json ?raw) = (False, \<lparr>en_ret = 0, en_err_code = -14, en_err_msg = []\<rparr>)"
    by code_simp
  have answer: "pe_exchange (sample_protocol ?raw) rq = Response 401 ?raw None" for rq
    by (simp add: sample_protocol_def)
  note outcome = api_post_outcome [where env = "sample_protocol ?raw" and c = "new_client None" and endpoint = "''/e''"
    and base_url = "''https://host''" and tok = "''t''" and body = "JObj []" and timeout = "seconds 15",
    unfolded answer dec http_answer.case option.case prod.case]
  show ?thesis
  proof (cases "api_post (sample_protocol ?raw) (new_client None) ''https://host'' ''/e'' ''t'' (JObj []) (seconds 15)")
    case (Pair r requests)
    with outcome show ?thesis
      by (cases r rule: sum.exhaust [case_product protocol_error.exhaust [of "projl r"]])
        (auto simp: post_request_def)
  qed
qed

end
