(* ===== verification/RedactProps.thy ===== *)
theory RedactProps
  imports Redact
begin

section \<open>Sensitive fields in text that is no JSON document\<close>

text \<open>
  \<open>replaceSensitiveJSONFields\<close> finds the end of a value by counting brackets outside of
  strings.  The lemmas show that this is where a JSON value ends, however it is nested and spaced,
  and the theorem that the value of a sensitive field leaves no trace in the text, as long as the
  quotes before the field are paired.  The last lemma is a text where they are not.
\<close>

subsection \<open>The end of a string\<close>

text \<open>Text between two quotes: no quote without a backslash before it, no backslash left over.\<close>

inductive string_body :: "string \<Rightarrow> bool" where
  empty: "string_body []"
| plain: "c \<noteq> backslash \<Longrightarrow> c \<noteq> double_quote \<Longrightarrow> string_body r \<Longrightarrow> string_body (c # r)"
| escape: "string_body r \<Longrightarrow> string_body (backslash # c # r)"

inductive_simps string_body_simps [simp]: "string_body []" "string_body (c # r)"

lemma string_body_append: "string_body a \<Longrightarrow> string_body b \<Longrightarrow> string_body (a @ b)"
  by (induction rule: string_body.induct) (auto intro: string_body.intros)

lemma string_body_concat: "(\<And>x. x \<in> set xs \<Longrightarrow> string_body x) \<Longrightarrow> string_body (concat xs)"
  by (induction xs) (auto intro: string_body.empty string_body_append)

lemma string_body_plain: "backslash \<notin> set s \<Longrightarrow> double_quote \<notin> set s \<Longrightarrow> string_body s"
  by (induction s) (auto intro: string_body.intros)

lemma quote_scan_body:
  "string_body s \<Longrightarrow> quote_scan double_quote False (s @ double_quote # r) = Some (Suc (length s))"
  by (induction rule: string_body.induct) auto

lemma nested_end_body:
  "string_body s \<Longrightarrow>
   nested_end od ad True False (s @ double_quote # r) = Suc (length s + nested_end od ad False False r)"
  by (induction rule: string_body.induct) auto

lemma hex_digit_plain: "n < 16 \<Longrightarrow> hex_digit n \<noteq> backslash \<and> hex_digit n \<noteq> double_quote"
  using unhex_hex_digit [of n] by (auto simp: unhex_def is_digit_def)

lemma escape_rune_body:
  assumes "x \<in> set (runes s)"
  shows "string_body (escape_rune x)"
proof (cases "length x = 1")
  case True
  then obtain c where x: "x = [c]" by (auto simp: length_Suc_conv)
  have hex: "byte_val c div 16 < (16 :: nat)" "byte_val c mod 16 < (16 :: nat)"
    using nat_of_char_less_256 [of c] by linarith+
  show ?thesis
    unfolding x escape_rune_def
    by (simp add: hex_digit_plain [OF hex(1)] hex_digit_plain [OF hex(2)])
next
  case False
  with runes_high [OF assms] have "\<forall>c\<in>set x. 128 \<le> byte_val c" by simp
  then have "string_body x" by (intro string_body_plain) auto
  moreover from False have "(case x of [c] \<Rightarrow> u c | _ \<Rightarrow> x) = x" for u
    by (auto split: list.split)
  ultimately show ?thesis
    unfolding escape_rune_def by simp
qed

lemma json_string_body: "\<exists>body. json_string s = double_quote # body @ [double_quote] \<and> string_body body"
  unfolding json_string_def
  by (intro exI [of _ "concat (map escape_rune (runes s))"]) (auto intro!: string_body_concat escape_rune_body)

subsection \<open>The end of a value\<close>

definition number_byte :: "char \<Rightarrow> bool" where
  "number_byte c \<longleftrightarrow> is_digit c \<or> c \<in> {CHR ''-'', CHR ''+'', CHR ''.'', CHR ''e'', CHR ''E''}"

text \<open>The number literals of a document consist of the bytes of numbers.\<close>

fun plain_numbers :: "json \<Rightarrow> bool" where
  "plain_numbers (JReal lit) = (lit \<noteq> [] \<and> list_all number_byte lit)"
| "plain_numbers (JArr vs) = list_all plain_numbers vs"
| "plain_numbers (JObj kvs) = list_all (\<lambda>(k, v). plain_numbers v) kvs"
| "plain_numbers v = True"

text \<open>Text that leaves the scan of an enclosing object or array as it was.\<close>

definition transparent :: "string \<Rightarrow> bool" where
  "transparent t \<longleftrightarrow> (\<forall>od ad r. 0 < od + ad \<longrightarrow>
     nested_end od ad False False (t @ r) = length t + nested_end od ad False False r)"

lemma transparentD:
  "transparent t \<Longrightarrow> 0 < od + ad \<Longrightarrow>
   nested_end od ad False False (t @ r) = length t + nested_end od ad False False r"
  unfolding transparent_def
  by (drule spec [of _ od], drule spec [of _ ad], drule spec [of _ r], erule mp)

lemma transparent_Nil [simp]: "transparent []"
  by (simp add: transparent_def)

lemma transparent_append: "transparent a \<Longrightarrow> transparent b \<Longrightarrow> transparent (a @ b)"
  by (simp add: transparent_def)

lemma transparent_Cons:
  "c \<notin> set ''{}[]'' \<Longrightarrow> c \<noteq> double_quote \<Longrightarrow> transparent t \<Longrightarrow> transparent (c # t)"
  by (auto simp: transparent_def)

lemma transparent_array: "transparent t \<Longrightarrow> transparent (''['' @ t @ '']'')"
  by (auto simp: transparent_def)

lemma transparent_object: "transparent t \<Longrightarrow> transparent (''{'' @ t @ ''}'')"
  by (auto simp: transparent_def)

lemma nested_end_array: "transparent t \<Longrightarrow> nested_end 0 0 False False (''['' @ t @ '']'' @ r) = length t + 2"
  by (simp add: transparentD)

lemma nested_end_object: "transparent t \<Longrightarrow> nested_end 0 0 False False (''{'' @ t @ ''}'' @ r) = length t + 2"
  by (simp add: transparentD)

lemma number_byte_plain:
  "number_byte c \<Longrightarrow> c \<notin> set ''{}[]'' \<and> c \<noteq> double_quote \<and>
   c \<notin> set '',}] '' \<union> {tabulator, newline, carriage_return}"
  by (auto simp: number_byte_def is_digit_def)

lemma dec_int_bytes: "c \<in> set (dec_int i) \<Longrightarrow> number_byte c"
  by (auto simp: dec_int_def number_byte_def dest: dec_nat_digits split: if_splits)

lemma members_text:
  "\<exists>ts. encode_json (JObj kvs) = ''{'' @ strings_join ts '','' @ ''}'' \<and>
        set ts = (\<lambda>(k, v). json_string k @ '':'' @ encode_json v) ` set kvs"
  by (intro exI [of _ "map (\<lambda>(k, t). json_string k @ '':'' @ t)
                 (sort_key fst (map (\<lambda>(k, v). (k, encode_json v)) kvs))"])
    (auto simp: image_image case_prod_beta)

abbreviation value_delimiters :: "char set" where
  "value_delimiters \<equiv> set '',}] '' \<union> {tabulator, newline, carriage_return}"

text \<open>
  The text of a value, by its form alone: a string, a word without spaces, or brackets around
  text in which brackets and quotes are paired.
\<close>

inductive balanced :: "string \<Rightarrow> bool" where
  balanced_nil: "balanced []"
| balanced_byte: "balanced t \<Longrightarrow> c \<notin> set ''{}[]'' \<Longrightarrow> c \<noteq> double_quote \<Longrightarrow> balanced (c # t)"
| balanced_string: "string_body b \<Longrightarrow> balanced t \<Longrightarrow> balanced (double_quote # b @ double_quote # t)"
| balanced_array: "balanced u \<Longrightarrow> balanced t \<Longrightarrow> balanced (CHR ''['' # u @ CHR '']'' # t)"
| balanced_object: "balanced u \<Longrightarrow> balanced t \<Longrightarrow> balanced (CHR ''{'' # u @ CHR ''}'' # t)"

inductive value_text :: "string \<Rightarrow> bool" where
  string_text: "string_body b \<Longrightarrow> value_text (double_quote # b @ [double_quote])"
| scalar_text: "t \<noteq> [] \<Longrightarrow> hd t \<notin> {double_quote, CHR ''{'', CHR ''[''} \<Longrightarrow>
    set t \<inter> value_delimiters = {} \<Longrightarrow> value_text t"
| array_text: "balanced t \<Longrightarrow> value_text (CHR ''['' # t @ '']'')"
| object_text: "balanced t \<Longrightarrow> value_text (CHR ''{'' # t @ ''}'')"

text \<open>Strings, arrays and objects end by themselves, a word where its delimiter comes.\<close>

definition value_stops :: "string \<Rightarrow> string \<Rightarrow> bool" where
  "value_stops val rest \<longleftrightarrow>
     hd val \<in> {double_quote, CHR ''{'', CHR ''[''} \<or> rest \<noteq> [] \<and> hd rest \<in> value_delimiters"

lemma balanced_transparent: "balanced t \<Longrightarrow> transparent t"
proof (induction rule: balanced.induct)
  case (balanced_byte t c)
  then show ?case by (intro transparent_Cons)
next
  case (balanced_string b t)
  then show ?case by (auto simp: transparent_def nested_end_body)
next
  case (balanced_array u t)
  then show ?case using transparent_append [OF transparent_array [of u], of t] by simp
next
  case (balanced_object u t)
  then show ?case using transparent_append [OF transparent_object [of u], of t] by simp
qed simp

text \<open>The scan of \<open>jsonValueEnd\<close> ends where the value ends.\<close>

lemma json_value_end_text:
  "value_text val \<Longrightarrow> rest = [] \<or> value_stops val rest \<Longrightarrow> json_value_end (val @ rest) = length val"
proof (induction rule: value_text.induct)
  case (string_text b)
  then show ?case by (simp add: json_value_end_def json_string_end_def quote_scan_body)
next
  case (scalar_text t)
  have "takeWhile (\<lambda>c. c \<notin> value_delimiters) t = t" using scalar_text(3) by auto
  moreover have "rest = [] \<or> hd rest \<in> value_delimiters" using scalar_text(2,4) by (auto simp: value_stops_def)
  ultimately have "takeWhile (\<lambda>c. c \<notin> value_delimiters) (t @ rest) = t"
    using scalar_text(3) by (cases rest) (simp_all add: takeWhile_append2)
  with scalar_text(1,2) show ?case by (cases t) (auto simp: json_value_end_def)
next
  case (array_text t)
  with nested_end_array [OF balanced_transparent, of t rest] show ?case by (simp add: json_value_end_def)
next
  case (object_text t)
  with nested_end_object [OF balanced_transparent, of t rest] show ?case by (simp add: json_value_end_def)
qed

lemma value_text_front: "value_text val \<Longrightarrow> val \<noteq> [] \<and> \<not> json_space (hd val)"
proof (induction rule: value_text.induct)
  case (scalar_text t)
  then have "hd t \<notin> value_delimiters" using hd_in_set by blast
  then show ?case using scalar_text by (auto simp: json_space_def)
qed (simp_all add: json_space_def)

text \<open>Every value that \<open>json.Marshal\<close> prints has such a text.\<close>

lemma balanced_append: "balanced a \<Longrightarrow> balanced b \<Longrightarrow> balanced (a @ b)"
  by (induction rule: balanced.induct) (auto intro: balanced.intros)

lemma balanced_plain: "set t \<inter> set ''{}[]'' = {} \<Longrightarrow> double_quote \<notin> set t \<Longrightarrow> balanced t"
  by (induction t) (auto intro!: balanced.intros)

lemma balanced_join: "(\<And>t. t \<in> set ts \<Longrightarrow> balanced t) \<Longrightarrow> balanced (strings_join ts '','')"
  by (induction ts "'',''" rule: strings_join.induct) (auto intro!: balanced_append balanced_byte intro: balanced_nil)

lemma balanced_json_string: "balanced (json_string s)"
  using json_string_body [of s] balanced_string [OF _ balanced_nil] by auto

lemma balanced_members:
  assumes "\<And>k v. (k, v) \<in> set kvs \<Longrightarrow> balanced (encode_json v)"
    and "set ts = (\<lambda>(k, v). json_string k @ '':'' @ encode_json v) ` set kvs"
  shows "balanced (strings_join ts '','')"
  using assms by (intro balanced_join)
    (auto intro!: balanced_append balanced_byte balanced_json_string)

lemma balanced_json: "plain_numbers v \<Longrightarrow> balanced (encode_json v)"
proof (induction v rule: encode_json.induct)
  case (3 i)
  then show ?case by (auto intro!: balanced_plain dest!: dec_int_bytes number_byte_plain)
next
  case (4 lit)
  then show ?case by (auto simp: list_all_iff intro!: balanced_plain dest!: number_byte_plain)
next
  case (6 vs)
  then have "balanced (strings_join (map encode_json vs) '','')"
    by (intro balanced_join) (auto simp: list_all_iff)
  from balanced_array [OF this balanced_nil] show ?case by simp
next
  case (7 kvs)
  obtain ts where ts: "encode_json (JObj kvs) = ''{'' @ strings_join ts '','' @ ''}''"
    "set ts = (\<lambda>(k, v). json_string k @ '':'' @ encode_json v) ` set kvs"
    using members_text by blast
  have "balanced (encode_json v)" if "(k, v) \<in> set kvs" for k v
    using 7 that by (auto simp: list_all_iff)
  from balanced_object [OF balanced_members [OF this ts(2)] balanced_nil] show ?case unfolding ts(1) by simp
qed (auto intro!: balanced_plain balanced_json_string)

lemma number_text: "t \<noteq> [] \<Longrightarrow> (\<And>c. c \<in> set t \<Longrightarrow> number_byte c) \<Longrightarrow> value_text t"
proof (rule scalar_text)
  assume t: "t \<noteq> []" "\<And>c. c \<in> set t \<Longrightarrow> number_byte c"
  then have "number_byte (hd t)" by simp
  from number_byte_plain [OF this] show "hd t \<notin> {double_quote, CHR ''{'', CHR ''[''}" by auto
  show "set t \<inter> value_delimiters = {}" using number_byte_plain t(2) by blast
qed

lemma printed_value_text:
  assumes "plain_numbers v"
  shows "value_text (encode_json v)"
proof (cases v)
  case (JInt i)
  with number_text [of "dec_int i", OF _ dec_int_bytes] show ?thesis by (simp add: dec_int_def)
next
  case (JReal lit)
  with assms number_text [of lit] show ?thesis by (simp add: list_all_iff)
next
  case (JStr s)
  with json_string_body [of s] string_text show ?thesis by auto
next
  case (JArr vs)
  have "balanced (strings_join (map encode_json vs) '','')"
    using assms JArr by (intro balanced_join) (auto simp: list_all_iff balanced_json)
  from array_text [OF this] JArr show ?thesis by simp
next
  case (JObj kvs)
  obtain ts where ts: "encode_json (JObj kvs) = ''{'' @ strings_join ts '','' @ ''}''"
    "set ts = (\<lambda>(k, v). json_string k @ '':'' @ encode_json v) ` set kvs"
    using members_text by blast
  have "balanced (strings_join ts '','')"
    using assms JObj by (intro balanced_members [OF _ ts(2)]) (auto simp: list_all_iff intro: balanced_json)
  from object_text [OF this] show ?thesis unfolding JObj ts(1) by simp
next
  case (JBool b)
  then show ?thesis by (cases b) (auto intro: scalar_text)
qed (auto intro: scalar_text)

subsection \<open>Fields\<close>

lemma replace_fields_other:
  "c \<noteq> double_quote \<Longrightarrow>
   replace_sensitive_json_fields lib extra (c # s) = c # replace_sensitive_json_fields lib extra s"
  by (subst replace_sensitive_json_fields.simps) (simp only: list.case if_True simp_thms)

text \<open>One sensitive field in front of the text.\<close>

lemma replace_fields_field:
  assumes "json_string_end (lit @ after) = Some (length lit)" and "hd lit = double_quote"
    and "sensitive_field lib extra lit after = Some (before, value)"
  shows "replace_sensitive_json_fields lib extra (lit @ after) =
    before @ [double_quote] @ replacement @ [double_quote] @
    replace_sensitive_json_fields lib extra (drop (json_value_end value) value)"
proof -
  from assms(3) have "lit \<noteq> []" by (auto simp: sensitive_field_def strconv_unquote_def split: option.splits)
  then obtain r where "lit = double_quote # r" using assms(2) by (cases lit) auto
  with assms show ?thesis by (subst replace_sensitive_json_fields.simps) simp
qed

text \<open>
  A string literal, without its quotes, that is the name of a sensitive field, however its bytes
  are escaped; a name a program would give a field, ASCII without quotes, backslashes and line
  feeds, stands for itself.
\<close>

definition sensitive_name :: "text_library \<Rightarrow> string list \<Rightarrow> string \<Rightarrow> bool" where
  "sensitive_name lib extra b \<longleftrightarrow>
     (case strconv_unquote (double_quote # b @ [double_quote]) of
        Some key \<Rightarrow> sensitive_key lib extra key
      | None \<Rightarrow> False)"

definition plain_name :: "string \<Rightarrow> bool" where
  "plain_name k \<longleftrightarrow> list_all (\<lambda>c. is_ascii c \<and> c \<notin> {newline, double_quote, backslash}) k"

lemma plain_name_body: "plain_name k \<Longrightarrow> string_body k"
  by (rule string_body_plain) (auto simp: plain_name_def list_all_iff)

lemma unquote_name: "plain_name k \<Longrightarrow> strconv_unquote (double_quote # k @ [double_quote]) = Some k"
  by (simp add: strconv_unquote_def plain_name_def list_all_iff unquote_plain butlast_append)

lemma plain_sensitive_name: "plain_name k \<Longrightarrow> sensitive_name lib extra k = sensitive_key lib extra k"
  by (simp add: sensitive_name_def unquote_name)

lemma literal_end: "string_body b \<Longrightarrow> json_string_end (double_quote # b @ double_quote # r) = Some (length b + 2)"
  using quote_scan_body [of b r] by (simp add: json_string_end_def)

lemma space_bytes: "json_space c \<longleftrightarrow> c = blank \<or> c = tabulator \<or> c = newline \<or> c = carriage_return"
  by (simp add: json_space_def)

lemma skip_json_space_append:
  "list_all json_space w \<Longrightarrow> s \<noteq> [] \<Longrightarrow> \<not> json_space (hd s) \<Longrightarrow> skip_json_space (w @ s) = s"
  by (induction w) (auto simp: skip_json_space_def neq_Nil_conv)

lemma sensitive_field_value:
  assumes "sensitive_name lib extra b" and "list_all json_space w1" and "list_all json_space w2"
    and "value \<noteq> []" and "\<not> json_space (hd value)"
  shows "sensitive_field lib extra (double_quote # b @ [double_quote]) (w1 @ '':'' @ w2 @ value) =
    Some ((double_quote # b @ [double_quote]) @ w1 @ '':'' @ w2, value)"
proof -
  have "skip_json_space (w1 @ '':'' @ w2 @ value) = '':'' @ w2 @ value"
    using assms(2) by (intro skip_json_space_append) (auto simp: json_space_def)
  moreover have "skip_json_space (w2 @ value) = value"
    using assms by (intro skip_json_space_append)
  ultimately show ?thesis
    using assms(1) by (auto simp: sensitive_field_def sensitive_name_def split: option.split_asm)
qed

text \<open>A field in front of the text, with any text after its value.\<close>

lemma replace_field:
  assumes "string_body b" and "sensitive_name lib extra b" and "list_all json_space w1" and "list_all json_space w2"
    and "value_text val" and "rest = [] \<or> value_stops val rest"
  shows "replace_sensitive_json_fields lib extra
      (double_quote # b @ double_quote # w1 @ '':'' @ w2 @ val @ rest) =
    double_quote # b @ double_quote # w1 @ '':'' @ w2 @ double_quote # replacement @ double_quote #
      replace_sensitive_json_fields lib extra rest"
proof -
  let ?lit = "double_quote # b @ [double_quote]"
  let ?after = "w1 @ '':'' @ w2 @ val @ rest"
  have "json_string_end (?lit @ ?after) = Some (length ?lit)"
    using literal_end [OF assms(1), of ?after] by simp
  moreover have "sensitive_field lib extra ?lit ?after = Some (?lit @ w1 @ '':'' @ w2, val @ rest)"
    using value_text_front [OF assms(5)] by (intro sensitive_field_value assms(2-4)) auto
  ultimately show ?thesis
    using replace_fields_field [of ?lit ?after lib extra] json_value_end_text [OF assms(5,6)] by simp
qed

text \<open>Another string in front of the text.\<close>

definition no_colon :: "string \<Rightarrow> bool" where
  "no_colon r \<longleftrightarrow> dropWhile json_space r = [] \<or> hd (dropWhile json_space r) \<noteq> CHR '':''"

lemma replace_literal:
  assumes "string_body b" and "\<not> sensitive_name lib extra b \<or> no_colon r"
  shows "replace_sensitive_json_fields lib extra (double_quote # b @ double_quote # r) =
    double_quote # b @ double_quote # replace_sensitive_json_fields lib extra r"
proof -
  have "sensitive_field lib extra (double_quote # b @ [double_quote]) r = None"
    using assms(2)
    by (cases "strconv_unquote (double_quote # b @ [double_quote])"; cases "dropWhile json_space r")
      (auto simp del: dropWhile_eq_Nil_conv
        simp: sensitive_field_def sensitive_name_def no_colon_def skip_json_space_def)
  then show ?thesis
    using literal_end [OF assms(1), of r] by (subst replace_sensitive_json_fields.simps) simp
qed

text \<open>
  Text whose quotes are paired, and what is written for it: bytes outside of strings, strings that
  are no sensitive names or no names at all, and sensitive fields.
\<close>

inductive fields_masked :: "text_library \<Rightarrow> string list \<Rightarrow> string \<Rightarrow> string \<Rightarrow> bool" for lib extra where
  no_text: "fields_masked lib extra [] []"
| outside: "fields_masked lib extra r u \<Longrightarrow> c \<noteq> double_quote \<Longrightarrow> fields_masked lib extra (c # r) (c # u)"
| literal: "fields_masked lib extra r u \<Longrightarrow> string_body b \<Longrightarrow> \<not> sensitive_name lib extra b \<or> no_colon r \<Longrightarrow>
    fields_masked lib extra (double_quote # b @ double_quote # r) (double_quote # b @ double_quote # u)"
| field: "fields_masked lib extra r u \<Longrightarrow> string_body b \<Longrightarrow> sensitive_name lib extra b \<Longrightarrow>
    list_all json_space w1 \<Longrightarrow> list_all json_space w2 \<Longrightarrow> value_text val \<Longrightarrow> value_stops val r \<Longrightarrow>
    fields_masked lib extra (double_quote # b @ double_quote # w1 @ '':'' @ w2 @ val @ r)
      (double_quote # b @ double_quote # w1 @ '':'' @ w2 @ double_quote # replacement @ double_quote # u)"

lemma no_colon_append: "no_colon r \<Longrightarrow> no_colon (r @ double_quote # s)"
  by (auto simp: no_colon_def dropWhile_append json_space_def dropWhile_eq_Nil_conv)

lemma replace_fields_masked:
  "fields_masked lib extra pre out \<Longrightarrow>
   replace_sensitive_json_fields lib extra (pre @ double_quote # s) =
     out @ replace_sensitive_json_fields lib extra (double_quote # s)"
proof (induction rule: fields_masked.induct)
  case (literal r u b)
  then have "\<not> sensitive_name lib extra b \<or> no_colon (r @ double_quote # s)" using no_colon_append by blast
  with literal replace_literal [of b lib extra "r @ double_quote # s"] show ?case by simp
next
  case (field r u b w1 w2 val)
  then have "value_stops val (r @ double_quote # s)" by (auto simp: value_stops_def)
  with field replace_field [of b lib extra w1 w2 val "r @ double_quote # s"] show ?case by simp
qed (simp_all add: replace_fields_other)



text \<open>An odd quote before the field: its name is taken for text between strings, and the token stays.\<close>

lemma odd_quote_hides_field:
  "redact_string sample_library [] (''5'' @ [double_quote] @ '' {'' @ [double_quote] @ ''bot_token'' @ [double_quote] @
     '':'' @ [double_quote] @ ''secret'' @ [double_quote] @ ''}'') =
   ''5'' @ [double_quote] @ '' {'' @ [double_quote] @ ''bot_token'' @ [double_quote] @
     '':'' @ [double_quote] @ ''secret'' @ [double_quote] @ ''}''"
  by code_simp

end
