(* ===== verification/JsonRoundTrip.thy ===== *)
theory JsonRoundTrip
  imports RedactProps
begin

section \<open>A printed document is read back\<close>

text \<open>
  What \<open>json.Marshal\<close> writes, the decoder reads: strings come back with invalid bytes
  replaced, the members of an object in the order of their names.  This is what lets the theorems
  about redacted texts speak of the document a reader of the text sees.
\<close>

subsection \<open>Strings\<close>

definition coerce_rune :: "string \<Rightarrow> string" where
  "coerce_rune r = (if rune_ok r then r else replacement_rune)"

lemma rune_ok_take: "s \<noteq> [] \<Longrightarrow> rune_ok (take (rune_size s) s) = rune_ok s"
proof -
  assume s: "s \<noteq> []"
  then obtain c r where c: "s = c # r" by (cases s) auto
  obtain n where n: "rune_size s = Suc n" using rune_size_pos [OF s] by (cases "rune_size s") auto
  show ?thesis using rune_size_take [of s "rune_size s"] c n by (simp add: rune_ok_def)
qed

lemma coerce_runes: "coerce_utf8 s = concat (map coerce_rune (runes s))"
proof (induction s rule: coerce_utf8.induct)
  case (1 s)
  then show ?case
    by (cases "s = []") (simp_all add: coerce_utf8.simps [of s] runes_Cons coerce_rune_def rune_ok_take)
qed

lemma runes_size: "r \<in> set (runes s) \<Longrightarrow> r \<noteq> [] \<and> rune_size r = length r"
proof (induction s rule: runes.induct)
  case (1 s)
  show ?case
  proof (cases "s = []")
    case False
    from "1.prems" runes_Cons [OF False]
    have "r = take (rune_size s) s \<or> r \<in> set (runes (drop (rune_size s) s))" by simp
    moreover have "take (rune_size s) s \<noteq> []" using False rune_size_pos [OF False] by simp
    moreover have "rune_size (take (rune_size s) s) = length (take (rune_size s) s)"
      using rune_size_take [of s "rune_size s"] rune_size_le_length [of s] rune_size_pos [OF False] by simp
    ultimately show ?thesis using "1.IH" [OF False] by (elim disjE) (simp only:, blast)
  qed (use "1.prems" in simp)
qed

text \<open>One escape, and one byte or rune that stands for itself.\<close>

lemma parse_string_escape:
  "json_escape t = Some (b, X) \<Longrightarrow>
   parse_string (backslash # t) = map_option (\<lambda>(u, rest). (b @ u, rest)) (parse_string X)"
  by (subst parse_string.simps) simp

lemma parse_string_rune:
  assumes "r \<noteq> []" and "rune_ok r" and "rune_size r = length r"
    and "hd r \<noteq> double_quote" and "hd r \<noteq> backslash" and "32 \<le> byte_val (hd r)"
  shows "parse_string (r @ X) = map_option (\<lambda>(u, rest). (r @ u, rest)) (parse_string X)"
proof -
  obtain c t where r: "r = c # t" using assms(1) by (cases r) auto
  have size: "rune_size (r @ X) = length r" using rune_size_append [of r X] assms by simp
  have ok: "rune_ok (r @ X)" using rune_ok_append assms by blast
  show ?thesis
    using assms(4-6) size ok by (subst parse_string.simps) (simp add: r)
qed

lemma read_hex_four:
  "read_hex 4 (a # b # c # d # X) =
   (case hex_value 0 [a, b, c, d] of None \<Rightarrow> None | Some v \<Rightarrow> Some (v, X))"
  by (simp only: read_hex_def numeral_eq_Suc pred_numeral_simps length_Cons take_Suc_Cons drop_Suc_Cons
      Suc_less_eq not_less_zero if_False take0 drop0 arith_simps BitM.simps)

lemma unhex_zero: "unhex (CHR ''0'') = Some 0" "unhex (CHR ''2'') = Some 2" "unhex (CHR ''8'') = Some 8"
  "unhex (CHR ''9'') = Some 9" "unhex (CHR ''f'') = Some 15" "unhex (CHR ''d'') = Some 13"
  by (simp_all add: unhex_def is_digit_def)

lemma json_escape_u:
  "map_of json_escapes (CHR ''u'') = None"
  by (simp add: json_escapes_def)

lemma json_escape_hex:
  assumes "hex_value 0 [a, b, c, d] = Some v" and "v < 0xD800 \<or> 0xDC00 \<le> v"
  shows "json_escape (CHR ''u'' # a # b # c # d # X) = Some (encode_rune v, X)"
  using assms by (simp add: json_escape_def json_escape_u read_hex_four)

lemma encode_rune_ascii: "v < 128 \<Longrightarrow> encode_rune v = [char_of v]"
  by (simp add: encode_rune_def valid_rune_def surrogate_def)

lemma encode_special:
  "encode_rune 0xFFFD = replacement_rune"
  "encode_rune 0x2028 = [CHR 0xE2, CHR 0x80, CHR 0xA8]"
  "encode_rune 0x2029 = [CHR 0xE2, CHR 0x80, CHR 0xA9]"
  by (simp_all add: encode_rune_def valid_rune_def surrogate_def replacement_rune_def char_of_eq_iff)

lemma escape_hex:
  "hex_value 0 [a, b, c, d] = Some v \<Longrightarrow> v < 0xD800 \<or> 0xDC00 \<le> v \<Longrightarrow>
   parse_string (backslash # CHR ''u'' # a # b # c # d # X) =
   map_option (\<lambda>(u, rest). (encode_rune v @ u, rest)) (parse_string X)"
  by (rule parse_string_escape [OF json_escape_hex])

lemma escape_u:
  "parse_string ([backslash] @ ''ufffd'' @ X) = map_option (\<lambda>(u, rest). (replacement_rune @ u, rest)) (parse_string X)"
  "parse_string ([backslash] @ ''u2028'' @ X) =
     map_option (\<lambda>(u, rest). ([CHR 0xE2, CHR 0x80, CHR 0xA8] @ u, rest)) (parse_string X)"
  "parse_string ([backslash] @ ''u2029'' @ X) =
     map_option (\<lambda>(u, rest). ([CHR 0xE2, CHR 0x80, CHR 0xA9] @ u, rest)) (parse_string X)"
  using escape_hex [where a = "CHR ''f''" and b = "CHR ''f''" and c = "CHR ''f''" and d = "CHR ''d''" and v = "0xFFFD" and X = X]
    escape_hex [where a = "CHR ''2''" and b = "CHR ''0''" and c = "CHR ''2''" and d = "CHR ''8''" and v = "0x2028" and X = X]
    escape_hex [where a = "CHR ''2''" and b = "CHR ''0''" and c = "CHR ''2''" and d = "CHR ''9''" and v = "0x2029" and X = X]
  by (simp_all add: unhex_zero encode_special)

lemma escape_control:
  assumes "byte_val c < 128"
  shows "parse_string ([backslash] @ ''u00'' @ [hex_digit (byte_val c div 16), hex_digit (byte_val c mod 16)] @ X) =
    map_option (\<lambda>(u, rest). ([c] @ u, rest)) (parse_string X)"
proof -
  have "byte_val c div 16 < (16 :: nat)" "byte_val c mod 16 < (16 :: nat)" using assms by simp_all
  then have "hex_value 0 [CHR ''0'', CHR ''0'', hex_digit (byte_val c div 16), hex_digit (byte_val c mod 16)] = Some (byte_val c)"
    by (simp add: unhex_zero)
  from json_escape_hex [OF this] assms
  have "json_escape (''u00'' @ [hex_digit (byte_val c div 16), hex_digit (byte_val c mod 16)] @ X) = Some ([c], X)"
    by (simp add: encode_rune_ascii)
  from parse_string_escape [OF this] show ?thesis by simp
qed

lemma escape_simple:
  assumes "map_of json_escapes x = Some c"
  shows "parse_string ([backslash, x] @ X) = map_option (\<lambda>(u, rest). ([c] @ u, rest)) (parse_string X)"
  using parse_string_escape [of "x # X" "[c]" X] assms by (simp add: json_escape_def)

lemma parse_escaped_byte:
  assumes "is_ascii c"
  shows "parse_string (escape_rune [c] @ X) = map_option (\<lambda>(u, rest). ([c] @ u, rest)) (parse_string X)"
proof -
  have ok: "rune_ok [c]" and val: "byte_val c < 128" using assms by (simp_all add: rune_ok_def is_ascii_def)
  let ?named = "{double_quote, backslash, CHR 0x08, CHR 0x0C, newline, carriage_return, tabulator}"
  consider "c \<in> ?named" | "c \<notin> ?named" "byte_val c < 32 \<or> c \<in> {CHR ''<'', CHR ''>'', CHR ''&''}"
    | "c \<notin> ?named" "32 \<le> byte_val c" "c \<notin> {CHR ''<'', CHR ''>'', CHR ''&''}"
    by fastforce
  then show ?thesis
  proof cases
    case 1
    then obtain x where "escape_rune [c] = [backslash, x]" "map_of json_escapes x = Some c"
      using ok by (auto simp: escape_rune_def json_escapes_def)
    then show ?thesis using escape_simple by simp
  next
    case 2
    then have "escape_rune [c] = [backslash] @ ''u00'' @ [hex_digit (byte_val c div 16), hex_digit (byte_val c mod 16)]"
      using ok by (simp only: escape_rune_def) simp
    then show ?thesis using escape_control [OF val] by simp
  next
    case 3
    then have "escape_rune [c] = [c]" using ok by (simp only: escape_rune_def) simp
    moreover have "parse_string ([c] @ X) = map_option (\<lambda>(u, rest). ([c] @ u, rest)) (parse_string X)"
      using 3 assms ok by (intro parse_string_rune) simp_all
    ultimately show ?thesis by simp
  qed
qed

lemma parse_escaped_rune:
  assumes "r \<in> set (runes s)"
  shows "parse_string (escape_rune r @ X) = map_option (\<lambda>(u, rest). (coerce_rune r @ u, rest)) (parse_string X)"
proof -
  note r = runes_size [OF assms]
  consider (bad) "\<not> rune_ok r" | (byte) c where "r = [c]" "is_ascii c"
    | (long) "rune_ok r" "length r \<noteq> 1"
    using r by (cases r) (auto simp: rune_ok_def)
  then show ?thesis
  proof cases
    case bad
    then show ?thesis using escape_u(1) by (simp add: escape_rune_def coerce_rune_def)
  next
    case byte
    then show ?thesis using parse_escaped_byte by (simp add: coerce_rune_def rune_ok_def)
  next
    case long
    have high: "\<forall>c\<in>set r. 128 \<le> byte_val c" using runes_high [OF assms] long by simp
    have other: "(case r of [c] \<Rightarrow> u c | _ \<Rightarrow> r) = r" for u
      using long by (auto split: list.split)
    have "128 \<le> byte_val (hd r)" using high r by simp
    then have "parse_string (r @ X) = map_option (\<lambda>(u, rest). (r @ u, rest)) (parse_string X)"
      using long r by (intro parse_string_rune) auto
    then show ?thesis
      using long escape_u(2,3) other by (auto simp: escape_rune_def coerce_rune_def)
  qed
qed

lemma parse_string_runes:
  "(\<And>r. r \<in> set rs \<Longrightarrow> r \<in> set (runes s)) \<Longrightarrow>
   parse_string (concat (map escape_rune rs) @ double_quote # X) = Some (concat (map coerce_rune rs), X)"
proof (induction rs)
  case Nil
  show ?case by (subst parse_string.simps) simp
next
  case (Cons r rs)
  then show ?case using parse_escaped_rune [of r s "concat (map escape_rune rs) @ double_quote # X"] by simp
qed

lemma parse_json_string:
  "parse_string (tl (json_string s) @ X) = Some (coerce_utf8 s, X)"
  using parse_string_runes [of "runes s" s X] by (simp add: json_string_def coerce_runes)

subsection \<open>Numbers\<close>

text \<open>What may follow a number without becoming part of it.\<close>

definition number_stops :: "string \<Rightarrow> bool" where
  "number_stops s \<longleftrightarrow> (case s of [] \<Rightarrow> True | c # r \<Rightarrow> \<not> is_digit c \<and> c \<notin> {CHR ''.'', CHR ''e'', CHR ''E''})"

definition number_literal :: "string \<Rightarrow> bool" where
  "number_literal lit \<longleftrightarrow> parse_number lit = Some (lit, [])"

lemma read_digits_append:
  "read_digits s = Some (ds, t) \<Longrightarrow> number_stops rest \<Longrightarrow> read_digits (s @ rest) = Some (ds, t @ rest)"
proof -
  assume "read_digits s = Some (ds, t)" and stops: "number_stops rest"
  then have ds: "takeWhile is_digit s = ds" "ds \<noteq> []" "dropWhile is_digit s = t"
    by (auto simp: read_digits_def split: list.splits)
  have "takeWhile is_digit (s @ rest) = ds \<and> dropWhile is_digit (s @ rest) = t @ rest"
  proof (cases "\<forall>c\<in>set s. is_digit c")
    case True
    then have "takeWhile is_digit s = s" "dropWhile is_digit s = []"
      by (simp_all add: takeWhile_eq_all_conv dropWhile_eq_Nil_conv)
    with ds have "ds = s" "t = []" by simp_all
    then show ?thesis using True stops by (cases rest) (auto simp: number_stops_def takeWhile_append dropWhile_append)
  next
    case False
    then show ?thesis using ds by (auto simp: takeWhile_append dropWhile_append)
  qed
  then show ?thesis using ds(2) by (simp add: read_digits_def split: list.split)
qed

lemma read_integer_part_append:
  "read_integer_part s = Some (x, t) \<Longrightarrow> number_stops rest \<Longrightarrow> read_integer_part (s @ rest) = Some (x, t @ rest)"
  using read_digits_append [of s x t rest] by (auto simp: read_integer_part_def split: list.splits if_splits)

lemma read_fraction_append:
  "read_fraction s = Some (x, t) \<Longrightarrow> number_stops rest \<Longrightarrow> read_fraction (s @ rest) = Some (x, t @ rest)"
  using read_digits_append [of "tl s" _ t rest]
  by (auto simp: read_fraction_def number_stops_def split: list.splits if_splits)

lemma read_exponent_append:
  "read_exponent s = Some (x, t) \<Longrightarrow> number_stops rest \<Longrightarrow> read_exponent (s @ rest) = Some (x, t @ rest)"
  using read_digits_append [of "tl s" _ t rest] read_digits_append [of "tl (tl s)" _ t rest]
  by (auto simp: read_exponent_def number_stops_def split: list.splits if_splits)

lemma parse_number_append:
  assumes "parse_number s = Some (x, t)" and "number_stops rest"
  shows "parse_number (s @ rest) = Some (x, t @ rest)"
proof (cases s)
  case (Cons c r)
  then show ?thesis
    using assms(1) read_integer_part_append [OF _ assms(2)] read_fraction_append [OF _ assms(2)]
      read_exponent_append [OF _ assms(2)]
    by (cases "c = CHR ''-''") (fastforce simp: parse_number_def Let_def split: option.splits prod.splits)+
qed (use assms in \<open>simp add: parse_number_def read_integer_part_def\<close>)

lemma read_digits_front: "read_digits s = Some (ds, t) \<Longrightarrow> s \<noteq> [] \<and> is_digit (hd s)"
  by (cases s) (auto simp: read_digits_def split: list.splits if_splits)

lemma parse_number_front:
  "parse_number s = Some (x, t) \<Longrightarrow> s \<noteq> [] \<and> (hd s = CHR ''-'' \<or> is_digit (hd s))"
  by (auto simp: parse_number_def read_integer_part_def Let_def is_digit_def dest!: read_digits_front
      split: list.splits option.splits if_splits prod.splits)

lemma parse_scalar_number:
  assumes "number_literal lit" and "number_stops rest"
  shows "parse_scalar (lit @ rest) = Some (JReal lit, rest)"
proof -
  have "parse_number (lit @ rest) = Some (lit, rest)"
    using assms parse_number_append [of lit lit "[]" rest] by (simp add: number_literal_def)
  moreover obtain c r where "lit = c # r" "c = CHR ''-'' \<or> is_digit c"
    using parse_number_front [of lit lit "[]"] assms(1) by (cases lit) (auto simp: number_literal_def)
  ultimately show ?thesis by (auto simp: parse_scalar_def has_prefix_def is_digit_def)
qed

subsection \<open>Values\<close>

text \<open>
  A document as the decoder makes it, nested at most \<open>d\<close> deep, and what is read when it has
  been printed.
\<close>

fun printed_doc :: "nat \<Rightarrow> json \<Rightarrow> bool" where
  "printed_doc d (JInt i) = False"
| "printed_doc d (JReal lit) = number_literal lit"
| "printed_doc d (JArr vs) = (0 < d \<and> list_all (printed_doc (d - 1)) vs)"
| "printed_doc d (JObj kvs) = (0 < d \<and> list_all (\<lambda>(k, v). printed_doc (d - 1) v) kvs)"
| "printed_doc d v = True"

fun reread :: "json \<Rightarrow> json" where
  "reread (JStr s) = JStr (coerce_utf8 s)"
| "reread (JArr vs) = JArr (map reread vs)"
| "reread (JObj kvs) = JObj (map (\<lambda>(k, v). (coerce_utf8 k, v)) (sort_key fst (map (\<lambda>(k, v). (k, reread v)) kvs)))"
| "reread v = v"

text \<open>After a value comes the end of the text or one of the bytes that may follow it.\<close>

definition value_follows :: "string \<Rightarrow> bool" where
  "value_follows s \<longleftrightarrow> (case s of [] \<Rightarrow> True | c # r \<Rightarrow> c \<in> {CHR '','', CHR '']'', CHR ''}''})"

lemma value_follows_number: "value_follows s \<Longrightarrow> number_stops s"
  by (auto simp: value_follows_def number_stops_def is_digit_def split: list.splits)

lemma skip_space_other: "s \<noteq> [] \<Longrightarrow> \<not> json_space (hd s) \<Longrightarrow> skip_space s = s"
  by (cases s) (simp_all add: skip_space_def)

lemma skip_space_simps:
  "skip_space (CHR '','' # s) = CHR '','' # s" "skip_space (CHR '']'' # s) = CHR '']'' # s"
  "skip_space (CHR ''}'' # s) = CHR ''}'' # s" "skip_space (CHR '':'' # s) = CHR '':'' # s"
  "skip_space (double_quote # s) = double_quote # s" "skip_space [] = []"
  "skip_space (CHR ''['' # s) = CHR ''['' # s" "skip_space (CHR ''{'' # s) = CHR ''{'' # s"
  by (simp_all add: skip_space_def json_space_def)

text \<open>\<open>reads n d t v\<close>: with \<open>n\<close> calls and nesting \<open>d\<close>, the text \<open>t\<close> is read as \<open>v\<close>.\<close>

definition reads :: "nat \<Rightarrow> nat \<Rightarrow> string \<Rightarrow> json \<Rightarrow> bool" where
  "reads n d t v \<longleftrightarrow> (\<forall>rest. value_follows rest \<longrightarrow> parse_value n d (t @ rest) = Some (v, rest))"

lemma readsD: "reads n d t v \<Longrightarrow> value_follows rest \<Longrightarrow> parse_value n d (t @ rest) = Some (v, rest)"
  by (simp add: reads_def)

lemma value_follows_simps [simp]:
  "value_follows []" "value_follows (CHR '','' # s)" "value_follows (CHR '']'' # s)" "value_follows (CHR ''}'' # s)"
  by (simp_all add: value_follows_def)

text \<open>Elements and members, once their values are read.\<close>

lemma parse_elements_printed:
  assumes "ts \<noteq> []" and "list_all2 (\<lambda>t v. t \<noteq> [] \<and> (\<forall>n. 2 * length t \<le> n \<longrightarrow> reads n d t v)) ts vs"
    and "2 * length (strings_join ts '','') < n"
  shows "parse_elements n d acc (strings_join ts '','' @ '']'' @ rest) = Some (JArr (acc @ vs), rest)"
  using assms
proof (induction ts "'',''" arbitrary: n acc vs rule: strings_join.induct)
  case (2 x)
  then obtain v m where v: "vs = [v]" "n = Suc m" by (cases n) (auto simp: list_all2_Cons1)
  with 2 have "reads m d x v" by auto
  from readsD [OF this, of "'']'' @ rest"] show ?case by (simp add: v skip_space_simps)
next
  case (3 x y ys)
  then obtain v vs' m where v: "vs = v # vs'" "n = Suc m" by (cases n) (auto simp: list_all2_Cons1)
  with 3 have "reads m d x v" by auto
  from readsD [OF this, of "'','' @ strings_join (y # ys) '','' @ '']'' @ rest"]
  have "parse_elements n d acc (strings_join (x # y # ys) '','' @ '']'' @ rest) =
      parse_elements m d (acc @ [v]) (strings_join (y # ys) '','' @ '']'' @ rest)"
    by (simp add: v skip_space_simps)
  also have "\<dots> = Some (JArr ((acc @ [v]) @ vs'), rest)"
    using 3 v by (intro "3.hyps") auto
  finally show ?case using v by simp
qed simp

lemma json_string_front: "json_string k = double_quote # tl (json_string k)"
  by (simp add: json_string_def)

lemma parse_members_printed:
  assumes "kts \<noteq> []"
    and "list_all2 (\<lambda>(k, t) (l, v). l = coerce_utf8 k \<and> t \<noteq> [] \<and> (\<forall>n. 2 * length t \<le> n \<longrightarrow> reads n d t v)) kts kvs"
    and "2 * length (strings_join (map (\<lambda>(k, t). json_string k @ '':'' @ t) kts) '','') < n"
  shows "parse_members n d acc (strings_join (map (\<lambda>(k, t). json_string k @ '':'' @ t) kts) '','' @ ''}'' @ rest) =
    Some (JObj (acc @ kvs), rest)"
  using assms
proof (induction kts arbitrary: n acc kvs)
  case (Cons kt kts)
  obtain k t where kt: "kt = (k, t)" by fastforce
  obtain v kvs' m where v: "kvs = (coerce_utf8 k, v) # kvs'" "n = Suc m"
    using Cons.prems kt by (cases n) (auto simp: list_all2_Cons1)
  have name: "parse_string (tl (json_string k) @ X) = Some (coerce_utf8 k, X)" for X by (rule parse_json_string)
  have step: "parse_members n d acc (json_string k @ '':'' @ t @ more) =
      (case skip_space more of [] \<Rightarrow> None
       | c # r' \<Rightarrow> if c = CHR '','' then parse_members m d (acc @ [(coerce_utf8 k, v)]) r'
                  else if c = CHR ''}'' then Some (JObj (acc @ [(coerce_utf8 k, v)]), r') else None)"
    if "value_follows more" "reads m d t v" for more
    unfolding v(2) using name readsD [OF that(2,1)]
    by (subst json_string_front) (simp add: skip_space_simps)
  show ?case
  proof (cases kts)
    case Nil
    with Cons.prems kt v have "reads m d t v" "kvs' = []" by auto
    with step [of "''}'' @ rest"] show ?thesis by (simp add: Nil kt v skip_space_simps)
  next
    case (Cons kt' kts')
    let ?join = "strings_join (map (\<lambda>(k, t). json_string k @ '':'' @ t) kts) '',''"
    have join: "strings_join (map (\<lambda>(k, t). json_string k @ '':'' @ t) (kt # kts)) '','' = json_string k @ '':'' @ t @ '','' @ ?join"
      by (simp add: kt Cons split: prod.split)
    have "reads m d t v" using Cons.prems unfolding join using kt v by auto
    with step [of "'','' @ ?join @ ''}'' @ rest"]
    have "parse_members n d acc (json_string k @ '':'' @ t @ '','' @ ?join @ ''}'' @ rest) =
        parse_members m d (acc @ [(coerce_utf8 k, v)]) (?join @ ''}'' @ rest)"
      by (simp add: skip_space_simps)
    also have "\<dots> = Some (JObj ((acc @ [(coerce_utf8 k, v)]) @ kvs'), rest)"
      using Cons.prems kt v Cons unfolding join by (intro Cons.IH) auto
    finally show ?thesis unfolding join by (simp add: v)
  qed
qed simp

text \<open>Sorting by name does not look at what the names stand for.\<close>

lemma sort_key_map_snd:
  "sort_key fst (map (\<lambda>(k, v). (k, f v)) kvs) = map (\<lambda>(k, v). (k, f v)) (sort_key fst kvs)"
proof -
  have "insort_key fst (k, f v) (map (\<lambda>(k, v). (k, f v)) xs) = map (\<lambda>(k, v). (k, f v)) (insort_key fst (k, v) xs)"
    for k v and xs :: "('a \<times> 'c) list"
    by (induction xs) auto
  then show ?thesis by (induction kvs) auto
qed

lemma encode_json_printed_front:
  "printed_doc d v \<Longrightarrow> encode_json v \<noteq> [] \<and> \<not> json_space (hd (encode_json v)) \<and> hd (encode_json v) \<noteq> CHR '']''"
  using parse_number_front
  by (cases v) (auto simp: number_literal_def space_bytes is_digit_def json_string_def dest!: parse_number_front)

lemma reads_scalar:
  assumes "t \<noteq> []" and "\<not> json_space (hd t)" and "hd t \<notin> {double_quote, CHR ''['', CHR ''{''}"
    and "\<And>rest. value_follows rest \<Longrightarrow> parse_scalar (t @ rest) = Some (v, rest)" and "0 < n"
  shows "reads n d t v"
proof -
  obtain c r m where t: "t = c # r" "n = Suc m" using assms(1,5) by (cases t; cases n) auto
  have "skip_space (t @ rest) = t @ rest" for rest
    using assms(1,2) by (intro skip_space_other) simp_all
  then show ?thesis using assms(3,4) t by (auto simp: reads_def)
qed

lemma join_front:
  "ts \<noteq> [] \<Longrightarrow> hd ts \<noteq> [] \<Longrightarrow> \<exists>more. strings_join ts sep = hd ts @ more"
  by (cases ts rule: strings_join.cases [of "(ts, sep)" for ts]; cases ts) (auto elim: strings_join.elims)

lemma members_read:
  "(\<And>k v. (k, v) \<in> set kvs \<Longrightarrow> encode_json v \<noteq> [] \<and>
      (\<forall>n. 2 * length (encode_json v) \<le> n \<longrightarrow> reads n d (encode_json v) (reread v))) \<Longrightarrow>
   list_all2 (\<lambda>(k, t) (l, v). l = coerce_utf8 k \<and> t \<noteq> [] \<and> (\<forall>n. 2 * length t \<le> n \<longrightarrow> reads n d t v))
     (map (\<lambda>(k, v). (k, encode_json v)) kvs) (map (\<lambda>(k, v). (coerce_utf8 k, reread v)) kvs)"
  by (induction kvs) auto

lemma members_front:
  "kts \<noteq> [] \<Longrightarrow>
   \<exists>more. strings_join (map (\<lambda>(k, t). json_string k @ '':'' @ t) kts) '','' = double_quote # more"
  by (cases kts; cases "tl kts") (auto simp: json_string_def)

lemma printed_reads:
  "printed_doc d v \<Longrightarrow> 2 * length (encode_json v) \<le> n \<Longrightarrow> reads n d (encode_json v) (reread v)"
proof (induction v arbitrary: d n rule: encode_json.induct)
  case (4 lit)
  then have lit: "number_literal lit" by simp
  then have "lit \<noteq> []" "\<not> json_space (hd lit)" "hd lit = CHR ''-'' \<or> is_digit (hd lit)"
    using parse_number_front [of lit lit "[]"] encode_json_printed_front [OF "4.prems"(1)]
    by (auto simp: number_literal_def)
  with "4.prems" parse_scalar_number [OF lit value_follows_number] show ?case
    by (cases n) (auto intro!: reads_scalar simp: is_digit_def)
next
  case (5 s)
  then obtain m where "n = Suc m" by (cases n) (auto simp: json_string_def)
  then show ?case
    using parse_json_string [of s] by (simp add: reads_def) (subst json_string_front, simp add: skip_space_simps)
next
  case (6 vs)
  show ?case
  proof (cases "vs = []")
    case False
    obtain m where n: "n = Suc m" using "6.prems" by (cases n) auto
    let ?ts = "map encode_json vs"
    have "list_all2 (\<lambda>t v. t \<noteq> [] \<and> (\<forall>n. 2 * length t \<le> n \<longrightarrow> reads n (d - 1) t v)) ?ts (map reread vs)"
      using 6 encode_json_printed_front by (auto simp: list_all2_conv_all_nth list_all_length)
    then have "parse_elements m (d - 1) [] (strings_join ?ts '','' @ '']'' @ rest) = Some (JArr (map reread vs), rest)" for rest
      using parse_elements_printed [of ?ts "d - 1" "map reread vs" m "[]" rest] False "6.prems" n by simp
    moreover have "take 1 (skip_space (strings_join ?ts '','' @ '']'' @ rest)) \<noteq> '']''" for rest
    proof -
      have first: "encode_json (hd vs) \<noteq> []" "\<not> json_space (hd (encode_json (hd vs)))" "hd (encode_json (hd vs)) \<noteq> CHR '']''"
        using encode_json_printed_front [of "d - 1" "hd vs"] "6.prems" False by (auto simp: list_all_iff)
      then obtain more where "strings_join ?ts '','' = encode_json (hd vs) @ more"
        using join_front [of ?ts "'',''"] False by (auto simp: hd_map)
      with first show ?thesis by (cases "encode_json (hd vs)") (simp_all add: skip_space_def)
    qed
    ultimately show ?thesis using "6.prems" by (simp add: reads_def n skip_space_simps)
  qed (use "6.prems" in \<open>cases n; simp add: reads_def skip_space_simps\<close>)
next
  case (7 kvs)
  let ?sorted = "sort_key fst kvs"
  let ?kts = "map (\<lambda>(k, v). (k, encode_json v)) ?sorted"
  let ?join = "strings_join (map (\<lambda>(k, t). json_string k @ '':'' @ t) ?kts) '',''"
  have shown: "encode_json (JObj kvs) = ''{'' @ ?join @ ''}''"
    by (simp add: sort_key_map_snd)
  have doc: "reread (JObj kvs) = JObj (map (\<lambda>(k, v). (coerce_utf8 k, reread v)) ?sorted)"
    by (simp add: sort_key_map_snd case_prod_beta)
  show ?case
  proof (cases "kvs = []")
    case False
    then have ne: "?kts \<noteq> []" by (metis length_0_conv length_map length_sort)
    obtain m where n: "n = Suc m" using "7.prems" by (cases n) auto
    have "list_all2 (\<lambda>(k, t) (l, v). l = coerce_utf8 k \<and> t \<noteq> [] \<and> (\<forall>n. 2 * length t \<le> n \<longrightarrow> reads n (d - 1) t v))
        ?kts (map (\<lambda>(k, v). (coerce_utf8 k, reread v)) ?sorted)"
      using 7 encode_json_printed_front by (intro members_read) (force simp: list_all_iff)
    moreover have "2 * length ?join < m" using "7.prems" unfolding shown n by simp
    ultimately have "parse_members m (d - 1) [] (?join @ ''}'' @ rest) =
        Some (JObj (map (\<lambda>(k, v). (coerce_utf8 k, reread v)) ?sorted), rest)" for rest
      using parse_members_printed [OF ne] by simp
    moreover have "take 1 (skip_space (?join @ ''}'' @ rest)) \<noteq> ''}''" for rest
      using members_front [OF ne] by (auto simp: skip_space_simps)
    ultimately show ?thesis using "7.prems"(1) unfolding shown doc
      by (simp add: reads_def n skip_space_simps)
  qed (use "7.prems" in \<open>cases n; simp add: reads_def skip_space_simps\<close>)
qed (auto intro!: reads_scalar simp: space_bytes parse_scalar_def has_prefix_def)

text \<open>What \<open>Marshal\<close> prints for a document is decoded to it.\<close>

lemma parse_json_encode:
  assumes "printed_doc max_json_depth v"
  shows "parse_json (encode_json v) = Some (reread v, [])"
  using readsD [OF printed_reads [OF assms], of "2 * length (encode_json v) + 2" "[]"]
  by (simp add: parse_json_def)

lemma decode_json_encode:
  "printed_doc max_json_depth v \<Longrightarrow> decode_json (encode_json v) = Some (as_any (reread v))"
  by (simp add: decode_json_def parse_json_encode skip_space_def)

subsection \<open>What the decoder makes\<close>

lemma one_rune_valid: "s \<noteq> [] \<Longrightarrow> rune_ok s \<Longrightarrow> rune_size s = length s \<Longrightarrow> valid_utf8 s"
  by (cases s; cases "length (tl s)") (simp_all add: valid_utf8_def)

lemma two_byte_valid:
  assumes "byte_val a = x" "byte_val b = y" and "194 \<le> x" "x \<le> 223" "128 \<le> y" "y \<le> 191"
  shows "valid_utf8 [a, b]"
  using assms by (intro one_rune_valid) (simp_all add: rune_ok_def rune_size_def Let_def)

lemma three_byte_valid:
  assumes "byte_val a = x" "byte_val b = y" "byte_val c = z"
    and "224 \<le> x" "x \<le> 239" "128 \<le> y" "y \<le> 191" "128 \<le> z" "z \<le> 191" "x = 224 \<longrightarrow> 160 \<le> y" "x = 237 \<longrightarrow> y \<le> 159"
  shows "valid_utf8 [a, b, c]"
proof -
  consider "x = 224" | "x = 237" | "225 \<le> x" "x \<noteq> 237" using assms(4) by linarith
  then have "rune_size [a, b, c] = 3"
    using assms by cases (simp_all add: rune_size_def Let_def)
  then show ?thesis by (intro one_rune_valid) (simp_all add: rune_ok_def)
qed

lemma four_byte_valid:
  assumes "byte_val a = x" "byte_val b = y" "byte_val c = z" "byte_val d = w"
    and "240 \<le> x" "x \<le> 244" "128 \<le> y" "y \<le> 191" "128 \<le> z" "z \<le> 191" "128 \<le> w" "w \<le> 191"
      "x = 240 \<longrightarrow> 144 \<le> y" "x = 244 \<longrightarrow> y \<le> 143"
  shows "valid_utf8 [a, b, c, d]"
proof -
  consider "x = 240" | "x = 244" | "241 \<le> x" "x \<le> 243" using assms(5,6) by linarith
  then have "rune_size [a, b, c, d] = 4"
    using assms by cases (simp_all add: rune_size_def Let_def)
  then show ?thesis by (intro one_rune_valid) (simp_all add: rune_ok_def)
qed

lemma replacement_valid: "valid_utf8 replacement_rune"
  unfolding replacement_rune_def by (rule three_byte_valid [OF refl refl refl]) simp_all

lemma encode_rune_valid: "valid_utf8 (encode_rune v)"
proof (cases "valid_rune v")
  case True
  then have v: "v \<le> 0x10FFFF" "\<not> (0xD800 \<le> v \<and> v < 0xE000)" by (auto simp: valid_rune_def surrogate_def)
  consider "v < 0x80" | "0x80 \<le> v" "v < 0x800" | "0x800 \<le> v" "v < 0x10000" | "0x10000 \<le> v" by linarith
  then show ?thesis
  proof cases
    case 1
    then show ?thesis by (simp add: encode_rune_ascii valid_utf8_ascii is_ascii_def)
  next
    case 2
    have "valid_utf8 [char_of (0xC0 + v div 64), char_of (0x80 + v mod 64)]"
      by (rule two_byte_valid [of _ "0xC0 + v div 64" _ "0x80 + v mod 64"]) (use 2 in simp_all)
    with 2 True show ?thesis by (simp add: encode_rune_def)
  next
    case 3
    have mid: "v div 64 mod 64 \<le> 31" if "v div 4096 = 13"
    proof -
      have "v < 55296" using that v by linarith
      moreover have "v div 64 div 64 = 13" using that by (simp add: div_mult2_eq [symmetric])
      moreover have "v div 64 = 64 * (v div 64 div 64) + v div 64 mod 64" by simp
      ultimately show ?thesis by linarith
    qed
    have "valid_utf8 [char_of (0xE0 + v div 4096), char_of (0x80 + v div 64 mod 64), char_of (0x80 + v mod 64)]"
      by (rule three_byte_valid [of _ "0xE0 + v div 4096" _ "0x80 + v div 64 mod 64" _ "0x80 + v mod 64"])
        (use 3 v mid in simp_all, linarith?)
    with 3 True show ?thesis by (simp add: encode_rune_def)
  next
    case 4
    have mid: "v div 4096 mod 64 \<le> 15" if "v div 262144 = 4"
    proof -
      have "v div 4096 \<le> 271" using v by linarith
      moreover have "v div 4096 div 64 = 4" using that by (simp add: div_mult2_eq [symmetric])
      moreover have "v div 4096 = 64 * (v div 4096 div 64) + v div 4096 mod 64" by simp
      ultimately show ?thesis by linarith
    qed
    have "valid_utf8 [char_of (0xF0 + v div 262144), char_of (0x80 + v div 4096 mod 64),
            char_of (0x80 + v div 64 mod 64), char_of (0x80 + v mod 64)]"
      by (rule four_byte_valid [of _ "0xF0 + v div 262144" _ "0x80 + v div 4096 mod 64" _ "0x80 + v div 64 mod 64" _ "0x80 + v mod 64"])
        (use 4 v mid in simp_all, linarith?)
    with 4 True show ?thesis by (simp add: encode_rune_def)
  qed
qed (simp add: encode_rune_def replacement_valid)

lemma rune_valid: "s \<noteq> [] \<Longrightarrow> rune_ok s \<Longrightarrow> valid_utf8 (take (rune_size s) s)"
  using rune_size_take [of s "rune_size s"] rune_size_pos [of s] rune_size_le_length [of s]
  by (intro one_rune_valid) (auto simp: rune_ok_take)

lemma json_escape_valid: "json_escape s = Some (b, t) \<Longrightarrow> valid_utf8 b"
proof -
  assume esc: "json_escape s = Some (b, t)"
  have ascii: "valid_utf8 [x]" if "map_of json_escapes c = Some x" for c x
    using that by (intro valid_utf8_ascii) (auto simp: json_escapes_def is_ascii_def split: if_splits)
  show ?thesis
    using esc ascii encode_rune_valid replacement_valid
    by (auto simp: json_escape_def split: list.splits option.splits if_splits prod.splits)
qed

lemma parse_string_valid: "parse_string s = Some (u, rest) \<Longrightarrow> valid_utf8 u"
proof (induction s arbitrary: u rest rule: parse_string.induct)
  case (1 s)
  show ?case
  proof (cases s)
    case (Cons c r)
    have parts: "valid_utf8 ((if rune_ok s then take (rune_size s) s else replacement_rune) @ x)" if "valid_utf8 x" for x
      using that rune_valid [of s] replacement_valid Cons by (auto intro!: valid_utf8_append)
    consider "c = double_quote" | b t where "c = backslash" "json_escape r = Some (b, t)"
      | "c \<noteq> double_quote" "c \<noteq> backslash" "\<not> byte_val c < 32"
      using "1.prems" Cons by (subst (asm) parse_string.simps) (auto split: if_splits option.splits)
    then show ?thesis
    proof cases
      case 1
      then show ?thesis using "1.prems" Cons by (subst (asm) parse_string.simps) simp
    next
      case 2
      then obtain x where "parse_string t = Some (x, rest)" "u = b @ x"
        using "1.prems" Cons by (subst (asm) parse_string.simps) auto
      then show ?thesis using "1.IH"(1) Cons 2 json_escape_valid [OF 2(2)] valid_utf8_append by auto
    next
      case 3
      then obtain x where "parse_string (drop (rune_size s) s) = Some (x, rest)"
          "u = (if rune_ok s then take (rune_size s) s else replacement_rune) @ x"
        using "1.prems" Cons by (subst (asm) parse_string.simps) auto
      then show ?thesis using "1.IH"(2) [OF Cons] 3 parts by blast
    qed
  qed (use "1.prems" in \<open>simp add: parse_string.simps\<close>)
qed

text \<open>A number that was read is a number literal of its own.\<close>

lemma read_digits_alt:
  "read_digits s = (if takeWhile is_digit s = [] then None else Some (takeWhile is_digit s, dropWhile is_digit s))"
  by (simp add: read_digits_def split: list.split)

lemma read_digits_self:
  assumes "read_digits s = Some (ds, t)"
  shows "read_digits ds = Some (ds, [])" and "s = ds @ t"
proof -
  have ds: "ds = takeWhile is_digit s" "ds \<noteq> []" "t = dropWhile is_digit s"
    using assms by (auto simp: read_digits_def split: list.splits)
  have "takeWhile is_digit ds = ds" unfolding ds(1) by (rule takeWhile_idem)
  moreover have "dropWhile is_digit ds = []" unfolding ds(1) by (auto simp: dropWhile_eq_Nil_conv dest: set_takeWhileD)
  ultimately show "read_digits ds = Some (ds, [])" using ds(2) by (simp only: read_digits_alt if_False)
  show "s = ds @ t" unfolding ds(1,3) by (rule takeWhile_dropWhile_id [symmetric])
qed

text \<open>Each part of a number, read again in front of a part that does not extend it.\<close>

lemma read_digits_again:
  "read_digits s = Some (ds, t) \<Longrightarrow> (u = [] \<or> \<not> is_digit (hd u)) \<Longrightarrow> read_digits (ds @ u) = Some (ds, u)"
proof -
  assume a: "read_digits s = Some (ds, t)" "u = [] \<or> \<not> is_digit (hd u)"
  then have ds: "ds \<noteq> []" "\<forall>c\<in>set ds. is_digit c"
    by (auto simp: read_digits_def dest: set_takeWhileD split: list.splits)
  have "takeWhile is_digit (ds @ u) = ds \<and> dropWhile is_digit (ds @ u) = u"
    using a(2) ds(2) by (cases u) (auto simp: takeWhile_append dropWhile_append takeWhile_eq_all_conv dropWhile_eq_Nil_conv)
  then show ?thesis using ds(1) by (simp only: read_digits_alt if_False)
qed

lemma read_digits_result: "read_digits s = Some (ds, t) \<Longrightarrow> read_digits ds = Some (ds, []) \<and> ds \<noteq> [] \<and> is_digit (hd ds)"
  using read_digits_self(1) read_digits_front by blast

lemma read_integer_again:
  "read_integer_part s = Some (i, t) \<Longrightarrow> (u = [] \<or> \<not> is_digit (hd u)) \<Longrightarrow> read_integer_part (i @ u) = Some (i, u)"
  using read_digits_again [of s i t u] read_digits_front [of s i t]
  by (auto simp: read_integer_part_def split: list.splits if_splits)
    (auto simp: read_digits_def split: list.splits if_splits)

lemma read_fraction_again:
  "read_fraction s = Some (f, t) \<Longrightarrow> (u = [] \<or> \<not> is_digit (hd u) \<and> hd u \<noteq> CHR ''.'') \<Longrightarrow>
   read_fraction (f @ u) = Some (f, u)"
  using read_digits_again [of "tl s" "tl f" t u]
  by (cases u) (auto simp: read_fraction_def split: list.splits if_splits)

lemma read_exponent_self: "read_exponent s = Some (e, t) \<Longrightarrow> read_exponent e = Some (e, [])"
  using read_digits_result [of "tl s" "tl e" t] read_digits_result [of "tl (tl s)" "tl (tl e)" t]
  by (auto simp: read_exponent_def is_digit_def split: list.splits if_splits)

lemma fraction_front: "read_fraction s = Some (f, t) \<Longrightarrow> f = [] \<or> hd f = CHR ''.''"
  by (auto simp: read_fraction_def split: list.splits if_splits)

lemma exponent_front: "read_exponent s = Some (e, t) \<Longrightarrow> e = [] \<or> hd e = CHR ''e'' \<or> hd e = CHR ''E''"
  by (auto simp: read_exponent_def split: list.splits if_splits)

lemma integer_front: "read_integer_part s = Some (i, t) \<Longrightarrow> i \<noteq> [] \<and> hd i \<noteq> CHR ''-''"
  using read_digits_self(2) [of s i t] read_digits_front [of s i t]
  by (auto simp: read_integer_part_def is_digit_def read_digits_def split: list.splits if_splits)

lemma parse_number_literal:
  assumes "parse_number s = Some (lit, rest)"
  shows "number_literal lit"
proof -
  obtain sign r i r1 f r2 e where parts: "read_integer_part r = Some (i, r1)" "read_fraction r1 = Some (f, r2)"
      "read_exponent r2 = Some (e, rest)" "lit = sign @ i @ f @ e" "sign = [] \<or> sign = ''-''"
    using assms by (auto simp: parse_number_def Let_def split: list.splits option.splits if_splits prod.splits)
  note front = fraction_front [OF parts(2)] exponent_front [OF parts(3)] integer_front [OF parts(1)]
  have "read_integer_part (i @ f @ e) = Some (i, f @ e)"
    using front by (intro read_integer_again [OF parts(1)]) (auto simp: hd_append is_digit_def)
  moreover have "read_fraction (f @ e) = Some (f, e)"
    using front by (intro read_fraction_again [OF parts(2)]) (auto simp: is_digit_def)
  moreover have "read_exponent e = Some (e, [])" by (rule read_exponent_self [OF parts(3)])
  ultimately show ?thesis
    using parts(4,5) front(3) by (cases i) (auto simp: number_literal_def parse_number_def)
qed

text \<open>The names of all members are UTF-8.\<close>

fun names_valid :: "json \<Rightarrow> bool" where
  "names_valid (JArr vs) = list_all names_valid vs"
| "names_valid (JObj kvs) = list_all (\<lambda>(k, v). valid_utf8 k \<and> names_valid v) kvs"
| "names_valid v = True"

abbreviation good_doc :: "nat \<Rightarrow> json \<Rightarrow> bool" where
  "good_doc d v \<equiv> printed_doc d v \<and> names_valid v"

lemma parse_scalar_good: "parse_scalar s = Some (v, r) \<Longrightarrow> good_doc d v"
  by (auto simp: parse_scalar_def parse_number_literal split: if_splits)

lemma parse_value_cases:
  assumes "parse_value (Suc n) d s = Some (v, r)"
  obtains (scalar) x where "v = JStr x" | (empty_array) "v = JArr []" "0 < d" | (empty_object) "v = JObj []" "0 < d"
    | (array) c t where "skip_space s = c # t" "c = CHR ''[''" "0 < d" "take 1 (skip_space t) \<noteq> '']''"
        "parse_elements n (d - 1) [] t = Some (v, r)"
    | (members) c t where "skip_space s = c # t" "c = CHR ''{''" "0 < d" "take 1 (skip_space t) \<noteq> ''}''"
        "parse_members n (d - 1) [] t = Some (v, r)"
    | (other) c t where "parse_scalar (c # t) = Some (v, r)"
  using assms by (auto split: list.splits if_splits)

lemma parse_elements_cases:
  assumes "parse_elements (Suc n) d vs s = Some (v, r)"
  obtains (last) w t where "parse_value n d s = Some (w, t)" "v = JArr (vs @ [w])"
    | (more) w t c t' where "parse_value n d s = Some (w, t)" "skip_space t = c # t'" "c = CHR '',''"
        "parse_elements n d (vs @ [w]) t' = Some (v, r)"
  using assms by (auto split: option.splits list.splits if_splits)

lemma parse_members_cases:
  assumes "parse_members (Suc n) d kvs s = Some (v, r)"
  obtains (last) k t w t' where "take 1 (skip_space s) = [double_quote]" "parse_string (tl (skip_space s)) = Some (k, t)"
        "take 1 (skip_space t) = '':''" "parse_value n d (tl (skip_space t)) = Some (w, t')" "v = JObj (kvs @ [(k, w)])"
    | (more) k t w t' c t'' where "take 1 (skip_space s) = [double_quote]" "parse_string (tl (skip_space s)) = Some (k, t)"
        "take 1 (skip_space t) = '':''" "parse_value n d (tl (skip_space t)) = Some (w, t')" "skip_space t' = c # t''"
        "c = CHR '',''" "parse_members n d (kvs @ [(k, w)]) t'' = Some (v, r)"
  using assms by (auto split: option.splits list.splits if_splits)

lemma parsed_good:
  "parse_value n d s = Some (v, r) \<Longrightarrow> good_doc d v"
  "parse_elements n d vs s = Some (v, r) \<Longrightarrow> list_all (good_doc d) vs \<Longrightarrow>
     \<exists>ws. v = JArr ws \<and> list_all (good_doc d) ws"
  "parse_members n d kvs s = Some (v, r) \<Longrightarrow> list_all (\<lambda>x. valid_utf8 (fst x) \<and> good_doc d (snd x)) kvs \<Longrightarrow>
     \<exists>lws. v = JObj lws \<and> list_all (\<lambda>x. valid_utf8 (fst x) \<and> good_doc d (snd x)) lws"
proof (induction n arbitrary: d s v r vs kvs)
  case (Suc n)
  {
  case 1
  then show ?case
  proof (cases rule: parse_value_cases)
    case array
    from Suc.IH(2) [OF array(5)] array(3) show ?thesis by (auto simp: list_all_iff)
  next
    case members
    from Suc.IH(3) [OF members(5)] members(3) show ?thesis by (auto simp: list_all_iff case_prod_beta)
  qed (use parse_scalar_good in simp_all)
  }
  {
  case 2
  from 2(1) show ?case
  proof (cases rule: parse_elements_cases)
    case last
    with Suc.IH(1) [OF last(1)] 2(2) show ?thesis by simp
  next
    case more
    with Suc.IH(1) [OF more(1)] 2(2) Suc.IH(2) [OF more(4)] show ?thesis by simp
  qed
  }
  {
  case 3
  from 3(1) show ?case
  proof (cases rule: parse_members_cases)
    case last
    with Suc.IH(1) [OF last(4)] parse_string_valid [OF last(2)] 3(2) show ?thesis by simp
  next
    case more
    with Suc.IH(1) [OF more(4)] parse_string_valid [OF more(2)] 3(2) Suc.IH(3) [OF more(7)] show ?thesis by simp
  qed
  }
qed simp_all

lemma set_fold_update: "set (fold (\<lambda>(k, v). AList.update k v) kvs acc) \<subseteq> set kvs \<union> set acc"
proof (induction kvs arbitrary: acc)
  case (Cons x kvs)
  obtain k v where x: "x = (k, v)" by fastforce
  have "set (AList.update k v acc) \<subseteq> insert (k, v) (set acc)" by (induction acc) auto
  with Cons [of "AList.update k v acc"] show ?case by (auto simp: x)
qed simp

lemma as_any_members:
  "x \<in> set (fold (\<lambda>(k, v). AList.update k v) (map (\<lambda>(k, v). (k, as_any v)) kvs) []) \<Longrightarrow>
   \<exists>k v. (k, v) \<in> set kvs \<and> x = (k, as_any v)"
  using set_fold_update [of "map (\<lambda>(k, v). (k, as_any v)) kvs" "[]"] by force

lemma as_any_good: "good_doc d v \<Longrightarrow> good_doc d (as_any v)"
proof (induction v arbitrary: d rule: as_any.induct)
  case (2 kvs)
  have "\<exists>k v. (k, v) \<in> set kvs \<and> x = (k, as_any v)"
    if "x \<in> set (fold (\<lambda>(k, v). AList.update k v) (map (\<lambda>(k, v). (k, as_any v)) kvs) [])" for x
    using as_any_members [OF that] .
  with 2 show ?case by (fastforce simp: list_all_iff)
qed (auto simp: list_all_iff)

lemma decoded_good:
  assumes "decode_json s = Some v"
  shows "good_doc max_json_depth v"
proof -
  obtain w r where "parse_value (2 * length s + 2) max_json_depth s = Some (w, r)" "v = as_any w"
    using assms by (auto simp: decode_json_def parse_json_def split: option.splits if_splits)
  then show ?thesis using parsed_good(1) as_any_good by blast
qed

end
