(* ===== verification/RedactDocument.thy ===== *)
theory RedactDocument
  imports JsonRoundTrip
begin

section \<open>Redacted documents\<close>

text \<open>
  \<open>redact.String\<close> on a JSON document, end to end: from the text that comes in to the document a
  reader of the redacted text decodes.
\<close>

lemma redact_value_good: "good_doc d v \<Longrightarrow> good_doc d (redact_value lib extra v)"
  by (induction lib extra v arbitrary: d rule: redact_value.induct) (fastforce simp: list_all_iff)+

lemma coerce_replacement: "coerce_utf8 replacement = replacement"
  by (rule coerce_valid, rule valid_utf8_ascii) (simp add: replacement_def is_ascii_def)

lemma reread_masked: "names_valid v \<Longrightarrow> masked lib extra v \<Longrightarrow> masked lib extra (reread v)"
proof (induction v rule: reread.induct)
  case (3 kvs)
  have "reread v = JStr replacement" if "v = JStr replacement" for v
    using that by (simp add: coerce_replacement)
  with 3 show ?case by (fastforce simp: list_all_iff split: if_splits)
qed (auto simp: list_all_iff)

lemma redact_string_document:
  "decode_json s = Some v \<Longrightarrow> redact_string lib extra s = encode_json (redact_value lib extra v)"
  by (cases "s = []") (simp_all add: redact_string_def)

subsection \<open>What the redacted document has to be\<close>

text \<open>
  The document with every sensitive member masked, said of two documents without the functions
  that redact, print and read them.  Objects have the same names, in their order, and each member
  is the replacement or the masked old one; arrays agree element by element; numbers, truth values
  and nulls are the same.  A string is what \<open>redactText\<close> makes of it, written as UTF-8.
\<close>

inductive masked_document :: "text_library \<Rightarrow> string list \<Rightarrow> json \<Rightarrow> json \<Rightarrow> bool" for lib extra where
  same_null: "masked_document lib extra JNull JNull"
| same_bool: "masked_document lib extra (JBool b) (JBool b)"
| same_number: "masked_document lib extra (JReal lit) (JReal lit)"
| redacted_text: "masked_document lib extra (JStr s) (JStr (coerce_utf8 (redact_text lib extra s)))"
| each_element: "list_all2 (masked_document lib extra) vs ws \<Longrightarrow> masked_document lib extra (JArr vs) (JArr ws)"
| each_member: "list_all2 (\<lambda>x y. fst x = fst y \<and>
      (sensitive_key lib extra (fst x) \<longrightarrow> snd y = JStr replacement) \<and>
      (\<not> sensitive_key lib extra (fst x) \<longrightarrow> masked_document lib extra (snd x) (snd y))) (sort_key fst kvs) lws \<Longrightarrow>
    masked_document lib extra (JObj kvs) (JObj lws)"

lemma sort_key_values: "sort_key fst (map (\<lambda>x. (fst x, f x)) kvs) = map (\<lambda>x. (fst x, f x)) (sort_key fst kvs)"
proof -
  have "insort_key fst (fst x, f x) (map (\<lambda>x. (fst x, f x)) ys) = map (\<lambda>x. (fst x, f x)) (insort_key fst x ys)" for x ys
    by (induction ys) auto
  then show ?thesis by (induction kvs) simp_all
qed

lemma masked_document_reread:
  "names_valid v \<Longrightarrow> printed_doc d v \<Longrightarrow> masked_document lib extra v (reread (redact_value lib extra v))"
proof (induction lib extra v arbitrary: d rule: redact_value.induct)
  case (1 lib extra kvs)
  let ?w = "\<lambda>x. if sensitive_key lib extra (fst x) then JStr replacement else redact_value lib extra (snd x)"
  have member: "masked_document lib extra (snd x) (reread (redact_value lib extra (snd x)))"
    if "x \<in> set kvs" "\<not> sensitive_key lib extra (fst x)" for x
    using "1.IH" [of x "fst x" "snd x" "d - 1"] that "1.prems" by (auto simp: list_all_iff case_prod_beta)
  have valid: "valid_utf8 (fst x)" if "x \<in> set kvs" for x
    using that "1.prems"(1) by (auto simp: list_all_iff)
  have "reread (redact_value lib extra (JObj kvs)) =
      JObj (map (\<lambda>x. (coerce_utf8 (fst x), reread (?w x))) (sort_key fst kvs))"
    using sort_key_values [of "\<lambda>x. reread (?w x)" kvs] by (simp add: case_prod_beta comp_def)
  also have "\<dots> = JObj (map (\<lambda>x. (fst x, reread (?w x))) (sort_key fst kvs))"
    using valid by (simp add: coerce_valid)
  finally show ?case
    using member
    by (auto intro!: each_member simp: list_all2_map2 coerce_replacement intro!: list.rel_refl_strong)
next
  case (2 lib extra vs)
  then have "masked_document lib extra z (reread (redact_value lib extra z))" if "z \<in> set vs" for z
    using that "2.IH" [of z "d - 1"] by (auto simp: list_all_iff)
  then show ?case
    by (auto intro!: each_element list.rel_refl_strong simp: list_all2_map2)
qed (auto intro: masked_document.intros)

text \<open>Documents as the decoder makes them have each name once, so reading them again keeps every member.\<close>

fun names_distinct :: "json \<Rightarrow> bool" where
  "names_distinct (JArr vs) = list_all names_distinct vs"
| "names_distinct (JObj kvs) = (distinct (map fst kvs) \<and> list_all (\<lambda>(k, v). names_distinct v) kvs)"
| "names_distinct v = True"

lemma fold_update_distinct:
  "distinct (map fst kvs) \<Longrightarrow> distinct (map fst (fold (\<lambda>(k, v). AList.update k v) ws kvs))"
  by (induction ws arbitrary: kvs) (auto simp: distinct_update)

lemma as_any_distinct: "names_distinct (as_any v)"
proof (induction v rule: as_any.induct)
  case (2 kvs)
  then show ?case
    by (auto simp: list_all_iff fold_update_distinct dest!: as_any_members)
qed (auto simp: list_all_iff)

lemma as_any_same: "names_distinct v \<Longrightarrow> as_any v = v"
proof (induction v rule: as_any.induct)
  case (2 kvs)
  then have "map (\<lambda>(k, v). (k, as_any v)) kvs = kvs"
    by (intro map_idI) (auto simp: list_all_iff)
  with 2 show ?case by (simp add: fold_update_fresh)
qed (auto simp: list_all_iff intro: map_idI)

lemma redact_value_distinct: "names_distinct v \<Longrightarrow> names_distinct (redact_value lib extra v)"
  by (induction lib extra v rule: redact_value.induct) (auto simp: list_all_iff case_prod_beta comp_def)

lemma distinct_names_sorted:
  fixes kvs :: "(string \<times> json) list"
  shows "distinct (map fst (sort_key fst kvs)) \<longleftrightarrow> distinct (map fst kvs)"
proof -
  have "map fst (insort_key fst x ys) = insort (fst x) (map fst ys)"
    for x :: "string \<times> json" and ys :: "(string \<times> json) list"
    by (induction ys) auto
  then have "map fst (sort_key fst kvs) = sort (map fst kvs)" by (induction kvs) simp_all
  then show ?thesis by simp
qed

lemma reread_distinct: "names_valid v \<Longrightarrow> names_distinct v \<Longrightarrow> names_distinct (reread v)"
proof (induction v rule: reread.induct)
  case (3 kvs)
  have "reread (JObj kvs) = JObj (map (\<lambda>x. (coerce_utf8 (fst x), reread (snd x))) (sort_key fst kvs))"
    using sort_key_values [of "\<lambda>x. reread (snd x)" kvs] by (simp add: case_prod_unfold comp_def)
  also have "\<dots> = JObj (map (\<lambda>x. (fst x, reread (snd x))) (sort_key fst kvs))"
    using "3.prems"(1) by (auto simp: list_all_iff)
  finally have reread: "reread (JObj kvs) = JObj (map (\<lambda>x. (fst x, reread (snd x))) (sort_key fst kvs))" .
  have "names_distinct (reread (snd x))" if "x \<in> set kvs" for x
    using "3.IH" [of x "fst x" "snd x"] that "3.prems" by (auto simp: list_all_iff case_prod_beta)
  moreover have "distinct (map fst (sort_key fst kvs))" using "3.prems"(2) by (simp add: distinct_names_sorted)
  ultimately show ?case unfolding reread by (simp add: list_all_iff comp_def)
qed (auto simp: list_all_iff)

text \<open>C31: Whatever the secrets in a JSON document are, its redacted text is the same; and that text is
  again a JSON document: the original with every sensitive member, at any depth, replaced, with its
  other members, numbers, truth values and nulls unchanged and its other strings redacted as text.\<close>

theorem redacted_document_hides_secrets:
  assumes "decode_json s = Some v" and "decode_json t = Some w" and "public_eq lib extra v w"
  shows "redact_string lib extra s = redact_string lib extra t
    \<and> (\<exists>u. decode_json (redact_string lib extra s) = Some u \<and> masked_document lib extra v u \<and> masked lib extra u)"
proof -
  let ?u = "reread (redact_value lib extra v)"
  have v: "good_doc max_json_depth v" by (rule decoded_good [OF assms(1)])
  then have good: "good_doc max_json_depth (redact_value lib extra v)" by (rule redact_value_good)
  have "names_distinct v" using assms(1) as_any_distinct by (auto simp: decode_json_def split: option.splits prod.splits if_splits)
  then have "as_any ?u = ?u"
    using good by (intro as_any_same reread_distinct redact_value_distinct) simp_all
  then have "decode_json (redact_string lib extra s) = Some ?u"
    using assms(1) good by (simp add: redact_string_document decode_json_encode)
  moreover have "masked lib extra ?u"
    using good by (intro reread_masked redact_value_masked) simp
  moreover have "masked_document lib extra v ?u"
    using v by (blast intro: masked_document_reread)
  ultimately show ?thesis
    using assms redact_value_public [OF assms(3)] by (simp add: redact_string_document)
qed

theorem redacted_document_hides_secrets_witness:
  "redact_string sample_library [] ''{\"bot_token\":\"first\"}'' = redact_string sample_library [] ''{\"bot_token\" : [2]}''"
proof -
  have "decode_json ''{\"bot_token\":\"first\"}'' = Some (JObj [(''bot_token'', JStr ''first'')])"
    by code_simp
  moreover have "decode_json ''{\"bot_token\" : [2]}'' = Some (JObj [(''bot_token'', JArr [JReal ''2''])])"
    by code_simp
  moreover have "sensitive_key sample_library [] ''bot_token''" by code_simp
  then have "public_eq sample_library [] (JObj [(''bot_token'', JStr ''first'')]) (JObj [(''bot_token'', JArr [JReal ''2''])])"
    by (intro members) simp
  ultimately show ?thesis by (rule redacted_document_hides_secrets [THEN conjunct1])
qed

end
