(* ===== verification/Logging.thy ===== *)
theory Logging
  imports RedactDocument
begin

section \<open>Logging: \<open>log/log.go\<close> and \<open>logging.go\<close>\<close>

text \<open>
  An entry is one line of fields in braces, with messages and values redacted.  The time is given
  as it is printed; which runes \<open>strconv.IsPrint\<close> accepts is an argument, and so are the
  printed form of a floating-point number, the JSON value \<open>json.Marshal\<close> makes of a value of
  another type, and the text \<open>fmt.Sprintf\<close> makes of it when it makes none.
\<close>

subsection \<open>\<open>strconv.Quote\<close>\<close>

definition rune_value :: "string \<Rightarrow> nat" where
  "rune_value r =
     (case map byte_val r of
        [a, b] \<Rightarrow> (a - 0xC0) * 64 + (b - 0x80)
      | [a, b, c] \<Rightarrow> (a - 0xE0) * 4096 + (b - 0x80) * 64 + (c - 0x80)
      | [a, b, c, d] \<Rightarrow> (a - 0xF0) * 262144 + (b - 0x80) * 4096 + (c - 0x80) * 64 + (d - 0x80)
      | _ \<Rightarrow> 0)"

fun hex_digits :: "nat \<Rightarrow> nat \<Rightarrow> string" where
  "hex_digits 0 v = []"
| "hex_digits (Suc n) v = hex_digits n (v div 16) @ [hex_digit (v mod 16)]"

definition quote_escapes :: "(char \<times> char) list" where
  "quote_escapes =
     [(CHR 0x07, CHR ''a''), (CHR 0x08, CHR ''b''), (CHR 0x0C, CHR ''f''), (CHR 0x0A, CHR ''n''),
      (CHR 0x0D, CHR ''r''), (CHR 0x09, CHR ''t''), (CHR 0x0B, CHR ''v''), (backslash, backslash),
      (double_quote, double_quote)]"

definition quote_rune :: "(string \<Rightarrow> bool) \<Rightarrow> string \<Rightarrow> string" where
  "quote_rune is_print r =
     (case r of
        [c] \<Rightarrow>
          (case map_of quote_escapes c of
             Some x \<Rightarrow> [backslash, x]
           | None \<Rightarrow> if 32 \<le> byte_val c \<and> byte_val c < 127 then [c]
                     else [backslash, CHR ''x''] @ hex_digits 2 (byte_val c))
      | _ \<Rightarrow> if is_print r then r
            else if rune_value r < 0x10000 then [backslash, CHR ''u''] @ hex_digits 4 (rune_value r)
            else [backslash, CHR ''U''] @ hex_digits 8 (rune_value r))"

definition strconv_quote :: "(string \<Rightarrow> bool) \<Rightarrow> string \<Rightarrow> string" where
  "strconv_quote is_print s = [double_quote] @ concat (map (quote_rune is_print) (runes s)) @ [double_quote]"

subsection \<open>Loggers\<close>

abbreviation debug_level :: string where "debug_level \<equiv> ''debug''"
abbreviation info_level :: string where "info_level \<equiv> ''info''"
abbreviation warn_level :: string where "warn_level \<equiv> ''warn''"
abbreviation error_level :: string where "error_level \<equiv> ''error''"

text \<open>The dynamic type of a field's value.\<close>

datatype log_value =
    LogString string
  | LogError string
  | LogInt int
  | LogUint nat
  | LogFloat string
  | LogBool bool
  | LogMarshalled json
  | LogFormatted string

record log_field =
  lf_key :: string
  lf_value :: log_value

record logger =
  lg_level :: string
  lg_extra :: "string list"

definition new_logger :: "string \<Rightarrow> string list \<Rightarrow> logger" where
  "new_logger level extra = \<lparr>lg_level = (if level = [] then info_level else level), lg_extra = extra\<rparr>"

definition level_priority :: "string \<Rightarrow> nat" where
  "level_priority level =
     (if level = debug_level then 0 else if level = info_level then 1
      else if level = warn_level then 2 else if level = error_level then 3 else 1)"

definition is_enabled :: "logger \<Rightarrow> string \<Rightarrow> bool" where
  "is_enabled l level \<longleftrightarrow> level_priority (lg_level l) \<le> level_priority level"

record log_library =
  ll_text :: text_library
  ll_is_print :: "string \<Rightarrow> bool"

definition log_redact :: "log_library \<Rightarrow> logger \<Rightarrow> string \<Rightarrow> string" where
  "log_redact lib l s = redact_string (ll_text lib) (lg_extra l) s"

definition sanitize_key :: "string \<Rightarrow> string" where
  "sanitize_key key = filter (\<lambda>c. c \<noteq> CHR 0x00) key"

definition write_json_field :: "log_library \<Rightarrow> string \<Rightarrow> string \<Rightarrow> string" where
  "write_json_field lib key v = strconv_quote (ll_is_print lib) key @ '':'' @ strconv_quote (ll_is_print lib) v"

definition write_value :: "log_library \<Rightarrow> logger \<Rightarrow> string \<Rightarrow> log_value \<Rightarrow> string" where
  "write_value lib l key v =
     strconv_quote (ll_is_print lib) key @ '':'' @
     (case v of
        LogString s \<Rightarrow> strconv_quote (ll_is_print lib) (log_redact lib l s)
      | LogError s \<Rightarrow> strconv_quote (ll_is_print lib) (log_redact lib l s)
      | LogInt i \<Rightarrow> dec_int i
      | LogUint n \<Rightarrow> dec_nat n
      | LogFloat s \<Rightarrow> s
      | LogBool b \<Rightarrow> (if b then ''true'' else ''false'')
      | LogMarshalled d \<Rightarrow> log_redact lib l (encode_json d)
      | LogFormatted s \<Rightarrow> strconv_quote (ll_is_print lib) (log_redact lib l s))"

definition write_field :: "log_library \<Rightarrow> logger \<Rightarrow> log_field \<Rightarrow> string" where
  "write_field lib l f =
     (let key = sanitize_key (lf_key f) in
      if sensitive_key (ll_text lib) (lg_extra l) (lf_key f) then write_json_field lib key ''***''
      else write_value lib l key (lf_value f))"

definition log_entry :: "log_library \<Rightarrow> logger \<Rightarrow> string \<Rightarrow> string \<Rightarrow> string \<Rightarrow> log_field list \<Rightarrow> string" where
  "log_entry lib l now level msg flds =
     ''{'' @ write_json_field lib ''time'' now @ '','' @ write_json_field lib ''level'' level @ '','' @
     write_json_field lib ''msg'' (log_redact lib l msg) @
     concat (map (\<lambda>f. '','' @ write_field lib l f) flds) @ ''}'' @ [newline]"

text \<open>\<open>Log\<close>, with what has been written.\<close>

definition logger_log :: "log_library \<Rightarrow> logger \<Rightarrow> string \<Rightarrow> string \<Rightarrow> string \<Rightarrow> log_field list \<Rightarrow>
    string list \<Rightarrow> string list" where
  "logger_log lib l now level msg flds out =
     (if \<not> is_enabled l level then out else out @ [log_entry lib l now level msg flds])"

subsection \<open>The bot's logger\<close>

text \<open>
  The interface \<open>loggerAdapter\<close>: a structured logger, or a function of the user, which is called
  with the message as it is.
\<close>

datatype logger_adapter = StructuredLogger logger | LegacyLogger

datatype log_output = Written string | Called string string

definition parse_level :: "string \<Rightarrow> string" where
  "parse_level level =
     (if level = ''debug'' then debug_level else if level = ''warn'' then warn_level
      else if level = ''error'' then error_level else info_level)"

definition new_default_logger :: "string \<Rightarrow> logger" where
  "new_default_logger level = new_logger (parse_level level) []"

definition bot_log :: "log_library \<Rightarrow> string \<Rightarrow> logger_adapter option \<Rightarrow> string \<Rightarrow> string \<Rightarrow> string \<Rightarrow> log_output list" where
  "bot_log lib log_level custom now level msg =
     (if log_level = ''silent'' then []
      else (case custom of
              Some LegacyLogger \<Rightarrow> [Called (parse_level level) msg]
            | Some (StructuredLogger l) \<Rightarrow> map Written (logger_log lib l now (parse_level level) msg [] [])
            | None \<Rightarrow> map Written (logger_log lib (new_default_logger log_level) now (parse_level level) msg [] [])))"

text \<open>\<open>SetLogger\<close> and \<open>SetStructuredLogger\<close>; a nil argument changes nothing.\<close>

definition set_logger :: "bool \<Rightarrow> logger_adapter option \<Rightarrow> logger_adapter option" where
  "set_logger fn_given old = (if fn_given then Some LegacyLogger else old)"

definition set_structured_logger :: "logger option \<Rightarrow> logger_adapter option \<Rightarrow> logger_adapter option" where
  "set_structured_logger l old = (case l of None \<Rightarrow> old | Some l \<Rightarrow> Some (StructuredLogger l))"

subsection \<open>Entries\<close>

lemma unhex_newline: "unhex newline = None"
  by (simp add: unhex_def is_digit_def)

lemma hex_digit_newline: "n < 16 \<Longrightarrow> newline \<noteq> hex_digit n"
  using unhex_hex_digit [of n] unhex_newline by (metis option.distinct(1))

lemma hex_digits_newline: "newline \<notin> set (hex_digits n v)"
  by (induction n arbitrary: v) (simp_all add: hex_digit_newline)

lemma high_no_newline: "\<forall>c\<in>set r. 128 \<le> byte_val c \<Longrightarrow> newline \<notin> set r"
  by auto

lemma quote_rune_newline:
  assumes "r \<in> set (runes s)"
  shows "newline \<notin> set (quote_rune is_print r)"
proof (cases "length r = 1")
  case True
  then obtain c where r: "r = [c]" by (auto simp: length_Suc_conv)
  show ?thesis
  proof (cases "map_of quote_escapes c")
    case None
    then have "c \<noteq> newline" by (auto simp: quote_escapes_def)
    with None show ?thesis using hex_digits_newline by (simp add: r quote_rune_def)
  next
    case (Some x)
    then have "x \<noteq> newline" by (auto simp: quote_escapes_def split: if_splits)
    with Some show ?thesis by (simp add: r quote_rune_def)
  qed
next
  case False
  then have "newline \<notin> set r" using runes_high [OF assms] high_no_newline by auto
  then show ?thesis
    using False hex_digits_newline by (auto simp: quote_rune_def split: list.split)
qed

lemma quote_newline: "newline \<notin> set (strconv_quote is_print s)"
  using quote_rune_newline by (auto simp: strconv_quote_def)

lemma hex_parts:
  "(newline = hex_digit (byte_val c div 16)) = False" "(newline = hex_digit (byte_val c mod 16)) = False"
proof -
  have "byte_val c div 16 < (16 :: nat)" "byte_val c mod 16 < (16 :: nat)"
    using nat_of_char_less_256 [of c] by linarith+
  from this [THEN hex_digit_newline] show "(newline = hex_digit (byte_val c div 16)) = False"
    "(newline = hex_digit (byte_val c mod 16)) = False" by simp_all
qed

lemma escape_byte_newline: "newline \<notin> set (escape_rune [c])"
  unfolding escape_rune_def by (simp add: hex_parts)

lemma escape_rune_newline:
  assumes "r \<in> set (runes s)"
  shows "newline \<notin> set (escape_rune r)"
proof (cases "length r = 1")
  case True
  then obtain c where "r = [c]" by (auto simp: length_Suc_conv)
  then show ?thesis using escape_byte_newline by simp
next
  case False
  then have "newline \<notin> set r" using runes_high [OF assms] high_no_newline by blast
  moreover from False have "(case r of [c] \<Rightarrow> u c | _ \<Rightarrow> r) = r" for u
    by (auto split: list.split)
  ultimately show ?thesis unfolding escape_rune_def by simp
qed

lemma json_string_newline: "newline \<notin> set (json_string s)"
  using escape_rune_newline by (auto simp: json_string_def)

lemma number_no_newline: "number_byte c \<Longrightarrow> c \<noteq> newline"
  by (auto simp: number_byte_def is_digit_def)

lemma join_set: "set (strings_join xs sep) \<subseteq> \<Union> (set ` set xs) \<union> set sep"
  by (induction xs sep rule: strings_join.induct) auto

lemma join_newline: "(\<And>x. x \<in> set xs \<Longrightarrow> newline \<notin> set x) \<Longrightarrow> newline \<notin> set (strings_join xs '','')"
  using join_set [of xs "'',''"] by auto

lemma read_digits_bytes: "read_digits s = Some (ds, t) \<Longrightarrow> c \<in> set ds \<Longrightarrow> number_byte c"
  by (auto simp: read_digits_alt number_byte_def dest: set_takeWhileD split: if_splits)

lemma parse_number_bytes:
  assumes "parse_number s = Some (lit, rest)" and "c \<in> set lit"
  shows "number_byte c"
proof -
  obtain sign r i r1 f r2 e where parts: "read_integer_part r = Some (i, r1)" "read_fraction r1 = Some (f, r2)"
      "read_exponent r2 = Some (e, rest)" "lit = sign @ i @ f @ e" "sign = [] \<or> sign = ''-''"
    using assms(1) by (auto simp: parse_number_def Let_def split: list.splits option.splits if_splits prod.splits)
  have "\<forall>c\<in>set i. number_byte c" using parts(1)
    by (auto simp: read_integer_part_def number_byte_def is_digit_def split: list.splits if_splits dest: read_digits_bytes)
  moreover have "\<forall>c\<in>set f. number_byte c" using parts(2)
    by (auto simp: read_fraction_def dest!: read_digits_bytes split: list.splits if_splits) (simp add: number_byte_def)
  moreover have "\<forall>c\<in>set e. number_byte c" using parts(3)
    by (auto simp: read_exponent_def dest!: read_digits_bytes split: list.splits if_splits) (simp_all add: number_byte_def)
  ultimately show ?thesis using assms(2) parts(4,5) by (auto simp: number_byte_def)
qed

lemma encode_newline: "printed_doc d v \<Longrightarrow> newline \<notin> set (encode_json v)"
proof (induction v arbitrary: d rule: encode_json.induct)
  case (4 lit)
  then show ?case using parse_number_bytes [of lit lit "[]"] number_no_newline by (auto simp: number_literal_def)
next
  case (5 s)
  then show ?case using json_string_newline by simp
next
  case (6 vs)
  have "newline \<notin> set (strings_join (map encode_json vs) '','')"
    using 6 by (intro join_newline) (auto simp: list_all_iff)
  then show ?case by simp
next
  case (7 kvs)
  obtain ts where ts: "encode_json (JObj kvs) = ''{'' @ strings_join ts '','' @ ''}''"
    "set ts = (\<lambda>(k, v). json_string k @ '':'' @ encode_json v) ` set kvs"
    using members_text by blast
  have "newline \<notin> set x" if "x \<in> set ts" for x
    using that 7 json_string_newline unfolding ts(2) by (auto simp: list_all_iff)
  then show ?case unfolding ts(1) using join_newline by simp
qed simp_all

text \<open>What is written for a value of another type is JSON; a number is printed without line feeds.\<close>

fun one_line_value :: "log_value \<Rightarrow> bool" where
  "one_line_value (LogFloat s) = (newline \<notin> set s)"
| "one_line_value (LogMarshalled d) = printed_doc max_json_depth d"
| "one_line_value v = True"

lemma reread_printed: "printed_doc d v \<Longrightarrow> printed_doc d (reread v)"
  by (induction v arbitrary: d rule: reread.induct) (force simp: list_all_iff)+

lemma as_any_printed: "printed_doc d v \<Longrightarrow> printed_doc d (as_any v)"
proof (induction v arbitrary: d rule: as_any.induct)
  case (2 kvs)
  then show ?case by (fastforce simp: list_all_iff dest!: as_any_members)
qed (auto simp: list_all_iff)

lemma redact_value_printed: "printed_doc d v \<Longrightarrow> printed_doc d (redact_value lib extra v)"
  by (induction lib extra v arbitrary: d rule: redact_value.induct) (fastforce simp: list_all_iff)+

lemma redacted_json_newline:
  assumes "printed_doc max_json_depth v"
  shows "newline \<notin> set (redact_string lib extra (encode_json v))"
  unfolding redact_string_document [OF decode_json_encode [OF assms]]
  by (rule encode_newline, rule redact_value_printed, rule as_any_printed, rule reread_printed, rule assms)

lemma dec_nat_newline: "newline \<notin> set (dec_nat n)"
  using dec_nat_digits [of newline n] by (auto simp: is_digit_def)

lemma dec_int_newline: "newline \<notin> set (dec_int i)"
  using dec_int_bytes [of newline i] number_no_newline by blast

lemma write_field_newline: "one_line_value (lf_value f) \<Longrightarrow> newline \<notin> set (write_field lib l f)"
  using redacted_json_newline
  by (cases "lf_value f")
    (simp_all add: write_field_def Let_def write_json_field_def write_value_def quote_newline dec_nat_newline
      dec_int_newline log_redact_def)

text \<open>Fields that differ in the values of sensitive names only.\<close>

definition public_fields_eq :: "log_library \<Rightarrow> logger \<Rightarrow> log_field list \<Rightarrow> log_field list \<Rightarrow> bool" where
  "public_fields_eq lib l flds flds' =
     list_all2 (\<lambda>f g. lf_key f = lf_key g \<and>
       (sensitive_key (ll_text lib) (lg_extra l) (lf_key f) \<or> lf_value f = lf_value g)) flds flds'"

lemma write_field_public:
  "lf_key f = lf_key g \<Longrightarrow> sensitive_key (ll_text lib) (lg_extra l) (lf_key f) \<or> lf_value f = lf_value g \<Longrightarrow>
   write_field lib l f = write_field lib l g"
  by (auto simp: write_field_def Let_def)

text \<open>C36: A log entry is one line, whatever is logged, and does not depend on the values of fields with
  sensitive names.\<close>

theorem log_entry_hides:
  assumes "list_all (\<lambda>f. one_line_value (lf_value f)) flds" and "public_fields_eq lib l flds flds'"
  shows "log_entry lib l now level msg flds = log_entry lib l now level msg flds' \<and>
    (\<exists>line. log_entry lib l now level msg flds = line @ [newline] \<and> newline \<notin> set line)"
proof
  have "map (\<lambda>f. '','' @ write_field lib l f) flds = map (\<lambda>f. '','' @ write_field lib l f) flds'"
    using assms(2) unfolding public_fields_eq_def
    by (induction rule: list_all2_induct) (auto dest: write_field_public)
  then show "log_entry lib l now level msg flds = log_entry lib l now level msg flds'"
    by (simp add: log_entry_def)
  have "newline \<notin> set (concat (map (\<lambda>f. '','' @ write_field lib l f) flds))"
    using assms(1) write_field_newline by (auto simp: list_all_iff)
  then show "\<exists>line. log_entry lib l now level msg flds = line @ [newline] \<and> newline \<notin> set line"
    by (intro exI [of _ "butlast (log_entry lib l now level msg flds)"])
      (simp add: log_entry_def butlast_append write_json_field_def quote_newline)
qed

definition sample_log :: log_library where
  "sample_log = \<lparr>ll_text = sample_library, ll_is_print = (\<lambda>r. True)\<rparr>"

theorem log_entry_hides_witness:
  "log_entry sample_log (new_logger [] []) ''12:00'' info_level (''a'' @ [newline] @ ''b'')
     [\<lparr>lf_key = ''bot_token'', lf_value = LogString ''one''\<rparr>] =
   log_entry sample_log (new_logger [] []) ''12:00'' info_level (''a'' @ [newline] @ ''b'')
     [\<lparr>lf_key = ''bot_token'', lf_value = LogInt 2\<rparr>]"
proof -
  have "sensitive_key (ll_text sample_log) (lg_extra (new_logger [] [])) ''bot_token''" by code_simp
  then have "public_fields_eq sample_log (new_logger [] [])
      [\<lparr>lf_key = ''bot_token'', lf_value = LogString ''one''\<rparr>] [\<lparr>lf_key = ''bot_token'', lf_value = LogInt 2\<rparr>]"
    by (simp add: public_fields_eq_def)
  from log_entry_hides [OF _ this] show ?thesis by simp
qed

text \<open>
  An entry need not be JSON: a byte without a JSON escape is written as \<open>strconv.Quote\<close> does.
\<close>

lemma log_entry_not_json:
  "parse_json (log_entry sample_log (new_logger [] []) ''12:00'' info_level [CHR 0x07] []) = None"
  by code_simp

end
