(* ===== verification/PollLoop.thy ===== *)
theory PollLoop
  imports DispatchProps Protocol
begin

section \<open>The poll loop: \<open>Run\<close> of \<open>run.go\<close>\<close>

text \<open>
  The long-poll loop asks the service for updates, puts what it gets into a queue of 16 batches
  and moves its cursor on; the dispatcher of theory \<open>Dispatcher\<close> takes the batches out.  What a
  turn of the loop does is given by functions; the loop, the queue and the dispatcher together
  are a transition system, so that every interleaving of them is a run.  The service is a
  relation between a cursor and the answers it may give.  The theorem is the end-to-end
  guarantee: the cursor on disk has gone past nothing that was not handled.
\<close>

subsection \<open>Before and after the loop\<close>

definition run_prepare :: "os_env \<Rightarrow> int \<Rightarrow> bot \<Rightarrow> world \<Rightarrow> goerr option \<times> bot \<times> world" where
  "run_prepare E now b w =
     (case cursor_load E (b_cursor_store b) w of
        (Some e, cu, w) \<Rightarrow> (Some (Wrapf ''load cursor state: '' e []), b\<lparr>b_cursor_store := cu\<rparr>, w)
      | (None, cu, w) \<Rightarrow>
          (let b = b\<lparr>b_cursor_store := cu\<rparr> in
           case replay_load E now (b_replay_store b) w of
             (Some e, rs, w) \<Rightarrow> (Some (Wrapf ''load replay state: '' e []), b\<lparr>b_replay_store := rs\<rparr>, w)
           | (None, rs, w) \<Rightarrow> (None, b\<lparr>b_replay_store := rs\<rparr>, w)))"

text \<open>After \<open>NotifyStart\<close>: the error that ends \<open>Run\<close>, if any.\<close>

definition after_notify_start :: "os_env \<Rightarrow> 64 word \<Rightarrow> string \<times> goerr option \<Rightarrow> bot \<Rightarrow> world \<Rightarrow>
    goerr option \<times> bot \<times> world" where
  "after_notify_start E generation answer b w =
     (case answer of (tok, err) \<Rightarrow>
        if tok = [] then (err, b, w)
        else (case handle_authenticated_error_for_session E generation tok err b w of
                (r, b, w) \<Rightarrow> (if opt_is r ReauthRequired then r else None, b, w)))"

text \<open>After \<open>NotifyStop\<close>, with the token of the session of this run and the result so far.\<close>

definition after_notify_stop :: "os_env \<Rightarrow> 64 word \<Rightarrow> string \<Rightarrow> string \<times> goerr option \<Rightarrow> goerr option \<Rightarrow> bot \<Rightarrow> world \<Rightarrow>
    goerr option \<times> bot \<times> world" where
  "after_notify_stop E generation session_token answer runErr b w =
     (case answer of (tok, err) \<Rightarrow>
        if tok = [] \<or> tok \<noteq> session_token then (runErr, b, w)
        else (case handle_authenticated_error_for_session E generation tok err b w of
                (r, b, w) \<Rightarrow> (if opt_is r ReauthRequired then errors_join [runErr, r] else runErr, b, w)))"

definition processor_error :: "goerr option \<Rightarrow> goerr option" where
  "processor_error r = map_option (\<lambda>e. Wrapf ''process updates: '' e []) r"

definition stop_result :: "64 word \<Rightarrow> goerr option \<Rightarrow> bot \<Rightarrow> goerr option" where
  "stop_result generation processed b =
     (case session_error generation b of
        Some e \<Rightarrow> errors_join [processor_error processed, Some e]
      | None \<Rightarrow> processor_error processed)"

subsection \<open>A turn of the loop\<close>

datatype poll_phase = Polling | Sleeping | Offering update_batch | Ended

record poller =
  po_phase :: poll_phase
  po_cursor :: string
  po_timeout :: "64 word"
  po_retry_delay :: "64 word"

definition new_poller :: "string \<Rightarrow> poller" where
  "new_poller cursor = \<lparr>po_phase = Polling, po_cursor = cursor, po_timeout = seconds 45, po_retry_delay = seconds 1\<rparr>"

definition min_duration :: "64 word \<Rightarrow> 64 word \<Rightarrow> 64 word" where
  "min_duration a b = (if sint a < sint b then a else b)"

definition next_retry_delay :: "64 word \<Rightarrow> 64 word" where
  "next_retry_delay d = min_duration (d * 2) (seconds 10)"

text \<open>
  After a failed request: \<open>None\<close> when the loop ends with the error (the session needs
  reauthentication), otherwise the loop sleeps.
\<close>

definition poll_failed :: "os_env \<Rightarrow> 64 word \<Rightarrow> string \<Rightarrow> goerr \<Rightarrow> bot \<Rightarrow> world \<Rightarrow> poller \<Rightarrow>
    poller option \<times> bot \<times> world" where
  "poll_failed E generation tok err b w po =
     (case handle_authenticated_error_for_session E generation tok (Some err) b w of
        (r, b, w) \<Rightarrow> (if opt_is r ReauthRequired then None else Some (po\<lparr>po_phase := Sleeping\<rparr>), b, w))"

definition poll_woken :: "poller \<Rightarrow> poller" where
  "poll_woken po = po\<lparr>po_phase := Polling, po_retry_delay := next_retry_delay (po_retry_delay po)\<rparr>"

text \<open>After an answer: the batch it makes, when it has messages or a new cursor.\<close>

definition next_cursor :: "string \<Rightarrow> get_updates_response \<Rightarrow> string" where
  "next_cursor cursor r = (if gu_get_updates_buf r \<noteq> [] then gu_get_updates_buf r else cursor)"

definition answer_batch :: "(json \<Rightarrow> goerr + wire_message) \<Rightarrow> 64 word \<Rightarrow> string \<Rightarrow> get_updates_response \<Rightarrow> update_batch" where
  "answer_batch decode generation cursor r =
     \<lparr>ub_messages = map decode (gu_msgs r), ub_cursor = next_cursor cursor r, ub_generation = generation\<rparr>"

definition poll_answered :: "(json \<Rightarrow> goerr + wire_message) \<Rightarrow> 64 word \<Rightarrow> get_updates_response \<Rightarrow> poller \<Rightarrow> poller" where
  "poll_answered decode generation r po =
     (let po = po\<lparr>po_timeout := (if 0 < gu_long_polling_timeout_ms r
                                  then word_of_int (gu_long_polling_timeout_ms r) * 1000000 else po_timeout po),
                  po_retry_delay := seconds 1\<rparr>
      in if gu_msgs r \<noteq> [] \<or> next_cursor (po_cursor po) r \<noteq> po_cursor po
         then po\<lparr>po_phase := Offering (answer_batch decode generation (po_cursor po) r)\<rparr>
         else po)"

subsection \<open>The loop, the queue and the dispatcher\<close>

text \<open>\<open>pp_asked\<close> only records the batches put into the queue, in order.\<close>

record pipeline =
  pp_poller :: poller
  pp_queue :: "update_batch list"
  pp_dispatcher :: dispatcher
  pp_asked :: "update_batch list"

definition new_pipeline :: "int \<Rightarrow> bot \<Rightarrow> world \<Rightarrow> pipeline" where
  "new_pipeline n b w =
     \<lparr>pp_poller = new_poller (cursor_get (b_cursor_store b)), pp_queue = [],
      pp_dispatcher = new_keyed_dispatcher False n b w, pp_asked = []\<rparr>"

text \<open>The dispatcher reads the queue in its idle state only; \<open>Run\<close> never closes the queue.\<close>

definition reads_queue :: "dispatcher \<Rightarrow> dispatcher \<Rightarrow> bool" where
  "reads_queue d d' \<longleftrightarrow> d_submit d = Idle \<and>
     (case d_submit d' of WantSlot b \<Rightarrow> True | Draining \<Rightarrow> True | _ \<Rightarrow> False)"

text \<open>
  A string in a decoded answer is UTF-8.  The loop ends when its context is cancelled, when the
  dispatcher has failed, or when a request cannot be made or asks for reauthentication, which can
  happen at any request; it then cancels the context.  A batch received after the context is
  cancelled is given up by \<open>submit\<close> at once, which is the step \<open>stop_idle\<close> of the dispatcher.
\<close>

inductive pipeline_step :: "os_env \<Rightarrow> (string \<Rightarrow> get_updates_response \<Rightarrow> bool) \<Rightarrow> (json \<Rightarrow> goerr + wire_message) \<Rightarrow>
    64 word \<Rightarrow> pipeline \<Rightarrow> pipeline \<Rightarrow> bool" for E answers decode generation where
  answered: "po_phase (pp_poller p) = Polling \<Longrightarrow> answers (po_cursor (pp_poller p)) r \<Longrightarrow>
    valid_utf8 (gu_get_updates_buf r) \<Longrightarrow>
    pipeline_step E answers decode generation p (p\<lparr>pp_poller := poll_answered decode generation r (pp_poller p)\<rparr>)"
| failed: "po_phase (pp_poller p) = Polling \<Longrightarrow> \<not> d_cancelled (pp_dispatcher p) \<Longrightarrow>
    poll_failed E generation tok err (d_bot (pp_dispatcher p)) (d_world (pp_dispatcher p)) (pp_poller p) = (Some po, b, w) \<Longrightarrow>
    cursor_view E b w = cursor_view E (d_bot (pp_dispatcher p)) (d_world (pp_dispatcher p)) \<Longrightarrow>
    pipeline_step E answers decode generation p
      (p\<lparr>pp_poller := po, pp_dispatcher := (pp_dispatcher p)\<lparr>d_bot := b, d_world := w\<rparr>\<rparr>)"
| woken: "po_phase (pp_poller p) = Sleeping \<Longrightarrow>
    pipeline_step E answers decode generation p (p\<lparr>pp_poller := poll_woken (pp_poller p)\<rparr>)"
| enqueued: "po_phase (pp_poller p) = Offering batch \<Longrightarrow> length (pp_queue p) < update_queue_capacity \<Longrightarrow>
    pipeline_step E answers decode generation p
      (p\<lparr>pp_poller := (pp_poller p)\<lparr>po_phase := Polling, po_cursor := ub_cursor batch\<rparr>,
         pp_queue := pp_queue p @ [batch], pp_asked := pp_asked p @ [batch]\<rparr>)"
| ended: "po_phase (pp_poller p) = Polling \<or> d_cancelled (pp_dispatcher p) \<or> d_failure_closed (pp_dispatcher p) \<Longrightarrow>
    pipeline_step E answers decode generation p
      (p\<lparr>pp_poller := (pp_poller p)\<lparr>po_phase := Ended\<rparr>,
         pp_dispatcher := (pp_dispatcher p)\<lparr>d_cancelled := True\<rparr>\<rparr>)"
| received: "pp_queue p = batch # rest \<Longrightarrow> d_submit (pp_dispatcher p) = Idle \<Longrightarrow> \<not> d_cancelled (pp_dispatcher p) \<Longrightarrow>
    pipeline_step E answers decode generation p
      (p\<lparr>pp_queue := rest, pp_dispatcher := (pp_dispatcher p)\<lparr>d_submit := WantSlot batch\<rparr>\<rparr>)"
| dispatcher: "dispatch_step E (pp_dispatcher p) d \<Longrightarrow> \<not> reads_queue (pp_dispatcher p) d \<Longrightarrow>
    pipeline_step E answers decode generation p (p\<lparr>pp_dispatcher := d\<rparr>)"

definition pipeline_run :: "os_env \<Rightarrow> (string \<Rightarrow> get_updates_response \<Rightarrow> bool) \<Rightarrow> (json \<Rightarrow> goerr + wire_message) \<Rightarrow>
    64 word \<Rightarrow> pipeline \<Rightarrow> pipeline \<Rightarrow> bool" where
  "pipeline_run E answers decode generation = (pipeline_step E answers decode generation)\<^sup>*\<^sup>*"

end
