(* ===== verification/WireJson.thy ===== *)
theory WireJson
  imports Outbound
begin

section \<open>Wire messages as JSON: the field tags of \<open>types.go\<close>\<close>

text \<open>
  What \<open>encoding/json\<close> makes of the wire types: the names of the fields, which of them are left
  out when they are zero, what pointers to structs become, and what the decoder does with \<open>null\<close>,
  with fields given twice and with values of another kind.  The documents are those of theory
  \<open>Json\<close>.  The lemmas are the round trips, for messages and for the payload the client sends;
  theory \<open>WireText\<close> adds the type of what is decoded.
\<close>

subsection \<open>Fields\<close>

text \<open>A decoder goes on when the one before it has succeeded.\<close>

definition dec_then :: "goerr + 'a \<Rightarrow> ('a \<Rightarrow> goerr + 'b) \<Rightarrow> goerr + 'b" where
  "dec_then r f = (case r of Inl e \<Rightarrow> Inl e | Inr x \<Rightarrow> f x)"

lemma dec_then_simps [simp]: "dec_then (Inl e) f = Inl e" "dec_then (Inr x) f = f x"
  by (simp_all add: dec_then_def)

abbreviation str_field :: "string \<Rightarrow> string \<Rightarrow> (string \<times> json) list \<Rightarrow> goerr + string" where
  "str_field d name kvs \<equiv> dec_field (\<lambda>_. dec_str) d name kvs"

abbreviation int_field :: "int \<Rightarrow> string \<Rightarrow> (string \<times> json) list \<Rightarrow> goerr + int" where
  "int_field d name kvs \<equiv> dec_field (\<lambda>_. dec_int64) d name kvs"

text \<open>
  A pointer: \<open>null\<close> makes it \<open>nil\<close>, another value is decoded into what it points to, which is
  allocated when it is \<open>nil\<close>.
\<close>

fun dec_pointer :: "('a \<Rightarrow> json \<Rightarrow> goerr + 'a) \<Rightarrow> 'a \<Rightarrow> 'a option \<Rightarrow> json list \<Rightarrow> goerr + 'a option" where
  "dec_pointer dec zero cur [] = Inr cur"
| "dec_pointer dec zero cur (v # vs) =
     (if v = JNull then dec_pointer dec zero None vs
      else (case dec (case cur of None \<Rightarrow> zero | Some x \<Rightarrow> x) v of
              Inl e \<Rightarrow> Inl e | Inr x \<Rightarrow> dec_pointer dec zero (Some x) vs))"

lemma dec_pointer_cong [fundef_cong]:
  "vs = vs' \<Longrightarrow> (\<And>x v. v \<in> set vs' \<Longrightarrow> dec x v = dec' x v) \<Longrightarrow> dec_pointer dec zero cur vs = dec_pointer dec' zero cur vs'"
proof (induction vs arbitrary: cur vs')
  case (Cons v vs)
  then show ?case by (cases vs') (auto split: sum.split option.split)
qed simp

definition ptr_field :: "('a \<Rightarrow> json \<Rightarrow> goerr + 'a) \<Rightarrow> 'a \<Rightarrow> 'a option \<Rightarrow> string \<Rightarrow> (string \<times> json) list \<Rightarrow> goerr + 'a option" where
  "ptr_field dec zero cur name kvs = dec_pointer dec zero cur (field_values name kvs)"

text \<open>A struct that is decoded into: \<open>null\<close> changes nothing.\<close>

definition dec_into :: "('a \<Rightarrow> (string \<times> json) list \<Rightarrow> goerr + 'a) \<Rightarrow> 'a \<Rightarrow> json \<Rightarrow> goerr + 'a" where
  "dec_into dec x v = (case v of JObj kvs \<Rightarrow> dec x kvs | JNull \<Rightarrow> Inr x | _ \<Rightarrow> Inl json_type_error)"

text \<open>A slice of structs: the elements are decoded into those that are there, and \<open>null\<close> empties it.\<close>

fun dec_elements :: "('a \<Rightarrow> json \<Rightarrow> goerr + 'a) \<Rightarrow> 'a \<Rightarrow> 'a list \<Rightarrow> json list \<Rightarrow> goerr + 'a list" where
  "dec_elements dec zero old [] = Inr []"
| "dec_elements dec zero old (v # vs) =
     dec_then (dec (case old of [] \<Rightarrow> zero | x # _ \<Rightarrow> x) v)
       (\<lambda>x. dec_then (dec_elements dec zero (tl old) vs) (\<lambda>xs. Inr (x # xs)))"

fun dec_slice :: "('a \<Rightarrow> json \<Rightarrow> goerr + 'a) \<Rightarrow> 'a \<Rightarrow> 'a list \<Rightarrow> json list \<Rightarrow> goerr + 'a list" where
  "dec_slice dec zero cur [] = Inr cur"
| "dec_slice dec zero cur (v # vs) =
     (case v of
        JNull \<Rightarrow> dec_slice dec zero [] vs
      | JArr ws \<Rightarrow> dec_then (dec_elements dec zero cur ws) (\<lambda>xs. dec_slice dec zero xs vs)
      | _ \<Rightarrow> Inl json_type_error)"

text \<open>Fields to write; with \<open>omitempty\<close> a zero value is left out.\<close>

definition put_int :: "string \<Rightarrow> int \<Rightarrow> (string \<times> json) list" where
  "put_int name i = (if i = 0 then [] else [(name, JInt i)])"

definition put_str :: "string \<Rightarrow> string \<Rightarrow> (string \<times> json) list" where
  "put_str name s = (if s = [] then [] else [(name, enc_str s)])"

definition put_ptr :: "('a \<Rightarrow> json) \<Rightarrow> string \<Rightarrow> 'a option \<Rightarrow> (string \<times> json) list" where
  "put_ptr enc name x = (case x of None \<Rightarrow> [] | Some y \<Rightarrow> [(name, enc y)])"

subsection \<open>Media references and items\<close>

definition zero_media :: cdn_media where
  "zero_media = \<lparr>cdn_encrypt_query_param = [], cdn_aes_key = [], cdn_encrypt_type = 0, cdn_full_url = []\<rparr>"

definition enc_media :: "cdn_media \<Rightarrow> json" where
  "enc_media m = JObj ([(''encrypt_query_param'', enc_str (cdn_encrypt_query_param m)), (''aes_key'', enc_str (cdn_aes_key m))] @
     put_int ''encrypt_type'' (cdn_encrypt_type m) @ put_str ''full_url'' (cdn_full_url m))"

definition dec_media :: "cdn_media \<Rightarrow> json \<Rightarrow> goerr + cdn_media" where
  "dec_media = dec_into (\<lambda>x kvs.
     dec_then (str_field (cdn_encrypt_query_param x) ''encrypt_query_param'' kvs) (\<lambda>q.
     dec_then (str_field (cdn_aes_key x) ''aes_key'' kvs) (\<lambda>k.
     dec_then (int_field (cdn_encrypt_type x) ''encrypt_type'' kvs) (\<lambda>t.
     dec_then (str_field (cdn_full_url x) ''full_url'' kvs) (\<lambda>u.
     Inr \<lparr>cdn_encrypt_query_param = q, cdn_aes_key = k, cdn_encrypt_type = t, cdn_full_url = u\<rparr>)))))"

abbreviation media_field :: "cdn_media option \<Rightarrow> string \<Rightarrow> (string \<times> json) list \<Rightarrow> goerr + cdn_media option" where
  "media_field cur name kvs \<equiv> ptr_field dec_media zero_media cur name kvs"

definition enc_text :: "string \<Rightarrow> json" where
  "enc_text s = JObj [(''text'', enc_str s)]"

definition dec_text :: "string \<Rightarrow> json \<Rightarrow> goerr + string" where
  "dec_text = dec_into (\<lambda>x kvs. str_field x ''text'' kvs)"

definition zero_image :: image_item where
  "zero_image = \<lparr>im_media = None, im_thumb_media = None, im_aes_key = [], im_url = [], im_mid_size = 0, im_thumb_size = 0,
     im_thumb_width = 0, im_thumb_height = 0, im_hd_size = 0\<rparr>"

definition enc_image :: "image_item \<Rightarrow> json" where
  "enc_image m = JObj (put_ptr enc_media ''media'' (im_media m) @ put_ptr enc_media ''thumb_media'' (im_thumb_media m) @
     put_str ''aeskey'' (im_aes_key m) @ put_str ''url'' (im_url m) @ put_int ''mid_size'' (im_mid_size m) @
     put_int ''thumb_size'' (im_thumb_size m) @ put_int ''thumb_width'' (im_thumb_width m) @
     put_int ''thumb_height'' (im_thumb_height m) @ put_int ''hd_size'' (im_hd_size m))"

definition dec_image :: "image_item \<Rightarrow> json \<Rightarrow> goerr + image_item" where
  "dec_image = dec_into (\<lambda>x kvs.
     dec_then (media_field (im_media x) ''media'' kvs) (\<lambda>m.
     dec_then (media_field (im_thumb_media x) ''thumb_media'' kvs) (\<lambda>tm.
     dec_then (str_field (im_aes_key x) ''aeskey'' kvs) (\<lambda>k.
     dec_then (str_field (im_url x) ''url'' kvs) (\<lambda>u.
     dec_then (int_field (im_mid_size x) ''mid_size'' kvs) (\<lambda>ms.
     dec_then (int_field (im_thumb_size x) ''thumb_size'' kvs) (\<lambda>ts.
     dec_then (int_field (im_thumb_width x) ''thumb_width'' kvs) (\<lambda>tw.
     dec_then (int_field (im_thumb_height x) ''thumb_height'' kvs) (\<lambda>th.
     dec_then (int_field (im_hd_size x) ''hd_size'' kvs) (\<lambda>hd.
     Inr \<lparr>im_media = m, im_thumb_media = tm, im_aes_key = k, im_url = u, im_mid_size = ms, im_thumb_size = ts,
          im_thumb_width = tw, im_thumb_height = th, im_hd_size = hd\<rparr>))))))))))"

definition zero_voice :: voice_item where
  "zero_voice = \<lparr>vo_media = None, vo_encode_type = 0, vo_text = [], vo_playtime = 0\<rparr>"

definition enc_voice :: "voice_item \<Rightarrow> json" where
  "enc_voice m = JObj (put_ptr enc_media ''media'' (vo_media m) @ put_int ''encode_type'' (vo_encode_type m) @
     put_str ''text'' (vo_text m) @ put_int ''playtime'' (vo_playtime m))"

definition dec_voice :: "voice_item \<Rightarrow> json \<Rightarrow> goerr + voice_item" where
  "dec_voice = dec_into (\<lambda>x kvs.
     dec_then (media_field (vo_media x) ''media'' kvs) (\<lambda>m.
     dec_then (int_field (vo_encode_type x) ''encode_type'' kvs) (\<lambda>t.
     dec_then (str_field (vo_text x) ''text'' kvs) (\<lambda>s.
     dec_then (int_field (vo_playtime x) ''playtime'' kvs) (\<lambda>p.
     Inr \<lparr>vo_media = m, vo_encode_type = t, vo_text = s, vo_playtime = p\<rparr>)))))"

definition zero_file :: file_item where
  "zero_file = \<lparr>fi_media = None, fi_file_name = [], fi_md5 = [], fi_len = []\<rparr>"

definition enc_file :: "file_item \<Rightarrow> json" where
  "enc_file m = JObj (put_ptr enc_media ''media'' (fi_media m) @ put_str ''file_name'' (fi_file_name m) @
     put_str ''md5'' (fi_md5 m) @ put_str ''len'' (fi_len m))"

definition dec_file :: "file_item \<Rightarrow> json \<Rightarrow> goerr + file_item" where
  "dec_file = dec_into (\<lambda>x kvs.
     dec_then (media_field (fi_media x) ''media'' kvs) (\<lambda>m.
     dec_then (str_field (fi_file_name x) ''file_name'' kvs) (\<lambda>n.
     dec_then (str_field (fi_md5 x) ''md5'' kvs) (\<lambda>d.
     dec_then (str_field (fi_len x) ''len'' kvs) (\<lambda>l.
     Inr \<lparr>fi_media = m, fi_file_name = n, fi_md5 = d, fi_len = l\<rparr>)))))"

definition zero_video :: video_item where
  "zero_video = \<lparr>vi_media = None, vi_video_size = 0, vi_play_length = 0, vi_thumb_media = None\<rparr>"

definition enc_video :: "video_item \<Rightarrow> json" where
  "enc_video m = JObj (put_ptr enc_media ''media'' (vi_media m) @ put_int ''video_size'' (vi_video_size m) @
     put_int ''play_length'' (vi_play_length m) @ put_ptr enc_media ''thumb_media'' (vi_thumb_media m))"

definition dec_video :: "video_item \<Rightarrow> json \<Rightarrow> goerr + video_item" where
  "dec_video = dec_into (\<lambda>x kvs.
     dec_then (media_field (vi_media x) ''media'' kvs) (\<lambda>m.
     dec_then (int_field (vi_video_size x) ''video_size'' kvs) (\<lambda>s.
     dec_then (int_field (vi_play_length x) ''play_length'' kvs) (\<lambda>p.
     dec_then (media_field (vi_thumb_media x) ''thumb_media'' kvs) (\<lambda>tm.
     Inr \<lparr>vi_media = m, vi_video_size = s, vi_play_length = p, vi_thumb_media = tm\<rparr>)))))"

definition zero_tool_start :: tool_call_start_item where
  "zero_tool_start = \<lparr>ts_tool_name = [], ts_tool_call_id = []\<rparr>"

definition enc_tool_start :: "tool_call_start_item \<Rightarrow> json" where
  "enc_tool_start m = JObj (put_str ''tool_name'' (ts_tool_name m) @ put_str ''tool_call_id'' (ts_tool_call_id m))"

definition dec_tool_start :: "tool_call_start_item \<Rightarrow> json \<Rightarrow> goerr + tool_call_start_item" where
  "dec_tool_start = dec_into (\<lambda>x kvs.
     dec_then (str_field (ts_tool_name x) ''tool_name'' kvs) (\<lambda>n.
     dec_then (str_field (ts_tool_call_id x) ''tool_call_id'' kvs) (\<lambda>i.
     Inr \<lparr>ts_tool_name = n, ts_tool_call_id = i\<rparr>)))"

definition zero_tool_result :: tool_call_result_item where
  "zero_tool_result = \<lparr>tr_tool_name = [], tr_tool_call_id = [], tr_status = []\<rparr>"

definition enc_tool_result :: "tool_call_result_item \<Rightarrow> json" where
  "enc_tool_result m = JObj (put_str ''tool_name'' (tr_tool_name m) @ put_str ''tool_call_id'' (tr_tool_call_id m) @
     put_str ''status'' (tr_status m))"

definition dec_tool_result :: "tool_call_result_item \<Rightarrow> json \<Rightarrow> goerr + tool_call_result_item" where
  "dec_tool_result = dec_into (\<lambda>x kvs.
     dec_then (str_field (tr_tool_name x) ''tool_name'' kvs) (\<lambda>n.
     dec_then (str_field (tr_tool_call_id x) ''tool_call_id'' kvs) (\<lambda>i.
     dec_then (str_field (tr_status x) ''status'' kvs) (\<lambda>s.
     Inr \<lparr>tr_tool_name = n, tr_tool_call_id = i, tr_status = s\<rparr>))))"

definition zero_item :: message_item where
  "zero_item = MessageItem 0 0 0 None [] None None None None None None None None"

definition zero_ref :: ref_message where "zero_ref = RefMessage [] None"

primrec enc_item :: "message_item \<Rightarrow> json"
and enc_ref :: "ref_message \<Rightarrow> json" where
  "enc_item (MessageItem ty ct ut ic mid tx im vo fi vi ts tr rm) =
     JObj ([(''type'', JInt ty)] @ put_int ''create_time_ms'' ct @ put_int ''update_time_ms'' ut @
       put_ptr JBool ''is_completed'' ic @ put_str ''msg_id'' mid @ put_ptr enc_text ''text_item'' tx @
       put_ptr enc_image ''image_item'' im @ put_ptr enc_voice ''voice_item'' vo @ put_ptr enc_file ''file_item'' fi @
       put_ptr enc_video ''video_item'' vi @ put_ptr enc_tool_start ''tool_call_start_item'' ts @
       put_ptr enc_tool_result ''tool_call_result_item'' tr @
       (case map_option enc_ref rm of None \<Rightarrow> [] | Some v \<Rightarrow> [(''ref_msg'', v)]))"
| "enc_ref (RefMessage title it) =
     JObj (put_str ''title'' title @ (case map_option enc_item it of None \<Rightarrow> [] | Some v \<Rightarrow> [(''message_item'', v)]))"

lemma field_value_size: "v \<in> set (field_values name kvs) \<Longrightarrow> size v < size (JObj kvs)"
proof -
  assume "v \<in> set (field_values name kvs)"
  then obtain k where "(k, v) \<in> set kvs" by (auto simp: field_values_def)
  then have "size v < Suc (size_list (size_prod (\<lambda>x. 0) size) kvs)"
    by (induction kvs) (auto simp: less_Suc_eq_le)
  then show ?thesis by simp
qed

function dec_item :: "message_item \<Rightarrow> json \<Rightarrow> goerr + message_item"
and dec_ref :: "ref_message \<Rightarrow> json \<Rightarrow> goerr + ref_message" where
  "dec_item x v =
     (case v of
        JObj kvs \<Rightarrow>
          dec_then (int_field (mi_type x) ''type'' kvs) (\<lambda>ty.
          dec_then (int_field (mi_create_time_ms x) ''create_time_ms'' kvs) (\<lambda>ct.
          dec_then (int_field (mi_update_time_ms x) ''update_time_ms'' kvs) (\<lambda>ut.
          dec_then (ptr_field (\<lambda>_. dec_bool) False (mi_is_completed x) ''is_completed'' kvs) (\<lambda>ic.
          dec_then (str_field (mi_msg_id x) ''msg_id'' kvs) (\<lambda>mid.
          dec_then (ptr_field dec_text [] (mi_text x) ''text_item'' kvs) (\<lambda>tx.
          dec_then (ptr_field dec_image zero_image (mi_image x) ''image_item'' kvs) (\<lambda>im.
          dec_then (ptr_field dec_voice zero_voice (mi_voice x) ''voice_item'' kvs) (\<lambda>vo.
          dec_then (ptr_field dec_file zero_file (mi_file x) ''file_item'' kvs) (\<lambda>fi.
          dec_then (ptr_field dec_video zero_video (mi_video x) ''video_item'' kvs) (\<lambda>vi.
          dec_then (ptr_field dec_tool_start zero_tool_start (mi_tool_start x) ''tool_call_start_item'' kvs) (\<lambda>ts.
          dec_then (ptr_field dec_tool_result zero_tool_result (mi_tool_result x) ''tool_call_result_item'' kvs) (\<lambda>tr.
          dec_then (dec_pointer dec_ref zero_ref (mi_ref x) (field_values ''ref_msg'' kvs)) (\<lambda>rm.
          Inr (MessageItem ty ct ut ic mid tx im vo fi vi ts tr rm))))))))))))))
      | JNull \<Rightarrow> Inr x
      | _ \<Rightarrow> Inl json_type_error)"
| "dec_ref x v =
     (case v of
        JObj kvs \<Rightarrow>
          dec_then (str_field (rm_title x) ''title'' kvs) (\<lambda>title.
          dec_then (dec_pointer dec_item zero_item (rm_item x) (field_values ''message_item'' kvs)) (\<lambda>it.
          Inr (RefMessage title it)))
      | JNull \<Rightarrow> Inr x
      | _ \<Rightarrow> Inl json_type_error)"
  by pat_completeness auto
termination
  by (relation "measure (case_sum (\<lambda>(x, v). size v) (\<lambda>(x, v). size v))") (auto dest: field_value_size)

declare dec_item.simps [simp del] dec_ref.simps [simp del]

subsection \<open>Messages\<close>

definition zero_wire :: wire_message where
  "zero_wire = \<lparr>wm_seq = 0, wm_message_id = 0, wm_from_user_id = [], wm_to_user_id = [], wm_client_id = [],
     wm_create_time_ms = 0, wm_update_time_ms = 0, wm_delete_time_ms = 0, wm_session_id = [], wm_group_id = [],
     wm_message_type = 0, wm_message_state = 0, wm_context_token = [], wm_run_id = [], wm_item_list = []\<rparr>"

definition enc_wire :: "wire_message \<Rightarrow> json" where
  "enc_wire m = JObj (put_int ''seq'' (wm_seq m) @ put_int ''message_id'' (wm_message_id m) @
     [(''from_user_id'', enc_str (wm_from_user_id m)), (''to_user_id'', enc_str (wm_to_user_id m)),
      (''client_id'', enc_str (wm_client_id m)), (''create_time_ms'', JInt (wm_create_time_ms m))] @
     put_int ''update_time_ms'' (wm_update_time_ms m) @ put_int ''delete_time_ms'' (wm_delete_time_ms m) @
     put_str ''session_id'' (wm_session_id m) @ put_str ''group_id'' (wm_group_id m) @
     [(''message_type'', JInt (wm_message_type m)), (''message_state'', JInt (wm_message_state m)),
      (''context_token'', enc_str (wm_context_token m))] @ put_str ''run_id'' (wm_run_id m) @
     [(''item_list'', JArr (map enc_item (wm_item_list m)))])"

definition wire_fields :: "wire_message \<Rightarrow> (string \<times> json) list \<Rightarrow> goerr + wire_message" where
  "wire_fields x kvs =
     dec_then (int_field (wm_seq x) ''seq'' kvs) (\<lambda>sq.
     dec_then (int_field (wm_message_id x) ''message_id'' kvs) (\<lambda>mid.
     dec_then (str_field (wm_from_user_id x) ''from_user_id'' kvs) (\<lambda>fu.
     dec_then (str_field (wm_to_user_id x) ''to_user_id'' kvs) (\<lambda>tu.
     dec_then (str_field (wm_client_id x) ''client_id'' kvs) (\<lambda>ci.
     dec_then (int_field (wm_create_time_ms x) ''create_time_ms'' kvs) (\<lambda>ct.
     dec_then (int_field (wm_update_time_ms x) ''update_time_ms'' kvs) (\<lambda>ut.
     dec_then (int_field (wm_delete_time_ms x) ''delete_time_ms'' kvs) (\<lambda>dt.
     dec_then (str_field (wm_session_id x) ''session_id'' kvs) (\<lambda>si.
     dec_then (str_field (wm_group_id x) ''group_id'' kvs) (\<lambda>gi.
     dec_then (int_field (wm_message_type x) ''message_type'' kvs) (\<lambda>ty.
     dec_then (int_field (wm_message_state x) ''message_state'' kvs) (\<lambda>st.
     dec_then (str_field (wm_context_token x) ''context_token'' kvs) (\<lambda>tok.
     dec_then (str_field (wm_run_id x) ''run_id'' kvs) (\<lambda>ri.
     dec_then (dec_slice dec_item zero_item (wm_item_list x) (field_values ''item_list'' kvs)) (\<lambda>items.
     Inr \<lparr>wm_seq = sq, wm_message_id = mid, wm_from_user_id = fu, wm_to_user_id = tu, wm_client_id = ci,
          wm_create_time_ms = ct, wm_update_time_ms = ut, wm_delete_time_ms = dt, wm_session_id = si, wm_group_id = gi,
          wm_message_type = ty, wm_message_state = st, wm_context_token = tok, wm_run_id = ri,
          wm_item_list = items\<rparr>)))))))))))))))"

definition dec_wire :: "wire_message \<Rightarrow> json \<Rightarrow> goerr + wire_message" where
  "dec_wire = dec_into wire_fields"

text \<open>\<open>decodeWireMessage\<close>, on a raw message of an answer.\<close>

definition decode_wire_message :: "json \<Rightarrow> goerr + wire_message" where
  "decode_wire_message raw =
     (case dec_wire zero_wire raw of Inl e \<Rightarrow> Inl (Wrapf ''decode incoming message: '' e []) | Inr m \<Rightarrow> Inr m)"

text \<open>The map \<open>BuildMessage\<close> makes; an encoded map has its keys in order.\<close>

definition enc_payload :: "outbound_payload \<Rightarrow> json" where
  "enc_payload p = JObj ([(''client_id'', enc_str (pl_client_id p)), (''context_token'', enc_str (pl_context_token p)),
     (''from_user_id'', enc_str (pl_from_user_id p)), (''item_list'', JArr (map enc_item (pl_item_list p))),
     (''message_state'', JInt (pl_message_state p)), (''message_type'', JInt (pl_message_type p))] @
     (case pl_run_id p of None \<Rightarrow> [] | Some r \<Rightarrow> [(''run_id'', enc_str r)]) @
     [(''to_user_id'', enc_str (pl_to_user_id p))])"

subsection \<open>Names\<close>

text \<open>The names of the fields have no capital letters, so a name matches no other.\<close>

definition plain_name :: "string \<Rightarrow> bool" where
  "plain_name s \<longleftrightarrow> fold_name s = s"

lemma key_matches_plain [simp]: "plain_name k \<Longrightarrow> plain_name f \<Longrightarrow> key_matches k f \<longleftrightarrow> k = f"
  by (auto simp: key_matches_def plain_name_def)

lemma plain_names [simp]:
  "plain_name ''aes_key''" "plain_name ''aeskey''" "plain_name ''client_id''" "plain_name ''context_token''"
    "plain_name ''create_time_ms''" "plain_name ''delete_time_ms''" "plain_name ''encode_type''"
    "plain_name ''encrypt_query_param''" "plain_name ''encrypt_type''" "plain_name ''file_item''"
    "plain_name ''file_name''" "plain_name ''from_user_id''" "plain_name ''full_url''" "plain_name ''group_id''"
    "plain_name ''hd_size''" "plain_name ''image_item''" "plain_name ''is_completed''" "plain_name ''item_list''"
    "plain_name ''len''" "plain_name ''md5''" "plain_name ''media''" "plain_name ''message_id''"
    "plain_name ''message_item''" "plain_name ''message_state''" "plain_name ''message_type''"
    "plain_name ''mid_size''" "plain_name ''msg_id''" "plain_name ''play_length''" "plain_name ''playtime''"
    "plain_name ''ref_msg''" "plain_name ''run_id''" "plain_name ''seq''" "plain_name ''session_id''"
    "plain_name ''status''" "plain_name ''text''" "plain_name ''text_item''" "plain_name ''thumb_height''"
    "plain_name ''thumb_media''" "plain_name ''thumb_size''" "plain_name ''thumb_width''" "plain_name ''title''"
    "plain_name ''to_user_id''" "plain_name ''tool_call_id''" "plain_name ''tool_call_result_item''"
    "plain_name ''tool_call_start_item''" "plain_name ''tool_name''" "plain_name ''type''"
    "plain_name ''update_time_ms''" "plain_name ''url''" "plain_name ''video_item''" "plain_name ''video_size''"
    "plain_name ''voice_item''"
  by code_simp+

lemma field_values_simps [simp]:
  "field_values f [] = []"
  "field_values f ((k, v) # kvs) = (if key_matches k f then v # field_values f kvs else field_values f kvs)"
  "field_values f (kvs @ kvs') = field_values f kvs @ field_values f kvs'"
  by (simp_all add: field_values_def)

lemma field_values_put [simp]:
  "field_values f (put_int k i) = (if key_matches k f \<and> i \<noteq> 0 then [JInt i] else [])"
  "field_values f (put_str k s) = (if key_matches k f \<and> s \<noteq> [] then [enc_str s] else [])"
  "field_values f (put_ptr enc k x) = (if key_matches k f then (case x of None \<Rightarrow> [] | Some y \<Rightarrow> [enc y]) else [])"
  by (simp_all add: put_int_def put_str_def put_ptr_def split: option.split)

subsection \<open>Reading back\<close>

lemma enc_str_not_null [simp]: "enc_str s \<noteq> JNull"
  by (simp add: enc_str_def)

lemma dec_int64_in [simp]: "in_int64 i \<Longrightarrow> dec_int64 (JInt i) = Inr i"
  by (simp add: dec_int64_def)

lemma dec_last_one [simp]:
  "valid_utf8 s \<Longrightarrow> dec_last (\<lambda>_. dec_str) d [enc_str s] = Inr s"
  "in_int64 i \<Longrightarrow> dec_last (\<lambda>_. dec_int64) d' [JInt i] = Inr i"
  by simp_all

lemma dec_last_omit [simp]:
  "valid_utf8 s \<Longrightarrow> dec_last (\<lambda>_. dec_str) [] (if s = [] then [] else [enc_str s]) = Inr s"
  "valid_utf8 s \<Longrightarrow> dec_last (\<lambda>_. dec_str) [] (if s \<noteq> [] then [enc_str s] else []) = Inr s"
  "in_int64 i \<Longrightarrow> dec_last (\<lambda>_. dec_int64) 0 (if i = 0 then [] else [JInt i]) = Inr i"
  "in_int64 i \<Longrightarrow> dec_last (\<lambda>_. dec_int64) 0 (if i \<noteq> 0 then [JInt i] else []) = Inr i"
  by simp_all

lemma dec_pointer_put:
  "(\<And>y. x = Some y \<Longrightarrow> enc y \<noteq> JNull \<and> dec zero (enc y) = Inr y) \<Longrightarrow>
   dec_pointer dec zero None (case x of None \<Rightarrow> [] | Some y \<Rightarrow> [enc y]) = Inr x"
  by (cases x) auto

definition media_ok :: "cdn_media \<Rightarrow> bool" where
  "media_ok m \<longleftrightarrow> valid_utf8 (cdn_encrypt_query_param m) \<and> valid_utf8 (cdn_aes_key m) \<and>
     in_int64 (cdn_encrypt_type m) \<and> valid_utf8 (cdn_full_url m)"

lemma media_back: "media_ok m \<Longrightarrow> dec_media zero_media (enc_media m) = Inr m"
  by (cases m) (simp add: media_ok_def dec_media_def enc_media_def zero_media_def dec_into_def dec_field_def)

lemma media_ptr_back:
  "pred_option media_ok x \<Longrightarrow>
   dec_pointer dec_media zero_media None (case x of None \<Rightarrow> [] | Some y \<Rightarrow> [enc_media y]) = Inr x"
  by (rule dec_pointer_put) (simp add: media_back, simp add: enc_media_def)

lemmas field_defs = dec_into_def dec_field_def ptr_field_def

definition image_ok :: "image_item \<Rightarrow> bool" where
  "image_ok m \<longleftrightarrow> pred_option media_ok (im_media m) \<and> pred_option media_ok (im_thumb_media m) \<and>
     valid_utf8 (im_aes_key m) \<and> valid_utf8 (im_url m) \<and> in_int64 (im_mid_size m) \<and> in_int64 (im_thumb_size m) \<and>
     in_int64 (im_thumb_width m) \<and> in_int64 (im_thumb_height m) \<and> in_int64 (im_hd_size m)"

definition voice_ok :: "voice_item \<Rightarrow> bool" where
  "voice_ok m \<longleftrightarrow> pred_option media_ok (vo_media m) \<and> in_int64 (vo_encode_type m) \<and> valid_utf8 (vo_text m) \<and>
     in_int64 (vo_playtime m)"

definition file_ok :: "file_item \<Rightarrow> bool" where
  "file_ok m \<longleftrightarrow> pred_option media_ok (fi_media m) \<and> valid_utf8 (fi_file_name m) \<and> valid_utf8 (fi_md5 m) \<and>
     valid_utf8 (fi_len m)"

definition video_ok :: "video_item \<Rightarrow> bool" where
  "video_ok m \<longleftrightarrow> pred_option media_ok (vi_media m) \<and> in_int64 (vi_video_size m) \<and> in_int64 (vi_play_length m) \<and>
     pred_option media_ok (vi_thumb_media m)"

definition tool_start_ok :: "tool_call_start_item \<Rightarrow> bool" where
  "tool_start_ok m \<longleftrightarrow> valid_utf8 (ts_tool_name m) \<and> valid_utf8 (ts_tool_call_id m)"

definition tool_result_ok :: "tool_call_result_item \<Rightarrow> bool" where
  "tool_result_ok m \<longleftrightarrow> valid_utf8 (tr_tool_name m) \<and> valid_utf8 (tr_tool_call_id m) \<and> valid_utf8 (tr_status m)"

lemma text_back: "valid_utf8 s \<Longrightarrow> dec_text [] (enc_text s) = Inr s"
  by (simp add: dec_text_def enc_text_def field_defs)

lemma image_back: "image_ok m \<Longrightarrow> dec_image zero_image (enc_image m) = Inr m"
  by (cases m) (simp add: image_ok_def dec_image_def enc_image_def zero_image_def field_defs media_ptr_back)

lemma voice_back: "voice_ok m \<Longrightarrow> dec_voice zero_voice (enc_voice m) = Inr m"
  by (cases m) (simp add: voice_ok_def dec_voice_def enc_voice_def zero_voice_def field_defs media_ptr_back)

lemma file_back: "file_ok m \<Longrightarrow> dec_file zero_file (enc_file m) = Inr m"
  by (cases m) (simp add: file_ok_def dec_file_def enc_file_def zero_file_def field_defs media_ptr_back)

lemma video_back: "video_ok m \<Longrightarrow> dec_video zero_video (enc_video m) = Inr m"
  by (cases m) (simp add: video_ok_def dec_video_def enc_video_def zero_video_def field_defs media_ptr_back)

lemma tool_start_back: "tool_start_ok m \<Longrightarrow> dec_tool_start zero_tool_start (enc_tool_start m) = Inr m"
  by (cases m) (simp add: tool_start_ok_def dec_tool_start_def enc_tool_start_def zero_tool_start_def field_defs)

lemma tool_result_back: "tool_result_ok m \<Longrightarrow> dec_tool_result zero_tool_result (enc_tool_result m) = Inr m"
  by (cases m) (simp add: tool_result_ok_def dec_tool_result_def enc_tool_result_def zero_tool_result_def field_defs)

lemma objects_not_null [simp]:
  "enc_text s \<noteq> JNull" "enc_media x1 \<noteq> JNull" "enc_image x2 \<noteq> JNull" "enc_voice x3 \<noteq> JNull" "enc_file x4 \<noteq> JNull"
  "enc_video x5 \<noteq> JNull" "enc_tool_start x6 \<noteq> JNull" "enc_tool_result x7 \<noteq> JNull"
  by (simp_all add: enc_text_def enc_media_def enc_image_def enc_voice_def enc_file_def enc_video_def
      enc_tool_start_def enc_tool_result_def)

lemma ptrs_back:
  "pred_option valid_utf8 tx \<Longrightarrow> dec_pointer dec_text [] None (case tx of None \<Rightarrow> [] | Some y \<Rightarrow> [enc_text y]) = Inr tx"
  "pred_option image_ok im \<Longrightarrow> dec_pointer dec_image zero_image None (case im of None \<Rightarrow> [] | Some y \<Rightarrow> [enc_image y]) = Inr im"
  "pred_option voice_ok vo \<Longrightarrow> dec_pointer dec_voice zero_voice None (case vo of None \<Rightarrow> [] | Some y \<Rightarrow> [enc_voice y]) = Inr vo"
  "pred_option file_ok fi \<Longrightarrow> dec_pointer dec_file zero_file None (case fi of None \<Rightarrow> [] | Some y \<Rightarrow> [enc_file y]) = Inr fi"
  "pred_option video_ok vi \<Longrightarrow> dec_pointer dec_video zero_video None (case vi of None \<Rightarrow> [] | Some y \<Rightarrow> [enc_video y]) = Inr vi"
  "pred_option tool_start_ok ts \<Longrightarrow>
     dec_pointer dec_tool_start zero_tool_start None (case ts of None \<Rightarrow> [] | Some y \<Rightarrow> [enc_tool_start y]) = Inr ts"
  "pred_option tool_result_ok tr \<Longrightarrow>
     dec_pointer dec_tool_result zero_tool_result None (case tr of None \<Rightarrow> [] | Some y \<Rightarrow> [enc_tool_result y]) = Inr tr"
  "dec_pointer (\<lambda>_. dec_bool) False None (case ic of None \<Rightarrow> [] | Some y \<Rightarrow> [JBool y]) = Inr ic"
  by (rule dec_pointer_put; simp add: text_back image_back voice_back file_back video_back tool_start_back tool_result_back
      dec_bool_def)+

primrec item_ok :: "message_item \<Rightarrow> bool" and ref_ok :: "ref_message \<Rightarrow> bool" where
  "item_ok (MessageItem ty ct ut ic mid tx im vo fi vi ts tr rm) \<longleftrightarrow> in_int64 ty \<and> in_int64 ct \<and> in_int64 ut \<and>
     valid_utf8 mid \<and> pred_option valid_utf8 tx \<and> pred_option image_ok im \<and> pred_option voice_ok vo \<and> pred_option file_ok fi \<and>
     pred_option video_ok vi \<and> pred_option tool_start_ok ts \<and> pred_option tool_result_ok tr \<and>
     (case map_option ref_ok rm of None \<Rightarrow> True | Some ok \<Rightarrow> ok)"
| "ref_ok (RefMessage title it) \<longleftrightarrow> valid_utf8 title \<and> (case map_option item_ok it of None \<Rightarrow> True | Some ok \<Rightarrow> ok)"

lemma enc_not_null [simp]: "enc_item it \<noteq> JNull" "enc_ref rm \<noteq> JNull"
  by (cases it, simp) (cases rm, simp)

lemma item_back: "item_ok it \<Longrightarrow> dec_item zero_item (enc_item it) = Inr it"
  and ref_back: "ref_ok rm \<Longrightarrow> dec_ref zero_ref (enc_ref rm) = Inr rm"
proof (induction it and rm)
  case (MessageItem ty ct ut ic mid tx im vo fi vi ts tr rm)
  have "dec_pointer dec_ref zero_ref None (case map_option enc_ref rm of None \<Rightarrow> [] | Some v \<Rightarrow> [v]) = Inr rm"
    using MessageItem by (cases rm) auto
  then show ?case
    using MessageItem.prems
    by (cases rm) (simp_all add: dec_item.simps [of x "JObj kvs" for x kvs] zero_item_def field_defs ptrs_back)
next
  case (RefMessage title it)
  then show ?case
    by (cases it) (auto simp: dec_ref.simps [of x "JObj kvs" for x kvs] zero_ref_def field_defs)
qed

definition wire_ok :: "wire_message \<Rightarrow> bool" where
  "wire_ok m \<longleftrightarrow> in_int64 (wm_seq m) \<and> in_int64 (wm_message_id m) \<and> valid_utf8 (wm_from_user_id m) \<and>
     valid_utf8 (wm_to_user_id m) \<and> valid_utf8 (wm_client_id m) \<and> in_int64 (wm_create_time_ms m) \<and>
     in_int64 (wm_update_time_ms m) \<and> in_int64 (wm_delete_time_ms m) \<and> valid_utf8 (wm_session_id m) \<and>
     valid_utf8 (wm_group_id m) \<and> in_int64 (wm_message_type m) \<and> in_int64 (wm_message_state m) \<and>
     valid_utf8 (wm_context_token m) \<and> valid_utf8 (wm_run_id m) \<and> list_all item_ok (wm_item_list m)"

lemma items_back:
  "list_all item_ok its \<Longrightarrow> dec_slice dec_item zero_item [] [JArr (map enc_item its)] = Inr its"
proof -
  have "list_all item_ok its \<Longrightarrow> dec_elements dec_item zero_item [] (map enc_item its) = Inr its"
    by (induction its) (simp_all add: item_back)
  then show "list_all item_ok its \<Longrightarrow> dec_slice dec_item zero_item [] [JArr (map enc_item its)] = Inr its" by simp
qed

lemma wire_back: "wire_ok m \<Longrightarrow> decode_wire_message (enc_wire m) = Inr m"
  by (cases m)
    (simp add: wire_ok_def decode_wire_message_def dec_wire_def wire_fields_def enc_wire_def zero_wire_def field_defs items_back del: dec_slice.simps)

text \<open>What the service reads of the payload of a sent message, when it reads it as the wire type.\<close>

definition read_of_payload :: "outbound_payload \<Rightarrow> wire_message" where
  "read_of_payload p = zero_wire\<lparr>wm_from_user_id := pl_from_user_id p, wm_to_user_id := pl_to_user_id p,
     wm_client_id := pl_client_id p, wm_message_type := pl_message_type p, wm_message_state := pl_message_state p,
     wm_context_token := pl_context_token p, wm_run_id := (case pl_run_id p of None \<Rightarrow> [] | Some r \<Rightarrow> r),
     wm_item_list := pl_item_list p\<rparr>"

lemma payload_back:
  assumes "valid_utf8 userID" and "valid_utf8 contextToken" and "valid_utf8 clientID" and "valid_utf8 runID" and "item_ok it"
  shows "decode_wire_message (enc_payload (build_message userID contextToken clientID runID it)) =
    Inr (read_of_payload (build_message userID contextToken clientID runID it))"
proof -
  have "in_int64 2" by (simp add: in_int64_def)
  moreover have "enc_item it = hd (map enc_item [it])" by simp
  ultimately show ?thesis
    using assms items_back [of "[it]"]
    by (simp add: decode_wire_message_def dec_wire_def wire_fields_def enc_payload_def build_message_def read_of_payload_def zero_wire_def field_defs
        del: dec_slice.simps)
qed

end
