(* ===== verification/PollProps.thy ===== *)
theory PollProps
  imports PollLoop WireJson "HOL-Library.Sublist"
begin

section \<open>The poll loop: properties\<close>

text \<open>
  First an invariant of the dispatcher alone: its tasks carry the messages of their batches, in
  order.  Then the invariant of the whole pipeline, and the end-to-end guarantee: the cursor on
  disk has gone past nothing that was not handled.
\<close>

subsection \<open>The tasks carry the messages of their batches\<close>

definition sent :: "dispatcher \<Rightarrow> nat \<Rightarrow> (goerr + wire_message) list" where
  "sent d bid = map (\<lambda>t. Inr (tk_wire t)) (filter (\<lambda>t. tk_batch t = bid) (d_tasks d))"

fun sending_right :: "dispatcher \<Rightarrow> submitter \<Rightarrow> bool" where
  "sending_right d (Sending bid g ms) \<longleftrightarrow> bid < length (d_submitted d) \<and>
     sent d bid @ ms = ub_messages (d_submitted d ! bid)"
| "sending_right d (WantPending bid g wire ms) \<longleftrightarrow> bid < length (d_submitted d) \<and>
     sent d bid @ Inr wire # ms = ub_messages (d_submitted d ! bid)"
| "sending_right d (Spawning bid g wire ms) \<longleftrightarrow> bid < length (d_submitted d) \<and>
     sent d bid @ Inr wire # ms = ub_messages (d_submitted d ! bid)"
| "sending_right d _ \<longleftrightarrow> True"

definition messages_right :: "dispatcher \<Rightarrow> bool" where
  "messages_right d \<longleftrightarrow> sending_right d (d_submit d) \<and>
     (\<forall>bid<length (d_submitted d). prefix (sent d bid) (ub_messages (d_submitted d ! bid)))"

lemma sending_right_cong:
  "(\<And>bid. sent d' bid = sent d bid) \<Longrightarrow> d_submitted d' = d_submitted d \<Longrightarrow> sending_right d' s = sending_right d s"
  by (cases s) auto

lemma messages_right_cong:
  "messages_right d \<Longrightarrow> (\<And>bid. sent d' bid = sent d bid) \<Longrightarrow> d_submitted d' = d_submitted d \<Longrightarrow>
   sending_right d (d_submit d') \<Longrightarrow> messages_right d'"
  by (simp add: messages_right_def sending_right_cong [of d' d])

lemma sent_update:
  "tk_batch (f (d_tasks d ! i)) = tk_batch (d_tasks d ! i) \<Longrightarrow> tk_wire (f (d_tasks d ! i)) = tk_wire (d_tasks d ! i) \<Longrightarrow>
   d_tasks d' = (d_tasks d)[i := f (d_tasks d ! i)] \<Longrightarrow> sent d' bid = sent d bid"
proof -
  have "map (\<lambda>t. Inr (tk_wire t)) (filter (\<lambda>t. tk_batch t = bid) (ts[i := x])) =
      map (\<lambda>t. Inr (tk_wire t)) (filter (\<lambda>t. tk_batch t = bid) ts)"
    if "tk_batch x = tk_batch (ts ! i)" "tk_wire x = tk_wire (ts ! i)" for ts i x
    using that by (induction ts arbitrary: i) (auto split: nat.split)
  then show "tk_batch (f (d_tasks d ! i)) = tk_batch (d_tasks d ! i) \<Longrightarrow>
      tk_wire (f (d_tasks d ! i)) = tk_wire (d_tasks d ! i) \<Longrightarrow>
      d_tasks d' = (d_tasks d)[i := f (d_tasks d ! i)] \<Longrightarrow> sent d' bid = sent d bid"
    by (simp add: sent_def)
qed

lemma sent_cong: "d_tasks d' = d_tasks d \<Longrightarrow> sent d' bid = sent d bid"
  by (simp add: sent_def)

lemma sent_set_phase [simp]: "sent (set_phase i p d) bid = sent d bid"
  by (rule sent_update [where f = "\<lambda>t. t\<lparr>tk_phase := p\<rparr>" and i = i]) (simp_all add: set_phase_def)

lemma sent_set_ran [simp]: "sent (set_ran i r d) bid = sent d bid"
  by (rule sent_update [where f = "\<lambda>t. t\<lparr>tk_phase := Ran r, tk_result := Some r\<rparr>" and i = i])
    (simp_all add: set_ran_def)

lemma sent_frames [simp]:
  "sent (complete E bid0 r x d) bid = sent d bid" "sent (cancel_unscheduled bid0 n d) bid = sent d bid"
  "sent (unlink_tail i d) bid = sent d bid" "sent (advance_cursor_locked E d) bid = sent d bid"
  "sent (d\<lparr>d_submit := s\<rparr>) bid = sent d bid" "sent (d\<lparr>d_pending := k\<rparr>) bid = sent d bid"
  "sent (d\<lparr>d_active := k\<rparr>) bid = sent d bid" "sent (d\<lparr>d_slots := k\<rparr>) bid = sent d bid"
  "sent (d\<lparr>d_cancelled := c\<rparr>) bid = sent d bid" "sent (d\<lparr>d_bot := b, d_world := w\<rparr>) bid = sent d bid"
  by (auto intro!: sent_cong)

lemma sent_spawn:
  "sent (spawn_task bid0 g wire d) bid = (if bid = bid0 then sent d bid @ [Inr wire] else sent d bid)"
  by (simp add: sent_def spawn_task_def Let_def)

lemma messages_right_same:
  "messages_right d \<Longrightarrow> (\<And>bid. sent d' bid = sent d bid) \<Longrightarrow> d_submitted d' = d_submitted d \<Longrightarrow>
   d_submit d' = d_submit d \<Longrightarrow> messages_right d'"
  by (rule messages_right_cong) (auto simp: messages_right_def)

lemma messages_right_task: "task_step E i d d' \<Longrightarrow> messages_right d \<Longrightarrow> messages_right d'"
  by (erule task_step.cases) (auto elim!: messages_right_same)

lemma messages_right_submit:
  assumes "submit_step E d d'" and "books d" and "messages_right d"
  shows "messages_right d'"
  using assms(1)
proof cases
  case (register batch)
  have reg: "d_submitted d' = d_submitted d @ [batch]" "d_submit d' = Sending (d_next_batch d) (ub_generation batch) (ub_messages batch)"
    "\<And>bid. sent d' bid = sent d bid"
    by (auto simp: register register_batch_def Let_def intro!: sent_cong)
  have new: "sent d (length (d_submitted d)) = []"
    using booksD(4,5) [OF assms(2)] by (fastforce simp: sent_def filter_empty_conv)
  show ?thesis
    using assms(3) new booksD(4) [OF assms(2)] by (auto simp: messages_right_def reg nth_append less_Suc_eq)
next
  case (spawn bid g wire ms)
  then have "sent d bid @ Inr wire # ms = ub_messages (d_submitted d ! bid)" "bid < length (d_submitted d)"
    using assms(3) by (auto simp: messages_right_def)
  moreover have "d_submitted (spawn_task bid g wire d) = d_submitted d" by (simp add: spawn_task_def Let_def)
  ultimately show ?thesis
    using assms(3) by (auto simp: messages_right_def spawn sent_spawn prefix_def intro: exI [of _ ms])
qed (use assms(3) in \<open>auto elim!: messages_right_cong simp: messages_right_def\<close>)

lemma messages_right_step: "dispatch_step E d d' \<Longrightarrow> books d \<Longrightarrow> messages_right d \<Longrightarrow> messages_right d'"
  by (cases rule: dispatch_step.cases, assumption)
    (auto intro: messages_right_task messages_right_submit elim!: other_step.cases elim: messages_right_same)

lemma handled_messages:
  assumes "books d" and "messages_right d" and "bid < d_next_commit d"
  shows "sent d bid = ub_messages (d_submitted d ! bid)"
proof -
  have "bid < length (d_submitted d)" using booksD(3,4) [OF assms(1)] assms(3) by simp
  then have "prefix (sent d bid) (ub_messages (d_submitted d ! bid))"
    using assms(2) by (simp add: messages_right_def)
  moreover have "length (sent d bid) = length (ub_messages (d_submitted d ! bid))"
    using booksD(8) [OF assms(1,3)] by (simp add: handled_def sent_def spawned_in_def)
  ultimately show ?thesis by (auto simp: prefix_def)
qed

subsection \<open>The invariant of the pipeline\<close>

definition from_service :: "(string \<Rightarrow> get_updates_response \<Rightarrow> bool) \<Rightarrow> (json \<Rightarrow> goerr + wire_message) \<Rightarrow>
    64 word \<Rightarrow> string \<Rightarrow> update_batch \<Rightarrow> bool" where
  "from_service answers decode generation c batch \<longleftrightarrow>
     (\<exists>r. answers c r \<and> valid_utf8 (gu_get_updates_buf r) \<and> batch = answer_batch decode generation c r)"

lemma from_service_valid:
  "from_service answers decode generation c batch \<Longrightarrow> valid_utf8 c \<Longrightarrow> valid_utf8 (ub_cursor batch)"
  by (auto simp: from_service_def answer_batch_def next_cursor_def)

lemma from_service_cursor:
  "from_service answers decode generation c batch \<Longrightarrow> cursor_after c [batch] = ub_cursor batch"
  by (auto simp: from_service_def answer_batch_def next_cursor_def cursor_after_def split: if_splits)

lemma cursor_after_append: "cursor_after c (xs @ ys) = cursor_after (cursor_after c xs) ys"
  by (simp add: cursor_after_def)

text \<open>The batches put into the queue: each is the service's answer to the cursor after those before it.\<close>

definition asked_right :: "(string \<Rightarrow> update_batch \<Rightarrow> bool) \<Rightarrow> string \<Rightarrow> pipeline \<Rightarrow> bool" where
  "asked_right fits c p \<longleftrightarrow> valid_utf8 (po_cursor (pp_poller p)) \<and>
     po_cursor (pp_poller p) = cursor_after c (pp_asked p) \<and>
     (\<forall>i<length (pp_asked p). fits (cursor_after c (take i (pp_asked p))) (pp_asked p ! i) \<and>
        valid_utf8 (ub_cursor (pp_asked p ! i))) \<and>
     (case po_phase (pp_poller p) of Offering batch \<Rightarrow> fits (po_cursor (pp_poller p)) batch | _ \<Rightarrow> True)"

text \<open>None of them is lost on its way to the dispatcher while it takes batches, and none is reordered.\<close>

fun queue_right :: "update_batch list \<Rightarrow> update_batch list \<Rightarrow> update_batch list \<Rightarrow> submitter \<Rightarrow> bool" where
  "queue_right asked taken queue (WantSlot b) \<longleftrightarrow> asked = taken @ b # queue"
| "queue_right asked taken queue (HaveSlot b) \<longleftrightarrow> asked = taken @ b # queue"
| "queue_right asked taken queue (Unscheduling bid n) \<longleftrightarrow> prefix taken asked"
| "queue_right asked taken queue Stopped \<longleftrightarrow> prefix taken asked"
| "queue_right asked taken queue Draining \<longleftrightarrow> prefix taken asked"
| "queue_right asked taken queue (Returned r) \<longleftrightarrow> prefix taken asked"
| "queue_right asked taken queue s \<longleftrightarrow> asked = taken @ queue"

definition in_order :: "pipeline \<Rightarrow> bool" where
  "in_order p \<longleftrightarrow> queue_right (pp_asked p) (d_submitted (pp_dispatcher p)) (pp_queue p) (d_submit (pp_dispatcher p))"

lemma queue_right_prefix: "queue_right asked taken queue s \<Longrightarrow> prefix taken asked"
  by (cases s) auto

lemma queue_right_put: "queue_right asked taken queue s \<Longrightarrow> queue_right (asked @ [b]) taken (queue @ [b]) s"
  by (cases s) auto

lemma queue_right_submit:
  "submit_step E d d' \<Longrightarrow> \<not> reads_queue d d' \<Longrightarrow> queue_right asked (d_submitted d) queue (d_submit d) \<Longrightarrow>
   queue_right asked (d_submitted d') queue (d_submit d')"
  by (erule submit_step.cases) (auto simp: reads_queue_def register_batch_def spawn_task_def Let_def)

lemma queue_right_step:
  assumes "dispatch_step E d d'" and "\<not> reads_queue d d'" and "queue_right asked (d_submitted d) queue (d_submit d)"
  shows "queue_right asked (d_submitted d') queue (d_submit d')"
  using assms(1)
proof (cases rule: dispatch_step.cases)
  case (task i)
  then have "d_submit d' = d_submit d \<and> d_submitted d' = d_submitted d" by (auto elim!: task_step.cases)
  with assms(3) show ?thesis by simp
next
  case submit
  then show ?thesis using assms(2,3) by (rule queue_right_submit)
next
  case other
  then show ?thesis using assms(3) by (auto elim!: other_step.cases)
qed

definition pipeline_inv :: "os_env \<Rightarrow> (string \<Rightarrow> update_batch \<Rightarrow> bool) \<Rightarrow> string \<Rightarrow> pipeline \<Rightarrow> bool" where
  "pipeline_inv E fits c p \<longleftrightarrow> dispatcher_inv E c (pp_dispatcher p) \<and> messages_right (pp_dispatcher p) \<and>
     asked_right fits c p \<and> in_order p"

lemma received_step:
  assumes "d_submit d = Idle" and "\<not> d_cancelled d" and "valid_utf8 (ub_cursor batch)"
  shows "dispatch_step E d (d\<lparr>d_submit := WantSlot batch\<rparr>)"
  by (rule dispatch_step.submit, rule submit_step.begin_submit) (use assms in simp_all)

lemma asked_rightD:
  assumes "asked_right fits c p" and "i < length (pp_asked p)"
  shows "fits (cursor_after c (take i (pp_asked p))) (pp_asked p ! i)" and "valid_utf8 (ub_cursor (pp_asked p ! i))"
  using assms unfolding asked_right_def by blast+

lemma asked_right_poller:
  assumes "asked_right fits c p" and "pp_asked p' = pp_asked p" and "po_cursor (pp_poller p') = po_cursor (pp_poller p)"
    and "\<forall>batch. po_phase (pp_poller p') = Offering batch \<longrightarrow> fits (po_cursor (pp_poller p)) batch"
  shows "asked_right fits c p'"
  using assms by (auto simp: asked_right_def split: poll_phase.split)

lemma asked_right_enqueued:
  assumes "asked_right (from_service answers decode generation) c p" and "po_phase (pp_poller p) = Offering batch"
  shows "asked_right (from_service answers decode generation) c
    (p\<lparr>pp_poller := (pp_poller p)\<lparr>po_phase := Polling, po_cursor := ub_cursor batch\<rparr>,
       pp_queue := pp_queue p @ [batch], pp_asked := pp_asked p @ [batch]\<rparr>)"
proof -
  have f: "from_service answers decode generation (po_cursor (pp_poller p)) batch"
    using assms(1) unfolding asked_right_def assms(2) poll_phase.case by (elim conjE)
  then have "valid_utf8 (ub_cursor batch)" using assms(1) from_service_valid by (auto simp: asked_right_def)
  moreover have "cursor_after c (pp_asked p @ [batch]) = ub_cursor batch"
    using assms(1) from_service_cursor [OF f] by (simp add: asked_right_def cursor_after_append)
  moreover have "from_service answers decode generation (cursor_after c (pp_asked p)) batch"
    using assms(1) f unfolding asked_right_def by metis
  ultimately show ?thesis using assms(1) by (auto simp: asked_right_def nth_append less_Suc_eq)
qed

interpretation pipeline: transition_invariant "pipeline_step E answers decode generation"
  "pipeline_inv E (from_service answers decode generation) c" for E answers decode generation c
proof
  fix p p'
  assume "pipeline_step E answers decode generation p p'"
    and "pipeline_inv E (from_service answers decode generation) c p"
  then show "pipeline_inv E (from_service answers decode generation) c p'"
  proof cases
    case (answered r)
    assume inv: "pipeline_inv E (from_service answers decode generation) c p"
    have "asked_right (from_service answers decode generation) c p'"
    proof (rule asked_right_poller)
      show "asked_right (from_service answers decode generation) c p" using inv by (simp add: pipeline_inv_def)
    qed (use answered in \<open>auto simp: poll_answered_def Let_def from_service_def\<close>)
    with inv answered show ?thesis by (simp add: pipeline_inv_def in_order_def)
  next
    case (failed tok err po b w)
    assume inv: "pipeline_inv E (from_service answers decode generation) c p"
    have po: "po = (pp_poller p)\<lparr>po_phase := Sleeping\<rparr>"
      using failed(4) by (auto simp: poll_failed_def split: prod.splits if_splits)
    have d: "pp_dispatcher p' = (pp_dispatcher p)\<lparr>d_bot := b, d_world := w\<rparr>"
      and other: "pp_asked p' = pp_asked p" "pp_queue p' = pp_queue p" "pp_poller p' = po"
      by (simp_all add: failed)
    have step: "dispatch_step E (pp_dispatcher p) (pp_dispatcher p')"
      unfolding d by (rule dispatch_step.other, rule other_step.interference) (rule failed(5))
    have "asked_right (from_service answers decode generation) c p'"
      by (rule asked_right_poller [of _ _ p]) (use inv in \<open>simp_all add: pipeline_inv_def other po\<close>)
    moreover have "dispatcher_inv E c (pp_dispatcher p')"
      using dispatch.preserved [OF step] inv by (simp add: pipeline_inv_def)
    moreover have "messages_right (pp_dispatcher p')"
      using inv by (auto simp: pipeline_inv_def d elim: messages_right_same)
    ultimately show ?thesis using inv by (simp add: pipeline_inv_def in_order_def d other)
  next
    case woken
    assume inv: "pipeline_inv E (from_service answers decode generation) c p"
    have "asked_right (from_service answers decode generation) c p'"
      by (rule asked_right_poller [of _ _ p]) (use inv woken in \<open>simp_all add: pipeline_inv_def poll_woken_def\<close>)
    with inv woken show ?thesis by (simp add: pipeline_inv_def in_order_def)
  next
    case (enqueued batch)
    assume inv: "pipeline_inv E (from_service answers decode generation) c p"
    then show ?thesis
      using asked_right_enqueued [of answers decode generation c p batch] enqueued
      by (simp add: pipeline_inv_def in_order_def queue_right_put)
  next
    case ended
    assume inv: "pipeline_inv E (from_service answers decode generation) c p"
    have step: "dispatch_step E (pp_dispatcher p) (pp_dispatcher p')"
      by (simp add: ended) (rule dispatch_step.other, rule other_step.cancelled)
    have "asked_right (from_service answers decode generation) c p'"
      by (rule asked_right_poller [of _ _ p]) (use inv ended in \<open>simp_all add: pipeline_inv_def\<close>)
    moreover have "messages_right (pp_dispatcher p')"
      using inv by (auto simp: pipeline_inv_def ended elim: messages_right_same)
    ultimately show ?thesis
      using inv dispatch.preserved [OF step] by (simp add: pipeline_inv_def in_order_def ended)
  next
    case (received batch rest)
    assume inv: "pipeline_inv E (from_service answers decode generation) c p"
    let ?d = "pp_dispatcher p"
    have asked: "pp_asked p = d_submitted ?d @ batch # rest"
      using inv received by (simp add: pipeline_inv_def in_order_def)
    then have "valid_utf8 (ub_cursor (pp_asked p ! length (d_submitted ?d)))"
      using inv by (intro asked_rightD(2)) (auto simp: pipeline_inv_def)
    then have "valid_utf8 (ub_cursor batch)" by (simp add: asked)
    then have step: "dispatch_step E ?d (?d\<lparr>d_submit := WantSlot batch\<rparr>)"
      using received by (intro received_step) simp_all
    have "messages_right (?d\<lparr>d_submit := WantSlot batch\<rparr>)"
      using inv messages_right_step [OF step] by (simp add: pipeline_inv_def dispatcher_inv_def)
    moreover have "asked_right (from_service answers decode generation) c p'"
      by (rule asked_right_poller [of _ _ p]) (use inv received in \<open>auto simp: pipeline_inv_def asked_right_def\<close>)
    ultimately show ?thesis
      using inv dispatch.preserved [OF step] by (simp add: pipeline_inv_def in_order_def received asked)
  next
    case (dispatcher d)
    assume inv: "pipeline_inv E (from_service answers decode generation) c p"
    have "messages_right d"
      using inv messages_right_step [OF dispatcher(2)] by (simp add: pipeline_inv_def dispatcher_inv_def)
    moreover have "asked_right (from_service answers decode generation) c p'"
      by (rule asked_right_poller [of _ _ p]) (use inv dispatcher in \<open>auto simp: pipeline_inv_def asked_right_def\<close>)
    ultimately show ?thesis
      using inv dispatch.preserved [OF dispatcher(2)] queue_right_step [OF dispatcher(2,3)]
      by (simp add: pipeline_inv_def in_order_def dispatcher(1))
  qed
qed

lemma new_pipeline_inv:
  assumes "cursor_synced E b w"
  shows "pipeline_inv E fits (cursor_get (b_cursor_store b)) (new_pipeline n b w)"
  using new_dispatcher_inv [OF assms, of False n] assms
  by (simp add: pipeline_inv_def new_pipeline_def asked_right_def in_order_def new_poller_def cursor_after_def
      cursor_synced_def messages_right_def new_keyed_dispatcher_def)

lemma pipeline_run_inv:
  assumes "pipeline_run E answers decode generation (new_pipeline n b w) p" and "cursor_synced E b w"
  shows "pipeline_inv E (from_service answers decode generation) (cursor_get (b_cursor_store b)) p"
  by (rule pipeline.reachable [OF assms(1) [unfolded pipeline_run_def] new_pipeline_inv [OF assms(2)]])

subsection \<open>The guarantee\<close>

text \<open>In every reachable state of the poll loop, its queue and the dispatcher there is a number \<open>k\<close>
  of batches such that the cursor file holds the cursor after \<open>k\<close> of the batches the loop has
  got, and each of these is the service's answer to the cursor of the batches before it: every
  message of the answer was decoded, handed to the handler in the order of the answer, and
  handled with success.\<close>

lemma pipeline_no_loss:
  assumes "pipeline_run E answers decode generation (new_pipeline n b w) p" and "cursor_synced E b w"
  defines "c i \<equiv> cursor_after (cursor_get (b_cursor_store b)) (take i (pp_asked p))"
  shows "\<exists>k\<le>length (pp_asked p).
    read_cursor (snd (cursor_view E (d_bot (pp_dispatcher p)) (d_world (pp_dispatcher p)))) = Some (c k) \<and>
    (\<forall>i<k. \<exists>r. answers (c i) r \<and> pp_asked p ! i = answer_batch decode generation (c i) r \<and>
       map decode (gu_msgs r) = map (\<lambda>t. Inr (tk_wire t)) (filter (\<lambda>t. tk_batch t = i) (d_tasks (pp_dispatcher p))) \<and>
       list_all (\<lambda>t. tk_result t = Some None) (filter (\<lambda>t. tk_batch t = i) (d_tasks (pp_dispatcher p))))"
proof (rule exI [of _ "d_next_commit (pp_dispatcher p)"], intro conjI allI impI)
  let ?d = "pp_dispatcher p" and ?c0 = "cursor_get (b_cursor_store b)"
  let ?k = "d_next_commit ?d"
  have inv: "books ?d" "cursor_right E ?c0 ?d" "messages_right ?d"
    "asked_right (from_service answers decode generation) ?c0 p" "in_order p"
    using pipeline_run_inv [OF assms(1,2)] by (auto simp: pipeline_inv_def dispatcher_inv_def)
  from inv(5) obtain rest where asked: "pp_asked p = d_submitted ?d @ rest"
    by (auto simp: in_order_def prefix_def dest!: queue_right_prefix)
  have k: "?k \<le> length (d_submitted ?d)" using booksD(3,4) [OF inv(1)] by simp
  then show "?k \<le> length (pp_asked p)" by (simp add: asked)
  show "read_cursor (snd (cursor_view E (d_bot ?d) (d_world ?d))) = Some (c ?k)"
    using inv(2) k by (simp add: cursor_right_def cursor_synced_def c_def asked)
  fix i
  assume i: "i < ?k"
  with k have "from_service answers decode generation (c i) (pp_asked p ! i)"
    unfolding c_def by (intro asked_rightD(1) [OF inv(4)]) (simp add: asked)
  then obtain r where r: "answers (c i) r" "pp_asked p ! i = answer_batch decode generation (c i) r"
    by (auto simp: from_service_def)
  have "sent ?d i = ub_messages (pp_asked p ! i)"
    using handled_messages [OF inv(1,3) i] i k by (simp add: asked nth_append)
  moreover have "list_all (\<lambda>t. tk_result t = Some None) (filter (\<lambda>t. tk_batch t = i) (d_tasks ?d))"
    using booksD(8) [OF inv(1) i]
    by (auto simp: handled_def all_succeeded_def list_all_iff progress_in_def filter_empty_conv)
  ultimately show "\<exists>r. answers (c i) r \<and> pp_asked p ! i = answer_batch decode generation (c i) r \<and>
       map decode (gu_msgs r) = map (\<lambda>t. Inr (tk_wire t)) (filter (\<lambda>t. tk_batch t = i) (d_tasks ?d)) \<and>
       list_all (\<lambda>t. tk_result t = Some None) (filter (\<lambda>t. tk_batch t = i) (d_tasks ?d))"
    using r by (intro exI [of _ r]) (auto simp: sent_def answer_batch_def)
qed

text \<open>The pauses after failures double from one second to ten, and stay there.\<close>

lemma next_retry_delay_values:
  "next_retry_delay (seconds 1) = seconds 2" "next_retry_delay (seconds 2) = seconds 4"
  "next_retry_delay (seconds 4) = seconds 8" "next_retry_delay (seconds 8) = seconds 10"
  "next_retry_delay (seconds 10) = seconds 10"
  by (simp_all add: next_retry_delay_def min_duration_def seconds_def)

lemma retry_delay:
  "(next_retry_delay ^^ n) (seconds 1) =
     seconds (if n = 0 then 1 else if n = 1 then 2 else if n = 2 then 4 else if n = 3 then 8 else 10)"
  by (induction n) (auto simp: next_retry_delay_values simp del: One_nat_def)

subsection \<open>A sample run\<close>

text \<open>One answer of two messages, from the request to the commit of its cursor.\<close>

definition sample_answer :: get_updates_response where
  "sample_answer = \<lparr>gu_ret = 0, gu_msgs = [enc_wire sample_file_message, enc_wire sample_file_message], gu_get_updates_buf = ''k'', gu_err_code = 0,
     gu_err_msg = [], gu_long_polling_timeout_ms = 0\<rparr>"

lemma sample_wire_ok: "wire_ok sample_file_message"
  by (simp add: sample_file_message_def wire_ok_def in_int64_def file_ok_def valid_utf8_ascii is_ascii_def)

lemmas sample_file_decoded = wire_back [OF sample_wire_ok]

abbreviation "sample_pipeline_run \<equiv> pipeline_run sample_hash_env (\<lambda>c r. c = [] \<and> r = sample_answer) decode_wire_message 0
   (new_pipeline 0 sample_bot quiet_world)"

definition "sample_asking = poll_answered decode_wire_message 0 sample_answer (new_poller [])"

definition sample_pipeline :: "dispatcher \<Rightarrow> pipeline" where
  "sample_pipeline d = \<lparr>pp_poller = sample_asking\<lparr>po_phase := Polling, po_cursor := ''k''\<rparr>, pp_queue = [],
     pp_dispatcher = d, pp_asked = [sample_batch]\<rparr>"

lemma pipeline_run_step:
  "pipeline_run E answers decode generation p q \<Longrightarrow> pipeline_step E answers decode generation q r \<Longrightarrow>
   pipeline_run E answers decode generation p r"
  unfolding pipeline_run_def by (rule rtranclp.rtrancl_into_rtrancl)

lemma sample_dispatch:
  "sample_pipeline_run (sample_pipeline d) \<Longrightarrow> dispatch_step sample_hash_env d d' \<Longrightarrow> \<not> reads_queue d d' \<Longrightarrow>
   sample_pipeline_run (sample_pipeline d')"
  using pipeline_run_step [OF _ pipeline_step.dispatcher [of sample_hash_env "sample_pipeline d" d']]
  by (simp add: sample_pipeline_def)

lemma sample_tasks:
  assumes "sample_pipeline_run (sample_pipeline d)" and "(task_step sample_hash_env i)\<^sup>*\<^sup>* d d'"
  shows "sample_pipeline_run (sample_pipeline d')"
  using assms(2,1)
proof (induction rule: rtranclp_induct)
  case (step d1 d2)
  have "\<not> reads_queue d1 d2" using task_step_live [OF step(2)] by (auto simp: reads_queue_def)
  then show ?case by (rule sample_dispatch [OF step.IH [OF step.prems] dispatch_step.task [OF step.hyps(2)]])
qed

lemma sample_received: "sample_pipeline_run (sample_pipeline sample_d1)"
proof -
  let ?p = "new_pipeline 0 sample_bot quiet_world"
  let ?q = "?p\<lparr>pp_poller := sample_asking\<rparr>"
  let ?r = "?q\<lparr>pp_poller := sample_asking\<lparr>po_phase := Polling, po_cursor := ub_cursor sample_batch\<rparr>,
      pp_queue := pp_queue ?q @ [sample_batch], pp_asked := pp_asked ?q @ [sample_batch]\<rparr>"
  have "sample_pipeline_run ?p" by (simp add: pipeline_run_def)
  moreover have "cursor_get (b_cursor_store sample_bot) = []" by code_simp
  then have cursor: "pp_poller ?p = new_poller []" by (simp add: new_pipeline_def)
  have "pipeline_step sample_hash_env (\<lambda>c r. c = [] \<and> r = sample_answer) decode_wire_message 0 ?p ?q"
    unfolding sample_asking_def cursor [symmetric]
  proof (rule pipeline_step.answered)
    show "valid_utf8 (gu_get_updates_buf sample_answer)" by code_simp
  qed (simp_all add: cursor new_poller_def)
  ultimately have "sample_pipeline_run ?q" by (rule pipeline_run_step)
  moreover have "po_phase sample_asking = Offering sample_batch"
    by (simp add: sample_asking_def poll_answered_def sample_answer_def new_poller_def answer_batch_def
        next_cursor_def sample_batch_def sample_file_decoded Let_def)
  then have "pipeline_step sample_hash_env (\<lambda>c r. c = [] \<and> r = sample_answer) decode_wire_message 0 ?q ?r"
    using pipeline_step.enqueued [of ?q sample_batch] by (simp add: new_pipeline_def update_queue_capacity_def)
  ultimately have "sample_pipeline_run ?r" by (rule pipeline_run_step)
  moreover have "sample_pipeline sample_d1 = ?r\<lparr>pp_queue := [], pp_dispatcher := (pp_dispatcher ?r)\<lparr>d_submit := WantSlot sample_batch\<rparr>\<rparr>"
    by (simp add: sample_pipeline_def sample_d1_def new_pipeline_def sample_batch_def)
  then have "pipeline_step sample_hash_env (\<lambda>c r. c = [] \<and> r = sample_answer) decode_wire_message 0 ?r (sample_pipeline sample_d1)"
    using pipeline_step.received [of ?r sample_batch "[]"] by (simp add: new_pipeline_def new_keyed_dispatcher_def)
  ultimately show ?thesis by (rule pipeline_run_step)
qed

lemmas sample_submit = sample_dispatch [OF _ dispatch_step.submit]

lemma sample_pipeline_submitted: "sample_pipeline_run (sample_pipeline sample_d10)"
proof -
  from sample_received have "sample_pipeline_run (sample_pipeline sample_d2)" unfolding sample_d2_def
    by (rule sample_submit [OF _ submit_step.take_slot]) code_simp+
  then have "sample_pipeline_run (sample_pipeline sample_d3)" unfolding sample_d3_def
    by (rule sample_submit [OF _ submit_step.register]) code_simp+
  then have "sample_pipeline_run (sample_pipeline sample_d4)" unfolding sample_d4_def
    by (rule sample_submit [OF _ submit_step.decoded]) code_simp+
  then have "sample_pipeline_run (sample_pipeline sample_d5)" unfolding sample_d5_def
    by (rule sample_submit [OF _ submit_step.take_pending]) code_simp+
  then have "sample_pipeline_run (sample_pipeline sample_d6)" unfolding sample_d6_def
    by (rule sample_submit [OF _ submit_step.spawn]) code_simp+
  then have "sample_pipeline_run (sample_pipeline sample_d7)" unfolding sample_d7_def
    by (rule sample_submit [OF _ submit_step.decoded]) code_simp+
  then have "sample_pipeline_run (sample_pipeline sample_d8)" unfolding sample_d8_def
    by (rule sample_submit [OF _ submit_step.take_pending]) code_simp+
  then have "sample_pipeline_run (sample_pipeline sample_d9)" unfolding sample_d9_def
    by (rule sample_submit [OF _ submit_step.spawn]) code_simp+
  then show ?thesis unfolding sample_d10_def
    by (rule sample_submit [OF _ submit_step.submitted]) code_simp+
qed

lemma sample_pipeline_handled: "sample_pipeline_run (sample_pipeline sample_e2)"
proof -
  have "sample_pipeline_run (sample_pipeline sample_e1)"
    unfolding sample_e1_def by (rule sample_tasks [OF sample_pipeline_submitted handle_task_steps]) code_simp+
  then show ?thesis
    unfolding sample_e2_def by (rule sample_tasks [OF _ handle_task_steps]) code_simp+
qed

end
