(* ===== verification/Strip.thy ===== *)
theory Strip
  imports GoText
begin

section \<open>Removing Markdown: \<open>internal/markdown/strip.go\<close>\<close>

text \<open>
  \<open>StripMarkdown\<close> is a sequence of replacements of regular expressions.  The expressions it uses
  are sequences in which only sets of runes are repeated, with at most one group, so a small
  matcher is enough: it gives what Go's \<open>regexp\<close> gives, the leftmost match with the choices of
  each repetition in order, the longest first or, for a lazy one, the shortest first.  All the
  expressions have the flag \<open>m\<close> where they use \<open>^\<close> or \<open>$\<close>, and none matches the empty
  text.  Runes are as in theory \<open>Utf8\<close>: an invalid byte is a rune of its own.
\<close>

subsection \<open>Regular expressions\<close>

datatype regex_item =
    LineStart
  | LineEnd
  | Rep (captured: bool) (accepts: "string \<Rightarrow> bool") (at_least: nat) (at_most: "nat option") (greedy: bool)

type_synonym pattern = "regex_item list"

definition at_line_start :: "string option \<Rightarrow> bool" where
  "at_line_start prev \<longleftrightarrow> prev = None \<or> prev = Some [newline]"

definition at_line_end :: "string list \<Rightarrow> bool" where
  "at_line_end rest \<longleftrightarrow> rest = [] \<or> hd rest = [newline]"

definition last_of :: "string option \<Rightarrow> string list \<Rightarrow> string option" where
  "last_of prev taken = (if taken = [] then prev else Some (last taken))"

text \<open>The numbers of runes a repetition may take, in the order they are tried.\<close>

definition rep_counts :: "(string \<Rightarrow> bool) \<Rightarrow> nat \<Rightarrow> nat option \<Rightarrow> bool \<Rightarrow> string list \<Rightarrow> nat list" where
  "rep_counts p lo hi grd rest =
     (let most = length (takeWhile p rest);
          most = (case hi of None \<Rightarrow> most | Some h \<Rightarrow> min h most);
          counts = [lo..<Suc most]
      in if grd then rev counts else counts)"

fun first_some :: "('a \<Rightarrow> 'b option) \<Rightarrow> 'a list \<Rightarrow> 'b option" where
  "first_some f [] = None"
| "first_some f (x # xs) = (case f x of None \<Rightarrow> first_some f xs | Some y \<Rightarrow> Some y)"

text \<open>A match: how many runes it takes, and the text of the group.\<close>

primrec match_items :: "pattern \<Rightarrow> string option \<Rightarrow> string list \<Rightarrow> (nat \<times> string) option" where
  "match_items [] = (\<lambda>prev rest. Some (0, []))"
| "match_items (it # items) = (\<lambda>prev rest.
     (case it of
        LineStart \<Rightarrow> if at_line_start prev then match_items items prev rest else None
      | LineEnd \<Rightarrow> if at_line_end rest then match_items items prev rest else None
      | Rep cap p lo hi grd \<Rightarrow>
          first_some (\<lambda>n. map_option (\<lambda>(m, g). (n + m, if cap then concat (take n rest) else g))
                            (match_items items (last_of prev (take n rest)) (drop n rest)))
            (rep_counts p lo hi grd rest)))"

function replace_matches :: "pattern \<Rightarrow> (string \<Rightarrow> string \<Rightarrow> string) \<Rightarrow> string option \<Rightarrow> string list \<Rightarrow> string" where
  "replace_matches pat repl prev [] = []"
| "replace_matches pat repl prev (r # rs) =
     (case match_items pat prev (r # rs) of
        Some (Suc n, g) \<Rightarrow>
          repl (concat (take (Suc n) (r # rs))) g @
          replace_matches pat repl (last_of prev (take (Suc n) (r # rs))) (drop n rs)
      | _ \<Rightarrow> r @ replace_matches pat repl (Some r) rs)"
  by pat_completeness auto
termination
  by (relation "measure (\<lambda>(pat, repl, prev, rs). length rs)") auto

text \<open>\<open>ReplaceAllStringFunc\<close>, \<open>ReplaceAllString\<close> with a plain text and with \<open>"$1"\<close>.\<close>

definition regex_replace :: "pattern \<Rightarrow> (string \<Rightarrow> string \<Rightarrow> string) \<Rightarrow> string \<Rightarrow> string" where
  "regex_replace pat repl s = replace_matches pat repl None (runes s)"

definition replace_with :: "pattern \<Rightarrow> string \<Rightarrow> string \<Rightarrow> string" where
  "replace_with pat t = regex_replace pat (\<lambda>m g. t)"

definition keep_group :: "pattern \<Rightarrow> string \<Rightarrow> string" where
  "keep_group pat = regex_replace pat (\<lambda>m g. g)"

subsection \<open>The expressions\<close>

definition among :: "string \<Rightarrow> string \<Rightarrow> bool" where
  "among cs r \<longleftrightarrow> (\<exists>c\<in>set cs. r = [c])"

definition none_of :: "string \<Rightarrow> string \<Rightarrow> bool" where
  "none_of cs r \<longleftrightarrow> \<not> among cs r"

text \<open>\<open>\s\<close> has no vertical tab; \<open>.\<close> is every rune but the newline.\<close>

definition white :: string where "white = [blank, CHR 0x09, newline, CHR 0x0C, CHR 0x0D]"

definition one :: "string \<Rightarrow> regex_item" where "one cs = Rep False (among cs) 1 (Some 1) True"
abbreviation many :: "(string \<Rightarrow> bool) \<Rightarrow> regex_item" where "many p \<equiv> Rep False p 0 None True"
abbreviation some_greedy :: "(string \<Rightarrow> bool) \<Rightarrow> regex_item" where "some_greedy p \<equiv> Rep False p 1 None True"
abbreviation group_greedy :: "(string \<Rightarrow> bool) \<Rightarrow> regex_item" where "group_greedy p \<equiv> Rep True p 1 None True"
abbreviation group_lazy :: "(string \<Rightarrow> bool) \<Rightarrow> regex_item" where "group_lazy p \<equiv> Rep True p 1 None False"

definition ticks :: pattern where "ticks = [one ''`'', one ''`'', one ''`'']"

definition code_block_re :: pattern where
  "code_block_re = ticks @ [many (none_of [newline]), Rep False (among [newline]) 0 (Some 1) True,
     Rep True (\<lambda>r. True) 0 None False] @ ticks"

definition inline_code_re :: pattern where
  "inline_code_re = [one ''`'', group_greedy (none_of ''`''), one ''`'']"

definition image_re :: pattern where
  "image_re = [one ''!'', one ''['', many (none_of '']''), one '']'', one ''('', many (none_of '')''), one '')'']"

definition link_re :: pattern where
  "link_re = [one ''['', group_greedy (none_of '']''), one '']'', one ''('', many (none_of '')''), one '')'']"

definition table_sep_re :: pattern where
  "table_sep_re = [LineStart, one ''|'', some_greedy (among (''-:|'' @ white)), one ''|'', LineEnd]"

definition table_row_re :: pattern where
  "table_row_re = [LineStart, one ''|'', group_greedy (none_of [newline]), one ''|'', LineEnd]"

definition header_re :: pattern where
  "header_re = [LineStart, Rep False (among ''#'') 1 (Some 6) True, some_greedy (among white)]"

definition hr_re :: pattern where
  "hr_re = [LineStart, Rep False (among ''-*_'') 3 None True, many (among white), LineEnd]"

text \<open>A text between two copies of a mark, the shortest first.\<close>

definition marked_re :: "string \<Rightarrow> pattern" where
  "marked_re mark = map (\<lambda>c. one [c]) mark @ group_lazy (none_of [newline]) # map (\<lambda>c. one [c]) mark"

definition quote_re :: pattern where
  "quote_re = [LineStart, one ''>'', Rep False (among white) 0 (Some 1) True]"

definition ul_re :: pattern where
  "ul_re = [LineStart, many (among white), one ''-*+'', some_greedy (among white)]"

definition ol_re :: pattern where
  "ol_re = [LineStart, many (among white), some_greedy (among ''0123456789''), one ''.'', some_greedy (among white)]"

definition html_re :: pattern where
  "html_re = [one ''<'', some_greedy (none_of ''>''), one ''>'']"

subsection \<open>\<open>StripMarkdown\<close>\<close>

text \<open>The cells of a table row.\<close>

definition table_cells :: "string \<Rightarrow> string" where
  "table_cells line = strings_join (map trim_space (split_on (CHR ''|'') (butlast (tl line)))) ''  ''"

fun drop_blank_lines :: "bool \<Rightarrow> string list \<Rightarrow> string list" where
  "drop_blank_lines prev_blank [] = []"
| "drop_blank_lines prev_blank (line # rest) =
     (if trim_space line = [] \<and> prev_blank then drop_blank_lines prev_blank rest
      else line # drop_blank_lines (trim_space line = []) rest)"

definition collapse_blank_lines :: "string \<Rightarrow> string" where
  "collapse_blank_lines txt = strings_join (drop_blank_lines False (split_on newline txt)) [newline]"

definition bullet :: string where "bullet = [CHR 0xE2, CHR 0x80, CHR 0xA2, blank]"

text \<open>The replacements, in the order of the code.\<close>

definition replacements :: "(string \<Rightarrow> string) list" where
  "replacements =
     [keep_group code_block_re, keep_group inline_code_re, replace_with image_re [], keep_group link_re,
      replace_with table_sep_re [], regex_replace table_row_re (\<lambda>m g. table_cells m),
      replace_with header_re [], replace_with hr_re [],
      keep_group (marked_re ''***''), keep_group (marked_re ''**''), keep_group (marked_re ''*''),
      keep_group (marked_re ''___''), keep_group (marked_re ''__''), keep_group (marked_re ''_''),
      keep_group (marked_re ''~~''),
      replace_with quote_re [], replace_with ul_re bullet, replace_with ol_re [], replace_with html_re []]"

definition strip_markdown :: "string \<Rightarrow> string" where
  "strip_markdown txt =
     (if txt = [] then []
      else trim_space (collapse_blank_lines (fold (\<lambda>f. f) replacements txt)))"

subsection \<open>Where an expression cannot match\<close>

lemma among_concat: "r \<in> set rs \<Longrightarrow> among cs r \<Longrightarrow> \<exists>c\<in>set cs. c \<in> set (concat rs)"
  unfolding among_def by (metis UN_I list.set_intros(1) set_concat)

lemma first_some_None: "(\<And>x. x \<in> set xs \<Longrightarrow> f x = None) \<Longrightarrow> first_some f xs = None"
  by (induction xs) auto

text \<open>An expression that needs a byte of \<open>cs\<close> matches nowhere in a text without these bytes.\<close>

definition item_needs :: "string \<Rightarrow> regex_item \<Rightarrow> bool" where
  "item_needs cs it \<longleftrightarrow>
     (case it of Rep cap p lo hi grd \<Rightarrow> 1 \<le> lo \<and> (\<forall>r. p r \<longrightarrow> among cs r) | _ \<Rightarrow> False)"

definition needs :: "string \<Rightarrow> pattern \<Rightarrow> bool" where
  "needs cs pat \<longleftrightarrow> (\<exists>it\<in>set pat. item_needs cs it)"

lemma match_needs:
  "needs cs pat \<Longrightarrow> \<forall>r\<in>set rest. \<not> among cs r \<Longrightarrow> match_items pat prev rest = None"
proof (induction pat arbitrary: prev rest)
  case (Cons it items)
  show ?case
  proof (cases "item_needs cs it")
    case True
    then obtain cap p lo hi grd where it: "it = Rep cap p lo hi grd" "1 \<le> lo" "\<forall>r. p r \<longrightarrow> among cs r"
      by (cases it) (auto simp: item_needs_def)
    then have "takeWhile p rest = []" using Cons.prems(2) by (cases rest) auto
    then show ?thesis using it(2) by (auto simp: it(1) rep_counts_def Let_def split: option.split)
  next
    case False
    then have none: "match_items items prev' (drop n rest) = None" for prev' n
      using Cons.prems by (intro Cons.IH) (auto simp: needs_def dest: in_set_dropD)
    from none [of _ 0] none show ?thesis by (auto split: regex_item.split intro!: first_some_None)
  qed
qed (simp add: needs_def)

lemma replace_matches_None:
  "(\<And>prev k. k < length rest \<Longrightarrow> match_items pat prev (drop k rest) = None) \<Longrightarrow>
   replace_matches pat repl prev rest = concat rest"
proof (induction rest arbitrary: prev)
  case (Cons r rs)
  have "match_items pat prev (r # rs) = None" using Cons.prems [of 0] by simp
  moreover have "replace_matches pat repl (Some r) rs = concat rs"
    using Cons.prems [of "Suc k" for k] by (intro Cons.IH) simp
  ultimately show ?case by simp
qed simp

lemma replace_matches_needs:
  "needs cs pat \<Longrightarrow> \<forall>r\<in>set rest. \<not> among cs r \<Longrightarrow> replace_matches pat repl prev rest = concat rest"
  by (intro replace_matches_None match_needs) (auto dest: in_set_dropD)

lemma regex_replace_needs:
  assumes "needs cs pat" and "set s \<inter> set cs = {}"
  shows "regex_replace pat repl s = s"
proof -
  have "\<forall>r\<in>set (runes s). \<not> among cs r"
    using assms(2) among_concat [of _ "runes s" cs] by (auto simp: concat_runes)
  then show ?thesis
    using replace_matches_needs [OF assms(1)] by (simp add: regex_replace_def concat_runes)
qed

subsection \<open>Text without marks\<close>

text \<open>A byte that can be part of a mark; a text with full stops and without digits, or the other way round, has no list numbers.\<close>

definition mark_bytes :: string where "mark_bytes = ''`[|#-*_+><''"

definition unmarked :: "string \<Rightarrow> bool" where
  "unmarked s \<longleftrightarrow> set s \<inter> set mark_bytes = {} \<and> (CHR ''.'' \<notin> set s \<or> (\<forall>c\<in>set s. \<not> is_digit c))"

lemma needs_marks:
  "needs ''`'' code_block_re" "needs ''`'' inline_code_re" "needs ''['' image_re" "needs ''['' link_re"
  "needs ''|'' table_sep_re" "needs ''|'' table_row_re" "needs ''#'' header_re" "needs ''-*_'' hr_re"
  "needs ''*'' (marked_re ''***'')" "needs ''*'' (marked_re ''**'')" "needs ''*'' (marked_re ''*'')"
  "needs ''_'' (marked_re ''___'')" "needs ''_'' (marked_re ''__'')" "needs ''_'' (marked_re ''_'')"
  "needs ''~'' (marked_re ''~~'')" "needs ''>'' quote_re" "needs ''-*+'' ul_re"
  "needs ''.'' ol_re" "needs ''0123456789'' ol_re" "needs ''<'' html_re"
  by (simp_all add: one_def needs_def item_needs_def ticks_def code_block_re_def inline_code_re_def image_re_def
      link_re_def table_sep_re_def table_row_re_def header_re_def hr_re_def marked_re_def quote_re_def ul_re_def
      ol_re_def html_re_def)

lemmas replace_absent = needs_marks [THEN regex_replace_needs]

lemma unmarked_absent:
  assumes "unmarked s"
  shows "set s \<inter> set ''`'' = {}" "set s \<inter> set ''['' = {}" "set s \<inter> set ''|'' = {}" "set s \<inter> set ''#'' = {}"
    "set s \<inter> set ''-*_'' = {}" "set s \<inter> set ''*'' = {}" "set s \<inter> set ''_'' = {}" "set s \<inter> set ''>'' = {}"
    "set s \<inter> set ''-*+'' = {}" "set s \<inter> set ''<'' = {}"
  using assms by (auto simp: unmarked_def mark_bytes_def)

lemma unmarked_no_number: "unmarked s \<Longrightarrow> replace_with ol_re [] s = s"
proof (cases "CHR ''.'' \<in> set s")
  case True
  moreover assume "unmarked s"
  moreover have "\<forall>c\<in>set ''0123456789''. is_digit c" by code_simp
  ultimately have "set s \<inter> set ''0123456789'' = {}" unfolding unmarked_def by blast
  then show ?thesis unfolding replace_with_def by (rule replace_absent(19))
next
  case False
  then have "set s \<inter> set ''.'' = {}" by simp
  then show ?thesis unfolding replace_with_def by (rule replace_absent(18))
qed

text \<open>
  What is left to do for a text without marks: of the lines those stay that are not blank, or do
  not follow a blank line, and the space around the text goes.
\<close>

definition is_blank :: "string \<Rightarrow> bool" where
  "is_blank line \<longleftrightarrow> trim_space line = []"

definition kept_lines :: "bool \<Rightarrow> string list \<Rightarrow> string list" where
  "kept_lines prev_blank ls =
     map snd (filter (\<lambda>(after_blank, line). \<not> (after_blank \<and> is_blank line)) (zip (prev_blank # map is_blank ls) ls))"

definition tidy :: "string \<Rightarrow> string" where
  "tidy txt = trim_space (strings_join (kept_lines False (split_on newline txt)) [newline])"

lemma drop_blank_kept: "drop_blank_lines prev_blank ls = kept_lines prev_blank ls"
  by (induction prev_blank ls rule: drop_blank_lines.induct) (auto simp: kept_lines_def is_blank_def)

lemma tidy_alt: "tidy txt = trim_space (collapse_blank_lines txt)"
  by (simp add: tidy_def collapse_blank_lines_def drop_blank_kept)

lemma fold_fixed: "\<forall>f\<in>set fs. f s = s \<Longrightarrow> fold (\<lambda>f. f) fs s = s"
  by (induction fs) auto

lemma replacement_fixed:
  assumes "unmarked s" and "CHR ''~'' \<notin> set s" and "f \<in> set replacements"
  shows "f s = s"
  using assms(2,3) unmarked_no_number [OF assms(1)]
  by (auto simp: replacements_def keep_group_def replace_with_def replace_absent(1-17,20) unmarked_absent [OF assms(1)]
      unmarked_absent [OF assms(1), simplified])

text \<open>One replacement takes marks out, those before it and after it have nothing to do.\<close>

lemma strip_at:
  assumes "k < length replacements" and "\<forall>f\<in>set (take k replacements). f s = s" and "(replacements ! k) s = t"
    and "unmarked t" and "CHR ''~'' \<notin> set t"
  shows "strip_markdown s = tidy t"
proof -
  have "fold (\<lambda>f. f) (drop (Suc k) replacements) t = t"
    by (intro fold_fixed ballI replacement_fixed [OF assms(4,5)]) (auto dest: in_set_dropD)
  then have "fold (\<lambda>f. f) (take k replacements @ replacements ! k # drop (Suc k) replacements) s = t"
    using fold_fixed [OF assms(2)] assms(3) by simp
  then have t: "fold (\<lambda>f. f) replacements s = t" by (simp add: id_take_nth_drop [OF assms(1), symmetric])
  show ?thesis
  proof (cases "s = []")
    case True
    have "fold (\<lambda>f. f) replacements [] = []" by (intro fold_fixed ballI replacement_fixed) (simp_all add: unmarked_def)
    with t True have "t = []" by simp
    moreover have "tidy [] = []" by code_simp
    ultimately show ?thesis by (simp add: strip_markdown_def True)
  qed (simp add: strip_markdown_def t tidy_alt)
qed

subsection \<open>Runs of marks\<close>

lemma match_one:
  "match_items (one [c] # items) prev rest =
     (case rest of
        [] \<Rightarrow> None
      | r # rs \<Rightarrow> if r = [c] then map_option (\<lambda>(m, g). (Suc m, g)) (match_items items (Some r) rs) else None)"
  by (cases rest) (auto simp: one_def rep_counts_def among_def last_of_def Let_def split: option.split)

declare match_items.simps(2) [simp del]

lemma match_ones:
  "match_items (replicate n (one [c]) @ items) prev (replicate n [c] @ t) =
     map_option (\<lambda>(m, g). (n + m, g)) (match_items items (last_of prev (replicate n [c])) t)"
proof (induction n arbitrary: prev)
  case (Suc n)
  then show ?case by (auto simp: match_one last_of_def option.map_comp comp_def case_prod_unfold)
qed (simp add: last_of_def case_prod_unfold option.map_ident)

lemma match_too_few:
  "length (takeWhile (\<lambda>r. r = [c]) rest) < n \<Longrightarrow> match_items (replicate n (one [c]) @ items) prev rest = None"
proof (induction n arbitrary: prev rest)
  case (Suc n)
  then show ?case by (cases rest) (auto simp: match_one)
qed simp

text \<open>Every run of runes that satisfy \<open>p\<close> has at most \<open>n\<close> of them.\<close>

fun short_runs :: "(string \<Rightarrow> bool) \<Rightarrow> nat \<Rightarrow> string list \<Rightarrow> bool" where
  "short_runs p n [] = True"
| "short_runs p n (r # rs) \<longleftrightarrow> length (takeWhile p (r # rs)) \<le> n \<and> short_runs p n rs"

lemma short_runs_drop: "short_runs p n rs \<Longrightarrow> length (takeWhile p (drop k rs)) \<le> n"
proof (induction rs arbitrary: k)
  case (Cons r rs)
  then show ?case by (cases k) auto
qed simp

lemma short_runs_none: "\<forall>r\<in>set as. \<not> p r \<Longrightarrow> short_runs p n (as @ t) = short_runs p n t"
  by (induction as) auto

lemma short_runs_marks:
  "m \<le> n \<Longrightarrow> t = [] \<or> \<not> p (hd t) \<Longrightarrow> short_runs p n t \<Longrightarrow> short_runs p n (replicate m c @ t)"
proof (induction m)
  case (Suc m)
  have "takeWhile p t = []" using Suc.prems(2) by (cases t) auto
  then have "length (takeWhile p (replicate k c @ t)) \<le> k" for k by (induction k) auto
  from this [of "Suc m"] Suc show ?case by (simp del: takeWhile.simps)
qed simp

lemma short_runs_around:
  assumes "\<forall>r\<in>set (as @ xs @ bs). \<not> p r" and "xs \<noteq> []"
  shows "short_runs p n (as @ replicate n c @ xs @ replicate n c @ bs)"
proof -
  have bs: "short_runs p n bs" "bs = [] \<or> \<not> p (hd bs)"
    using assms(1) short_runs_none [of bs p n "[]"] by (auto simp: hd_in_set)
  then have "short_runs p n (replicate n c @ bs)" by (intro short_runs_marks) auto
  moreover have "\<not> p (hd (xs @ replicate n c @ bs))" using assms by (simp add: hd_in_set)
  ultimately have "short_runs p n (replicate n c @ xs @ replicate n c @ bs)"
    using assms(1) by (intro short_runs_marks) (auto simp: short_runs_none)
  then show ?thesis using assms(1) by (simp add: short_runs_none)
qed

text \<open>The runes of a text in which a span is marked.\<close>

definition marked_runes :: "string \<Rightarrow> nat \<Rightarrow> char \<Rightarrow> string \<Rightarrow> string \<Rightarrow> string list" where
  "marked_runes a n c x b = runes a @ replicate n [c] @ runes x @ replicate n [c] @ runes b"

definition surround :: "string \<Rightarrow> string \<Rightarrow> string" where
  "surround mark x = mark @ x @ mark"

lemma runes_replicate: "is_ascii c \<Longrightarrow> runes (replicate n c @ t) = replicate n [c] @ runes t"
  by (induction n) (simp_all add: runes_ascii_Cons)

lemma runes_marked:
  assumes "is_ascii c" and "0 < n"
  shows "runes (a @ surround (replicate n c) x @ b) = marked_runes a n c x b"
proof -
  obtain m where "n = Suc m" using assms(2) by (cases n) auto
  then have "runes (s @ replicate n c @ t) = runes s @ runes (replicate n c @ t)" for s t
    using assms(1) by (simp add: runes_append_ascii)
  then show ?thesis by (simp add: marked_runes_def surround_def runes_replicate assms(1))
qed

text \<open>What a text must not have for a mark to be taken out, and the marks.\<close>

definition spans :: "string \<Rightarrow> char \<Rightarrow> string \<Rightarrow> string \<Rightarrow> bool" where
  "spans a c x b \<longleftrightarrow> c \<notin> set (a @ x @ b) \<and> x \<noteq> [] \<and> newline \<notin> set x"

lemma absent_rune: "c \<notin> set s \<Longrightarrow> [c] \<notin> set (runes s)"
  using concat_runes [of s] by (metis UN_I list.set_intros(1) set_concat)

lemma spans_runes:
  assumes "spans a c x b"
  shows "[c] \<notin> set (runes a @ runes x @ runes b)" "runes x \<noteq> []" "[newline] \<notin> set (runes x)"
  using assms concat_runes [of x] by (auto simp: spans_def dest: absent_rune)

subsection \<open>Expressions that do not match marks\<close>

lemma unmatched_runs:
  assumes "\<And>prev rest. length (takeWhile p rest) \<le> n \<Longrightarrow> match_items pat prev rest = None"
    and "spans a c x b" and "is_ascii c" and "0 < n" and "\<forall>r\<in>set (runes a @ runes x @ runes b). \<not> p r"
  shows "regex_replace pat repl (a @ surround (replicate n c) x @ b) = a @ surround (replicate n c) x @ b"
proof -
  have "short_runs p n (marked_runes a n c x b)"
    unfolding marked_runes_def using assms(5) spans_runes(2) [OF assms(2)] by (rule short_runs_around)
  then have "replace_matches pat repl None (marked_runes a n c x b) = concat (marked_runes a n c x b)"
    by (intro replace_matches_None assms(1) short_runs_drop)
  also have "\<dots> = a @ surround (replicate n c) x @ b"
    by (simp add: marked_runes_def surround_def concat_runes)
  finally show ?thesis by (simp add: regex_replace_def runes_marked [OF assms(3,4)])
qed

lemma marked_unmatched:
  assumes "spans a c x b" and "is_ascii c" and "0 < n" and "n < k"
  shows "regex_replace (replicate k (one [c]) @ items) repl (a @ surround (replicate n c) x @ b) = a @ surround (replicate n c) x @ b"
  using spans_runes(1) [OF assms(1)] assms(4)
  by (intro unmatched_runs [OF _ assms(1-3), of "\<lambda>r. r = [c]"]) (auto intro: match_too_few)

lemma rule_unmatched:
  assumes "spans a c x b" and "is_ascii c" and "0 < n" and "n < 3" and "unmarked (a @ x @ b)"
  shows "regex_replace hr_re repl (a @ surround (replicate n c) x @ b) = a @ surround (replicate n c) x @ b"
proof (rule unmatched_runs [OF _ assms(1-3), of "among ''-*_''"])
  show "match_items hr_re prev rest = None" if "length (takeWhile (among ''-*_'') rest) \<le> n" for prev rest
    using that assms(4) by (simp add: hr_re_def match_items.simps(2) rep_counts_def Let_def)
  have "[d] \<notin> set (runes a @ runes x @ runes b)" if "d \<in> set ''-*_''" for d
    using assms(5) that by (auto simp: unmarked_def mark_bytes_def dest: absent_rune)
  then show "\<forall>r\<in>set (runes a @ runes x @ runes b). \<not> among ''-*_'' r" unfolding among_def by blast
qed

subsection \<open>Expressions that match a marked span\<close>

lemma first_some_append:
  "first_some f (xs @ ys) = (case first_some f xs of None \<Rightarrow> first_some f ys | Some y \<Rightarrow> Some y)"
  by (induction xs) (auto split: option.split)

lemma first_some_upt:
  assumes "lo \<le> k" and "k < hi" and "\<And>j. lo \<le> j \<Longrightarrow> j < k \<Longrightarrow> f j = None" and "f k = Some y"
  shows "first_some f [lo..<hi] = Some y"
proof -
  have "[lo..<hi] = [lo..<k] @ k # [Suc k..<hi]"
    using assms(1,2) upt_add_eq_append [of lo k "hi - k"] by (simp add: upt_conv_Cons)
  moreover have "first_some f [lo..<k] = None" by (rule first_some_None) (use assms(3) in auto)
  ultimately show ?thesis by (simp add: first_some_append assms(4))
qed

lemma marked_re_replicate:
  "marked_re (replicate n c) = replicate n (one [c]) @ group_lazy (none_of [newline]) # replicate n (one [c])"
  by (simp add: marked_re_def)

lemma match_ones_only: "match_items (replicate n (one [c])) prev (replicate n [c] @ t) = Some (n, [])"
  using match_ones [of n c "[]"] by simp

lemma match_marked:
  assumes "xs \<noteq> []" and "[c] \<notin> set xs" and "[newline] \<notin> set xs" and "0 < n"
  shows "match_items (marked_re (replicate n c)) prev (replicate n [c] @ xs @ replicate n [c] @ bs) =
    Some (n + (length xs + n), concat xs)"
proof -
  let ?rest = "xs @ replicate n [c] @ bs"
  let ?f = "\<lambda>p n'. map_option (\<lambda>(m, g). (n' + m, if True then concat (take n' ?rest) else g))
      (match_items (replicate n (one [c])) (last_of p (take n' ?rest)) (drop n' ?rest))"
  let ?most = "length (takeWhile (none_of [newline]) ?rest)"
  have "takeWhile (none_of [newline]) xs = xs"
    using assms(3) by (auto simp: takeWhile_eq_all_conv none_of_def among_def)
  then have most: "length xs \<le> ?most" by (simp add: takeWhile_append)
  have "first_some (?f p) [1..<Suc ?most] = Some (length xs + n, concat xs)" for p
  proof (rule first_some_upt)
    show "?f p j = None" if "1 \<le> j" "j < length xs" for j
    proof -
      have "xs ! j \<noteq> [c]" using assms(2) that(2) nth_mem by metis
      then have "takeWhile (\<lambda>r. r = [c]) (drop j ?rest) = []"
        using that(2) by (simp add: Cons_nth_drop_Suc [symmetric])
      then show ?thesis
        using match_too_few [of c "drop j ?rest" n "[]"] assms(4) by simp
    qed
  qed (use assms(1) most in \<open>simp_all add: match_ones_only Suc_le_eq\<close>)
  moreover have "match_items (group_lazy (none_of [newline]) # replicate n (one [c])) p ?rest =
      first_some (?f p) [1..<Suc ?most]" for p
    by (subst match_items.simps(2)) (simp only: regex_item.case rep_counts_def Let_def option.case if_False)
  ultimately show ?thesis by (simp only: marked_re_replicate match_ones) simp
qed

lemma match_code:
  assumes "xs \<noteq> []" and "[CHR ''`''] \<notin> set xs"
  shows "match_items inline_code_re prev (''`'' # xs @ ''`'' # bs) = Some (1 + (length xs + 1), concat xs)"
proof -
  have "takeWhile (none_of ''`'') xs = xs"
    using assms(2) by (auto simp: takeWhile_eq_all_conv none_of_def among_def)
  then have "takeWhile (none_of ''`'') (xs @ ''`'' # bs) = xs" by (simp add: takeWhile_append none_of_def among_def)
  then have "rep_counts (none_of ''`'') 1 None True (xs @ ''`'' # bs) = length xs # rev [1..<length xs]"
    using assms(1) by (simp add: rep_counts_def Let_def Suc_le_eq)
  then show ?thesis
    by (simp add: inline_code_re_def match_one) (subst match_items.simps(2), simp add: match_one)
qed

lemma replace_skip:
  assumes "\<And>prev r rs. r \<noteq> [c] \<Longrightarrow> match_items pat prev (r # rs) = None"
  shows "[c] \<notin> set as \<Longrightarrow> replace_matches pat repl prev (as @ t) = concat as @ replace_matches pat repl (last_of prev as) t"
proof (induction as arbitrary: prev)
  case (Cons r as)
  then show ?case using assms [of r] by (auto simp: last_of_def)
qed (simp add: last_of_def)

lemma replace_match:
  assumes "match_items pat prev rest = Some (k, g)" and "0 < k" and "rest \<noteq> []"
  shows "replace_matches pat repl prev rest =
    repl (concat (take k rest)) g @ replace_matches pat repl (last_of prev (take k rest)) (drop k rest)"
proof -
  obtain r rs m where "rest = r # rs" "k = Suc m" using assms(2,3) by (cases rest; cases k) auto
  then show ?thesis using assms(1) by simp
qed

text \<open>An expression that starts with a mark and matches a marked span takes the marks out.\<close>

lemma span_removed:
  assumes "\<And>prev r rs. r \<noteq> [c] \<Longrightarrow> match_items pat prev (r # rs) = None"
    and "\<And>prev. match_items pat prev (replicate n [c] @ runes x @ replicate n [c] @ runes b) =
      Some (n + (length (runes x) + n), concat (runes x))"
    and "spans a c x b" and "is_ascii c" and "0 < n"
  shows "keep_group pat (a @ surround (replicate n c) x @ b) = a @ x @ b"
proof -
  let ?rest = "replicate n [c] @ runes x @ replicate n [c] @ runes b"
  have absent: "[c] \<notin> set (runes a)" "[c] \<notin> set (runes b)" using spans_runes(1) [OF assms(3)] by auto
  have "replace_matches pat (\<lambda>m g. g) prev (runes b) = b" for prev
    using replace_skip [OF assms(1) absent(2), of "\<lambda>m g. g" prev "[]"] by (simp add: concat_runes)
  moreover have "drop (n + (length (runes x) + n)) ?rest = runes b" by simp
  ultimately have "replace_matches pat (\<lambda>m g. g) prev ?rest = x @ b" for prev
    using replace_match [OF assms(2), of "\<lambda>m g. g" prev] assms(5) by (simp add: concat_runes)
  with replace_skip [OF assms(1) absent(1)] show ?thesis
    by (simp add: keep_group_def regex_replace_def runes_marked [OF assms(4,5)] marked_runes_def concat_runes)
qed

lemma mark_removed:
  assumes "spans a c x b" and "is_ascii c" and "0 < n"
  shows "keep_group (marked_re (replicate n c)) (a @ surround (replicate n c) x @ b) = a @ x @ b"
proof (rule span_removed [OF _ _ assms])
  obtain m where "n = Suc m" using assms(3) by (cases n) auto
  then show "match_items (marked_re (replicate n c)) prev (r # rs) = None" if "r \<noteq> [c]" for prev r rs
    using that by (simp add: marked_re_def match_one)
qed (use spans_runes [OF assms(1)] assms(3) in \<open>simp add: match_marked\<close>)

lemma code_removed:
  assumes "spans a (CHR ''`'') x b"
  shows "keep_group inline_code_re (a @ surround ''`'' x @ b) = a @ x @ b"
proof -
  have "keep_group inline_code_re (a @ surround (replicate 1 (CHR ''`'')) x @ b) = a @ x @ b"
  proof (rule span_removed [OF _ _ assms])
    show "match_items inline_code_re prev (r # rs) = None" if "r \<noteq> ''`''" for prev r rs
      using that by (simp add: inline_code_re_def match_one)
    show "match_items inline_code_re prev (replicate 1 ''`'' @ runes x @ replicate 1 ''`'' @ runes b) =
        Some (1 + (length (runes x) + 1), concat (runes x))" for prev
      using match_code spans_runes [OF assms] by simp
  qed (simp_all add: is_ascii_def)
  then show ?thesis by simp
qed

subsection \<open>One marked span\<close>

lemma unmarked_around:
  assumes "unmarked (a @ x @ b)" and "c \<notin> set cs" and "set cs \<subseteq> insert (CHR ''~'') (set mark_bytes)" and "CHR ''~'' \<notin> set (a @ x @ b)"
  shows "set (a @ surround (replicate n c) x @ b) \<inter> set cs = {}"
  using assms by (auto simp: unmarked_def surround_def)

lemma earlier_fixed:
  assumes "unmarked (a @ x @ b)" and "CHR ''~'' \<notin> set (a @ x @ b)" and "spans a c x b" and "0 < n" and "n < 3" and "c \<in> set ''*_~''"
    and "f \<in> set (take 8 replacements)"
  shows "f (a @ surround (replicate n c) x @ b) = a @ surround (replicate n c) x @ b"
proof -
  define s where "s = a @ surround (replicate n c) x @ b"
  have "\<forall>c\<in>set ''*_~''. is_ascii c \<and> c \<notin> set ''`[|#''" "set ''`[|#'' \<subseteq> set mark_bytes" by code_simp+
  with assms(6) have c: "is_ascii c" and sub: "set cs \<subseteq> set ''`[|#'' \<Longrightarrow> c \<notin> set cs \<and> set cs \<subseteq> set mark_bytes" for cs
    by blast+
  then have absent: "set s \<inter> set cs = {}" if "set cs \<subseteq> set ''`[|#''" for cs
    using sub [OF that] unfolding s_def by (intro unmarked_around [OF assms(1) _ _ assms(2)]) blast+
  have hr: "regex_replace hr_re repl s = s" for repl
    unfolding s_def by (rule rule_unmatched [OF assms(3) c assms(4,5,1)])
  have "\<forall>f\<in>set (take 8 replacements). f s = s"
    by (simp add: replacements_def keep_group_def replace_with_def hr replace_absent(1-7) [OF absent])
  with assms(7) show ?thesis by (simp add: s_def)
qed

lemma strip_code:
  assumes "unmarked (a @ x @ b)" and "CHR ''~'' \<notin> set (a @ x @ b)" and "spans a (CHR ''`'') x b"
  shows "strip_markdown (a @ surround ''`'' x @ b) = tidy (a @ x @ b)"
proof (rule strip_at [of 1])
  have "regex_replace (replicate 3 (one ''`'') @ items) repl (a @ surround (replicate 1 (CHR ''`'')) x @ b) =
      a @ surround (replicate 1 (CHR ''`'')) x @ b" for items repl
    by (rule marked_unmatched [OF assms(3)]) (simp_all add: is_ascii_def)
  then show "\<forall>f\<in>set (take 1 replacements). f (a @ surround ''`'' x @ b) = a @ surround ''`'' x @ b"
    by (simp add: replacements_def keep_group_def code_block_re_def ticks_def eval_nat_numeral)
  show "(replacements ! 1) (a @ surround ''`'' x @ b) = a @ x @ b"
    using code_removed [OF assms(3)] by (simp add: replacements_def)
qed (use assms in \<open>simp_all add: replacements_def\<close>)

text \<open>The place of the expression for each other mark, and the mark: how many of which character.\<close>

definition mark_places :: "(nat \<times> nat \<times> char) list" where
  "mark_places = [(9, 2, CHR ''*''), (10, 1, CHR ''*''), (12, 2, CHR ''_''), (13, 1, CHR ''_''), (14, 2, CHR ''~'')]"

lemma strip_run:
  assumes "unmarked (a @ x @ b)" and "CHR ''~'' \<notin> set (a @ x @ b)" and "spans a c x b"
    and "(k, n, c) \<in> set mark_places"
  shows "strip_markdown (a @ surround (replicate n c) x @ b) = tidy (a @ x @ b)"
proof (rule strip_at [of k])
  let ?s = "a @ surround (replicate n c) x @ b"
  have c: "is_ascii c" "0 < n" "n < 3" "c \<in> set ''*_~''" "k < length replacements" "8 \<le> k"
    using assms(4) by (auto simp: is_ascii_def replacements_def mark_places_def)
  show "k < length replacements" by fact
  show "(replacements ! k) ?s = a @ x @ b"
    using mark_removed [OF assms(3) c(1,2)] assms(4) by (auto simp: replacements_def mark_places_def numeral_2_eq_2)
  note none = marked_unmatched [OF assms(3) c(1,2)]
  have longer: "keep_group (marked_re (replicate j c)) ?s = ?s" if "n < j" for j
    using none [OF that] by (simp add: keep_group_def marked_re_replicate)
  have other: "keep_group (marked_re (replicate (Suc j) d)) ?s = ?s" if "d \<noteq> c" "d \<in> set ''*_''" for d j
  proof -
    have "set ?s \<inter> set [d] = {}" using that by (intro unmarked_around [OF assms(1) _ _ assms(2)]) (auto simp: mark_bytes_def)
    moreover have "needs [d] (marked_re (replicate (Suc j) d))"
      by (simp add: needs_def item_needs_def marked_re_def one_def)
    ultimately show ?thesis unfolding keep_group_def by (intro regex_replace_needs)
  qed
  have "take k replacements = take 8 replacements @ take (k - 8) (drop 8 replacements)"
    using c(6) by (metis le_add_diff_inverse take_add)
  moreover have "f ?s = ?s" if "f \<in> set (take (k - 8) (drop 8 replacements))" for f
    using that assms(4) longer [of 3] longer [of 2] other [of "CHR ''*''" 0] other [of "CHR ''*''" 1] other [of "CHR ''*''" 2]
      other [of "CHR ''_''" 0] other [of "CHR ''_''" 1] other [of "CHR ''_''" 2]
    by (auto simp: replacements_def mark_places_def eval_nat_numeral)
  ultimately show "\<forall>f\<in>set (take k replacements). f ?s = ?s"
    using earlier_fixed [OF assms(1-3) c(2-4)] by auto
qed (use assms in simp_all)

definition span_marks :: "string list" where
  "span_marks = [''`'', ''**'', ''*'', ''__'', ''_'', ''~~'']"

lemma span_marks_places: "span_marks = ''`'' # map (\<lambda>(k, n, c). replicate n c) mark_places"
  by (simp add: span_marks_def mark_places_def eval_nat_numeral)

text \<open>C39: removing Markdown takes the marks out and leaves the rest.  A text without the bytes of
  marks is only tidied: of its lines those go that are blank and follow a blank one, and the
  space around it.  A part of such a text put between two back quotes, stars, underscores or
  tildes, as code, strong, emphasised or struck-out text, loses the two marks and nothing else.\<close>

theorem strip_markdown_text:
  assumes "unmarked (a @ x @ b)" and "CHR ''~'' \<notin> set (a @ x @ b)" and "x \<noteq> []" and "newline \<notin> set x"
  shows "strip_markdown (a @ x @ b) = tidy (a @ x @ b) \<and>
    (\<forall>mark\<in>set span_marks. strip_markdown (a @ mark @ x @ mark @ b) = tidy (a @ x @ b))"
proof (intro conjI ballI)
  show "strip_markdown (a @ x @ b) = tidy (a @ x @ b)"
    by (rule strip_at [of 0]) (use assms(1,2) in \<open>auto simp: replacements_def intro!: replacement_fixed\<close>)
  have spans: "spans a c x b" if "c \<in> set ''`*_~''" for c
    using that assms by (auto simp: spans_def unmarked_def mark_bytes_def)
  fix mark
  assume "mark \<in> set span_marks"
  then consider "mark = ''`''" | k n c where "mark = replicate n c" "(k, n, c) \<in> set mark_places"
    unfolding span_marks_places by auto
  then have "strip_markdown (a @ surround mark x @ b) = tidy (a @ x @ b)"
  proof cases
    case 2
    then have "c \<in> set ''`*_~''" by (auto simp: mark_places_def)
    with strip_run [OF assms(1,2) spans 2(2)] 2(1) show ?thesis by simp
  qed (simp add: strip_code [OF assms(1,2) spans])
  then show "strip_markdown (a @ mark @ x @ mark @ b) = tidy (a @ x @ b)" by (simp add: surround_def)
qed

theorem strip_markdown_text_witness:
  "strip_markdown ''a **word** here'' = ''a word here'' \<and> strip_markdown ''a `word` here'' = ''a word here''"
proof -
  have "unmarked (''a '' @ ''word'' @ '' here'')" by code_simp
  moreover have "tidy (''a '' @ ''word'' @ '' here'') = ''a word here''" by code_simp
  moreover have "''**'' \<in> set span_marks" "''`'' \<in> set span_marks" by (simp_all add: span_marks_def)
  ultimately show ?thesis
    using strip_markdown_text [of "''a ''" "''word''" "'' here''"] by fastforce
qed

end
