(* ===== verification/Slash.thy ===== *)
theory Slash
  imports GoText Message
begin

section \<open>Slash commands: \<open>slash.go\<close>\<close>

text \<open>
  A registry of commands by name.  A command is a function of the user with a state of its own;
  a \<open>nil\<close> one may be registered, and panics when it is called.  \<open>strings.ToLower\<close> with its
  tables outside ASCII is the argument \<open>lower\<close>.  The registry is a Go map: what matters is which
  function a name has, and \<open>Names\<close> may list the names in any order.
\<close>

type_synonym 's command = "incoming_message \<Rightarrow> string \<Rightarrow> 's \<Rightarrow> bool \<times> 's"

record 's command_registry =
  cr_prefix :: string
  cr_commands :: "string \<rightharpoonup> 's command option"

definition new_command_registry :: "string \<Rightarrow> 's command_registry" where
  "new_command_registry prefix =
     \<lparr>cr_prefix = (if prefix = [] then ''/'' else prefix), cr_commands = Map.empty\<rparr>"

definition command_name :: "(string \<Rightarrow> string) \<Rightarrow> string \<Rightarrow> string" where
  "command_name lower name = lower (trim_space name)"

text \<open>A method on a \<open>nil\<close> registry does nothing.\<close>

definition register_command :: "(string \<Rightarrow> string) \<Rightarrow> string \<Rightarrow> 's command option \<Rightarrow>
    's command_registry option \<Rightarrow> 's command_registry option" where
  "register_command lower name fn reg =
     map_option (\<lambda>r. r\<lparr>cr_commands := (cr_commands r)(command_name lower name \<mapsto> fn)\<rparr>) reg"

text \<open>\<open>strings.Cut(body, " ")\<close>.\<close>

definition cut_space :: "string \<Rightarrow> string \<times> string" where
  "cut_space body =
     (case index_where (\<lambda>c. c = blank) body of
        Some i \<Rightarrow> (take i body, drop (Suc i) body)
      | None \<Rightarrow> (body, []))"

text \<open>The name and the arguments of a command, \<open>None\<close> for another text.\<close>

definition command_line :: "(string \<Rightarrow> string) \<Rightarrow> string \<Rightarrow> string \<Rightarrow> (string \<times> string) option" where
  "command_line lower prefix message_text =
     (if message_text = [] then None
      else (let txt = trim_space message_text in
            if \<not> has_prefix txt prefix then None
            else (case cut_space (trim_prefix txt prefix) of
                    (name, args) \<Rightarrow> Some (command_name lower name, trim_space args))))"

text \<open>The result is whether the message was consumed; \<open>None\<close> is the panic of a \<open>nil\<close> command.\<close>

definition handle_command :: "(string \<Rightarrow> string) \<Rightarrow> 's command_registry option \<Rightarrow> incoming_message option \<Rightarrow>
    's \<Rightarrow> bool option \<times> 's" where
  "handle_command lower reg msg s =
     (case (reg, msg) of
        (Some r, Some m) \<Rightarrow>
          (case command_line lower (cr_prefix r) (in_text m) of
             None \<Rightarrow> (Some False, s)
           | Some (name, args) \<Rightarrow>
               (case cr_commands r name of
                  None \<Rightarrow> (Some False, s)
                | Some None \<Rightarrow> (None, s)
                | Some (Some fn) \<Rightarrow> (case fn m args s of (consumed, s) \<Rightarrow> (Some consumed, s))))
      | _ \<Rightarrow> (Some False, s))"

definition command_names :: "'s command_registry option \<Rightarrow> string set" where
  "command_names reg = (case reg of None \<Rightarrow> {} | Some r \<Rightarrow> dom (cr_commands r))"

subsection \<open>Registrations\<close>

definition register_all :: "(string \<Rightarrow> string) \<Rightarrow> (string \<times> 's command option) list \<Rightarrow>
    's command_registry option \<Rightarrow> 's command_registry option" where
  "register_all lower regs = fold (\<lambda>(name, fn). register_command lower name fn) regs"

lemma register_all_commands:
  "register_all lower regs (Some r) =
     Some (r\<lparr>cr_commands := cr_commands r ++ map_of (rev (map (\<lambda>(name, fn). (command_name lower name, fn)) regs))\<rparr>)"
  unfolding register_all_def
proof (induction regs arbitrary: r)
  case (Cons x regs)
  then show ?case
    by (cases x; cases r) (auto simp: register_command_def map_add_def fun_eq_iff split: option.split)
qed simp

text \<open>A slash command goes to the function registered last for its name.  Whatever was
  registered before and after, in whatever case and with whatever space around the names, a
  message whose text starts with the prefix runs the last function registered for the name that
  follows, with the rest of the text as its argument; any other message, and a command nobody
  registered, is not consumed and changes nothing.\<close>

theorem command_dispatch:
  "handle_command lower (register_all lower regs (Some (new_command_registry prefix))) (Some m) s =
     (case command_line lower (if prefix = [] then ''/'' else prefix) (in_text m) of
        None \<Rightarrow> (Some False, s)
      | Some (name, args) \<Rightarrow>
          (case List.find (\<lambda>(n, fn). command_name lower n = name) (rev regs) of
             None \<Rightarrow> (Some False, s)
           | Some (n, None) \<Rightarrow> (None, s)
           | Some (n, Some fn) \<Rightarrow> map_prod Some id (fn m args s))) \<and>
   command_names (register_all lower regs (Some (new_command_registry prefix))) =
     command_name lower ` fst ` set regs"
proof
  have found: "map_of (map (\<lambda>(name, fn). (command_name lower name, fn)) xs) name =
      map_option snd (List.find (\<lambda>(n, fn). command_name lower n = name) xs)" for xs name
    by (induction xs) auto
  show "handle_command lower (register_all lower regs (Some (new_command_registry prefix))) (Some m) s =
     (case command_line lower (if prefix = [] then ''/'' else prefix) (in_text m) of
        None \<Rightarrow> (Some False, s)
      | Some (name, args) \<Rightarrow>
          (case List.find (\<lambda>(n, fn). command_name lower n = name) (rev regs) of
             None \<Rightarrow> (Some False, s)
           | Some (n, None) \<Rightarrow> (None, s)
           | Some (n, Some fn) \<Rightarrow> map_prod Some id (fn m args s)))"
    by (simp add: handle_command_def register_all_commands new_command_registry_def rev_map found
        split: option.split prod.split)
  show "command_names (register_all lower regs (Some (new_command_registry prefix))) =
     command_name lower ` fst ` set regs"
    by (auto simp: command_names_def register_all_commands new_command_registry_def rev_map found dom_map_of_conv_image_fst
        image_image case_prod_unfold)
qed

text \<open>The samples of the code's tests.\<close>

lemma command_line_samples:
  "command_line to_lower ''/'' ''/ping hello world'' = Some (''ping'', ''hello world'')"
  "command_line to_lower ''/'' ''  /PING  a '' = Some (''ping'', ''a'')"
  "command_line to_lower ''/'' ''hello'' = None"
  by code_simp+

end
