(* ===== verification/ItemGraph.thy ===== *)
theory ItemGraph
  imports Outbound "HOL-Library.Sublist"
begin

section \<open>Message items as a graph in memory: \<open>outbound.go\<close>\<close>

text \<open>
  In memory a message item points to its text and to a quoted message, which points to an item
  again: items may be shared, and a quotation may lead back to where it came from.  Before a
  message is sent, the items are copied and their texts normalised, so that the caller's objects
  stay as they are.  The other theories use \<open>normalize_item\<close> on item values; here the two
  functions on pointers are modelled over an explicit heap, and are shown to end on every graph, to
  leave the caller's part of the heap alone, and to give what \<open>normalize_item\<close> gives.

  An address is an index, and an allocation appends.  The fields of an item other than the two
  pointers are copied as they are, as a value of any type.
\<close>

record 'f item_node =
  nd_fields :: 'f
  nd_text :: "nat option"
  nd_ref :: "nat option"

record 'f item_heap =
  hp_items :: "'f item_node list"
  hp_texts :: "string list"
  hp_refs :: "(string \<times> nat option) list"

subsection \<open>Copying\<close>

type_synonym visited_items = "(nat \<times> nat) list"

definition clone_text :: "'f item_node \<Rightarrow> 'f item_heap \<Rightarrow> nat option \<times> 'f item_heap" where
  "clone_text node h =
     (case nd_text node of
        None \<Rightarrow> (None, h)
      | Some t \<Rightarrow> (Some (length (hp_texts h)), h\<lparr>hp_texts := hp_texts h @ [hp_texts h ! t]\<rparr>))"

text \<open>\<open>cloneMessageItemTextPointers\<close>, for the recursive call it makes; it gives the node of the copy.\<close>

definition clone_pointers :: "(nat option \<Rightarrow> 'f item_heap \<Rightarrow> visited_items \<Rightarrow> (nat option \<times> 'f item_heap \<times> visited_items) option) \<Rightarrow>
    'f item_node \<Rightarrow> 'f item_heap \<Rightarrow> visited_items \<Rightarrow> ('f item_node \<times> 'f item_heap \<times> visited_items) option" where
  "clone_pointers clone_pointer node h vis =
     (case clone_text node h of (t, h) \<Rightarrow>
        (case nd_ref node of
           None \<Rightarrow> Some (node\<lparr>nd_text := t\<rparr>, h, vis)
         | Some r \<Rightarrow>
             (case clone_pointer (snd (hp_refs h ! r)) h vis of
                None \<Rightarrow> None
              | Some (it, h, vis) \<Rightarrow>
                  Some (node\<lparr>nd_text := t, nd_ref := Some (length (hp_refs h))\<rparr>,
                    h\<lparr>hp_refs := hp_refs h @ [(fst (hp_refs h ! r), it)]\<rparr>, vis))))"

text \<open>\<open>cloneMessageItemTextPointer\<close>; the depth of the recursion is bounded by fuel, \<open>None\<close> if it runs out.\<close>

primrec clone_pointer :: "nat \<Rightarrow> nat option \<Rightarrow> 'f item_heap \<Rightarrow> visited_items \<Rightarrow>
    (nat option \<times> 'f item_heap \<times> visited_items) option" where
  "clone_pointer 0 = (\<lambda>p h vis. None)"
| "clone_pointer (Suc fuel) = (\<lambda>p h vis.
     (case p of
        None \<Rightarrow> Some (None, h, vis)
      | Some p \<Rightarrow>
          (case map_of vis p of
             Some c \<Rightarrow> Some (Some c, h, vis)
           | None \<Rightarrow>
               (let node = hp_items h ! p; c = length (hp_items h) in
                case clone_pointers (clone_pointer fuel) node (h\<lparr>hp_items := hp_items h @ [node]\<rparr>) ((p, c) # vis) of
                  None \<Rightarrow> None
                | Some (node, h, vis) \<Rightarrow> Some (Some c, h\<lparr>hp_items := (hp_items h)[c := node]\<rparr>, vis)))))"

definition clone_graph :: "nat \<Rightarrow> 'f item_node \<Rightarrow> 'f item_heap \<Rightarrow> ('f item_node \<times> 'f item_heap \<times> visited_items) option" where
  "clone_graph fuel item h = clone_pointers (clone_pointer fuel) item h []"

subsection \<open>Normalising\<close>

definition normalize_cells :: "'f item_node \<Rightarrow> 'f item_heap \<Rightarrow> 'f item_heap" where
  "normalize_cells node h =
     (let h = (case nd_text node of None \<Rightarrow> h
               | Some t \<Rightarrow> h\<lparr>hp_texts := (hp_texts h)[t := normalize_bare_less_than (hp_texts h ! t)]\<rparr>)
      in case nd_ref node of None \<Rightarrow> h
         | Some r \<Rightarrow> h\<lparr>hp_refs := (hp_refs h)[r := apfst normalize_bare_less_than (hp_refs h ! r)]\<rparr>)"

definition next_item :: "'f item_heap \<Rightarrow> 'f item_node \<Rightarrow> nat option" where
  "next_item h node = (case nd_ref node of None \<Rightarrow> None | Some r \<Rightarrow> snd (hp_refs h ! r))"

text \<open>\<open>normalizeMessageItemText\<close>.\<close>

primrec normalize_pointer :: "nat \<Rightarrow> nat option \<Rightarrow> 'f item_heap \<Rightarrow> nat set \<Rightarrow> ('f item_heap \<times> nat set) option" where
  "normalize_pointer 0 = (\<lambda>p h vis. None)"
| "normalize_pointer (Suc fuel) = (\<lambda>p h vis.
     (case p of
        None \<Rightarrow> Some (h, vis)
      | Some p \<Rightarrow>
          (if p \<in> vis then Some (h, vis)
           else (let node = hp_items h ! p; h = normalize_cells node h
                 in normalize_pointer fuel (next_item h node) h (insert p vis)))))"

text \<open>
  The two calls of \<open>sendMessage\<close>: the copy is put into a variable, whose address is normalised.
  There is fuel for every item there is.
\<close>

definition prepare_item :: "'f item_node \<Rightarrow> 'f item_heap \<Rightarrow> (nat \<times> 'f item_heap) option" where
  "prepare_item item h =
     (case clone_graph (Suc (length (hp_items h))) item h of
        None \<Rightarrow> None
      | Some (copy, h, vis) \<Rightarrow>
          (let root = length (hp_items h); h = h\<lparr>hp_items := hp_items h @ [copy]\<rparr>
           in map_option (\<lambda>(h, vis). (root, h)) (normalize_pointer (Suc (length (hp_items h))) (Some root) h {})))"

subsection \<open>Reading\<close>

text \<open>What is read from an item along its quotations, to a given depth.\<close>

type_synonym 'f entry = "'f \<times> string option \<times> string option"

definition node_entry :: "'f item_heap \<Rightarrow> 'f item_node \<Rightarrow> 'f entry" where
  "node_entry h node = (nd_fields node, map_option ((!) (hp_texts h)) (nd_text node),
     map_option (\<lambda>r. fst (hp_refs h ! r)) (nd_ref node))"

primrec view :: "nat \<Rightarrow> 'f item_heap \<Rightarrow> 'f item_node \<Rightarrow> 'f entry list" where
  "view 0 = (\<lambda>h node. [])"
| "view (Suc n) = (\<lambda>h node. node_entry h node #
     (case next_item h node of None \<Rightarrow> [] | Some p \<Rightarrow> view n h (hp_items h ! p)))"

definition normal_entry :: "'f entry \<Rightarrow> 'f entry" where
  "normal_entry = (\<lambda>(f, txt, title). (f, map_option normalize_bare_less_than txt, map_option normalize_bare_less_than title))"

text \<open>Pointers lead to objects.\<close>

definition node_ok :: "'f item_heap \<Rightarrow> 'f item_node \<Rightarrow> bool" where
  "node_ok h node \<longleftrightarrow>
     (case nd_text node of None \<Rightarrow> True | Some t \<Rightarrow> t < length (hp_texts h)) \<and>
     (case nd_ref node of None \<Rightarrow> True | Some r \<Rightarrow> r < length (hp_refs h))"

definition heap_ok :: "'f item_heap \<Rightarrow> bool" where
  "heap_ok h \<longleftrightarrow> list_all (node_ok h) (hp_items h) \<and>
     list_all (\<lambda>(title, p). case p of None \<Rightarrow> True | Some p \<Rightarrow> p < length (hp_items h)) (hp_refs h)"

text \<open>One heap has everything of another.\<close>

definition extends :: "'f item_heap \<Rightarrow> 'f item_heap \<Rightarrow> bool" where
  "extends h h' \<longleftrightarrow> prefix (hp_items h) (hp_items h') \<and> prefix (hp_texts h) (hp_texts h') \<and> prefix (hp_refs h) (hp_refs h')"

lemma extends_refl [simp]: "extends h h"
  by (simp add: extends_def)

lemma extends_trans [trans]: "extends a b \<Longrightarrow> extends b c \<Longrightarrow> extends a c"
  by (auto simp: extends_def intro: prefix_order.trans)

lemma prefix_nth: "prefix xs ys \<Longrightarrow> i < length xs \<Longrightarrow> ys ! i = xs ! i"
  by (auto simp: prefix_def nth_append)

lemma prefix_update_new: "prefix xs ys \<Longrightarrow> length xs \<le> i \<Longrightarrow> prefix xs (ys[i := y])"
  by (auto simp: prefix_def list_update_append)

subsection \<open>The copy\<close>

text \<open>A node of the heap is a copy of a node of the first heap, with cells of its own.\<close>

definition copy_of :: "'f item_heap \<Rightarrow> 'f item_heap \<Rightarrow> visited_items \<Rightarrow> 'f item_node \<Rightarrow> 'f item_node \<Rightarrow> bool" where
  "copy_of h0 h vis node0 node \<longleftrightarrow> nd_fields node = nd_fields node0 \<and>
     rel_option (\<lambda>t t'. length (hp_texts h0) \<le> t' \<and> t' < length (hp_texts h) \<and> hp_texts h ! t' = hp_texts h0 ! t)
       (nd_text node0) (nd_text node) \<and>
     rel_option (\<lambda>r r'. length (hp_refs h0) \<le> r' \<and> r' < length (hp_refs h) \<and>
         fst (hp_refs h ! r') = fst (hp_refs h0 ! r) \<and>
         rel_option (\<lambda>p c. (p, c) \<in> set vis) (snd (hp_refs h0 ! r)) (snd (hp_refs h ! r')))
       (nd_ref node0) (nd_ref node)"

lemma copy_of_mono:
  assumes "copy_of h0 h vis node0 node" and "extends h h'" and "set vis \<subseteq> set vis'"
  shows "copy_of h0 h' vis' node0 node"
proof -
  have len: "length (hp_texts h) \<le> length (hp_texts h')" "length (hp_refs h) \<le> length (hp_refs h')"
    using assms(2) by (auto simp: extends_def prefix_length_le)
  have nth: "t < length (hp_texts h) \<Longrightarrow> hp_texts h' ! t = hp_texts h ! t"
    "r < length (hp_refs h) \<Longrightarrow> hp_refs h' ! r = hp_refs h ! r" for t r
    using assms(2) by (auto simp: extends_def prefix_nth)
  have sub: "rel_option (\<lambda>p c. (p, c) \<in> set vis) x y \<Longrightarrow> rel_option (\<lambda>p c. (p, c) \<in> set vis') x y" for x y
    using assms(3) by (auto elim: option.rel_mono_strong)
  show ?thesis
    using assms(1) len nth sub unfolding copy_of_def by (fastforce elim!: option.rel_mono_strong)
qed

definition map_ok :: "'f item_heap \<Rightarrow> 'f item_heap \<Rightarrow> visited_items \<Rightarrow> bool" where
  "map_ok h0 h vis \<longleftrightarrow> distinct (map fst vis) \<and>
     (\<forall>p c. (p, c) \<in> set vis \<longrightarrow> p < length (hp_items h0) \<and> length (hp_items h0) \<le> c \<and> c < length (hp_items h))"

lemma map_ok_length:
  assumes "map_ok h0 h vis"
  shows "length vis \<le> length (hp_items h0)"
proof -
  have "fst ` set vis \<subseteq> {..<length (hp_items h0)}" using assms by (auto simp: map_ok_def)
  then have "card (fst ` set vis) \<le> length (hp_items h0)" using card_mono [of "{..<length (hp_items h0)}"] by fastforce
  with assms show ?thesis using distinct_card [of "map fst vis"] by (simp add: map_ok_def)
qed

definition cloned :: "'f item_heap \<Rightarrow> 'f item_heap \<Rightarrow> visited_items \<Rightarrow> 'f item_heap \<Rightarrow> visited_items \<Rightarrow> bool" where
  "cloned h0 h vis h' vis' \<longleftrightarrow> extends h h' \<and> map_ok h0 h' vis' \<and> suffix vis vis' \<and>
     (\<forall>p c. (p, c) \<in> set vis' \<longrightarrow> (p, c) \<notin> set vis \<longrightarrow>
        length (hp_items h) \<le> c \<and> copy_of h0 h' vis' (hp_items h0 ! p) (hp_items h' ! c))"

definition clones :: "(nat option \<Rightarrow> 'f item_heap \<Rightarrow> visited_items \<Rightarrow> (nat option \<times> 'f item_heap \<times> visited_items) option) \<Rightarrow>
    'f item_heap \<Rightarrow> nat option \<Rightarrow> 'f item_heap \<Rightarrow> visited_items \<Rightarrow> bool" where
  "clones f h0 p h vis \<longleftrightarrow>
     (\<exists>p' h' vis'. f p h vis = Some (p', h', vis') \<and> cloned h0 h vis h' vis' \<and> rel_option (\<lambda>p c. (p, c) \<in> set vis') p p')"

lemma heap_okD:
  assumes "heap_ok h"
  shows "i < length (hp_items h) \<Longrightarrow> node_ok h (hp_items h ! i)"
    and "r < length (hp_refs h) \<Longrightarrow> snd (hp_refs h ! r) = Some p \<Longrightarrow> p < length (hp_items h)"
proof -
  show "i < length (hp_items h) \<Longrightarrow> node_ok h (hp_items h ! i)"
    using assms by (simp add: heap_ok_def list_all_length)
  show "r < length (hp_refs h) \<Longrightarrow> snd (hp_refs h ! r) = Some p \<Longrightarrow> p < length (hp_items h)"
    using assms unfolding heap_ok_def list_all_length by (cases "hp_refs h ! r") fastforce
qed

lemma clone_text_spec:
  assumes "clone_text node h = (t, h')" and "extends h0 h" and "node_ok h0 node"
  shows "extends h h'" and "hp_items h' = hp_items h" and "hp_refs h' = hp_refs h"
    and "rel_option (\<lambda>t t'. length (hp_texts h0) \<le> t' \<and> t' < length (hp_texts h') \<and> hp_texts h' ! t' = hp_texts h0 ! t)
       (nd_text node) t"
proof -
  have "length (hp_texts h0) \<le> length (hp_texts h)" using assms(2) by (auto simp: extends_def prefix_length_le)
  moreover have "hp_texts h ! t = hp_texts h0 ! t" if "nd_text node = Some t" for t
    using assms(2,3) that by (auto simp: extends_def node_ok_def prefix_nth)
  ultimately show "extends h h'" and "hp_items h' = hp_items h" and "hp_refs h' = hp_refs h"
    and "rel_option (\<lambda>t t'. length (hp_texts h0) \<le> t' \<and> t' < length (hp_texts h') \<and> hp_texts h' ! t' = hp_texts h0 ! t)
       (nd_text node) t"
    using assms(1) by (auto simp: clone_text_def extends_def split: option.splits)
qed

lemma cloned_refl: "map_ok h0 h vis \<Longrightarrow> extends h h' \<Longrightarrow> hp_items h' = hp_items h \<Longrightarrow> cloned h0 h vis h' vis"
  by (auto simp: cloned_def map_ok_def)

lemma cloned_extends:
  assumes "cloned h0 h vis h' vis'" and "extends h2 h" and "hp_items h2 = hp_items h" and "extends h' h3" and "hp_items h3 = hp_items h'"
  shows "cloned h0 h2 vis h3 vis'"
proof -
  have "extends h2 h3" using assms(1,2,4) by (auto simp: cloned_def intro: extends_trans)
  moreover have "copy_of h0 h' vis' a b \<Longrightarrow> copy_of h0 h3 vis' a b" for a b
    using copy_of_mono [OF _ assms(4)] by blast
  ultimately show ?thesis using assms(1,3,5) by (auto simp: cloned_def map_ok_def)
qed

lemma clone_pointers_spec:
  assumes "heap_ok h0" and "extends h0 h" and "map_ok h0 h vis" and "node_ok h0 node"
    and rec: "\<forall>p h. extends h0 h \<longrightarrow> map_ok h0 h vis \<longrightarrow> (\<forall>a. p = Some a \<longrightarrow> a < length (hp_items h0)) \<longrightarrow> clones f h0 p h vis"
  obtains node' h' vis' where "clone_pointers f node h vis = Some (node', h', vis')"
    and "cloned h0 h vis h' vis'" and "copy_of h0 h' vis' node node'"
proof -
  obtain t h2 where t: "clone_text node h = (t, h2)" by (cases "clone_text node h")
  note spec = clone_text_spec [OF t assms(2,4)]
  have h02: "extends h0 h2" using assms(2) spec(1) by (rule extends_trans)
  have map2: "map_ok h0 h2 vis" using assms(3) spec(2) by (simp add: map_ok_def)
  show thesis
  proof (cases "nd_ref node")
    case None
    have "copy_of h0 h2 vis node (node\<lparr>nd_text := t\<rparr>)" using spec(4) None by (simp add: copy_of_def)
    then show thesis
      using that [of "node\<lparr>nd_text := t\<rparr>" h2 vis] cloned_refl [OF assms(3) spec(1,2)]
      by (simp add: clone_pointers_def t None)
  next
    case (Some r)
    then have r: "r < length (hp_refs h0)" using assms(4) by (simp add: node_ok_def)
    with h02 have ref: "hp_refs h2 ! r = hp_refs h0 ! r" by (simp add: extends_def prefix_nth)
    have "clones f h0 (snd (hp_refs h2 ! r)) h2 vis"
      using heap_okD(2) [OF assms(1) r] by (intro rec [rule_format] h02 map2) (simp add: ref)
    then obtain it h3 vis3 where it: "f (snd (hp_refs h2 ! r)) h2 vis = Some (it, h3, vis3)"
      "cloned h0 h2 vis h3 vis3" "rel_option (\<lambda>p c. (p, c) \<in> set vis3) (snd (hp_refs h0 ! r)) it"
      by (auto simp: clones_def ref)
    let ?h4 = "h3\<lparr>hp_refs := hp_refs h3 @ [(fst (hp_refs h3 ! r), it)]\<rparr>"
    let ?node = "node\<lparr>nd_text := t, nd_ref := Some (length (hp_refs h3))\<rparr>"
    have h34: "extends h3 ?h4" by (simp add: extends_def)
    have h23: "extends h2 h3" using it(2) by (simp add: cloned_def)
    have h03: "extends h0 h3" using h02 h23 by (rule extends_trans)
    then have "fst (hp_refs h3 ! r) = fst (hp_refs h0 ! r)" "length (hp_refs h0) \<le> length (hp_refs h3)"
      using r by (auto simp: extends_def prefix_nth prefix_length_le)
    moreover have "rel_option (\<lambda>t t'. length (hp_texts h0) \<le> t' \<and> t' < length (hp_texts h3) \<and> hp_texts h3 ! t' = hp_texts h0 ! t)
       (nd_text node) t"
      using spec(4) h23 prefix_length_le [of "hp_texts h2" "hp_texts h3"]
      by (auto simp: extends_def prefix_nth elim!: option.rel_mono_strong)
    ultimately have "copy_of h0 ?h4 vis3 node ?node" using it(3) by (simp add: copy_of_def Some)
    moreover have "cloned h0 h vis ?h4 vis3"
      by (rule cloned_extends [OF it(2) spec(1) spec(2) [symmetric] h34]) simp
    ultimately show thesis
      using that [of ?node ?h4 vis3] by (simp add: clone_pointers_def t Some it(1))
  qed
qed

lemma clone_pointer_spec:
  assumes "heap_ok h0"
  shows "extends h0 h \<Longrightarrow> map_ok h0 h vis \<Longrightarrow> (\<And>a. p = Some a \<Longrightarrow> a < length (hp_items h0)) \<Longrightarrow>
    length (hp_items h0) < fuel + length vis \<Longrightarrow> clones (clone_pointer fuel) h0 p h vis"
proof (induction fuel arbitrary: p h vis)
  case 0
  then show ?case using map_ok_length [of h0 h vis] by simp
next
  case (Suc fuel)
  show ?case
  proof (cases p)
    case None
    then show ?thesis using cloned_refl [OF Suc.prems(2)] by (simp add: clones_def)
  next
    case (Some a)
    then have a: "a < length (hp_items h0)" using Suc.prems(3) by simp
    show ?thesis
    proof (cases "map_of vis a")
      case (Some c)
      then show ?thesis using cloned_refl [OF Suc.prems(2)] \<open>p = Some a\<close>
        by (auto simp: clones_def dest: map_of_SomeD)
    next
      case None
      let ?c = "length (hp_items h)" and ?node = "hp_items h ! a"
      let ?h1 = "h\<lparr>hp_items := hp_items h @ [?node]\<rparr>" and ?vis = "(a, ?c) # vis"
      have h1: "extends h0 ?h1" using Suc.prems(1) by (auto simp: extends_def intro: prefix_prefix)
      have n0: "length (hp_items h0) \<le> ?c" using Suc.prems(1) by (auto simp: extends_def prefix_length_le)
      have map1: "map_ok h0 ?h1 ?vis"
        using Suc.prems(2) a n0 None by (auto simp: map_ok_def map_of_eq_None_iff intro: less_SucI)
      have node: "?node = hp_items h0 ! a" using Suc.prems(1) a by (simp add: extends_def prefix_nth)
      have ok: "node_ok h0 ?node" unfolding node by (rule heap_okD(1) [OF assms a])
      have rec: "\<forall>q k. extends h0 k \<longrightarrow> map_ok h0 k ?vis \<longrightarrow> (\<forall>a. q = Some a \<longrightarrow> a < length (hp_items h0)) \<longrightarrow>
          clones (clone_pointer fuel) h0 q k ?vis"
        using Suc.prems(4) by (intro allI impI Suc.IH) simp_all
      from clone_pointers_spec [OF assms h1 map1 ok rec] obtain node' h' vis' where
        n: "clone_pointers (clone_pointer fuel) ?node ?h1 ?vis = Some (node', h', vis')"
        "cloned h0 ?h1 ?vis h' vis'" "copy_of h0 h' vis' ?node node'" by metis
      let ?h2 = "h'\<lparr>hp_items := (hp_items h')[?c := node']\<rparr>"
      have same: "copy_of h0 ?h2 vis' = copy_of h0 h' vis'" by (simp add: copy_of_def fun_eq_iff)
      have len: "?c < length (hp_items h')"
        using n(2) prefix_length_le [of "hp_items ?h1" "hp_items h'"] by (simp add: cloned_def extends_def)
      have "extends h ?h2"
        using n(2) by (auto simp: cloned_def extends_def append_prefixD intro!: prefix_update_new)
      moreover have "map_ok h0 ?h2 vis'" using n(2) by (simp add: cloned_def map_ok_def)
      moreover have "suffix vis vis'" using n(2) by (auto simp: cloned_def intro: suffix_ConsD)
      moreover have "?c \<le> c \<and> copy_of h0 ?h2 vis' (hp_items h0 ! q) (hp_items ?h2 ! c)"
        if "(q, c) \<in> set vis'" "(q, c) \<notin> set vis" for q c
      proof (cases "(q, c) = (a, ?c)")
        case True
        then show ?thesis using n(3) len by (simp add: same node)
      next
        case False
        then have "Suc ?c \<le> c \<and> copy_of h0 h' vis' (hp_items h0 ! q) (hp_items h' ! c)"
          using n(2) that by (auto simp: cloned_def)
        then show ?thesis by (simp add: same)
      qed
      ultimately have "cloned h0 h vis ?h2 vis'" by (auto simp: cloned_def)
      moreover have "(a, ?c) \<in> set vis'" using n(2) by (auto simp: cloned_def suffix_def)
      ultimately show ?thesis by (auto simp: clones_def Some None n(1) Let_def)
    qed
  qed
qed

lemma copies_view:
  assumes "heap_ok h0" and "\<forall>p c. (p, c) \<in> set vis \<longrightarrow> p < length (hp_items h0) \<and> copy_of h0 h vis (hp_items h0 ! p) (hp_items h ! c)"
  shows "copy_of h0 h vis node0 node \<Longrightarrow> node_ok h0 node0 \<Longrightarrow> view n h node = view n h0 node0"
proof (induction n arbitrary: node0 node)
  case (Suc n)
  have "node_entry h node = node_entry h0 node0"
    using Suc.prems(1)
    by (cases "nd_text node0"; cases "nd_text node"; cases "nd_ref node0"; cases "nd_ref node")
      (auto simp: copy_of_def node_entry_def)
  moreover have next_rel: "rel_option (\<lambda>p c. (p, c) \<in> set vis) (next_item h0 node0) (next_item h node)"
    using Suc.prems(1)
    by (cases "nd_ref node0"; cases "nd_ref node") (auto simp: copy_of_def next_item_def)
  moreover have "view n h (hp_items h ! c) = view n h0 (hp_items h0 ! p)"
    if "next_item h0 node0 = Some p" "next_item h node = Some c" for p c
  proof (rule Suc.IH)
    have "(p, c) \<in> set vis" using next_rel that by simp
    then show "copy_of h0 h vis (hp_items h0 ! p) (hp_items h ! c)" and "node_ok h0 (hp_items h0 ! p)"
      using assms heap_okD(1) by blast+
  qed
  ultimately show ?case by (cases "next_item h0 node0"; cases "next_item h node") auto
qed simp

subsection \<open>Normalising the copy\<close>

text \<open>Some of the cells beyond those of the first heap have been normalised.\<close>

definition partly_normal :: "'f item_heap \<Rightarrow> 'f item_heap \<Rightarrow> 'f item_heap \<Rightarrow> bool" where
  "partly_normal h0 hA h \<longleftrightarrow> hp_items h = hp_items hA \<and>
     length (hp_texts h) = length (hp_texts hA) \<and> length (hp_refs h) = length (hp_refs hA) \<and>
     (\<forall>t<length (hp_texts hA). hp_texts h ! t = hp_texts hA ! t \<or>
        length (hp_texts h0) \<le> t \<and> hp_texts h ! t = normalize_bare_less_than (hp_texts hA ! t)) \<and>
     (\<forall>r<length (hp_refs hA). hp_refs h ! r = hp_refs hA ! r \<or>
        length (hp_refs h0) \<le> r \<and> hp_refs h ! r = apfst normalize_bare_less_than (hp_refs hA ! r))"

text \<open>A node with cells of its own, beyond those of the first heap.\<close>

definition own_node :: "'f item_heap \<Rightarrow> 'f item_heap \<Rightarrow> 'f item_node \<Rightarrow> bool" where
  "own_node h0 h node \<longleftrightarrow> node_ok h node \<and>
     (case nd_text node of None \<Rightarrow> True | Some t \<Rightarrow> length (hp_texts h0) \<le> t) \<and>
     (case nd_ref node of None \<Rightarrow> True | Some r \<Rightarrow> length (hp_refs h0) \<le> r)"

definition normal_node :: "'f item_heap \<Rightarrow> 'f item_heap \<Rightarrow> 'f item_node \<Rightarrow> bool" where
  "normal_node hA h node \<longleftrightarrow> node_entry h node = normal_entry (node_entry hA node)"

lemma apfst_normal_idem [simp]:
  "apfst normalize_bare_less_than (apfst normalize_bare_less_than x) = apfst normalize_bare_less_than x"
  by (cases x) simp

lemma normalize_cells_values:
  "hp_items (normalize_cells node h) = hp_items h"
  "hp_texts (normalize_cells node h) = (case nd_text node of None \<Rightarrow> hp_texts h
     | Some t \<Rightarrow> (hp_texts h)[t := normalize_bare_less_than (hp_texts h ! t)])"
  "hp_refs (normalize_cells node h) = (case nd_ref node of None \<Rightarrow> hp_refs h
     | Some r \<Rightarrow> (hp_refs h)[r := apfst normalize_bare_less_than (hp_refs h ! r)])"
  by (auto simp: normalize_cells_def Let_def split: option.split)

lemma normalize_cells_partly:
  assumes "partly_normal h0 hA h" and "own_node h0 hA node"
  shows "partly_normal h0 hA (normalize_cells node h)"
  using assms unfolding partly_normal_def own_node_def node_ok_def normalize_cells_values
  by (auto simp: nth_list_update split: option.splits)

lemma normalize_cells_normal:
  assumes "partly_normal h0 hA h" and "own_node h0 hA node"
  shows "normal_node hA (normalize_cells node h) node"
proof -
  have "hp_texts h ! t = hp_texts hA ! t \<or> hp_texts h ! t = normalize_bare_less_than (hp_texts hA ! t)"
    if "nd_text node = Some t" for t
    using assms that by (auto simp: partly_normal_def own_node_def node_ok_def)
  moreover have "hp_refs h ! r = hp_refs hA ! r \<or> hp_refs h ! r = apfst normalize_bare_less_than (hp_refs hA ! r)"
    if "nd_ref node = Some r" for r
    using assms that by (auto simp: partly_normal_def own_node_def node_ok_def)
  ultimately show ?thesis
    using assms unfolding normal_node_def node_entry_def normal_entry_def normalize_cells_values partly_normal_def own_node_def node_ok_def
    by (cases "nd_text node"; cases "nd_ref node") fastforce+
qed

lemma normalize_cells_keeps:
  assumes "partly_normal h0 hA h" and "own_node h0 hA node" and "own_node h0 hA other" and "normal_node hA h other"
  shows "normal_node hA (normalize_cells node h) other"
proof -
  have "hp_texts (normalize_cells node h) ! t = normalize_bare_less_than (hp_texts hA ! t)"
    if "nd_text other = Some t" for t
    using assms that
    by (auto simp: normalize_cells_values normal_node_def node_entry_def normal_entry_def partly_normal_def nth_list_update
        own_node_def node_ok_def split: option.split)
  moreover have "fst (hp_refs (normalize_cells node h) ! r) = normalize_bare_less_than (fst (hp_refs hA ! r))"
    if "nd_ref other = Some r" for r
    using assms that
    by (auto simp: normalize_cells_values normal_node_def node_entry_def normal_entry_def partly_normal_def nth_list_update
        own_node_def node_ok_def split: option.split)
  ultimately show ?thesis
    by (cases "nd_text other"; cases "nd_ref other") (auto simp: normal_node_def node_entry_def normal_entry_def)
qed

lemma partly_next:
  assumes "partly_normal h0 hA h" and "own_node h0 hA node"
  shows "next_item h node = next_item hA node"
  using assms by (auto simp: partly_normal_def own_node_def node_ok_def next_item_def split: option.split)

text \<open>A part of the heap that no pointer leaves.\<close>

definition closed_part :: "'f item_heap \<Rightarrow> 'f item_heap \<Rightarrow> nat set \<Rightarrow> bool" where
  "closed_part h0 h R \<longleftrightarrow> R \<subseteq> {..<length (hp_items h)} \<and>
     (\<forall>a\<in>R. own_node h0 h (hp_items h ! a) \<and> (\<forall>b. next_item h (hp_items h ! a) = Some b \<longrightarrow> b \<in> R))"

definition walked :: "'f item_heap \<Rightarrow> 'f item_heap \<Rightarrow> 'f item_heap \<Rightarrow> nat set \<Rightarrow> nat option \<Rightarrow> nat set \<Rightarrow> bool" where
  "walked h0 hA h R p vis \<longleftrightarrow> partly_normal h0 hA h \<and> vis \<subseteq> R \<and>
     (\<forall>q\<in>vis. normal_node hA h (hp_items hA ! q) \<and>
        (\<forall>b. next_item hA (hp_items hA ! q) = Some b \<longrightarrow> b \<in> vis \<or> p = Some b))"

lemma normalize_pointer_spec:
  assumes "closed_part h0 hA R"
  shows "walked h0 hA h R p vis \<Longrightarrow> (\<And>a. p = Some a \<Longrightarrow> a \<in> R) \<Longrightarrow> length (hp_items hA) < fuel + card vis \<Longrightarrow>
    \<exists>h' vis'. normalize_pointer fuel p h vis = Some (h', vis') \<and> walked h0 hA h' R None vis' \<and>
      vis \<subseteq> vis' \<and> (\<forall>a. p = Some a \<longrightarrow> a \<in> vis')"
proof (induction fuel arbitrary: p h vis)
  case 0
  then have "vis \<subseteq> {..<length (hp_items hA)}" using assms by (auto simp: walked_def closed_part_def)
  then have "card vis \<le> length (hp_items hA)" using card_mono [of "{..<length (hp_items hA)}" vis] by simp
  with 0 show ?case by simp
next
  case (Suc fuel)
  show ?case
  proof (cases p)
    case (Some a)
    let ?node = "hp_items hA ! a"
    show ?thesis
    proof (cases "a \<in> vis")
      case True
      then have "walked h0 hA h R None vis" using Suc.prems(1) Some by (auto simp: walked_def)
      then show ?thesis using True by (simp add: Some)
    next
      case False
      have part: "partly_normal h0 hA h" using Suc.prems(1) by (simp add: walked_def)
      have R: "a \<in> R" using Suc.prems(2) Some by simp
      then have own: "own_node h0 hA ?node" using assms by (simp add: closed_part_def)
      have own_vis: "own_node h0 hA (hp_items hA ! q)" if "q \<in> vis" for q
        using that Suc.prems(1) assms by (auto simp: walked_def closed_part_def)
      let ?h = "normalize_cells ?node h"
      have part': "partly_normal h0 hA ?h" by (rule normalize_cells_partly [OF part own])
      have "walked h0 hA ?h R (next_item hA ?node) (insert a vis)"
        using Suc.prems(1) R part' normalize_cells_normal [OF part own] normalize_cells_keeps [OF part own own_vis] Some
        by (auto simp: walked_def)
      moreover have "b \<in> R" if "next_item hA ?node = Some b" for b
        using assms R that by (auto simp: closed_part_def)
      moreover have "length (hp_items hA) < fuel + card (insert a vis)"
      proof -
        have "finite vis" using Suc.prems(1) assms finite_subset [of vis "{..<length (hp_items hA)}"]
          by (auto simp: walked_def closed_part_def)
        then show ?thesis using Suc.prems(3) False by simp
      qed
      ultimately obtain h' vis' where "normalize_pointer fuel (next_item hA ?node) ?h (insert a vis) = Some (h', vis')"
        "walked h0 hA h' R None vis'" "insert a vis \<subseteq> vis'"
        using Suc.IH [of ?h "next_item hA ?node" "insert a vis"] by blast
      moreover have "hp_items h ! a = ?node" using part by (simp add: partly_normal_def)
      ultimately show ?thesis
        using False partly_next [OF part' own] by (simp add: Some Let_def)
    qed
  qed (use Suc.prems in \<open>auto simp: walked_def\<close>)
qed

lemma walked_view:
  assumes "closed_part h0 hA R" and "walked h0 hA h R None vis"
  shows "a \<in> vis \<Longrightarrow> view n h (hp_items h ! a) = map normal_entry (view n hA (hp_items hA ! a))"
proof (induction n arbitrary: a)
  case (Suc n)
  have items: "hp_items h = hp_items hA" and part: "partly_normal h0 hA h"
    using assms(2) by (simp_all add: walked_def partly_normal_def)
  have own: "own_node h0 hA (hp_items hA ! a)" using Suc.prems assms by (auto simp: walked_def closed_part_def)
  have "node_entry h (hp_items hA ! a) = normal_entry (node_entry hA (hp_items hA ! a))"
    using assms(2) Suc.prems by (simp add: walked_def normal_node_def)
  moreover have "view n h (hp_items hA ! b) = map normal_entry (view n hA (hp_items hA ! b))"
    if "next_item hA (hp_items hA ! a) = Some b" for b
    using Suc.IH [of b] that assms(2) Suc.prems by (auto simp: walked_def items)
  ultimately show ?case
    by (simp add: items partly_next [OF part own] split: option.split)
qed simp

subsection \<open>Both together\<close>

lemma copy_own: "copy_of h0 h vis node0 node \<Longrightarrow> own_node h0 h node"
  by (cases "nd_text node0"; cases "nd_text node"; cases "nd_ref node0"; cases "nd_ref node")
    (auto simp: copy_of_def own_node_def node_ok_def)

lemma copy_next: "copy_of h0 h vis node0 node \<Longrightarrow> next_item h node = Some c \<Longrightarrow> \<exists>p. (p, c) \<in> set vis"
  by (cases "nd_ref node0"; cases "nd_ref node") (auto simp: copy_of_def next_item_def option_rel_Some2)

lemma prefix_unchanged:
  assumes "prefix xs ys" and "length zs = length ys" and "\<And>i. i < length xs \<Longrightarrow> zs ! i = ys ! i"
  shows "prefix xs zs"
proof -
  have "length xs \<le> length zs" using assms(1,2) by (simp add: prefix_length_le)
  then have "take (length xs) zs = xs"
    by (intro nth_equalityI) (simp_all add: assms(3) prefix_nth [OF assms(1)])
  then show ?thesis by (metis take_is_prefix)
qed

lemma partly_normalD:
  assumes "partly_normal h0 hA h"
  shows "t < length (hp_texts hA) \<Longrightarrow> hp_texts h ! t = hp_texts hA ! t \<or> length (hp_texts h0) \<le> t"
    and "r < length (hp_refs hA) \<Longrightarrow> hp_refs h ! r = hp_refs hA ! r \<or> length (hp_refs h0) \<le> r"
  using assms unfolding partly_normal_def by blast+

lemma partly_extends:
  assumes "partly_normal h0 hA h" and "extends h0 hA"
  shows "extends h0 h"
proof -
  have le: "length (hp_texts h0) \<le> length (hp_texts hA)" "length (hp_refs h0) \<le> length (hp_refs hA)"
    using assms(2) by (auto simp: extends_def prefix_length_le)
  have "hp_texts h ! i = hp_texts hA ! i" if "i < length (hp_texts h0)" for i
    using partly_normalD(1) [OF assms(1), of i] that le(1) by auto
  moreover have "hp_refs h ! i = hp_refs hA ! i" if "i < length (hp_refs h0)" for i
    using partly_normalD(2) [OF assms(1), of i] that le(2) by auto
  ultimately have "prefix (hp_texts h0) (hp_texts h)" "prefix (hp_refs h0) (hp_refs h)"
    using assms by (auto simp: partly_normal_def extends_def intro: prefix_unchanged)
  then show ?thesis using assms by (simp add: partly_normal_def extends_def)
qed

lemma prepare_item_spec:
  assumes "heap_ok h" and "node_ok h item"
  obtains root h' where "prepare_item item h = Some (root, h')" and "extends h h'"
    and "\<And>n. view n h' (hp_items h' ! root) = map normal_entry (view n h item)"
proof -
  have rec: "\<forall>q k. extends h k \<longrightarrow> map_ok h k [] \<longrightarrow> (\<forall>a. q = Some a \<longrightarrow> a < length (hp_items h)) \<longrightarrow>
      clones (clone_pointer (Suc (length (hp_items h)))) h q k []"
    by (intro allI impI clone_pointer_spec [OF assms(1)]) simp_all
  have "map_ok h h []" by (simp add: map_ok_def)
  from clone_pointers_spec [OF assms(1) extends_refl this assms(2) rec] obtain copy h1 vis where
    c: "clone_graph (Suc (length (hp_items h))) item h = Some (copy, h1, vis)"
    "cloned h h [] h1 vis" "copy_of h h1 vis item copy"
    unfolding clone_graph_def by metis
  let ?root = "length (hp_items h1)"
  define hA where "hA = h1\<lparr>hp_items := hp_items h1 @ [copy]\<rparr>"
  have hA: "hp_items hA = hp_items h1 @ [copy]" "hp_texts hA = hp_texts h1" "hp_refs hA = hp_refs h1"
    by (simp_all add: hA_def)
  have h1A: "extends h1 hA" and hhA: "extends h hA"
    using c(2) by (auto simp: cloned_def hA_def extends_def intro: prefix_prefix)
  have copies: "\<forall>p c. (p, c) \<in> set vis \<longrightarrow> p < length (hp_items h) \<and> c < ?root \<and> copy_of h hA vis (hp_items h ! p) (hp_items hA ! c)"
    using c(2) copy_of_mono [OF _ h1A subset_refl] by (simp add: cloned_def map_ok_def hA nth_append)
  have root: "copy_of h hA vis item copy" using copy_of_mono [OF c(3) h1A] by simp
  let ?R = "insert ?root (snd ` set vis)"
  have part: "closed_part h hA ?R"
    unfolding closed_part_def
  proof (intro conjI ballI allI impI)
    show "?R \<subseteq> {..<length (hp_items hA)}" using copies by (auto simp: hA intro: less_SucI)
    fix a
    assume "a \<in> ?R"
    then consider "a = ?root" | q where "(q, a) \<in> set vis" by auto
    then obtain node0 where node: "copy_of h hA vis node0 (hp_items hA ! a)"
      using copies root by cases (auto simp: hA)
    then show "own_node h hA (hp_items hA ! a)" by (rule copy_own)
    show "b \<in> ?R" if "next_item hA (hp_items hA ! a) = Some b" for b
      using copy_next [OF node that] by force
  qed
  have "walked h hA hA ?R (Some ?root) {}" by (simp add: walked_def partly_normal_def)
  from normalize_pointer_spec [OF part this, of "Suc (length (hp_items hA))"] obtain h' vis' where
    n: "normalize_pointer (Suc (length (hp_items hA))) (Some ?root) hA {} = Some (h', vis')"
    "walked h hA h' ?R None vis'" "?root \<in> vis'" by auto
  have "prepare_item item h = Some (?root, h')"
    using n(1) by (simp add: prepare_item_def c(1) Let_def hA_def [symmetric] hA(1) del: normalize_pointer.simps)
  moreover have "extends h h'" using partly_extends [OF _ hhA] n(2) by (simp add: walked_def)
  moreover have "view n h' (hp_items h' ! ?root) = map normal_entry (view n h item)" for n
    using walked_view [OF part n(2,3), of n] copies_view [OF assms(1) _ root assms(2), of n] copies
    by (simp add: hA)
  ultimately show thesis by (rule that)
qed

text \<open>What is read of an item value; its fields but for the text and the quotation.\<close>

fun other_fields :: "message_item \<Rightarrow> message_item" where
  "other_fields (MessageItem ty ct ut ic mid txt im vo fi vi ts tr rm) =
     MessageItem ty ct ut ic mid None im vo fi vi ts tr None"

primrec item_entries :: "message_item \<Rightarrow> message_item entry list" and ref_entries :: "ref_message \<Rightarrow> message_item entry list" where
  "item_entries (MessageItem ty ct ut ic mid txt im vo fi vi ts tr rm) =
     (other_fields (MessageItem ty ct ut ic mid txt im vo fi vi ts tr rm), txt, map_option rm_title rm) #
     (case map_option ref_entries rm of None \<Rightarrow> [] | Some es \<Rightarrow> es)"
| "ref_entries (RefMessage title it) = (case map_option item_entries it of None \<Rightarrow> [] | Some es \<Rightarrow> es)"

definition holds_item :: "message_item item_heap \<Rightarrow> message_item item_node \<Rightarrow> message_item \<Rightarrow> bool" where
  "holds_item h node it \<longleftrightarrow> (\<forall>n. view n h node = take n (item_entries it))"

lemma entries_normal:
  "item_entries (normalize_item it) = map normal_entry (item_entries it)"
  "ref_entries (normalize_ref rm) = map normal_entry (ref_entries rm)"
proof (induction it and rm)
  case (MessageItem ty ct ut ic mid tx im vo fi vi ts tr rm)
  then show ?case by (cases rm) (auto simp: normal_entry_def rm_title_def split: ref_message.split)
next
  case (RefMessage title it)
  then show ?case by (cases it) auto
qed

text \<open>C37: what is sent is a normalised copy, and the caller's objects stay as they are.  On every
  graph of items, shared and cyclic ones included, copying and normalising end; everything that
  was in memory before is unchanged; what is read from the copy is what is read from the
  original, to any depth, with each text and title normalised; and if the original holds an
  item value, the copy holds what \<open>normalize_item\<close> makes of it.\<close>

theorem item_prepared:
  assumes "heap_ok h" and "node_ok h item"
  shows "\<exists>root h'. prepare_item item h = Some (root, h') \<and> extends h h' \<and>
    (\<forall>n. view n h' (hp_items h' ! root) = map normal_entry (view n h item)) \<and>
    (\<forall>it. holds_item h item it \<longrightarrow> holds_item h' (hp_items h' ! root) (normalize_item it))"
proof -
  from prepare_item_spec [OF assms] obtain root h' where "prepare_item item h = Some (root, h')" "extends h h'"
    and v: "\<And>n. view n h' (hp_items h' ! root) = map normal_entry (view n h item)" by metis
  moreover have "holds_item h' (hp_items h' ! root) (normalize_item it)" if "holds_item h item it" for it
    using that by (simp add: holds_item_def v entries_normal take_map)
  ultimately show ?thesis by blast
qed

text \<open>A message that quotes itself.\<close>

definition sample_node :: "message_item item_node" where
  "sample_node = \<lparr>nd_fields = MessageItem item_text 0 0 None [] None None None None None None None None,
     nd_text = Some 0, nd_ref = Some 0\<rparr>"

definition sample_graph :: "message_item item_heap" where
  "sample_graph = \<lparr>hp_items = [sample_node], hp_texts = [''1<2''], hp_refs = [(''a<b'', Some 0)]\<rparr>"

theorem item_prepared_witness:
  "\<exists>root h'. prepare_item sample_node sample_graph = Some (root, h') \<and> prefix [''1<2''] (hp_texts h') \<and>
     view 2 h' (hp_items h' ! root) =
       replicate 2 (nd_fields sample_node, Some (''1'' @ full_width_less_than @ ''2''), Some (''a'' @ full_width_less_than @ ''b''))"
proof -
  have "heap_ok sample_graph" "node_ok sample_graph sample_node" by code_simp+
  from item_prepared [OF this] obtain root h' where p: "prepare_item sample_node sample_graph = Some (root, h')"
    "extends sample_graph h'" "view 2 h' (hp_items h' ! root) = map normal_entry (view 2 sample_graph sample_node)"
    by blast
  have "map normal_entry (view 2 sample_graph sample_node) =
      replicate 2 (nd_fields sample_node, Some (''1'' @ full_width_less_than @ ''2''), Some (''a'' @ full_width_less_than @ ''b''))"
    by code_simp
  moreover have "prefix [''1<2''] (hp_texts h')" using p(2) by (simp add: extends_def sample_graph_def)
  ultimately show ?thesis using p(1,3) by metis
qed

end
