(* ===== verification/WireText.thy ===== *)
theory WireText
  imports WireJson JsonRoundTrip Protocol
begin

section \<open>Wire messages as text\<close>

text \<open>
  The type of what is decoded: whatever text the service sends, a message that
  \<open>decodeWireMessage\<close> makes of it has UTF-8 strings and integers of 64 bits, and so it survives
  being encoded and decoded again.
\<close>

subsection \<open>Codecs\<close>

text \<open>
  What the client of an encoding relies on: encoded values that satisfy \<open>ok\<close> are read back.
  A codec is strict when nothing else is ever read.
\<close>

locale codec =
  fixes encode :: "'a \<Rightarrow> 'd" and decode :: "'d \<Rightarrow> 'e + 'a" and ok :: "'a \<Rightarrow> bool"
  assumes read_back: "ok x \<Longrightarrow> decode (encode x) = Inr x"
begin

lemma encode_inj: "ok x \<Longrightarrow> ok y \<Longrightarrow> encode x = encode y \<Longrightarrow> x = y"
  by (metis read_back sum.inject(2))

lemma all_back: "list_all ok xs \<Longrightarrow> map decode (map encode xs) = map Inr xs"
  by (induction xs) (simp_all add: read_back)

lemma read_only: "list_all ok xs \<Longrightarrow> map decode (map encode xs) = map Inr ys \<Longrightarrow> ys = xs"
  using all_back [of xs] by (metis (no_types, lifting) injI list.inj_map_strong sum.inject(2))

end

locale strict_codec = codec encode decode ok
  for encode :: "'a \<Rightarrow> 'd" and decode :: "'d \<Rightarrow> 'e + 'a" and ok :: "'a \<Rightarrow> bool" +
  fixes doc_ok :: "'d \<Rightarrow> bool"
  assumes typed: "doc_ok d \<Longrightarrow> decode d = Inr x \<Longrightarrow> ok x"
begin

lemma stable: "doc_ok d \<Longrightarrow> decode d = Inr x \<Longrightarrow> decode (encode x) = Inr x"
  by (rule read_back) (rule typed)

end

subsection \<open>Documents of valid text\<close>

fun texts_valid :: "json \<Rightarrow> bool" where
  "texts_valid (JStr s) = valid_utf8 s"
| "texts_valid (JArr vs) = list_all texts_valid vs"
| "texts_valid (JObj kvs) = list_all (\<lambda>(k, v). texts_valid v) kvs"
| "texts_valid v = True"

lemma parse_scalar_valid: "parse_scalar s = Some (v, r) \<Longrightarrow> texts_valid v"
  by (auto simp: parse_scalar_def split: if_splits)

lemma parse_value_string: "parse_value (Suc n) d s = Some (JStr x, r) \<Longrightarrow> valid_utf8 x"
  by (auto simp: parse_scalar_def split: list.splits if_splits option.splits prod.splits
      dest: parse_string_valid parsed_good(2,3))

lemma parsed_texts:
  "parse_value n d s = Some (v, r) \<Longrightarrow> texts_valid v"
  "parse_elements n d vs s = Some (v, r) \<Longrightarrow> list_all texts_valid vs \<Longrightarrow> texts_valid v"
  "parse_members n d kvs s = Some (v, r) \<Longrightarrow> list_all (\<lambda>x. texts_valid (snd x)) kvs \<Longrightarrow> texts_valid v"
proof (induction n arbitrary: d s v r vs kvs)
  case (Suc n)
  {
  case 1
  then show ?case
  proof (cases rule: parse_value_cases)
    case scalar
    then show ?thesis using 1 parse_value_string by simp
  qed (use Suc.IH parse_scalar_valid in simp_all)
  }
  {
  case 2
  from 2(1) show ?case
    by (cases rule: parse_elements_cases) (use Suc.IH 2(2) in simp_all)
  }
  {
  case 3
  from 3(1) show ?case
    by (cases rule: parse_members_cases) (use Suc.IH 3(2) in \<open>simp_all add: case_prod_unfold\<close>)
  }
qed simp_all

lemma as_typed_texts: "texts_valid v \<Longrightarrow> texts_valid (as_typed v)"
  by (induction v rule: as_typed.induct) (auto simp: list_all_iff split: option.split)

lemma unmarshal_texts: "unmarshal_json s = Some v \<Longrightarrow> texts_valid v"
  unfolding unmarshal_json_def
  by (cases "parse_json s") (auto split: if_splits intro!: as_typed_texts intro: parsed_texts(1) [OF parse_json_def [symmetric, THEN trans]])

declare texts_valid.simps(3) [simp del]

subsection \<open>The types of what is decoded\<close>

lemma dec_then_Inr: "dec_then r f = Inr y \<longleftrightarrow> (\<exists>x. r = Inr x \<and> f x = Inr y)"
  by (cases r) simp_all

lemma dec_last_keeps:
  "dec_last dec d vs = Inr y \<Longrightarrow> P d \<Longrightarrow> (\<And>x v z. v \<in> set vs \<Longrightarrow> dec x v = Inr z \<Longrightarrow> P x \<Longrightarrow> P z) \<Longrightarrow> P y"
proof (induction vs arbitrary: d)
  case (Cons v vs)
  then show ?case by (fastforce split: if_splits sum.splits)
qed simp

lemma dec_pointer_keeps:
  "dec_pointer dec zero cur vs = Inr y \<Longrightarrow> pred_option P cur \<Longrightarrow> P zero \<Longrightarrow>
   (\<And>x v z. v \<in> set vs \<Longrightarrow> dec x v = Inr z \<Longrightarrow> P x \<Longrightarrow> P z) \<Longrightarrow> pred_option P y"
proof (induction vs arbitrary: cur)
  case (Cons v vs)
  show ?case
  proof (cases "v = JNull")
    case False
    let ?x = "case cur of None \<Rightarrow> zero | Some x \<Rightarrow> x"
    obtain z where z: "dec ?x v = Inr z" "dec_pointer dec zero (Some z) vs = Inr y"
      using Cons.prems(1) False by (auto split: sum.splits)
    have "P ?x" using Cons.prems(2,3) by (cases cur) auto
    with Cons.prems(4) z(1) have "P z" by auto
    show ?thesis by (rule Cons.IH [OF z(2)]) (use \<open>P z\<close> Cons.prems(3,4) in auto)
  next
    case True
    then have "dec_pointer dec zero None vs = Inr y" using Cons.prems(1) by simp
    then show ?thesis by (rule Cons.IH) (use Cons.prems(3,4) in auto)
  qed
qed simp

lemma dec_elements_keeps:
  "dec_elements dec zero old vs = Inr ys \<Longrightarrow> list_all P old \<Longrightarrow> P zero \<Longrightarrow>
   (\<And>x v z. v \<in> set vs \<Longrightarrow> dec x v = Inr z \<Longrightarrow> P x \<Longrightarrow> P z) \<Longrightarrow> list_all P ys"
proof (induction vs arbitrary: old ys)
  case (Cons v vs)
  let ?x = "case old of [] \<Rightarrow> zero | x # _ \<Rightarrow> x"
  obtain z zs where z: "dec ?x v = Inr z" "dec_elements dec zero (tl old) vs = Inr zs" "ys = z # zs"
    using Cons.prems(1) by (auto simp: dec_then_Inr)
  have "P ?x" "list_all P (tl old)" using Cons.prems(2,3) by (cases old; simp)+
  with Cons.prems(4) z(1) Cons.IH [OF z(2)] Cons.prems(3) show ?case by (auto simp: z(3))
qed simp

lemma dec_slice_keeps:
  "dec_slice dec zero cur vs = Inr ys \<Longrightarrow> list_all P cur \<Longrightarrow> P zero \<Longrightarrow>
   (\<And>ws w x z. JArr ws \<in> set vs \<Longrightarrow> w \<in> set ws \<Longrightarrow> dec x w = Inr z \<Longrightarrow> P x \<Longrightarrow> P z) \<Longrightarrow> list_all P ys"
proof (induction vs arbitrary: cur)
  case (Cons v vs)
  then show ?case
  proof (cases v)
    case (JArr ws)
    obtain zs where zs: "dec_elements dec zero cur ws = Inr zs" "dec_slice dec zero zs vs = Inr ys"
      using Cons.prems(1) by (auto simp: JArr dec_then_Inr)
    have "list_all P zs" using dec_elements_keeps [OF zs(1) Cons.prems(2,3)] Cons.prems(4) by (auto simp: JArr)
    show ?thesis by (rule Cons.IH [OF zs(2)]) (use \<open>list_all P zs\<close> Cons.prems(3,4) in auto)
  qed auto
qed simp

lemma field_texts: "texts_valid (JObj kvs) \<Longrightarrow> v \<in> set (field_values name kvs) \<Longrightarrow> texts_valid v"
  by (auto simp: field_values_def list_all_iff texts_valid.simps(3))

lemma str_field_valid:
  assumes "str_field d name kvs = Inr s" and "texts_valid (JObj kvs)" and "valid_utf8 d"
  shows "valid_utf8 s"
  using assms(1) unfolding dec_field_def
  by (rule dec_last_keeps) (use assms(3) in \<open>auto simp: dec_str_def split: json.splits dest: field_texts [OF assms(2)]\<close>)

lemma int_field_valid: "int_field d name kvs = Inr i \<Longrightarrow> in_int64 d \<Longrightarrow> in_int64 i"
  unfolding dec_field_def by (erule dec_last_keeps) (auto simp: dec_int64_def split: json.splits if_splits)

lemma ptr_field_valid:
  assumes "ptr_field dec zero cur name kvs = Inr y" and "texts_valid (JObj kvs)" and "pred_option P cur" and "P zero"
    and "\<And>x v z. texts_valid v \<Longrightarrow> dec x v = Inr z \<Longrightarrow> P x \<Longrightarrow> P z"
  shows "pred_option P y"
  using assms(1) unfolding ptr_field_def
  by (rule dec_pointer_keeps) (use assms(3-5) field_texts [OF assms(2)] in blast)+

lemma dec_into_valid:
  assumes "dec_into f x v = Inr y" and "texts_valid v" and "P x" and "\<And>kvs. texts_valid (JObj kvs) \<Longrightarrow> f x kvs = Inr y \<Longrightarrow> P y"
  shows "P y"
  using assms by (cases v) (auto simp: dec_into_def)

lemma zero_ok [simp]:
  "valid_utf8 []" "in_int64 0" "media_ok zero_media" "image_ok zero_image" "voice_ok zero_voice" "file_ok zero_file"
  "video_ok zero_video" "tool_start_ok zero_tool_start" "tool_result_ok zero_tool_result" "item_ok zero_item"
  "ref_ok zero_ref" "wire_ok zero_wire"
  by (simp_all add: in_int64_def zero_media_def media_ok_def zero_image_def image_ok_def zero_voice_def voice_ok_def
      zero_file_def file_ok_def zero_video_def video_ok_def zero_tool_start_def tool_start_ok_def zero_tool_result_def
      tool_result_ok_def zero_item_def zero_ref_def zero_wire_def wire_ok_def)

named_theorems typed_fields \<open>the type of a decoded field\<close>

declare str_field_valid [typed_fields] int_field_valid [typed_fields]

lemma media_typed: "dec_media x v = Inr y \<Longrightarrow> texts_valid v \<Longrightarrow> media_ok x \<Longrightarrow> media_ok y"
  unfolding dec_media_def
  by (erule dec_into_valid) (auto simp: dec_then_Inr media_ok_def intro: typed_fields)

lemma media_field_typed [typed_fields]:
  "media_field cur name kvs = Inr y \<Longrightarrow> texts_valid (JObj kvs) \<Longrightarrow> pred_option media_ok cur \<Longrightarrow> pred_option media_ok y"
  by (erule ptr_field_valid) (auto intro: media_typed)

lemma text_typed: "dec_text x v = Inr y \<Longrightarrow> texts_valid v \<Longrightarrow> valid_utf8 x \<Longrightarrow> valid_utf8 y"
  unfolding dec_text_def by (erule dec_into_valid) (auto intro: typed_fields)

lemma image_typed: "dec_image x v = Inr y \<Longrightarrow> texts_valid v \<Longrightarrow> image_ok x \<Longrightarrow> image_ok y"
  unfolding dec_image_def
  by (erule dec_into_valid) (auto simp: dec_then_Inr image_ok_def intro: typed_fields)

lemma voice_typed: "dec_voice x v = Inr y \<Longrightarrow> texts_valid v \<Longrightarrow> voice_ok x \<Longrightarrow> voice_ok y"
  unfolding dec_voice_def
  by (erule dec_into_valid) (auto simp: dec_then_Inr voice_ok_def intro: typed_fields)

lemma file_typed: "dec_file x v = Inr y \<Longrightarrow> texts_valid v \<Longrightarrow> file_ok x \<Longrightarrow> file_ok y"
  unfolding dec_file_def
  by (erule dec_into_valid) (auto simp: dec_then_Inr file_ok_def intro: typed_fields)

lemma video_typed: "dec_video x v = Inr y \<Longrightarrow> texts_valid v \<Longrightarrow> video_ok x \<Longrightarrow> video_ok y"
  unfolding dec_video_def
  by (erule dec_into_valid) (auto simp: dec_then_Inr video_ok_def intro: typed_fields)

lemma tool_start_typed: "dec_tool_start x v = Inr y \<Longrightarrow> texts_valid v \<Longrightarrow> tool_start_ok x \<Longrightarrow> tool_start_ok y"
  unfolding dec_tool_start_def
  by (erule dec_into_valid) (auto simp: dec_then_Inr tool_start_ok_def intro: typed_fields)

lemma tool_result_typed: "dec_tool_result x v = Inr y \<Longrightarrow> texts_valid v \<Longrightarrow> tool_result_ok x \<Longrightarrow> tool_result_ok y"
  unfolding dec_tool_result_def
  by (erule dec_into_valid) (auto simp: dec_then_Inr tool_result_ok_def intro: typed_fields)

lemma ptrs_typed [typed_fields]:
  "ptr_field dec_text [] tx name kvs = Inr tx' \<Longrightarrow> texts_valid (JObj kvs) \<Longrightarrow> pred_option valid_utf8 tx \<Longrightarrow> pred_option valid_utf8 tx'"
  "ptr_field dec_image zero_image im name kvs = Inr im' \<Longrightarrow> texts_valid (JObj kvs) \<Longrightarrow> pred_option image_ok im \<Longrightarrow> pred_option image_ok im'"
  "ptr_field dec_voice zero_voice vo name kvs = Inr vo' \<Longrightarrow> texts_valid (JObj kvs) \<Longrightarrow> pred_option voice_ok vo \<Longrightarrow> pred_option voice_ok vo'"
  "ptr_field dec_file zero_file fi name kvs = Inr fi' \<Longrightarrow> texts_valid (JObj kvs) \<Longrightarrow> pred_option file_ok fi \<Longrightarrow> pred_option file_ok fi'"
  "ptr_field dec_video zero_video vi name kvs = Inr vi' \<Longrightarrow> texts_valid (JObj kvs) \<Longrightarrow> pred_option video_ok vi \<Longrightarrow> pred_option video_ok vi'"
  "ptr_field dec_tool_start zero_tool_start ts name kvs = Inr ts' \<Longrightarrow> texts_valid (JObj kvs) \<Longrightarrow>
     pred_option tool_start_ok ts \<Longrightarrow> pred_option tool_start_ok ts'"
  "ptr_field dec_tool_result zero_tool_result tr name kvs = Inr tr' \<Longrightarrow> texts_valid (JObj kvs) \<Longrightarrow>
     pred_option tool_result_ok tr \<Longrightarrow> pred_option tool_result_ok tr'"
  by (erule ptr_field_valid;
      auto intro: text_typed image_typed voice_typed file_typed video_typed tool_start_typed tool_result_typed)+

text \<open>Items and what they quote: the induction of their decoder.\<close>

lemma item_ok_fields:
  "item_ok it \<longleftrightarrow> in_int64 (mi_type it) \<and> in_int64 (mi_create_time_ms it) \<and> in_int64 (mi_update_time_ms it) \<and>
     valid_utf8 (mi_msg_id it) \<and> pred_option valid_utf8 (mi_text it) \<and> pred_option image_ok (mi_image it) \<and>
     pred_option voice_ok (mi_voice it) \<and> pred_option file_ok (mi_file it) \<and> pred_option video_ok (mi_video it) \<and>
     pred_option tool_start_ok (mi_tool_start it) \<and> pred_option tool_result_ok (mi_tool_result it) \<and>
     pred_option ref_ok (mi_ref it)"
  "ref_ok rm \<longleftrightarrow> valid_utf8 (rm_title rm) \<and> pred_option item_ok (rm_item rm)"
  by (cases it; auto split: option.split) (cases rm; auto split: option.split)

lemma item_ok_make:
  "in_int64 ty \<Longrightarrow> in_int64 ct \<Longrightarrow> in_int64 ut \<Longrightarrow> valid_utf8 mid \<Longrightarrow> pred_option valid_utf8 tx \<Longrightarrow> pred_option image_ok im \<Longrightarrow>
   pred_option voice_ok vo \<Longrightarrow> pred_option file_ok fi \<Longrightarrow> pred_option video_ok vi \<Longrightarrow> pred_option tool_start_ok ts \<Longrightarrow>
   pred_option tool_result_ok tr \<Longrightarrow> pred_option ref_ok rm \<Longrightarrow> item_ok (MessageItem ty ct ut ic mid tx im vo fi vi ts tr rm)"
  by (cases rm) simp_all

lemma item_step:
  assumes "dec_item x (JObj kvs) = Inr y" and texts: "texts_valid (JObj kvs)" and "item_ok x"
    and ref: "\<And>rm. dec_pointer dec_ref zero_ref (mi_ref x) (field_values ''ref_msg'' kvs) = Inr rm \<Longrightarrow> pred_option ref_ok rm"
  shows "item_ok y"
proof -
  have x: "in_int64 (mi_type x)" "in_int64 (mi_create_time_ms x)" "in_int64 (mi_update_time_ms x)" "valid_utf8 (mi_msg_id x)"
    "pred_option valid_utf8 (mi_text x)" "pred_option image_ok (mi_image x)" "pred_option voice_ok (mi_voice x)"
    "pred_option file_ok (mi_file x)" "pred_option video_ok (mi_video x)" "pred_option tool_start_ok (mi_tool_start x)"
    "pred_option tool_result_ok (mi_tool_result x)"
    using assms(3) unfolding item_ok_fields(1) by blast+
  show ?thesis
    using assms(1) unfolding dec_item.simps [of x "JObj kvs"] json.case dec_then_Inr
    by (elim exE conjE)
      (simp only: sum.inject, erule subst, rule item_ok_make; (erule ref)?; erule typed_fields; rule texts x)
qed

lemma ref_step:
  assumes "dec_ref x (JObj kvs) = Inr y" and "texts_valid (JObj kvs)" and "ref_ok x"
    and "\<And>it. dec_pointer dec_item zero_item (rm_item x) (field_values ''message_item'' kvs) = Inr it \<Longrightarrow> pred_option item_ok it"
  shows "ref_ok y"
  using assms(1) str_field_valid [OF _ assms(2)] assms(3,4)
  by (auto simp: dec_ref.simps [of x "JObj kvs"] dec_then_Inr item_ok_fields(2))

lemma not_object:
  "\<forall>kvs. v \<noteq> JObj kvs \<Longrightarrow> dec_item x v = Inr y \<Longrightarrow> y = x"
  "\<forall>kvs. v \<noteq> JObj kvs \<Longrightarrow> dec_ref x' v = Inr y' \<Longrightarrow> y' = x'"
  by (simp_all add: dec_item.simps [of x v] dec_ref.simps [of x' v] split: json.splits)

definition item_typed_at :: "json \<Rightarrow> bool" where
  "item_typed_at v \<longleftrightarrow> (\<forall>x y. item_ok x \<longrightarrow> dec_item x v = Inr y \<longrightarrow> item_ok y) \<and>
     (\<forall>x y. ref_ok x \<longrightarrow> dec_ref x v = Inr y \<longrightarrow> ref_ok y)"

lemma items_typed: "size v < n \<Longrightarrow> texts_valid v \<Longrightarrow> item_typed_at v"
proof (induction n arbitrary: v)
  case (Suc n)
  show ?case
  proof (cases "\<exists>kvs. v = JObj kvs")
    case True
    then obtain kvs where v: "v = JObj kvs" by blast
    have smaller: "item_typed_at w" if "w \<in> set (field_values name kvs)" for w name
      using field_value_size [OF that] Suc.prems field_texts [OF _ that] unfolding v by (intro Suc.IH) simp_all
    have ref: "pred_option ref_ok rm"
      if "item_ok x" "dec_pointer dec_ref zero_ref (mi_ref x) (field_values ''ref_msg'' kvs) = Inr rm" for x rm
      using that(2)
    proof (rule dec_pointer_keeps)
      show "pred_option ref_ok (mi_ref x)" using that(1) unfolding item_ok_fields(1) by blast
    qed (use smaller in \<open>auto simp: item_typed_at_def\<close>)
    have item: "pred_option item_ok it"
      if "ref_ok x" "dec_pointer dec_item zero_item (rm_item x) (field_values ''message_item'' kvs) = Inr it" for x it
      using that(2)
    proof (rule dec_pointer_keeps)
      show "pred_option item_ok (rm_item x)" using that(1) unfolding item_ok_fields(2) by blast
    qed (use smaller in \<open>auto simp: item_typed_at_def\<close>)
    show ?thesis
      unfolding item_typed_at_def v
      using item_step [OF _ Suc.prems(2) [unfolded v]] ref_step [OF _ Suc.prems(2) [unfolded v]] ref item by blast
  next
    case False
    then show ?thesis using not_object [of v] unfolding item_typed_at_def by blast
  qed
qed simp

lemma item_typed: "dec_item x v = Inr y \<Longrightarrow> texts_valid v \<Longrightarrow> item_ok x \<Longrightarrow> item_ok y"
  using items_typed [of v "Suc (size v)"] by (simp add: item_typed_at_def)

lemma items_slice_typed:
  assumes "dec_slice dec_item zero_item cur (field_values name kvs) = Inr its" and "texts_valid (JObj kvs)" and "list_all item_ok cur"
  shows "list_all item_ok its"
  using assms(1)
proof (rule dec_slice_keeps)
  show "item_ok z" if "JArr ws \<in> set (field_values name kvs)" "w \<in> set ws" "dec_item r w = Inr z" "item_ok r" for ws w r z
    using item_typed [OF that(3)] field_texts [OF assms(2) that(1)] that(2,4) by (auto simp: list_all_iff)
qed (use assms(3) in simp_all)

lemma wire_ok_make:
  "in_int64 sq \<Longrightarrow> in_int64 mid \<Longrightarrow> valid_utf8 fu \<Longrightarrow> valid_utf8 tu \<Longrightarrow> valid_utf8 ci \<Longrightarrow> in_int64 ct \<Longrightarrow> in_int64 ut \<Longrightarrow> in_int64 dt \<Longrightarrow>
   valid_utf8 si \<Longrightarrow> valid_utf8 gi \<Longrightarrow> in_int64 ty \<Longrightarrow> in_int64 st \<Longrightarrow> valid_utf8 tok \<Longrightarrow> valid_utf8 ri \<Longrightarrow> list_all item_ok its \<Longrightarrow>
   wire_ok \<lparr>wm_seq = sq, wm_message_id = mid, wm_from_user_id = fu, wm_to_user_id = tu, wm_client_id = ci,
     wm_create_time_ms = ct, wm_update_time_ms = ut, wm_delete_time_ms = dt, wm_session_id = si, wm_group_id = gi,
     wm_message_type = ty, wm_message_state = st, wm_context_token = tok, wm_run_id = ri, wm_item_list = its\<rparr>"
  by (simp add: wire_ok_def)

lemma wire_typed:
  assumes "dec_wire x v = Inr y" and "texts_valid v" and "wire_ok x"
  shows "wire_ok y"
  using assms(1) unfolding dec_wire_def
proof (rule dec_into_valid [where P = wire_ok, OF _ assms(2,3)])
  fix kvs
  assume texts: "texts_valid (JObj kvs)" and fields: "wire_fields x kvs = Inr y"
  have x: "in_int64 (wm_seq x)" "in_int64 (wm_message_id x)" "valid_utf8 (wm_from_user_id x)" "valid_utf8 (wm_to_user_id x)"
    "valid_utf8 (wm_client_id x)" "in_int64 (wm_create_time_ms x)" "in_int64 (wm_update_time_ms x)" "in_int64 (wm_delete_time_ms x)"
    "valid_utf8 (wm_session_id x)" "valid_utf8 (wm_group_id x)" "in_int64 (wm_message_type x)" "in_int64 (wm_message_state x)"
    "valid_utf8 (wm_context_token x)" "valid_utf8 (wm_run_id x)" "list_all item_ok (wm_item_list x)"
    using assms(3) unfolding wire_ok_def by blast+
  from fields show "wire_ok y"
    unfolding wire_fields_def dec_then_Inr
    by (elim exE conjE)
      (simp only: sum.inject, erule subst, rule wire_ok_make;
       (erule items_slice_typed [OF _ texts x(15)])?; erule typed_fields; rule texts x)
qed

subsection \<open>The codecs of the program\<close>

interpretation media_codec: strict_codec enc_media "dec_media zero_media" media_ok texts_valid
  by unfold_locales (auto intro: media_back media_typed)

interpretation item_codec: strict_codec enc_item "dec_item zero_item" item_ok texts_valid
  by unfold_locales (auto intro: item_back item_typed)

interpretation wire_codec: strict_codec enc_wire decode_wire_message wire_ok texts_valid
  by unfold_locales (fact wire_back, auto simp: decode_wire_message_def intro: wire_typed split: sum.splits)

subsection \<open>What the client receives\<close>

lemma api_post_texts: "api_post env c base_url endpoint tok body timeout = (Inr v, rqs) \<Longrightarrow> texts_valid v"
  by (auto simp: api_post_def decode_envelope_def Let_def split: http_answer.splits option.splits prod.splits if_splits json.splits
      dest: unmarshal_texts)

lemma raw_list_texts:
  assumes "dec_field dec_raw_list [] ''msgs'' kvs = Inr msgs" and "texts_valid (JObj kvs)"
  shows "list_all texts_valid msgs"
  using assms(1) unfolding dec_field_def
  by (rule dec_last_keeps) (auto simp: dec_raw_list_def split: json.splits dest: field_texts [OF assms(2)])

lemma received_texts:
  assumes "get_updates env c base_url tok cursor timeout = (Inr r, rqs)" and "doc \<in> set (gu_msgs r)"
  shows "texts_valid doc"
proof -
  obtain v where v: "dec_get_updates v = Inr r" "texts_valid v"
    using assms(1) by (auto simp: get_updates_def decode_answer_def split: prod.splits sum.splits dest: api_post_texts)
  then obtain kvs msgs where "dec_field dec_raw_list [] ''msgs'' kvs = Inr msgs" "gu_msgs r = msgs" "texts_valid (JObj kvs)"
    by (auto simp: dec_get_updates_def dec_struct_def texts_valid.simps(3) split: json.splits sum.splits)
  with raw_list_texts assms(2) show ?thesis by (auto simp: list_all_iff)
qed

text \<open>C38: wire messages survive their encoding.  A message whose integers fit 64 bits and whose
  strings are UTF-8 is decoded from its encoding to itself, although zero fields and \<open>nil\<close>
  pointers are left out.  Every message that is decoded from an answer to a poll, whatever text
  the service sent, is such a message, so no other has its encoding; and when one of its items is
  sent back, the payload is read as a message to its sender with its token and that item.\<close>

theorem wire_message_read_back:
  assumes "get_updates env c base_url tok cursor timeout = (Inr r, requests)" and "doc \<in> set (gu_msgs r)"
    and "decode_wire_message doc = Inr m" and "valid_utf8 clientID" and "valid_utf8 runID"
  shows "wire_ok m \<and> (\<forall>m'. wire_ok m' \<longrightarrow> decode_wire_message (enc_wire m') = Inr m' \<and> (enc_wire m' = enc_wire m \<longrightarrow> m' = m)) \<and>
    (\<forall>it\<in>set (wm_item_list m).
       decode_wire_message (enc_payload (build_message (wm_from_user_id m) (wm_context_token m) clientID runID it)) =
       Inr (zero_wire\<lparr>wm_to_user_id := wm_from_user_id m, wm_client_id := clientID, wm_message_type := 2, wm_message_state := 2,
              wm_context_token := wm_context_token m, wm_run_id := runID, wm_item_list := [it]\<rparr>))"
proof (intro conjI allI impI ballI)
  show ok: "wire_ok m" using wire_codec.typed received_texts [OF assms(1,2)] assms(3) by blast
  show "decode_wire_message (enc_wire m') = Inr m'" if "wire_ok m'" for m' using that by (rule wire_codec.read_back)
  show "m' = m" if "wire_ok m'" "enc_wire m' = enc_wire m" for m' using that ok by (blast intro: wire_codec.encode_inj)
  fix it
  assume "it \<in> set (wm_item_list m)"
  with ok have "item_ok it" "valid_utf8 (wm_from_user_id m)" "valid_utf8 (wm_context_token m)"
    by (simp_all add: wire_ok_def list_all_iff)
  from payload_back [OF this(2,3) assms(4,5) this(1)]
  show "decode_wire_message (enc_payload (build_message (wm_from_user_id m) (wm_context_token m) clientID runID it)) =
       Inr (zero_wire\<lparr>wm_to_user_id := wm_from_user_id m, wm_client_id := clientID, wm_message_type := 2, wm_message_state := 2,
              wm_context_token := wm_context_token m, wm_run_id := runID, wm_item_list := [it]\<rparr>)"
    by (simp add: read_of_payload_def build_message_def zero_wire_def)
qed

text \<open>An answer with a message that quotes another.\<close>

definition sample_answer_text :: string where
  "sample_answer_text = map (\<lambda>c. if c = CHR ''~'' then double_quote else c)
     ''{~msgs~:[{~from_user_id~:~u~,~message_type~:1,~item_list~:[{~type~:1,~ref_msg~:{~title~:~t~}}]}]}''"

definition sample_answer_env :: protocol_env where
  "sample_answer_env = (sample_protocol [])\<lparr>pe_exchange := (\<lambda>rq. Response 200 sample_answer_text None)\<rparr>"

definition sample_received :: wire_message where
  "sample_received = zero_wire\<lparr>wm_from_user_id := ''u'', wm_message_type := 1, wm_item_list :=
     [MessageItem 1 0 0 None [] None None None None None None None (Some (RefMessage ''t'' None))]\<rparr>"

definition sample_document :: json where
  "sample_document = JObj [(''from_user_id'', JStr ''u''), (''message_type'', JInt 1),
     (''item_list'', JArr [JObj [(''type'', JInt 1), (''ref_msg'', JObj [(''title'', JStr ''t'')])]])]"

lemma sample_answer_read: "unmarshal_json sample_answer_text = Some (JObj [(''msgs'', JArr [sample_document])])"
  by code_simp

lemma sample_envelope:
  "decode_envelope (Some (JObj [(''msgs'', JArr [sample_document])])) = (True, \<lparr>en_ret = 0, en_err_code = 0, en_err_msg = []\<rparr>)"
  "dec_get_updates (JObj [(''msgs'', JArr [sample_document])]) =
     Inr \<lparr>gu_ret = 0, gu_msgs = [sample_document], gu_get_updates_buf = [], gu_err_code = 0, gu_err_msg = [],
          gu_long_polling_timeout_ms = 0\<rparr>"
  "decode_wire_message sample_document = Inr sample_received"
  by code_simp+

theorem wire_message_read_back_witness:
  "decode_wire_message (enc_wire sample_received) = Inr sample_received \<and>
   decode_wire_message (enc_payload (build_message ''u'' [] ''c'' [] (hd (wm_item_list sample_received)))) =
     Inr (zero_wire\<lparr>wm_to_user_id := ''u'', wm_client_id := ''c'', wm_message_type := 2, wm_message_state := 2,
            wm_item_list := wm_item_list sample_received\<rparr>)"
proof -
  let ?post = "api_post sample_answer_env (new_client None) [] ''/ilink/bot/getupdates'' []
    (JObj [(''get_updates_buf'', JStr []), (''base_info'', base_info (new_client None))]) (updates_timeout 0)"
  have "fst ?post = Inr (JObj [(''msgs'', JArr [sample_document])])"
    unfolding api_post_def Let_def
    by (simp add: sample_answer_env_def sample_answer_read sample_envelope(1))
  then have "get_updates sample_answer_env (new_client None) [] [] [] 0 =
      (Inr \<lparr>gu_ret = 0, gu_msgs = [sample_document], gu_get_updates_buf = [], gu_err_code = 0, gu_err_msg = [],
          gu_long_polling_timeout_ms = 0\<rparr>, snd ?post)"
    by (cases ?post) (simp add: get_updates_def decode_answer_def sample_envelope(2))
  then obtain r rqs where answer: "get_updates sample_answer_env (new_client None) [] [] [] 0 = (Inr r, rqs)"
    and doc: "sample_document \<in> set (gu_msgs r)" by simp
  have "valid_utf8 ''c''" "valid_utf8 []" by code_simp+
  from wire_message_read_back [OF answer doc sample_envelope(3) this]
  have "wire_ok sample_received" and sent: "\<forall>m'. wire_ok m' \<longrightarrow> decode_wire_message (enc_wire m') = Inr m'"
    "\<forall>it\<in>set (wm_item_list sample_received).
       decode_wire_message (enc_payload (build_message (wm_from_user_id sample_received) (wm_context_token sample_received) ''c'' [] it)) =
       Inr (zero_wire\<lparr>wm_to_user_id := wm_from_user_id sample_received, wm_client_id := ''c'', wm_message_type := 2, wm_message_state := 2,
              wm_context_token := wm_context_token sample_received, wm_run_id := [], wm_item_list := [it]\<rparr>)"
    by blast+
  moreover have "wm_from_user_id sample_received = ''u''" "wm_context_token sample_received = []"
    "wm_item_list sample_received = [hd (wm_item_list sample_received)]"
    by (simp_all add: sample_received_def zero_wire_def)
  moreover have "zero_wire\<lparr>wm_to_user_id := x, wm_client_id := y, wm_message_type := 2, wm_message_state := 2, wm_context_token := [],
      wm_run_id := [], wm_item_list := its\<rparr> = zero_wire\<lparr>wm_to_user_id := x, wm_client_id := y, wm_message_type := 2,
      wm_message_state := 2, wm_item_list := its\<rparr>" for x y its
    by (simp add: zero_wire_def)
  ultimately show ?thesis by (metis list.set_intros(1))
qed

end
