(* ===== verification/Registration.thy ===== *)
theory Registration
  imports Handler
begin

section \<open>Registering handlers, middleware and hooks\<close>

text \<open>
  The parts of \<open>handler.go\<close> and \<open>hooks.go\<close> with which a program sets a bot up: \<open>Handle\<close>, \<open>Use\<close>,
  \<open>configuredHandler\<close>, and \<open>Register\<close> and \<open>Run\<close> of a hook registry.  Each holds its lock
  throughout, so each is one function of the state.  The lemmas say what a sequence of
  registrations comes to: the handler set last, inside the middleware in the order of its
  registration, the first outermost; hooks run in the order of theirs, up to the first error.
\<close>

record 'h configuration =
  cf_handler :: "'h option"
  cf_middlewares :: "'h middleware list"

definition handle :: "'h option \<Rightarrow> 'h configuration \<Rightarrow> 'h configuration" where
  "handle handler c = c\<lparr>cf_handler := handler\<rparr>"

definition use_middleware :: "'h middleware \<Rightarrow> 'h configuration \<Rightarrow> 'h configuration" where
  "use_middleware mw c = c\<lparr>cf_middlewares := cf_middlewares c @ [mw]\<rparr>"

definition configured_handler :: "'h configuration \<Rightarrow> goerr + 'h option" where
  "configured_handler c = compose_handler (cf_handler c) (cf_middlewares c)"

text \<open>A registry; \<open>None\<close> is the nil pointer, on which both methods do nothing.\<close>

type_synonym 's hook_registry = "'s hook list option"

definition register_hook :: "'s hook \<Rightarrow> 's hook_registry \<Rightarrow> 's hook_registry" where
  "register_hook hook r = map_option (\<lambda>hooks. hooks @ [hook]) r"

definition run_registry :: "'s hook_registry \<Rightarrow> 's \<Rightarrow> goerr option \<times> 's" where
  "run_registry r s = (case r of None \<Rightarrow> (None, s) | Some hooks \<Rightarrow> run_hooks hooks s)"

subsection \<open>Sequences of registrations\<close>

lemma use_all: "fold use_middleware mws c = c\<lparr>cf_middlewares := cf_middlewares c @ mws\<rparr>"
  by (induction mws arbitrary: c) (simp_all add: use_middleware_def)

text \<open>The order of a handler and of middleware does not matter, only that of middleware.\<close>

lemma handle_use: "handle h (use_middleware mw c) = use_middleware mw (handle h c)"
  by (simp add: handle_def use_middleware_def)

lemma configured_order:
  assumes "list_all2 wraps mws gs" and "cf_middlewares c = []"
  shows "configured_handler (handle (Some h) (fold use_middleware mws c)) = Inr (Some (foldr (\<lambda>g. g) gs h))"
  using middleware_order [of mws h] assms by (simp add: configured_handler_def handle_def use_all)

lemma run_hooks_append:
  "run_hooks (hs @ hs') s = (case run_hooks hs s of (Some e, s) \<Rightarrow> (Some e, s) | (None, s) \<Rightarrow> run_hooks hs' s)"
  by (induction hs s rule: run_hooks.induct) (auto split: prod.split option.split)

text \<open>A hook runs after those registered before it, and not after an error.\<close>

lemma run_registered:
  "run_registry (register_hook (Some h) (Some hooks)) s =
     (case run_registry (Some hooks) s of (Some e, s) \<Rightarrow> (Some e, s) | (None, s) \<Rightarrow> h s)"
  by (auto simp: run_registry_def register_hook_def run_hooks_append split: prod.split option.split)

lemma run_registered_nil: "run_registry (register_hook None r) s = run_registry r s"
  by (auto simp: run_registry_def register_hook_def run_hooks_append split: prod.split option.split)

end
