(* ===== verification/Thumb.thy ===== *)
theory Thumb
  imports Content Complex_Main
begin

section \<open>Thumbnails: \<open>internal/thumb/thumb.go\<close>\<close>

text \<open>
  An image is decoded, made smaller when it is larger than 240 by 240, and encoded again.  The
  codecs and the resampling are packages outside the repository and arguments of the model; the
  new size is computed in floating point, which is written out: \<open>float64\<close> has 53 bits and every
  operation rounds to the nearest number, ties to the even one.  The theorem bounds the size of a
  thumbnail and shows that rounding costs at most one pixel on each side.
\<close>

subsection \<open>Floating-point numbers\<close>

text \<open>
  The number \<open>(a, k)\<close> is \<open>a / 2^k\<close>.  The numbers here lie between \<open>2^-63\<close> and \<open>2^63\<close> or are
  zero, so there is neither overflow nor a subnormal number.
\<close>

type_synonym float64 = "nat \<times> nat"

text \<open>The integer nearest to \<open>p / q\<close>.\<close>

definition nearest :: "nat \<Rightarrow> nat \<Rightarrow> nat" where
  "nearest p q =
     (if 2 * (p mod q) < q \<or> 2 * (p mod q) = q \<and> even (p div q) then p div q else Suc (p div q))"

text \<open>How often \<open>p / q\<close> is doubled, or halved, to have an integer part of 53 bits.\<close>

function doublings :: "nat \<Rightarrow> nat \<Rightarrow> nat" where
  "doublings p q = (if 0 < p \<and> p < q * 2 ^ 52 then Suc (doublings (2 * p) q) else 0)"
  by pat_completeness auto
termination by (relation "measure (\<lambda>(p, q). q * 2 ^ 52 - p)") auto

function halvings :: "nat \<Rightarrow> nat \<Rightarrow> nat" where
  "halvings p q = (if 0 < q \<and> q * 2 ^ 53 \<le> p then Suc (halvings p (2 * q)) else 0)"
  by pat_completeness auto
termination by (relation "measure (\<lambda>(p, q). p - q)") auto

declare doublings.simps [simp del] halvings.simps [simp del]

text \<open>The floating-point number nearest to \<open>p / q\<close>.\<close>

definition round53 :: "nat \<Rightarrow> nat \<Rightarrow> float64" where
  "round53 p q = (nearest (p * 2 ^ doublings p q) (q * 2 ^ halvings p q) * 2 ^ halvings p q, doublings p q)"

definition float_of :: "nat \<Rightarrow> float64" where
  "float_of n = round53 n 1"

definition float_div :: "float64 \<Rightarrow> float64 \<Rightarrow> float64" where
  "float_div = (\<lambda>(a, i) (b, j). round53 (a * 2 ^ j) (b * 2 ^ i))"

definition float_mult :: "float64 \<Rightarrow> float64 \<Rightarrow> float64" where
  "float_mult = (\<lambda>(a, i) (b, j). round53 (a * b) (2 ^ (i + j)))"

definition float_less :: "float64 \<Rightarrow> float64 \<Rightarrow> bool" where
  "float_less = (\<lambda>(a, i) (b, j). a * 2 ^ j < b * 2 ^ i)"

definition float_int :: "float64 \<Rightarrow> nat" where
  "float_int = (\<lambda>(a, i). a div 2 ^ i)"

subsection \<open>The size of a thumbnail\<close>

definition max_width :: nat where "max_width = 240"
definition max_height :: nat where "max_height = 240"
definition jpeg_quality :: nat where "jpeg_quality = 80"

text \<open>The quotient \<open>float64(limit) / float64(n)\<close>; \<open>None\<close> is infinity, the quotient for zero.\<close>

definition side_ratio :: "nat \<Rightarrow> nat \<Rightarrow> float64 option" where
  "side_ratio limit n = (if n = 0 then None else Some (float_div (float_of limit) (float_of n)))"

definition smaller_ratio :: "float64 option \<Rightarrow> float64 option \<Rightarrow> float64 option" where
  "smaller_ratio ratio rh =
     (case (rh, ratio) of
        (None, _) \<Rightarrow> ratio
      | (Some r, None) \<Rightarrow> Some r
      | (Some r, Some q) \<Rightarrow> if float_less r q then Some r else Some q)"

definition scaled_side :: "nat \<Rightarrow> float64 \<Rightarrow> nat" where
  "scaled_side n ratio =
     (let m = float_int (float_mult (float_of n) ratio) in if m < 1 then 1 else m)"

text \<open>\<open>None\<close>: the image stays as it is.  One of the sides is not zero when it is too long, so there is a ratio.\<close>

definition scaled_size :: "nat \<times> nat \<Rightarrow> (nat \<times> nat) option" where
  "scaled_size = (\<lambda>(w, h).
     if w \<le> max_width \<and> h \<le> max_height then None
     else (let ratio = the (smaller_ratio (side_ratio max_width w) (side_ratio max_height h))
           in Some (scaled_side w ratio, scaled_side h ratio)))"

subsection \<open>Images\<close>

text \<open>What the code uses of the image packages: \<open>image.Decode\<close>, \<open>png.Decode\<close>, the width and
  height of the bounds, \<open>draw.CatmullRom.Scale\<close> into a new image of a given size, and
  \<open>jpeg.Encode\<close> at a quality.\<close>

record 'i image_library =
  ic_decode :: "bytes \<Rightarrow> goerr + 'i \<times> string"
  ic_decode_png :: "bytes \<Rightarrow> goerr + 'i"
  ic_bounds :: "'i \<Rightarrow> nat \<times> nat"
  ic_resample :: "nat \<times> nat \<Rightarrow> 'i \<Rightarrow> 'i"
  ic_encode :: "nat \<Rightarrow> 'i \<Rightarrow> goerr + bytes"

definition scale_image :: "'i image_library \<Rightarrow> 'i \<Rightarrow> 'i" where
  "scale_image lib src =
     (case scaled_size (ic_bounds lib src) of None \<Rightarrow> src | Some dims \<Rightarrow> ic_resample lib dims src)"

definition from_image :: "'i image_library \<Rightarrow> bytes \<Rightarrow> goerr + bytes" where
  "from_image lib data =
     (case ic_decode lib data of
        Inl e \<Rightarrow> Inl (Wrapf ''decode image: '' e [])
      | Inr (img, format) \<Rightarrow>
          (case ic_encode lib jpeg_quality (scale_image lib img) of
             Inl e \<Rightarrow> Inl (Wrapf ''encode thumbnail: '' e [])
           | Inr out \<Rightarrow> Inr out))"

definition placeholder :: bytes where "placeholder = placeholder_jpeg"

definition decode_png :: "'i image_library \<Rightarrow> bytes \<Rightarrow> goerr + 'i" where
  "decode_png lib data = ic_decode_png lib data"

subsection \<open>How far rounding goes\<close>

definition float_val :: "float64 \<Rightarrow> real" where
  "float_val = (\<lambda>(a, i). real a / 2 ^ i)"

text \<open>\<open>near k x y\<close>: the two differ by at most \<open>k\<close> roundings.\<close>

definition rounding :: real where
  "rounding = 1 + 1 / 2 ^ 52"

lemma rounding_pos [simp]: "0 < rounding" "0 \<le> rounding"
  by (simp_all add: rounding_def)

definition near :: "nat \<Rightarrow> real \<Rightarrow> real \<Rightarrow> bool" where
  "near k x y \<longleftrightarrow> 0 \<le> x \<and> 0 \<le> y \<and> x \<le> y * rounding ^ k \<and> y \<le> x * rounding ^ k"

lemma near_trans:
  assumes "near i x y" and "near j y z"
  shows "near (i + j) x z"
proof -
  have "y * rounding ^ i \<le> z * rounding ^ j * rounding ^ i" "y * rounding ^ j \<le> x * rounding ^ i * rounding ^ j"
    using assms by (intro mult_right_mono; simp add: near_def)+
  then show ?thesis using assms by (auto simp: near_def power_add mult_ac intro: order_trans)
qed

lemma near_mult:
  assumes "near i x y" and "near j x' y'"
  shows "near (i + j) (x * x') (y * y')"
proof -
  have "x * x' \<le> (y * rounding ^ i) * (y' * rounding ^ j)" "y * y' \<le> (x * rounding ^ i) * (x' * rounding ^ j)"
    using assms by (auto simp: near_def intro!: mult_mono)
  then show ?thesis using assms by (simp add: near_def power_add mult_ac)
qed

lemma near_inverse:
  assumes "near i x y" and "0 < x" and "0 < y"
  shows "near i (1 / x) (1 / y)"
  using assms by (auto simp: near_def field_simps)

lemma near_min:
  assumes "near k x y" and "near k x' y'"
  shows "near k (min x x') (min y y')"
proof -
  have "0 < rounding ^ k" by simp
  then have "min u v * rounding ^ k = min (u * rounding ^ k) (v * rounding ^ k)" for u v :: real
    by (simp add: min_mult_distrib_right)
  then show ?thesis using assms by (auto simp: near_def min_le_iff_disj)
qed

lemma near_refl: "0 \<le> x \<Longrightarrow> near 0 x x"
  by (simp add: near_def)

lemma near_nearest:
  assumes "0 < q" and "q * 2 ^ 52 \<le> p"
  shows "near 1 (real p / real q) (real (nearest p q))"
proof -
  let ?x = "real p / real q" and ?n = "real (nearest p q)"
  have p: "real p = real q * real (p div q) + real (p mod q)"
    by (metis mult_div_mod_eq of_nat_add of_nat_mult)
  have x: "?x = real (p div q) + real (p mod q) / real q" using assms(1) by (simp add: p field_simps)
  have "0 \<le> real (p mod q) / real q" "real (p mod q) / real q < 1" using assms(1) by (simp_all add: field_simps)
  moreover have "2 * (p mod q) \<le> q \<Longrightarrow> real (p mod q) / real q \<le> 1 / 2" "q \<le> 2 * (p mod q) \<Longrightarrow> 1 / 2 \<le> real (p mod q) / real q"
    using assms(1) by (simp_all add: field_simps)
  ultimately have "\<bar>?n - ?x\<bar> \<le> 1 / 2" unfolding x by (auto simp: nearest_def abs_le_iff)
  moreover have "2 ^ 52 \<le> ?x"
  proof -
    have "real q * 2 ^ 52 \<le> real p" using assms(2) by (metis of_nat_le_iff of_nat_mult of_nat_numeral of_nat_power)
    then show ?thesis using assms(1) by (simp add: field_simps)
  qed
  ultimately have "0 \<le> ?x" "?x \<le> ?n * (1 + 1 / 2 ^ 52)" "?n \<le> ?x * (1 + 1 / 2 ^ 52)" by (simp_all only: abs_le_iff) simp_all
  then show ?thesis by (simp add: near_def rounding_def)
qed

lemma doublings_enough: "0 < p \<Longrightarrow> 0 < q \<Longrightarrow> q * 2 ^ 52 \<le> p * 2 ^ doublings p q"
proof (induction p q rule: doublings.induct)
  case (1 p q)
  then show ?case by (subst doublings.simps) (auto simp: not_less mult_ac)
qed

lemma halvings_enough: "0 < q \<Longrightarrow> q * 2 ^ 52 \<le> p \<Longrightarrow> q * 2 ^ halvings p q * 2 ^ 52 \<le> p"
proof (induction p q rule: halvings.induct)
  case (1 p q)
  then show ?case by (subst halvings.simps) (auto simp: mult_ac)
qed

lemma halvings_small: "p < q * 2 ^ 53 \<Longrightarrow> halvings p q = 0"
  by (subst halvings.simps) simp

lemma round53_scaled: "0 < p \<Longrightarrow> 0 < q \<Longrightarrow> q * 2 ^ halvings p q * 2 ^ 52 \<le> p * 2 ^ doublings p q"
proof -
  assume "0 < p" "0 < q"
  show ?thesis
  proof (cases "p < q * 2 ^ 52")
    case True
    then have "halvings p q = 0" by (intro halvings_small) simp
    then show ?thesis using doublings_enough [OF \<open>0 < p\<close> \<open>0 < q\<close>] by simp
  next
    case False
    then have "doublings p q = 0" by (subst doublings.simps) simp
    then show ?thesis using halvings_enough [OF \<open>0 < q\<close>, of p] False by simp
  qed
qed

lemma round53_near: "0 < q \<Longrightarrow> near 1 (real p / real q) (float_val (round53 p q))"
proof (cases "p = 0")
  case True
  moreover assume "0 < q"
  ultimately have "round53 p q = (0, doublings p q)" by (simp add: round53_def nearest_def)
  with True show ?thesis by (simp add: float_val_def near_def)
next
  case False
  assume q: "0 < q"
  let ?s = "doublings p q" and ?t = "halvings p q"
  have "near 1 (real (p * 2 ^ ?s) / real (q * 2 ^ ?t)) (real (nearest (p * 2 ^ ?s) (q * 2 ^ ?t)))"
    using False q round53_scaled by (intro near_nearest) simp_all
  from near_mult [OF this near_refl [of "2 ^ ?t / 2 ^ ?s"]]
  show ?thesis using q by (simp add: float_val_def round53_def field_simps)
qed

lemma float_of_near: "near 1 (real n) (float_val (float_of n))"
  using round53_near [of 1 n] by (simp add: float_of_def)

lemma float_mult_near: "near 1 (float_val x * float_val y) (float_val (float_mult x y))"
  using round53_near [of "2 ^ (snd x + snd y)" "fst x * fst y"]
  by (simp add: float_mult_def float_val_def case_prod_unfold power_add)

lemma float_div_near: "0 < fst y \<Longrightarrow> near 1 (float_val x / float_val y) (float_val (float_div x y))"
  using round53_near [of "fst y * 2 ^ snd x" "fst x * 2 ^ snd y"]
  by (simp add: float_div_def float_val_def case_prod_unfold field_simps)

lemma float_less_val: "float_less x y \<longleftrightarrow> float_val x < float_val y"
proof -
  have cross: "u / v < u' / v' \<longleftrightarrow> u * v' < u' * v" if "0 < v" "0 < v'" for u v u' v' :: real
    using that by (simp add: divide_less_eq less_divide_eq mult_ac)
  have "fst x * 2 ^ snd y < fst y * 2 ^ snd x \<longleftrightarrow> real (fst x * 2 ^ snd y) < real (fst y * 2 ^ snd x)"
    by (simp only: of_nat_less_iff)
  then show ?thesis
    by (simp only: float_less_def float_val_def case_prod_unfold of_nat_mult of_nat_power of_nat_numeral)
      (rule cross [symmetric]; simp)
qed

lemma float_int_val: "float_int x = nat \<lfloor>float_val x\<rfloor>"
  using floor_divide_of_nat_eq [of "fst x" "2 ^ snd x", where 'a = real]
  by (simp add: float_int_def float_val_def case_prod_unfold)

subsection \<open>The sides of a thumbnail\<close>

text \<open>The ratio is 240 divided by the longer side, up to three roundings.\<close>

lemma side_ratio_near:
  assumes "0 < n"
  shows "\<exists>r. side_ratio limit n = Some r \<and> near 3 (real limit / real n) (float_val r)"
proof -
  let ?l = "float_of limit" and ?n = "float_of n"
  have n: "near 1 (real n) (float_val ?n)" by (rule float_of_near)
  moreover have "0 < float_val ?n"
  proof (rule ccontr)
    assume "\<not> 0 < float_val ?n"
    then have "float_val ?n = 0" using n by (simp add: near_def)
    then show False using n assms by (simp add: near_def)
  qed
  moreover from this have "0 < fst ?n" by (cases "fst ?n") (simp_all add: float_val_def case_prod_unfold)
  ultimately have "near 2 (real limit / real n) (float_val ?l / float_val ?n)" "near 1 (float_val ?l / float_val ?n) (float_val (float_div ?l ?n))"
    using near_mult [OF float_of_near [of limit] near_inverse [OF n]] assms float_div_near [of ?n ?l] by (simp_all add: numeral_2_eq_2)
  from near_trans [OF this] show ?thesis using assms by (simp add: side_ratio_def)
qed

lemma smaller_ratio_near:
  assumes "0 < w \<or> 0 < h"
  shows "\<exists>r. smaller_ratio (side_ratio l w) (side_ratio l h) = Some r \<and> near 3 (real l / real (max w h)) (float_val r)"
proof -
  consider "w = 0" "0 < h" | "0 < w" "h = 0" | "0 < w" "0 < h" using assms by auto
  then show ?thesis
  proof cases
    case 3
    from side_ratio_near [OF 3(1)] side_ratio_near [OF 3(2)] obtain q r where
      q: "side_ratio l w = Some q" "near 3 (real l / real w) (float_val q)" and
      r: "side_ratio l h = Some r" "near 3 (real l / real h) (float_val r)" by blast
    have smaller: "real l / real j \<le> real l / real i" if "0 < i" "i \<le> j" for i j
      using that by (intro divide_left_mono) auto
    have "real l / real (max w h) = min (real l / real w) (real l / real h)"
      
      using smaller [of w h] smaller [of h w] 3 by (cases "w \<le> h") (auto simp: max_def min_def intro: antisym)
    moreover have "near 3 (min (real l / real w) (real l / real h)) (min (float_val q) (float_val r))"
      using q(2) r(2) by (rule near_min)
    moreover define c where "c = (if float_val r < float_val q then r else q)"
    moreover from this have "smaller_ratio (Some q) (Some r) = Some c" "float_val c = min (float_val q) (float_val r)"
      by (simp_all add: smaller_ratio_def float_less_val)
    ultimately show ?thesis using q(1) r(1) by metis
  qed (use side_ratio_near [of h l] side_ratio_near [of w l] in \<open>auto simp: smaller_ratio_def side_ratio_def split: option.split\<close>)
qed

lemma quotient_gap:
  assumes "n \<le> m" and "0 < m" and "m < 2 ^ 40"
  shows "240 * real n / real m * (1 + 6 / 2 ^ 52) < real (240 * n div m) + 1"
proof -
  have m: "0 < real m" using assms(2) by simp
  have "240 * n = m * (240 * n div m) + 240 * n mod m" by (simp only: mult_div_mod_eq)
  then have "240 * n \<le> m * (240 * n div m) + (m - 1)"
    using mod_less_divisor [OF assms(2), of "240 * n"] by linarith
  then have "real (240 * n) \<le> real (m * (240 * n div m) + (m - 1))" by (simp only: of_nat_le_iff)
  then have "240 * real n \<le> real m * real (240 * n div m) + (real m - 1)"
    using assms(2) by (simp only: of_nat_add of_nat_mult of_nat_numeral of_nat_diff Suc_le_eq One_nat_def of_nat_1)
  moreover have "240 * real n * 6 / 2 ^ 52 < 1"
  proof -
    have "real n \<le> real m" using assms(1) by simp
    moreover have "real m < real (2 ^ 40)" using assms(3) by (simp only: of_nat_less_iff)
    ultimately show ?thesis by simp
  qed
  ultimately have "240 * real n * (1 + 6 / 2 ^ 52) < (real (240 * n div m) + 1) * real m" by (simp add: algebra_simps)
  then show ?thesis using m by (simp only: times_divide_eq_left pos_divide_less_eq)
qed

text \<open>So a side is what the exact quotient gives, or a pixel less.\<close>

lemma scaled_side_exact:
  assumes "near 3 (240 / real m) (float_val r)" and "n \<le> m" and "0 < m" and "m < 2 ^ 40"
  shows "scaled_side n r \<le> max 1 (240 * n div m)" and "240 * n div m \<le> Suc (scaled_side n r)" and "1 \<le> scaled_side n r"
proof -
  let ?x = "240 * real n / real m" and ?p = "float_val (float_mult (float_of n) r)"
  have five: "rounding ^ 5 \<le> 1 + 6 / 2 ^ 52" by (simp add: rounding_def field_simps eval_nat_numeral)
  have "near (1 + 3) (real n * (240 / real m)) (float_val (float_of n) * float_val r)"
    using near_mult [OF float_of_near assms(1)] .
  from near_trans [OF this float_mult_near] have "near 5 ?x ?p" by (simp add: mult_ac)
  then have "0 \<le> ?x" "0 \<le> ?p" "?x \<le> ?p * rounding ^ 5" "?p \<le> ?x * rounding ^ 5" by (simp_all add: near_def)
  moreover have "?p * rounding ^ 5 \<le> ?p * (1 + 6 / 2 ^ 52)" using five \<open>0 \<le> ?p\<close> by (rule mult_left_mono)
  moreover have "?x * rounding ^ 5 \<le> ?x * (1 + 6 / 2 ^ 52)" using five \<open>0 \<le> ?x\<close> by (rule mult_left_mono)
  ultimately have p: "0 \<le> ?p" "?x \<le> ?p * (1 + 6 / 2 ^ 52)" "?p \<le> ?x * (1 + 6 / 2 ^ 52)" by linarith+
  have x: "?x \<le> 240" using assms(2,3) by (simp add: divide_le_eq)
  have exact: "real (240 * n div m) = real_of_int \<lfloor>?x\<rfloor>"
    using floor_divide_of_nat_eq [of "240 * n" m, where 'a = real] by simp
  have "?p < real (240 * n div m) + 1" using p(3) quotient_gap [OF assms(2-4)] by linarith
  then have "float_int (float_mult (float_of n) r) \<le> 240 * n div m"
    using p(1) by (simp add: float_int_val floor_le_iff nat_le_iff)
  then show "scaled_side n r \<le> max 1 (240 * n div m)" by (auto simp: scaled_side_def Let_def)
  have "?x < ?p + 1" using p(2,3) x by (simp add: distrib_left)
  then have "\<lfloor>?x\<rfloor> \<le> \<lfloor>?p\<rfloor> + 1" by linarith
  then have "240 * n div m \<le> Suc (float_int (float_mult (float_of n) r))"
    using exact p(1) unfolding float_int_val by linarith
  then show "240 * n div m \<le> Suc (scaled_side n r)" by (auto simp: scaled_side_def Let_def)
  show "1 \<le> scaled_side n r" by (simp add: scaled_side_def Let_def)
qed

subsection \<open>Thumbnails\<close>

text \<open>C40: a thumbnail is an image of at most 240 by 240 in the shape of the original.  If the
  resampling makes an image of the size it is asked for, then the image that is encoded has at
  least one and at most 240 pixels on each side; an image that fits is encoded as it is, and of
  a larger one each side is 240 times itself by the longer side, rounded down, or a pixel less,
  but never nothing, in spite of the roundings of the floating-point numbers.\<close>

theorem thumbnail_fits:
  assumes "\<forall>img dims. ic_bounds lib (ic_resample lib dims img) = dims"
    and "ic_bounds lib img = (w, h)" and "0 < w" and "0 < h" and "w < 2 ^ 40" and "h < 2 ^ 40"
  defines "exact n \<equiv> 240 * n div max w h"
  shows "if w \<le> 240 \<and> h \<le> 240 then scale_image lib img = img
    else \<exists>w' h'. ic_bounds lib (scale_image lib img) = (w', h') \<and> w' \<le> 240 \<and> h' \<le> 240 \<and>
      w' \<in> {max 1 (exact w - 1)..max 1 (exact w)} \<and> h' \<in> {max 1 (exact h - 1)..max 1 (exact h)}"
proof (cases "w \<le> 240 \<and> h \<le> 240")
  case True
  then show ?thesis by (simp add: scale_image_def scaled_size_def assms(2) max_width_def max_height_def)
next
  case False
  from smaller_ratio_near [of w h 240] assms(3) obtain r where
    r: "smaller_ratio (side_ratio 240 w) (side_ratio 240 h) = Some r" "near 3 (240 / real (max w h)) (float_val r)" by auto
  have dims: "scaled_size (w, h) = Some (scaled_side w r, scaled_side h r)"
    using False r(1) by (auto simp: scaled_size_def max_width_def max_height_def Let_def)
  have side: "scaled_side n r \<le> 240 \<and> scaled_side n r \<in> {max 1 (exact n - 1)..max 1 (exact n)}" if "n \<le> max w h" for n
  proof -
    have "0 < max w h" "max w h < 2 ^ 40" using assms(3,5,6) by auto
    note bounds = scaled_side_exact [OF r(2) that this]
    have "exact n \<le> 240 * max w h div max w h" unfolding exact_def using that by (intro div_le_mono) simp
    then have "exact n \<le> 240" using assms(3) by simp
    with bounds show ?thesis by (auto simp: exact_def)
  qed
  have "ic_bounds lib (scale_image lib img) = (scaled_side w r, scaled_side h r)"
    by (simp add: scale_image_def assms(1,2) dims)
  with False side [of w] side [of h] show ?thesis by auto
qed

text \<open>A library whose images are their sizes.\<close>

definition sample_images :: "(nat \<times> nat) image_library" where
  "sample_images = \<lparr>ic_decode = (\<lambda>data. Inr ((length data, 1), ''png'')), ic_decode_png = (\<lambda>data. Inr (length data, 1)),
     ic_bounds = id, ic_resample = (\<lambda>dims img. dims), ic_encode = (\<lambda>q img. Inr [char_of q])\<rparr>"

theorem thumbnail_fits_witness:
  "\<exists>w' h'. scale_image sample_images (1920, 3) = (w', h') \<and> w' \<in> {239..240} \<and> h' = 1"
proof -
  have bounds: "ic_bounds sample_images dims = dims" "ic_resample sample_images dims img = dims" for dims img
    by (simp_all add: sample_images_def)
  have "max 1920 3 = (1920 :: nat)" by simp
  with thumbnail_fits [of sample_images "(1920, 3)" 1920 3] show ?thesis unfolding bounds by auto
qed

end
