(* ===== verification/MarkdownSpec.thy ===== *)
theory MarkdownSpec
  imports Markdown
begin

section \<open>What replacing the bare signs means\<close>

text \<open>
  The specification of \<open>internal/markdown/less_than.go\<close>, written without its functions: a grammar
  of the tags, the fences as CommonMark has them, and a relation between a text and what is to be
  written for it, line by line and piece by piece.  The code scans with positions and lengths; the
  lemmas show that its scanners recognise exactly these tags and fences and that its loops compute
  the one text the relation allows.
\<close>

subsection \<open>Tags\<close>

text \<open>Attributes: no sign of a tag and no end of a line, except between quotes.\<close>

inductive attributes :: "string \<Rightarrow> bool" where
  no_attributes: "attributes []"
| attribute_byte: "attributes x \<Longrightarrow>
    c \<notin> {single_quote, double_quote, less_than, greater_than, newline, carriage_return} \<Longrightarrow> attributes (c # x)"
| attribute_quoted: "attributes x \<Longrightarrow> q \<in> {single_quote, double_quote} \<Longrightarrow> q \<notin> set v \<Longrightarrow>
    attributes (q # v @ q # x)"

definition tag_name :: "string \<Rightarrow> bool" where
  "tag_name nm \<longleftrightarrow> ascii_lower nm \<in> {''a'', ''br'', ''div'', ''span''}"

definition tag_space :: "char \<Rightarrow> bool" where
  "tag_space c \<longleftrightarrow> c \<in> {blank, tabulator, newline, carriage_return}"

inductive html_tag :: "string \<Rightarrow> bool" where
  plain_tag: "tag_name nm \<Longrightarrow> html_tag (less_than # nm @ [greater_than])"
| empty_tag: "tag_name nm \<Longrightarrow> html_tag (less_than # nm @ [slash, greater_than])"
| tag_with_attributes: "tag_name nm \<Longrightarrow> tag_space c \<Longrightarrow> attributes (c # x) \<Longrightarrow>
    html_tag (less_than # nm @ c # x @ [greater_than])"
| closing_tag: "tag_name nm \<Longrightarrow> list_all tag_space sp \<Longrightarrow>
    html_tag (less_than # slash # nm @ sp @ [greater_than])"

subsection \<open>Lines and fences\<close>

text \<open>The first line of a text, with its line feed; only the last line may have none.\<close>

definition one_line :: "string \<Rightarrow> string \<Rightarrow> bool" where
  "one_line l r \<longleftrightarrow> l \<noteq> [] \<and> newline \<notin> set (butlast l) \<and> (last l = newline \<or> r = [])"

text \<open>A line without its ending, the longest there is.\<close>

definition line_endings :: "string set" where
  "line_endings = {[], [newline], [carriage_return], [carriage_return, newline]}"

definition line_body :: "string \<Rightarrow> string \<Rightarrow> bool" where
  "line_body l x \<longleftrightarrow> (\<exists>e\<in>line_endings. l = x @ e \<and>
     (\<forall>e'\<in>line_endings. \<forall>x'. l = x' @ e' \<longrightarrow> length e' \<le> length e))"

definition fence_mark :: "char \<Rightarrow> nat \<Rightarrow> string \<Rightarrow> string \<Rightarrow> bool" where
  "fence_mark m n rest x \<longleftrightarrow> (\<exists>i\<le>3. x = replicate i blank @ replicate n m @ rest) \<and>
     m \<in> {CHR 0x60, CHR ''~''} \<and> 3 \<le> n \<and> (rest = [] \<or> hd rest \<noteq> m)"

definition opens_fence :: "char \<Rightarrow> nat \<Rightarrow> string \<Rightarrow> bool" where
  "opens_fence m n x \<longleftrightarrow> (\<exists>rest. fence_mark m n rest x \<and> \<not> (m = CHR 0x60 \<and> CHR 0x60 \<in> set rest))"

definition closes_fence :: "char \<Rightarrow> nat \<Rightarrow> string \<Rightarrow> bool" where
  "closes_fence m n x \<longleftrightarrow> (\<exists>k rest. fence_mark m k rest x \<and> n \<le> k \<and> set rest \<subseteq> {blank, tabulator})"

subsection \<open>The text that is to be written\<close>

text \<open>For a line outside fences: a tag and every other byte stay, and a sign with no tag is replaced.\<close>

inductive signs_replaced :: "string \<Rightarrow> string \<Rightarrow> bool" where
  line_end: "signs_replaced [] []"
| other_byte: "c \<noteq> less_than \<Longrightarrow> signs_replaced r u \<Longrightarrow> signs_replaced (c # r) (c # u)"
| tag_kept: "html_tag t \<Longrightarrow> signs_replaced r u \<Longrightarrow> signs_replaced (t @ r) (t @ u)"
| bare_sign: "\<nexists>t r'. html_tag t \<and> less_than # r = t @ r' \<Longrightarrow> signs_replaced r u \<Longrightarrow>
    signs_replaced (less_than # r) ([CHR 0xEF, CHR 0xBC, CHR 0x9C] @ u)"

text \<open>For a text, given the fence that is open before it.\<close>

inductive bare_signs_replaced :: "(char \<times> nat) option \<Rightarrow> string \<Rightarrow> string \<Rightarrow> bool" where
  text_end: "bare_signs_replaced f [] []"
| open_line: "one_line l r \<Longrightarrow> line_body l x \<Longrightarrow> \<nexists>m n. opens_fence m n x \<Longrightarrow> signs_replaced l v \<Longrightarrow>
    bare_signs_replaced None r u \<Longrightarrow> bare_signs_replaced None (l @ r) (v @ u)"
| fence_opened: "one_line l r \<Longrightarrow> line_body l x \<Longrightarrow> opens_fence m n x \<Longrightarrow>
    bare_signs_replaced (Some (m, n)) r u \<Longrightarrow> bare_signs_replaced None (l @ r) (l @ u)"
| fenced_line: "one_line l r \<Longrightarrow> line_body l x \<Longrightarrow> \<not> closes_fence m n x \<Longrightarrow>
    bare_signs_replaced (Some (m, n)) r u \<Longrightarrow> bare_signs_replaced (Some (m, n)) (l @ r) (l @ u)"
| fence_closed: "one_line l r \<Longrightarrow> line_body l x \<Longrightarrow> closes_fence m n x \<Longrightarrow>
    bare_signs_replaced None r u \<Longrightarrow> bare_signs_replaced (Some (m, n)) (l @ r) (l @ u)"

subsection \<open>The scanner recognises the tags\<close>

lemma attributes_end_quoted:
  "q \<notin> set v \<Longrightarrow>
   attributes_end (Some q) (v @ q # r) =
   map_option (\<lambda>m. Suc (length v + m)) (attributes_end None r)"
  by (induction v) (auto simp: option.map_comp comp_def)

lemma attributes_end_complete:
  "attributes x \<Longrightarrow> attributes_end None (x @ greater_than # r) = Some (Suc (length x))"
  by (induction x rule: attributes.induct) (auto simp: attributes_end_quoted)

lemma attributes_end_unquote:
  "attributes_end (Some q) s = Some n \<Longrightarrow>
   \<exists>v r m. s = v @ q # r \<and> q \<notin> set v \<and> attributes_end None r = Some m \<and> n = Suc (length v + m)"
proof (induction s arbitrary: n)
  case (Cons c s)
  show ?case
  proof (cases "c = q")
    case True
    with Cons.prems obtain m where "attributes_end None s = Some m" "n = Suc m" by auto
    with True show ?thesis by (intro exI [of _ "[]"] exI [of _ s] exI [of _ m]) simp
  next
    case False
    with Cons.prems obtain k where "attributes_end (Some q) s = Some k" "n = Suc k" by auto
    with Cons.IH False show ?thesis by (metis append_Cons length_Cons set_ConsD add_Suc)
  qed
qed simp

lemma attributes_end_sound:
  "attributes_end None s = Some n \<Longrightarrow> \<exists>x r. s = x @ greater_than # r \<and> attributes x \<and> n = Suc (length x)"
proof (induction s arbitrary: n rule: measure_induct_rule [where f = length])
  case (less s)
  from less.prems obtain c t where s: "s = c # t" by (cases s) auto
  consider "c \<in> {single_quote, double_quote}" | "c = greater_than"
    | "c \<notin> {single_quote, double_quote, less_than, greater_than, newline, carriage_return}"
    using less.prems by (auto simp: s split: if_splits)
  then show ?case
  proof cases
    case 1
    with less.prems obtain k where "attributes_end (Some c) t = Some k" "n = Suc k" by (auto simp: s)
    with attributes_end_unquote obtain v r m where
      v: "t = v @ c # r" "c \<notin> set v" "attributes_end None r = Some m" "n = Suc (Suc (length v + m))"
      by metis
    obtain x r' where "r = x @ greater_than # r'" "attributes x" "m = Suc (length x)"
      using less.IH [OF _ v(3)] v(1) by (auto simp: s)
    with v attribute_quoted [of x c v] 1 show ?thesis
      by (intro exI [of _ "c # v @ c # x"] exI [of _ r']) (auto simp: s)
  next
    case 2
    with less.prems no_attributes show ?thesis by (intro exI [of _ "[]"] exI [of _ t]) (auto simp: s)
  next
    case 3
    with less.prems obtain k where "attributes_end None t = Some k" "n = Suc k" by (auto simp: s)
    moreover from this less.IH [of t k] obtain x r where "t = x @ greater_than # r" "attributes x" "k = Suc (length x)"
      by (auto simp: s)
    ultimately show ?thesis
      using attribute_byte [of x c] 3 by (intro exI [of _ "c # x"] exI [of _ r]) (auto simp: s)
  qed
qed

lemma no_tag_space [simp]: "\<not> tag_space greater_than"
  by (simp add: tag_space_def)

lemma tag_space_iff: "is_html_space c = tag_space c"
  by (auto simp: is_html_space_def tag_space_def)

lemma closing_end_complete: "list_all tag_space sp \<Longrightarrow> closing_end (sp @ greater_than # r) = Some (Suc (length sp))"
  by (induction sp) (auto simp: tag_space_iff)

lemma closing_end_sound:
  "closing_end s = Some n \<Longrightarrow> \<exists>sp r. s = sp @ greater_than # r \<and> list_all tag_space sp \<and> n = Suc (length sp)"
proof (induction s arbitrary: n)
  case (Cons c s)
  show ?case
  proof (cases "tag_space c")
    case True
    with Cons.prems obtain m where m: "closing_end s = Some m" "n = Suc m" by (auto simp: tag_space_iff)
    from Cons.IH [OF m(1)] obtain sp r where "s = sp @ greater_than # r" "list_all tag_space sp" "m = Suc (length sp)"
      by blast
    with True m(2) show ?thesis by (intro exI [of _ "c # sp"] exI [of _ r]) simp
  next
    case False
    with Cons.prems show ?thesis
      by (intro exI [of _ "[]"] exI [of _ s]) (auto simp: tag_space_iff split: if_splits)
  qed
qed simp

text \<open>What follows the name of a tag.\<close>

definition tag_tail :: "bool \<Rightarrow> string \<Rightarrow> bool" where
  "tag_tail closing x \<longleftrightarrow>
     (if closing then \<exists>sp. list_all tag_space sp \<and> x = sp @ [greater_than]
      else x = [greater_than] \<or> x = [slash, greater_than] \<or>
        (\<exists>c y. tag_space c \<and> attributes (c # y) \<and> x = c # y @ [greater_than]))"

lemma html_tag_iff:
  "html_tag t \<longleftrightarrow> (\<exists>nm x. tag_name nm \<and>
     (t = less_than # nm @ x \<and> tag_tail False x \<or> t = less_than # slash # nm @ x \<and> tag_tail True x))"
proof
  assume "html_tag t"
  then show "\<exists>nm x. tag_name nm \<and>
      (t = less_than # nm @ x \<and> tag_tail False x \<or> t = less_than # slash # nm @ x \<and> tag_tail True x)"
  proof cases
    case (plain_tag nm)
    then show ?thesis by (intro exI [of _ nm] exI [of _ "[greater_than]"]) (simp add: tag_tail_def)
  next
    case (empty_tag nm)
    then show ?thesis by (intro exI [of _ nm] exI [of _ "[slash, greater_than]"]) (simp add: tag_tail_def)
  next
    case (tag_with_attributes nm c x)
    then show ?thesis by (intro exI [of _ nm] exI [of _ "c # x @ [greater_than]"]) (auto simp: tag_tail_def)
  next
    case (closing_tag nm sp)
    then show ?thesis by (intro exI [of _ nm] exI [of _ "sp @ [greater_than]"]) (auto simp: tag_tail_def)
  qed
next
  show "\<exists>nm x. tag_name nm \<and> (t = less_than # nm @ x \<and> tag_tail False x \<or>
      t = less_than # slash # nm @ x \<and> tag_tail True x) \<Longrightarrow> html_tag t"
    by (auto simp: tag_tail_def intro: html_tag.intros)
qed

lemma after_name_complete: "tag_tail closing x \<Longrightarrow> after_name closing (x @ r) = Some (length x)"
proof (cases closing)
  case True
  assume "tag_tail closing x"
  with True obtain sp where x: "list_all tag_space sp" "x = sp @ [greater_than]" by (auto simp: tag_tail_def)
  then have "closing_end (x @ r) = Some (length x)" using closing_end_complete [of sp r] by simp
  with x True show ?thesis by (cases sp) (auto simp: after_name_def tag_space_iff)
next
  case False
  assume "tag_tail closing x"
  with False consider "x = [greater_than]" | "x = [slash, greater_than]"
    | c y where "tag_space c" "attributes (c # y)" "x = c # y @ [greater_than]"
    by (auto simp: tag_tail_def)
  then show ?thesis
  proof cases
    case 3
    then have c: "c \<noteq> greater_than" "c \<noteq> slash" by (auto simp: tag_space_def)
    have "attributes_end None (x @ r) = Some (length x)"
      using attributes_end_complete [OF 3(2), of r] by (simp add: 3(3))
    then show ?thesis
      using after_name_tail [of c False "y @ greater_than # r"] c 3(1) False by (simp add: 3(3) tag_space_iff)
  qed (simp_all add: after_name_def False)
qed

lemma after_name_sound:
  assumes "after_name closing s = Some n"
  shows "\<exists>x r. s = x @ r \<and> n = length x \<and> tag_tail closing x"
proof -
  obtain c r where s: "s = c # r" using assms by (cases s) (auto simp: after_name_def)
  consider "c = greater_than"
    | "c \<noteq> greater_than" "\<not> closing \<and> c = slash \<and> r \<noteq> [] \<and> hd r = greater_than"
    | "c \<noteq> greater_than" "\<not> (\<not> closing \<and> c = slash \<and> r \<noteq> [] \<and> hd r = greater_than)"
    by blast
  then show ?thesis
  proof cases
    case 1
    with assms show ?thesis
      by (intro exI [of _ "[greater_than]"] exI [of _ r]) (auto simp: after_name_def s tag_tail_def intro: exI [of _ "[]"])
  next
    case 2
    with assms show ?thesis
      by (intro exI [of _ "[slash, greater_than]"] exI [of _ "tl r"]) (cases r; auto simp: after_name_def s tag_tail_def)
  next
    case 3
    have eq: "after_name closing s =
        (if is_html_space c then if closing then closing_end s else attributes_end None s else None)"
      unfolding s by (rule after_name_tail [OF 3])
    with assms have space: "tag_space c" by (auto simp: tag_space_iff split: if_splits)
    show ?thesis
    proof (cases closing)
      case True
      with eq assms space have "closing_end s = Some n" by (simp add: tag_space_iff)
      then obtain sp r' where "s = sp @ greater_than # r'" "list_all tag_space sp" "n = Suc (length sp)"
        using closing_end_sound by blast
      with True show ?thesis
        by (intro exI [of _ "sp @ [greater_than]"] exI [of _ r']) (auto simp: tag_tail_def)
    next
      case False
      with eq assms space have "attributes_end None s = Some n" by (simp add: tag_space_iff)
      then obtain y r' where y: "s = y @ greater_than # r'" "attributes y" "n = Suc (length y)"
        using attributes_end_sound by blast
      with s 3(1) obtain z where "y = c # z" by (cases y) auto
      with y space False show ?thesis
        by (intro exI [of _ "y @ [greater_than]"] exI [of _ r']) (auto simp: tag_tail_def)
    qed
  qed
qed

lemma tag_name_letters:
  assumes "tag_name nm"
  shows "nm \<noteq> []" and "list_all is_ascii_letter nm" and "ascii_lower nm \<in> set allowed_html_tags"
proof -
  have "list_all is_lower_letter (ascii_lower nm)" and ne: "ascii_lower nm \<noteq> []"
    using assms by (auto simp: tag_name_def is_lower_letter_def)
  then show "list_all is_ascii_letter nm"
    by (auto simp: list_all_iff ascii_lower_def ascii_lower_byte_def is_ascii_letter_def split: if_splits)
  show "nm \<noteq> []" using ne by (auto simp: ascii_lower_def)
  show "ascii_lower nm \<in> set allowed_html_tags" using assms by (simp add: tag_name_def allowed_html_tags_def)
qed

lemma name_and_rest_complete:
  assumes "tag_name nm" and "tag_tail closing x"
  shows "name_and_rest closing (nm @ x @ r) = Some (length nm + length x)"
proof -
  obtain h nm' where nm: "nm = h # nm'" using tag_name_letters(1) [OF assms(1)] by (cases nm) auto
  obtain c y where x: "x = c # y" using assms(2) by (cases x) (auto simp: tag_tail_def split: if_splits)
  have "c = greater_than \<or> c = slash \<or> tag_space c"
    using assms(2) by (auto simp: tag_tail_def x Cons_eq_append_conv split: if_splits)
  then have "\<not> is_html_name_byte c"
    by (auto simp: is_html_name_byte_def is_ascii_letter_def is_lower_letter_def is_upper_letter_def is_digit_def tag_space_def)
  moreover have "list_all is_html_name_byte nm'" "is_ascii_letter h"
    using tag_name_letters(2) [OF assms(1)] by (auto simp: nm list_all_iff is_html_name_byte_def)
  ultimately show ?thesis
    using name_and_rest_simps [of h nm' c closing "y @ r"] tag_name_letters(3) [OF assms(1)]
      after_name_complete [OF assms(2), of r]
    by (simp add: nm x)
qed

lemma name_and_rest_sound:
  assumes "name_and_rest closing s = Some n"
  shows "\<exists>nm x r. s = nm @ x @ r \<and> n = length nm + length x \<and> tag_name nm \<and> tag_tail closing x"
proof -
  obtain h nm c r m where s: "s = h # nm @ c # r" "ascii_lower (h # nm) \<in> set allowed_html_tags"
    "after_name closing (c # r) = Some m" "n = Suc (length nm) + m"
    using assms by (rule name_and_restE)
  from after_name_sound [OF s(3)] obtain x r' where "c # r = x @ r'" "m = length x" "tag_tail closing x" by blast
  with s show ?thesis
    by (intro exI [of _ "h # nm"] exI [of _ x] exI [of _ r']) (auto simp: tag_name_def allowed_html_tags_def)
qed

lemma html_tag_end_complete: "html_tag t \<Longrightarrow> html_tag_end (t @ r) = Some (length t)"
proof -
  assume "html_tag t"
  then obtain nm x where tag: "tag_name nm" and t: "t = less_than # nm @ x \<and> tag_tail False x \<or>
      t = less_than # slash # nm @ x \<and> tag_tail True x"
    by (auto simp: html_tag_iff)
  have "nm \<noteq> [] \<and> hd nm \<noteq> slash"
    using tag_name_letters(1,2) [OF tag]
    by (cases nm) (auto simp: is_ascii_letter_def is_lower_letter_def is_upper_letter_def)
  with t show ?thesis
    using name_and_rest_complete [OF tag, of _ x r] by (auto simp: html_tag_end_def)
qed

lemma html_tag_end_sound:
  assumes "html_tag_end (less_than # r) = Some n"
  shows "html_tag (take n (less_than # r))"
proof (cases "r \<noteq> [] \<and> hd r = slash")
  case True
  then obtain r' where r: "r = slash # r'" by (cases r) auto
  with assms obtain m where m: "name_and_rest True r' = Some m" "n = Suc (Suc m)"
    by (auto simp: html_tag_end_def)
  from name_and_rest_sound [OF m(1)] obtain nm x r'' where
    "r' = nm @ x @ r''" "m = length nm + length x" "tag_name nm" "tag_tail True x" by blast
  then show ?thesis
    unfolding html_tag_iff by (intro exI [of _ nm] exI [of _ x]) (simp add: m(2) r)
next
  case False
  with assms obtain m where m: "name_and_rest False r = Some m" "n = Suc m"
    by (auto simp: html_tag_end_def)
  from name_and_rest_sound [OF m(1)] obtain nm x r'' where
    "r = nm @ x @ r''" "m = length nm + length x" "tag_name nm" "tag_tail False x" by blast
  then show ?thesis
    unfolding html_tag_iff by (intro exI [of _ nm] exI [of _ x]) (simp add: m(2))
qed

lemma no_tag: "html_tag_end (less_than # r) = None \<longleftrightarrow> (\<nexists>t r'. html_tag t \<and> less_than # r = t @ r')"
proof
  assume "html_tag_end (less_than # r) = None"
  then show "\<nexists>t r'. html_tag t \<and> less_than # r = t @ r'" using html_tag_end_complete by (metis option.distinct(1))
next
  assume none: "\<nexists>t r'. html_tag t \<and> less_than # r = t @ r'"
  show "html_tag_end (less_than # r) = None"
  proof (cases "html_tag_end (less_than # r)")
    case (Some n)
    from html_tag_end_sound [OF this] none show ?thesis by (metis append_take_drop_id)
  qed
qed

subsection \<open>The loops compute the text\<close>

lemma signs_replaced_iff: "signs_replaced line u \<longleftrightarrow> u = normalize_line line"
proof
  show "signs_replaced line u \<Longrightarrow> u = normalize_line line"
  proof (induction rule: signs_replaced.induct)
    case (tag_kept t r u)
    then obtain t' where t: "t = less_than # t'" by (auto simp: html_tag_iff)
    from html_tag_end_complete [OF tag_kept(1), of r] tag_kept(3) show ?case
      using normalize_line_tag [of "t' @ r" "length t"] by (simp add: t)
  next
    case (bare_sign r u)
    then show ?case using no_tag [of r] by (simp add: normalize_line_bare full_width_less_than_def)
  qed simp_all
  have "signs_replaced line (normalize_line line)"
  proof (induction line rule: normalize_line_induct)
    case (bare r)
    then show ?case
      using bare_sign [of r "normalize_line r"] no_tag [of r] by (simp add: normalize_line_bare full_width_less_than_def)
  next
    case (tag r n)
    from tag_kept [OF html_tag_end_sound [OF tag(1)] tag(3)] show ?case
      by (simp only: normalize_line_tag [OF tag(1)] append_take_drop_id)
  qed (simp_all add: signs_replaced.intros)
  then show "u = normalize_line line \<Longrightarrow> signs_replaced line u" by simp
qed

lemma one_line_first: "one_line l r \<Longrightarrow> first_line (l @ r) = l"
proof -
  assume one: "one_line l r"
  then obtain x c where l: "l = x @ [c]" by (metis one_line_def append_butlast_last_id)
  show ?thesis
  proof (cases "c = newline")
    case True
    with one first_line_fed [of x r] show ?thesis by (simp add: one_line_def l)
  next
    case False
    with one first_line_all [of l] show ?thesis by (simp add: one_line_def l)
  qed
qed

lemma first_line_one: "s \<noteq> [] \<Longrightarrow> one_line (first_line s) (drop (length (first_line s)) s)"
  by (cases s rule: first_lineE) (auto simp: one_line_def dest: in_set_butlastD)

lemma line_body_iff: "line_body l x \<longleftrightarrow> x = fence_line l"
proof -
  have "fence_line l = x" if body: "line_body l x" for x
  proof -
    from body obtain e where e: "e \<in> line_endings" "l = x @ e"
      and longest: "\<And>e' x'. e' \<in> line_endings \<Longrightarrow> l = x' @ e' \<Longrightarrow> length e' \<le> length e"
      unfolding line_body_def by blast
    have no_end: "x = [] \<or> last x \<noteq> c" if "e = []" "[c] \<in> line_endings" for c
      using longest [of "[c]" "butlast x"] that e(2) by (cases x rule: rev_cases) auto
    have no_return: "x = [] \<or> last x \<noteq> carriage_return" if "e = [newline]"
      using longest [of "[carriage_return, newline]" "butlast x"] that e(2)
      by (cases x rule: rev_cases) (auto simp: line_endings_def)
    from e(1) consider "e = []" | "e = [newline]" | "e = [carriage_return]" | "e = [carriage_return, newline]"
      by (auto simp: line_endings_def)
    then show ?thesis
    proof cases
      case 1
      then show ?thesis
        using no_end [of newline] no_end [of carriage_return] e(2)
        by (simp add: fence_line_def line_endings_def trim_suffix_other)
    next
      case 2
      then show ?thesis using no_return e(2) by (simp add: fence_line_def trim_suffix_other)
    next
      case 3
      then show ?thesis using e(2) by (simp add: fence_line_def trim_suffix_other [of "x @ [carriage_return]" newline])
    next
      case 4
      then show ?thesis
        using e(2) trim_suffix_snoc [of "x @ [carriage_return]" newline] by (simp add: fence_line_def)
    qed
  qed
  moreover have "\<exists>x. line_body l x"
  proof -
    consider x where "l = x @ [carriage_return, newline]"
      | x e where "e \<in> {[newline], [carriage_return]}" "l = x @ e" "\<nexists>x. l = x @ [carriage_return, newline]"
      | "\<nexists>x e. e \<in> {[newline], [carriage_return], [carriage_return, newline]} \<and> l = x @ e"
      by blast
    then show ?thesis
    proof cases
      case 1
      then show ?thesis
        unfolding line_body_def line_endings_def by (intro exI [of _ x] bexI [of _ "[carriage_return, newline]"]) auto
    next
      case 2
      then show ?thesis
        unfolding line_body_def line_endings_def by (intro exI [of _ x] bexI [of _ e]) auto
    next
      case 3
      then show ?thesis
        unfolding line_body_def line_endings_def by (intro exI [of _ l] bexI [of _ "[]"]) auto
    qed
  qed
  ultimately show ?thesis by blast
qed

text \<open>The scan for a fence.\<close>

lemma takeWhile_replicate: "takeWhile P (replicate n c @ s) = (if P c then replicate n c @ takeWhile P s else if n = 0 then takeWhile P s else [])"
  by (induction n) auto

lemma takeWhile_replicated: "takeWhile (\<lambda>x. x = c) s = replicate (length (takeWhile (\<lambda>x. x = c) s)) c"
  by (induction s) auto

lemma fence_mark_run: "fence_mark m n rest x \<Longrightarrow> fence_run x = Some (m, n, rest)"
proof -
  assume "fence_mark m n rest x"
  then obtain i where i: "i \<le> 3" and x: "x = replicate i blank @ replicate n m @ rest"
    and m: "m = CHR 0x60 \<or> m = CHR ''~''" and n: "3 \<le> n" and rest: "rest = [] \<or> hd rest \<noteq> m"
    by (auto simp: fence_mark_def)
  obtain k where k: "n = Suc k" using n by (cases n) auto
  obtain j where j: "4 - i = Suc j" using i by (cases "4 - i") auto
  have front: "takeWhile (\<lambda>c. c = blank) (take 4 x) = replicate i blank"
    using i m by (auto simp: x k j takeWhile_replicate min_def)
  have "takeWhile (\<lambda>c. c = m) rest = []" using rest by (cases rest) auto
  then have "takeWhile (\<lambda>c. c = m) (drop i x) = replicate n m" by (simp add: x takeWhile_replicate)
  moreover have "x ! i = m" by (simp add: x k nth_append)
  ultimately show ?thesis
    unfolding fence_run_def Let_def front using i m n by (simp add: x)
qed

lemma fence_run_mark: "fence_run x = Some (m, n, rest) \<Longrightarrow> fence_mark m n rest x"
proof -
  assume run: "fence_run x = Some (m, n, rest)"
  define i where "i = length (takeWhile (\<lambda>c. c = blank) (take 4 x))"
  have i: "i \<le> 3" "i < length x" "m = x ! i" "m \<in> {CHR 0x60, CHR ''~''}" "3 \<le> n" "rest = drop (i + n) x"
    and n: "n = length (takeWhile (\<lambda>c. c = m) (drop i x))"
    using run by (auto simp: fence_run_def Let_def i_def [symmetric] split: if_splits)
  have "takeWhile (\<lambda>c. c = blank) (take 4 x) = take i (take 4 x)"
    unfolding i_def by (metis takeWhile_eq_take)
  then have "take i x = replicate i blank"
    using takeWhile_replicated [of blank "take 4 x"] i(1,2) by (simp add: i_def [symmetric] min_def)
  then have x: "x = replicate i blank @ drop i x" by (metis append_take_drop_id)
  have drop: "drop i x = replicate n m @ dropWhile (\<lambda>c. c = m) (drop i x)"
    using takeWhile_replicated [of m "drop i x"] n takeWhile_dropWhile_id [of "\<lambda>c. c = m" "drop i x"] by metis
  have rest: "rest = dropWhile (\<lambda>c. c = m) (drop i x)"
    unfolding i(6) dropWhile_eq_drop n by (simp add: add.commute)
  then have "rest = [] \<or> hd rest \<noteq> m" using hd_dropWhile [of "\<lambda>c. c = m" "drop i x"] by auto
  moreover have "x = replicate i blank @ replicate n m @ rest" using x drop rest by metis
  ultimately show ?thesis using i(1,4,5) unfolding fence_mark_def by blast
qed

lemma fence_run_iff: "fence_run x = Some (m, n, rest) \<longleftrightarrow> fence_mark m n rest x"
  using fence_mark_run fence_run_mark by blast

lemma opening_fence_iff: "opening_fence x = Some (m, n) \<longleftrightarrow> opens_fence m n x"
  by (auto simp: opening_fence_def opens_fence_def fence_run_iff [symmetric] split: option.splits if_splits)

lemma strings_trim_empty: "strings_trim cs s = [] \<longleftrightarrow> set s \<subseteq> set cs"
proof -
  have "(\<forall>c\<in>set (dropWhile P s). P c) \<longleftrightarrow> (\<forall>c\<in>set s. P c)" for P :: "char \<Rightarrow> bool"
    by (induction s) auto
  then show ?thesis unfolding strings_trim_def by (auto simp: subset_iff)
qed

lemma is_closing_fence_iff: "is_closing_fence x m n \<longleftrightarrow> closes_fence m n x"
  by (auto simp: is_closing_fence_def closes_fence_def fence_run_iff [symmetric] strings_trim_empty split: option.splits)

lemma no_opening_fence: "opening_fence x = None \<longleftrightarrow> (\<nexists>m n. opens_fence m n x)"
  by (cases "opening_fence x") (auto simp: opening_fence_iff [symmetric])

text \<open>The relation allows exactly one text, and the code writes it.\<close>

lemma bare_signs_replaced_only: "bare_signs_replaced fence s u \<Longrightarrow> u = normalize_lines fence s"
proof (induction rule: bare_signs_replaced.induct)
  case (open_line l r x v u)
  then have "line_step None l = (v, None)"
    by (simp add: line_step_def line_body_iff signs_replaced_iff no_opening_fence [THEN iffD2])
  with open_line one_line_first [of l r] show ?case
    using normalize_lines_step [of "l @ r" None v None] by (simp add: one_line_def)
next
  case (fence_opened l r x m n u)
  then have "line_step None l = (l, Some (m, n))"
    by (simp add: line_step_def line_body_iff opening_fence_iff [symmetric])
  with fence_opened one_line_first [of l r] show ?case
    using normalize_lines_step [of "l @ r" None l "Some (m, n)"] by (simp add: one_line_def)
next
  case (fenced_line l r x m n u)
  then have "line_step (Some (m, n)) l = (l, Some (m, n))"
    by (simp add: line_step_def line_body_iff is_closing_fence_iff)
  with fenced_line one_line_first [of l r] show ?case
    using normalize_lines_step [of "l @ r" "Some (m, n)" l "Some (m, n)"] by (simp add: one_line_def)
next
  case (fence_closed l r x m n u)
  then have "line_step (Some (m, n)) l = (l, None)"
    by (simp add: line_step_def line_body_iff is_closing_fence_iff)
  with fence_closed one_line_first [of l r] show ?case
    using normalize_lines_step [of "l @ r" "Some (m, n)" l None] by (simp add: one_line_def)
qed simp

lemma bare_signs_replaced_step:
  assumes "one_line l r" and "line_step fence l = (out, fence')" and "bare_signs_replaced fence' r u"
  shows "bare_signs_replaced fence (l @ r) (out @ u)"
proof -
  have body: "line_body l (fence_line l)" by (simp add: line_body_iff)
  show ?thesis
  proof (cases fence)
    case None
    show ?thesis
    proof (cases "opening_fence (fence_line l)")
      case None
      with assms \<open>fence = None\<close> show ?thesis
        by (auto simp: line_step_def no_opening_fence signs_replaced_iff intro!: open_line [OF assms(1) body])
    next
      case (Some f)
      obtain m n where f: "f = (m, n)" by (cases f)
      with Some have "opens_fence m n (fence_line l)" by (simp add: opening_fence_iff)
      from fence_opened [OF assms(1) body this] assms(2,3) None Some f show ?thesis by (auto simp: line_step_def)
    qed
  next
    case (Some f)
    obtain m n where f: "fence = Some (m, n)" using Some by (cases f) simp
    show ?thesis
    proof (cases "closes_fence m n (fence_line l)")
      case True
      from fence_closed [OF assms(1) body this] assms(2,3) f True show ?thesis
        by (auto simp: line_step_def is_closing_fence_iff)
    next
      case False
      from fenced_line [OF assms(1) body this] assms(2,3) f False show ?thesis
        by (auto simp: line_step_def is_closing_fence_iff)
    qed
  qed
qed

lemma normalize_lines_replaced: "bare_signs_replaced fence s (normalize_lines fence s)"
proof (induction fence s rule: normalize_lines.induct)
  case (1 fence s)
  show ?case
  proof (cases "s = []")
    case False
    obtain out fence' where step: "line_step fence (first_line s) = (out, fence')" by fastforce
    have "first_line s @ drop (length (first_line s)) s = s" by (cases s rule: first_lineE) simp_all
    with bare_signs_replaced_step [OF first_line_one [OF False] step 1 [OF False refl step [symmetric] refl]]
    show ?thesis by (simp add: normalize_lines_step [OF False step])
  qed (simp add: text_end)
qed

lemma normalized_text: "bare_signs_replaced None s u \<longleftrightarrow> u = normalize_bare_less_than s"
  using bare_signs_replaced_only normalize_lines_replaced by (auto simp: normalize_bare_less_than_lines)

subsection \<open>Properties\<close>

text \<open>C29: normalising replaces the bare less-than signs outside fenced code and changes nothing else.
  The result is the one text that \<open>bare_signs_replaced\<close> allows: the lines that open a fence, those
  within it and the one that closes it stay as they are, byte for byte; in every other line the
  known tags and all other bytes stay and each sign that starts no tag becomes the full-width one.
  So no bare sign is left: in a line of the result that is in no fenced block, each less-than sign
  starts a known tag or is part of one; normalising the result again changes nothing; and the
  result reads the same as the original when the full-width sign is taken for the plain one.\<close>

theorem normalize_no_bare_sign:
  "(\<forall>u. bare_signs_replaced None s u \<longleftrightarrow> u = normalize_bare_less_than s) \<and>
   list_all bare_free (open_lines None (normalize_bare_less_than s)) \<and>
   open_lines None (normalize_bare_less_than s) = map normalize_line (open_lines None s) \<and>
   normalize_bare_less_than (normalize_bare_less_than s) = normalize_bare_less_than s \<and>
   plain_sign (normalize_bare_less_than s) = plain_sign s"
  using plain_sign_lines [of "[]"] normalized_text [of s]
  by (simp add: normalize_bare_less_than_lines normalize_lines_idem open_lines_normalize
      list_all_iff bare_free_normalize_line)

end
