(* ===== verification/Spec2Isabelle.thy ===== *)
theory Spec2Isabelle
  imports SessionSteps DispatchProps Content Protocol RedactProps RedactDocument Logging PollProps Strip Slash ItemGraph WireText
    Registration Thumb MarkdownSpec
begin

text \<open>
  A verification library for \<open>wechatbot-go\<close>, a bot framework for the WeChat iLink service.

  \<^bold>\<open>The program.\<close>  A bot logs in with a QR code (\<open>internal/auth\<close>), keeps its
  credentials, cursor, context tokens and replay window in JSON files (\<open>internal/store\<close>,
  \<open>internal/persist\<close>), polls the service for batches of messages (\<open>run.go\<close> over
  \<open>internal/protocol\<close>) and hands each message to the user's handler through a dispatcher
  that keeps the order inside a conversation and runs conversations in parallel
  (\<open>dispatcher.go\<close>).  A handler answers with text, which is normalised and cut into pieces,
  and with media, which is encrypted and uploaded to a CDN (\<open>content.go\<close>, \<open>outbound.go\<close>,
  \<open>media.go\<close>).  When the service rejects the token, the session is closed, a marker file is
  written, and only a login with another token opens it again (\<open>reauth.go\<close>, \<open>login.go\<close>).
  What reaches a log goes through a redaction (\<open>internal/redact\<close>, \<open>log\<close>).

  \<^bold>\<open>Theories and code.\<close>

  \<^item> \<open>Prelude\<close>: lists, options and maps, the collections of facts, and the locales of
    invariants over steps.  \<open>Utf8\<close>: strings as bytes and the decoding of runes.
    \<open>GoText\<close>: the functions of \<open>strings\<close> and \<open>strconv\<close> the program calls.
  \<^item> \<open>GoErrors\<close> (\<open>errors.go\<close>, parts of \<open>reauth.go\<close>): error values as trees, with
    \<open>errors.Is\<close>, \<open>As\<close> and \<open>Join\<close>.
  \<^item> \<open>Json\<close>, \<open>JsonText\<close>, \<open>JsonRoundTrip\<close>: documents, their text, the decoder and the
    encoder of \<open>encoding/json\<close> as the program uses them; a printed document is read back.
  \<^item> \<open>Persist\<close>, \<open>Paths\<close>, \<open>Durable\<close>, \<open>ContextCursor\<close>, \<open>ReplayStore\<close>, \<open>ReauthStore\<close>
    (\<open>internal/persist\<close>, \<open>internal/store\<close>): a file system whose calls may fail and that
    records every intermediate state, the atomic write, and the four stores.  \<open>Durable\<close> is the
    locale of a store that is a cache of its file, interpreted for each of them.
  \<^item> \<open>AuthLogin\<close> (\<open>internal/auth\<close>): credentials and the login loop.
  \<^item> \<open>Session\<close>, \<open>Login\<close>, \<open>SessionFrame\<close>, \<open>SessionProps\<close>, \<open>SessionSteps\<close> (\<open>bot.go\<close>,
    \<open>session.go\<close>, \<open>reauth.go\<close>, \<open>login.go\<close>): the session state machine, what each operation
    writes, and its interleavings.
  \<^item> \<open>Message\<close>, \<open>Handler\<close>, \<open>Delivery\<close> (\<open>types.go\<close>, \<open>message.go\<close>, \<open>handler.go\<close>,
    \<open>hooks.go\<close>, \<open>run.go\<close>): wire messages, their parsing and identities, middleware, hooks,
    and the delivery of one message.  \<open>Registration\<close>: how handlers, middleware and hooks are set.
  \<^item> \<open>Dispatcher\<close>, \<open>DispatchInv\<close>, \<open>DispatchOrder\<close>, \<open>DispatchProps\<close> (\<open>dispatcher.go\<close>): the
    goroutines of the dispatcher as a transition system, its invariants and properties.
  \<^item> \<open>WireJson\<close> (the field tags of \<open>types.go\<close>): the wire types as JSON, with the decoder that
    \<open>run.go\<close> applies to a raw message and the payload of a sent one.  \<open>WireText\<close>: the locale of
    codecs, interpreted for these types, and the type of what is decoded from any text.
  \<^item> \<open>PollLoop\<close>, \<open>PollProps\<close> (\<open>run.go\<close>): a turn of the poll loop, and the loop, its queue
    and the dispatcher together.
  \<^item> \<open>Slash\<close> (\<open>slash.go\<close>): the registry of slash commands.
  \<^item> \<open>ItemGraph\<close> (\<open>outbound.go\<close>): the copy of a message's items in memory, over an explicit heap.
  \<^item> \<open>Chunk\<close>, \<open>Markdown\<close>, \<open>Strip\<close>, \<open>Aes\<close>, \<open>Crypto\<close>, \<open>ConfigCache\<close>, \<open>Outbound\<close>, \<open>Media\<close>,
    \<open>Content\<close> (\<open>content.go\<close>, \<open>internal/markdown\<close>, \<open>internal/crypto\<close>,
    \<open>internal/config\<close>, \<open>outbound.go\<close>, \<open>media.go\<close>, \<open>internal/remote\<close>): what is sent.
    \<open>MarkdownSpec\<close> specifies the treatment of less-than signs independently of its code.
  \<^item> \<open>Thumb\<close> (\<open>internal/thumb\<close>): thumbnails, with the floating-point numbers of their size.
  \<^item> \<open>Protocol\<close>, \<open>BotAgent\<close> (\<open>internal/protocol\<close>): the requests of the client, its error
    messages, the names and versions it announces.
  \<^item> \<open>Redact\<close>, \<open>RedactProps\<close>, \<open>RedactError\<close>, \<open>RedactDocument\<close> (\<open>internal/redact\<close>) and
    \<open>Logging\<close> (\<open>log\<close>, \<open>logging.go\<close>): redaction and the log entries that use it.

  \<^bold>\<open>How code is modelled.\<close>  A struct is a record, an error a value of \<open>goerr\<close> or of a sum; a
  string is a list of bytes; 64- and 32-bit integers are words where they can wrap.  A function
  with effects takes and returns the state it changes: the bot, the world (the files), or both.
  What runs under a mutex is one function, and concurrency is a step relation over these
  functions, so that a theorem over its runs is one over all interleavings.  Go's clock,
  random numbers, the HTTP exchange and user callbacks are arguments or relations.  The
  library's \<open>net/url\<close>, its image codecs, its case folding outside ASCII, its tables of printable
  runes and its status texts are arguments as well; everything else of the library the code uses is modelled,
  with AES, base64, hexadecimal, UTF-8, JSON, the regular expressions, \<open>strconv\<close>, \<open>filepath\<close> and the
  rounding of \<open>float64\<close> written out.

  \<^bold>\<open>What the lemmas show.\<close>  For the stores: an acknowledged change survives any crash, an
  unacknowledged one leaves the old file or the new, never a mixture.  For the session: the
  fields change together, a generation identifies its credentials, a rejected token is never
  installed again, also after a restart, and a marker goes last.  For the dispatcher and the
  poll loop: order inside a conversation, no deadlock, termination of a drain, bounds of the
  semaphores, and a cursor that passes nothing that was not handled.  For what is sent: nothing
  of a text is lost, media comes back as it was, requests carry the session they were made for.
  For what is logged: it does not depend on the secrets.

  \<^bold>\<open>Bounds and fuel.\<close>  \<open>parse_value\<close> of \<open>JsonText\<close> has fuel of twice the text's length
  plus two, and each of its calls consumes a byte or ends a list; Go's limit of 10000 levels is
  a bound of its own.  \<open>prepare_item\<close> has fuel for every item in memory, and \<open>item_prepared\<close>
  shows that it is enough on every graph.  The AES rounds are computed for 128-bit keys.  All other loops are
  structural or have a measure.

  \<^bold>\<open>Not modelled.\<close>  The programs in \<open>examples\<close>, which only call the library; file permissions,
  power loss between \<open>write\<close> and \<open>fsync\<close>; the text of messages printed to the terminal.  The
  content of an image is that of the codecs: only the size of a thumbnail is a theorem.
\<close>

section \<open>From the service to the handler\<close>

text \<open>C2: no message is lost between the service and the handler.  When the service answers each
  poll with wire messages in JSON, then in every reachable state of the poll loop, its queue and
  the dispatcher there is a number \<open>k\<close> of batches such that the cursor file holds the cursor
  after \<open>k\<close> of the batches the loop has got, and each of these is the service's answer to the
  cursor of the batches before it: exactly its messages, in their order, were handed to the
  handler, and all were handled with success.  So a restart, which polls from the cursor file,
  asks again for everything else.\<close>

theorem messages_delivered:
  assumes "pipeline_run E answers decode_wire_message generation (new_pipeline n b w) p" and "cursor_synced E b w"
    and "\<forall>c r. answers c r \<longrightarrow> (\<exists>ms. gu_msgs r = map enc_wire ms \<and> list_all wire_ok ms)"
  defines "c i \<equiv> cursor_after (cursor_get (b_cursor_store b)) (take i (pp_asked p))"
  shows "\<exists>k\<le>length (pp_asked p).
    read_cursor (snd (cursor_view E (d_bot (pp_dispatcher p)) (d_world (pp_dispatcher p)))) = Some (c k) \<and>
    (\<forall>i<k. \<exists>r ms. answers (c i) r \<and> gu_msgs r = map enc_wire ms \<and> list_all wire_ok ms \<and>
       pp_asked p ! i = answer_batch decode_wire_message generation (c i) r \<and>
       map tk_wire (filter (\<lambda>t. tk_batch t = i) (d_tasks (pp_dispatcher p))) = ms \<and>
       list_all (\<lambda>t. tk_result t = Some None) (filter (\<lambda>t. tk_batch t = i) (d_tasks (pp_dispatcher p))))"
proof -
  let ?tasks = "\<lambda>i. filter (\<lambda>t. tk_batch t = i) (d_tasks (pp_dispatcher p))"
  from pipeline_no_loss [OF assms(1,2)] obtain k where k: "k \<le> length (pp_asked p)"
    "read_cursor (snd (cursor_view E (d_bot (pp_dispatcher p)) (d_world (pp_dispatcher p)))) = Some (c k)"
    and each: "\<And>i. i < k \<Longrightarrow> \<exists>r. answers (c i) r \<and> pp_asked p ! i = answer_batch decode_wire_message generation (c i) r \<and>
       map decode_wire_message (gu_msgs r) = map (\<lambda>t. Inr (tk_wire t)) (?tasks i) \<and>
       list_all (\<lambda>t. tk_result t = Some None) (?tasks i)"
    unfolding c_def by blast
  have "\<exists>r ms. answers (c i) r \<and> gu_msgs r = map enc_wire ms \<and> list_all wire_ok ms \<and>
       pp_asked p ! i = answer_batch decode_wire_message generation (c i) r \<and>
       map tk_wire (?tasks i) = ms \<and> list_all (\<lambda>t. tk_result t = Some None) (?tasks i)" if "i < k" for i
  proof -
    from each [OF that] obtain r where r: "answers (c i) r" "pp_asked p ! i = answer_batch decode_wire_message generation (c i) r"
      "map decode_wire_message (gu_msgs r) = map (\<lambda>t. Inr (tk_wire t)) (?tasks i)"
      "list_all (\<lambda>t. tk_result t = Some None) (?tasks i)" by blast
    from assms(3) r(1) obtain ms where ms: "gu_msgs r = map enc_wire ms" "list_all wire_ok ms" by blast
    have "map decode_wire_message (map enc_wire ms) = map Inr (map tk_wire (?tasks i))"
      using r(3) by (simp add: ms(1) comp_def)
    with ms(2) have "map tk_wire (?tasks i) = ms" by (rule wire_codec.read_only)
    with r ms show ?thesis by blast
  qed
  with k show ?thesis by blast
qed

theorem messages_delivered_witness:
  "read_cursor (snd (cursor_view sample_hash_env (d_bot sample_e2) (d_world sample_e2))) = Some ''k'' \<and>
   map tk_wire (filter (\<lambda>t. tk_batch t = 0) (d_tasks sample_e2)) = [sample_file_message, sample_file_message] \<and>
   list_all (\<lambda>t. tk_result t = Some None) (filter (\<lambda>t. tk_batch t = 0) (d_tasks sample_e2))"
proof -
  have p: "pp_dispatcher (sample_pipeline d) = d" "pp_asked (sample_pipeline d) = [sample_batch]" for d
    by (simp_all add: sample_pipeline_def)
  have c: "cursor_get (b_cursor_store sample_bot) = []" by code_simp
  have disk: "read_cursor (snd (cursor_view sample_hash_env (d_bot sample_e2) (d_world sample_e2))) = Some ''k''"
    by code_simp
  have msgs: "gu_msgs sample_answer = map enc_wire [sample_file_message, sample_file_message]"
    by (simp add: sample_answer_def)
  have "\<exists>ms. gu_msgs sample_answer = map enc_wire ms \<and> list_all wire_ok ms"
    using msgs sample_wire_ok by (intro exI [of _ "[sample_file_message, sample_file_message]"]) simp
  then have served: "\<forall>c r. c = [] \<and> r = sample_answer \<longrightarrow> (\<exists>ms. gu_msgs r = map enc_wire ms \<and> list_all wire_ok ms)"
    by blast
  obtain k where k: "k \<le> 1" "Some ''k'' = Some (cursor_after [] (take k [sample_batch]))"
    "\<forall>i<k. \<exists>r ms. r = sample_answer \<and> gu_msgs r = map enc_wire ms \<and> list_all wire_ok ms \<and>
       map tk_wire (filter (\<lambda>t. tk_batch t = i) (d_tasks sample_e2)) = ms \<and>
       list_all (\<lambda>t. tk_result t = Some None) (filter (\<lambda>t. tk_batch t = i) (d_tasks sample_e2))"
    using messages_delivered [OF sample_pipeline_handled sample_cursor_synced served] unfolding p c disk by auto
  then have "k = 1" by (cases k) (auto simp: cursor_after_def)
  with k(3) obtain ms where ms: "gu_msgs sample_answer = map enc_wire ms" "list_all wire_ok ms"
    "map tk_wire (filter (\<lambda>t. tk_batch t = 0) (d_tasks sample_e2)) = ms"
    "list_all (\<lambda>t. tk_result t = Some None) (filter (\<lambda>t. tk_batch t = 0) (d_tasks sample_e2))" by blast
  have "map decode_wire_message (map enc_wire ms) = map Inr [sample_file_message, sample_file_message]"
    unfolding ms(1) [symmetric] msgs by (simp add: sample_file_decoded)
  with ms(2) have "[sample_file_message, sample_file_message] = ms" by (rule wire_codec.read_only)
  with disk ms(3,4) show ?thesis by simp
qed

end
